(* ===== verification/Prelude.thy ===== *)
theory Prelude
  imports Complex_Main "HOL-Library.Word" "HOL-Library.Finite_Map" "HOL-Library.Char_ord"
    "HOL-Library.List_Lexorder"
begin

text \<open>
  What every component of the model shares: names for the machine types of Go, the byte-string
  functions of the \<open>strings\<close> and \<open>strconv\<close> packages that the repository calls, and the generic
  lemmas about them.  A Go \<open>string\<close> and a Go \<open>[]byte\<close> are both lists of bytes, and an Isabelle
  \<^typ>\<open>char\<close> is exactly one byte, so both are modelled by \<^typ>\<open>string\<close>.  \<open>strings.TrimSpace\<close> knows
  the Unicode white space by its UTF-8 encodings; \<open>strings.ToLower\<close> is modelled on ASCII, and leaves
  bytes above 127 as they are.
\<close>

named_theorems path_laws \<open>laws of the nested-map paths under an entry field\<close>
named_theorems op_defs \<open>definitions of operator processing, unfolded together\<close>

type_synonym i64 = "64 word"
type_synonym u64 = "64 word"
type_synonym 'a gomap = "(string, 'a) fmap"

abbreviation LF :: char where "LF \<equiv> CHR 0x0A"
abbreviation CR :: char where "CR \<equiv> CHR 0x0D"

section \<open>Prefixes, suffixes and searching\<close>

definition has_prefix :: "string \<Rightarrow> string \<Rightarrow> bool" where
  "has_prefix s p \<longleftrightarrow> take (length p) s = p"

definition has_suffix :: "string \<Rightarrow> string \<Rightarrow> bool" where
  "has_suffix s p \<longleftrightarrow> length p \<le> length s \<and> drop (length s - length p) s = p"

definition trim_prefix :: "string \<Rightarrow> string \<Rightarrow> string" where
  "trim_prefix s p = (if has_prefix s p then drop (length p) s else s)"

definition trim_suffix :: "string \<Rightarrow> string \<Rightarrow> string" where
  "trim_suffix s p = (if has_suffix s p then take (length s - length p) s else s)"

fun str_index :: "string \<Rightarrow> string \<Rightarrow> nat option" where
  "str_index [] sub = (if sub = [] then Some 0 else None)"
| "str_index (c # cs) sub =
     (if has_prefix (c # cs) sub then Some 0 else map_option Suc (str_index cs sub))"

fun str_last_index :: "string \<Rightarrow> string \<Rightarrow> nat option" where
  "str_last_index [] sub = (if sub = [] then Some 0 else None)"
| "str_last_index (c # cs) sub =
     (case str_last_index cs sub of
        Some i \<Rightarrow> Some (Suc i)
      | None \<Rightarrow> if has_prefix (c # cs) sub then Some 0 else None)"

definition str_contains :: "string \<Rightarrow> string \<Rightarrow> bool" where
  "str_contains s sub \<longleftrightarrow> str_index s sub \<noteq> None"

lemma has_prefix_iff: "has_prefix s p \<longleftrightarrow> (\<exists>t. s = p @ t)"
proof
  assume "has_prefix s p"
  then have "s = p @ drop (length p) s"
    using append_take_drop_id [of "length p" s] by (simp add: has_prefix_def)
  then show "\<exists>t. s = p @ t" ..
qed (auto simp: has_prefix_def)

lemma has_prefix_append [simp]: "has_prefix (p @ t) p"
  by (simp add: has_prefix_def)

lemma has_prefix_length: "has_prefix s p \<Longrightarrow> length p \<le> length s"
  by (auto simp: has_prefix_iff)

lemma has_suffix_iff: "has_suffix s p \<longleftrightarrow> (\<exists>t. s = t @ p)"
proof
  assume "has_suffix s p"
  then have "s = take (length s - length p) s @ p"
    using append_take_drop_id [of "length s - length p" s] by (simp add: has_suffix_def)
  then show "\<exists>t. s = t @ p" ..
qed (auto simp: has_suffix_def)

lemma str_index_bound: "str_index s sub = Some i \<Longrightarrow> i + length sub \<le> length s"
  by (induction s sub arbitrary: i rule: str_index.induct)
    (auto split: if_splits dest: has_prefix_length)

lemma str_index_prefix: "str_index s sub = Some i \<Longrightarrow> has_prefix (drop i s) sub"
  by (induction s sub arbitrary: i rule: str_index.induct)
    (auto split: if_splits simp: has_prefix_def)

lemma str_index_first: "str_index s sub = Some i \<Longrightarrow> j < i \<Longrightarrow> \<not> has_prefix (drop j s) sub"
proof (induction s sub arbitrary: i j rule: str_index.induct)
  case (2 c cs sub)
  then show ?case by (cases j) (auto split: if_splits)
qed (auto split: if_splits)

lemma str_index_None: "str_index s sub = None \<Longrightarrow> \<not> has_prefix (drop j s) sub"
proof (induction s sub arbitrary: j rule: str_index.induct)
  case (2 c cs sub)
  then show ?case by (cases j) (auto split: if_splits)
qed (auto split: if_splits simp: has_prefix_def)

lemma str_index_None_iff: "str_index s sub = None \<longleftrightarrow> (\<forall>a b. s \<noteq> a @ sub @ b)"
proof
  assume none: "str_index s sub = None"
  show "\<forall>a b. s \<noteq> a @ sub @ b"
  proof (intro allI notI)
    fix a b assume "s = a @ sub @ b"
    then have "has_prefix (drop (length a) s) sub" by simp
    with str_index_None [OF none] show False by blast
  qed
next
  assume no: "\<forall>a b. s \<noteq> a @ sub @ b"
  show "str_index s sub = None"
  proof (rule ccontr)
    assume "str_index s sub \<noteq> None"
    then obtain i where "str_index s sub = Some i" by blast
    then have "has_prefix (drop i s) sub" by (rule str_index_prefix)
    then obtain t where "drop i s = sub @ t" by (auto simp: has_prefix_iff)
    then have "s = take i s @ sub @ t" by (metis append_take_drop_id)
    with no show False by blast
  qed
qed

lemma str_index_split:
  "str_index s sub = Some i \<Longrightarrow> s = take i s @ sub @ drop (i + length sub) s"
proof -
  assume "str_index s sub = Some i"
  then have "has_prefix (drop i s) sub" by (rule str_index_prefix)
  then have "drop i s = sub @ drop (length sub) (drop i s)"
    unfolding has_prefix_def by (metis append_take_drop_id)
  then show ?thesis by (metis append_take_drop_id drop_drop add.commute)
qed

lemma str_contains_iff: "str_contains s sub \<longleftrightarrow> (\<exists>a b. s = a @ sub @ b)"
  using str_index_None_iff [of s sub] by (auto simp: str_contains_def)

lemma str_contains_char: "str_contains s [c] \<longleftrightarrow> c \<in> set s"
  by (auto simp: str_contains_iff dest: split_list)

lemma str_last_index_bound:
  "str_last_index s sub = Some i \<Longrightarrow> i + length sub \<le> length s"
  by (induction s sub arbitrary: i rule: str_last_index.induct)
    (auto split: if_splits option.splits dest: has_prefix_length)

lemma str_last_index_prefix:
  "str_last_index s sub = Some i \<Longrightarrow> has_prefix (drop i s) sub"
  by (induction s sub arbitrary: i rule: str_last_index.induct)
    (auto split: if_splits option.splits simp: has_prefix_def)

lemma str_last_index_char_None: "str_last_index s [c] = None \<longleftrightarrow> c \<notin> set s"
  by (induction s) (auto simp: has_prefix_def split: option.splits)

lemma str_last_index_char_last:
  "str_last_index s [c] = Some i \<Longrightarrow> c \<notin> set (drop (Suc i) s)"
proof (induction s arbitrary: i)
  case (Cons a s)
  then show ?case
    by (auto simp: has_prefix_def str_last_index_char_None split: option.splits if_splits)
qed simp

section \<open>Splitting and trimming\<close>

text \<open>\<open>strings.Split\<close>; an empty separator splits between the characters.\<close>

function str_split :: "string \<Rightarrow> string \<Rightarrow> string list" where
  "str_split s sep =
     (if sep = [] then map (\<lambda>c. [c]) s
      else case str_index s sep of
             None \<Rightarrow> [s]
           | Some i \<Rightarrow> take i s # str_split (drop (i + length sep) s) sep)"
  by pat_completeness auto
termination
  by (relation "measure (\<lambda>(s, sep). length s)")
    (auto dest!: str_index_bound simp flip: length_greater_0_conv)

declare str_split.simps [simp del]

text \<open>\<open>strings.Join\<close>\<close>

fun str_join :: "string list \<Rightarrow> string \<Rightarrow> string" where
  "str_join [] sep = []"
| "str_join [x] sep = x"
| "str_join (x # y # xs) sep = x @ sep @ str_join (y # xs) sep"

lemma str_split_nonempty: "sep \<noteq> [] \<Longrightarrow> str_split s sep \<noteq> []"
  by (subst str_split.simps) (simp split: option.split)

lemma str_join_Cons: "xs \<noteq> [] \<Longrightarrow> str_join (x # xs) sep = x @ sep @ str_join xs sep"
  by (cases xs) auto

lemma str_join_split: "sep \<noteq> [] \<Longrightarrow> str_join (str_split s sep) sep = s"
proof (induction s sep rule: str_split.induct)
  case (1 s sep)
  show ?case
  proof (cases "str_index s sep")
    case None
    with "1.prems" show ?thesis by (simp add: str_split.simps [of s sep])
  next
    case (Some i)
    with 1 have "str_join (str_split (drop (i + length sep) s) sep) sep = drop (i + length sep) s"
      by blast
    with Some "1.prems" show ?thesis
      by (simp add: str_split.simps [of s sep] str_join_Cons str_split_nonempty
          str_index_split [OF Some, symmetric])
  qed
qed

text \<open>Splitting at one character.\<close>

fun split_at :: "char \<Rightarrow> string \<Rightarrow> string list" where
  "split_at c [] = [[]]"
| "split_at c (x # xs) =
     (if x = c then [] # split_at c xs else (x # hd (split_at c xs)) # tl (split_at c xs))"

lemma split_at_nonempty [simp]: "split_at c s \<noteq> []"
  by (cases s) auto

lemma str_index_char_Cons:
  "str_index (x # xs) [c] = (if x = c then Some 0 else map_option Suc (str_index xs [c]))"
  by (auto simp: has_prefix_def)

lemma str_split_char: "str_split s [c] = split_at c s"
proof (induction s)
  case (Cons x xs)
  show ?case
  proof (cases "x = c")
    case True
    then have "str_split (x # xs) [c] = [] # str_split xs [c]"
      by (subst str_split.simps) (simp add: str_index_char_Cons del: str_index.simps)
    with Cons True show ?thesis by simp
  next
    case False
    then show ?thesis using Cons
      by (simp add: str_split.simps [of "x # xs"] str_split.simps [of xs] str_index_char_Cons del: str_index.simps
          split: option.splits) (metis list.sel(1,3) split_at_nonempty)+
  qed
qed (simp add: str_split.simps)

lemma split_at_single: "c \<notin> set s \<Longrightarrow> split_at c s = [s]"
  by (induction s) auto

lemma split_at_join: "c \<notin> set a \<Longrightarrow> split_at c (a @ c # b) = a # split_at c b"
  by (induction a) auto

lemma split_at_append:
  "d \<noteq> c \<Longrightarrow> split_at c (a @ d # b) =
     butlast (split_at c a) @ [last (split_at c a) @ [d] @ hd (split_at c b)] @ tl (split_at c b)"
proof (induction a)
  case (Cons x a)
  then show ?case by (cases "split_at c a") (auto split: if_splits)
qed simp

lemma str_index_char_append: "c \<notin> set t \<Longrightarrow> str_index (l @ t) [c] = str_index l [c]"
proof (induction l)
  case Nil
  then show ?case by (induction t) (auto simp: has_prefix_def)
next
  case (Cons x l)
  then show ?case by (simp add: str_index_char_Cons del: str_index.simps)
qed

lemma str_index_char_bound: "str_index l [c] = Some n \<Longrightarrow> n < length l"
  using str_index_bound [of l "[c]" n] by simp

fun trim_left :: "string \<Rightarrow> string \<Rightarrow> string" where
  "trim_left [] cutset = []"
| "trim_left (c # cs) cutset = (if c \<in> set cutset then trim_left cs cutset else c # cs)"

definition trim_right :: "string \<Rightarrow> string \<Rightarrow> string" where
  "trim_right s cutset = rev (trim_left (rev s) cutset)"

definition str_trim :: "string \<Rightarrow> string \<Rightarrow> string" where
  "str_trim s cutset = trim_right (trim_left s cutset) cutset"

text \<open>
  \<open>strings.TrimSpace\<close>: the white space of \<open>unicode.IsSpace\<close> as it is encoded, which is cut off at both
  ends.  In UTF-8 a rune at the front, or at the back, is decoded exactly where its bytes stand there.
\<close>

definition ascii_space :: string where
  "ascii_space = [CHR 0x09, CHR 0x0A, CHR 0x0B, CHR 0x0C, CHR 0x0D, CHR 0x20]"

definition space_runes :: "string list" where
  "space_runes = map (\<lambda>c. [c]) ascii_space
     @ [[CHR 0xC2, CHR 0x85], [CHR 0xC2, CHR 0xA0], [CHR 0xE1, CHR 0x9A, CHR 0x80]]
     @ map (\<lambda>c. [CHR 0xE2, CHR 0x80, c])
         [CHR 0x80, CHR 0x81, CHR 0x82, CHR 0x83, CHR 0x84, CHR 0x85, CHR 0x86, CHR 0x87, CHR 0x88, CHR 0x89, CHR 0x8A,
          CHR 0xA8, CHR 0xA9, CHR 0xAF]
     @ [[CHR 0xE2, CHR 0x81, CHR 0x9F], [CHR 0xE3, CHR 0x80, CHR 0x80]]"

function trim_runes :: "string list \<Rightarrow> string \<Rightarrow> string" where
  "trim_runes runes s =
     (case find (\<lambda>x. x \<noteq> [] \<and> has_prefix s x) runes of
        None \<Rightarrow> s
      | Some x \<Rightarrow> trim_runes runes (drop (length x) s))"
  by pat_completeness auto
termination
  by (relation "measure (\<lambda>(runes, s). length s)") (auto simp: find_Some_iff has_prefix_iff)

declare trim_runes.simps [simp del]

definition trim_space :: "string \<Rightarrow> string" where
  "trim_space s = rev (trim_runes (map rev space_runes) (rev (trim_runes space_runes s)))"

definition begins_plain :: "string \<Rightarrow> bool" where
  "begins_plain w \<longleftrightarrow> (\<forall>x \<in> set space_runes. \<not> has_prefix w x)"

definition ends_plain :: "string \<Rightarrow> bool" where
  "ends_plain w \<longleftrightarrow> (\<forall>x \<in> set space_runes. \<not> has_suffix w x)"

lemma trim_runes_idle: "\<forall>x \<in> set runes. \<not> has_prefix s x \<Longrightarrow> trim_runes runes s = s"
  by (subst trim_runes.simps) (auto simp: find_None_iff split: option.split dest: find_Some_iff [THEN iffD1])

lemma has_prefix_rev: "has_prefix (rev s) (rev x) \<longleftrightarrow> has_suffix s x"
proof -
  have "(\<exists>t. rev s = rev x @ t) \<longleftrightarrow> (\<exists>t. s = t @ x)" by (metis rev_append rev_rev_ident)
  then show ?thesis by (simp add: has_prefix_iff has_suffix_iff)
qed

lemma trim_space_plain: "begins_plain w \<Longrightarrow> ends_plain w \<Longrightarrow> trim_space w = w"
  by (simp add: trim_space_def trim_runes_idle begins_plain_def ends_plain_def has_prefix_rev)

lemma trim_space_tab: "trim_space (CHR 0x09 # w) = trim_space w"
proof -
  have "find (\<lambda>x. x \<noteq> [] \<and> has_prefix (CHR 0x09 # w) x) space_runes = Some [CHR 0x09]"
    by (simp add: space_runes_def ascii_space_def has_prefix_def)
  then have "trim_runes space_runes (CHR 0x09 # w) = trim_runes space_runes w"
    by (subst trim_runes.simps) simp
  then show ?thesis by (simp add: trim_space_def)
qed

lemma trim_space_tabs: "begins_plain w \<Longrightarrow> ends_plain w \<Longrightarrow> trim_space (replicate n (CHR 0x09) @ w) = w"
  by (induction n) (simp_all add: trim_space_plain trim_space_tab)

lemma plain_Nil [simp]: "begins_plain []" "ends_plain []"
  by (simp_all add: begins_plain_def ends_plain_def space_runes_def ascii_space_def has_prefix_def has_suffix_def)

lemma rune_ascii: "x \<in> set space_runes \<Longrightarrow> c \<in> set x \<Longrightarrow> c \<in> {CHR '':'', CHR 0x09, CHR 0x0A} \<Longrightarrow> length x = 1"
  by (auto simp: space_runes_def ascii_space_def)

lemma begins_plain_append:
  assumes "begins_plain w" "w \<noteq> []" "c \<in> {CHR '':'', CHR 0x09, CHR 0x0A}"
  shows "begins_plain (w @ c # r)"
  unfolding begins_plain_def
proof (intro ballI notI)
  fix x assume x: "x \<in> set space_runes" and p: "has_prefix (w @ c # r) x"
  show False
  proof (cases "length x \<le> length w")
    case True
    then have "has_prefix w x" using p by (simp add: has_prefix_def)
    then show False using assms(1) x by (simp add: begins_plain_def)
  next
    case False
    then have "take (length x) (w @ c # r) = w @ c # take (length x - Suc (length w)) r"
      by (simp add: take_Cons')
    then have "c \<in> set x" using p by (metis has_prefix_def in_set_conv_decomp)
    then show False using rune_ascii [OF x _ assms(3)] False assms(2) by (cases w) auto
  qed
qed

lemma ends_plain_append:
  assumes "ends_plain w" "w \<noteq> []" "c \<in> {CHR '':'', CHR 0x09, CHR 0x0A}"
  shows "ends_plain (r @ c # w)"
  unfolding ends_plain_def
proof (intro ballI notI)
  fix x assume x: "x \<in> set space_runes" and p: "has_suffix (r @ c # w) x"
  then obtain t where t: "r @ c # w = t @ x" by (auto simp: has_suffix_iff)
  show False
  proof (cases "length x \<le> length w")
    case True
    then have "has_suffix w x" using p by (simp add: has_suffix_def Suc_diff_le)
    then show False using assms(1) x by (simp add: ends_plain_def)
  next
    case False
    then obtain u where "x = u @ c # w" using t
      by (auto simp: append_eq_append_conv2 Cons_eq_append_conv append_eq_Cons_conv)
    then show False using rune_ascii [OF x _ assms(3)] False assms(2) by (cases w) auto
  qed
qed

lemma ends_plain_colon: "ends_plain (k @ '':'')"
proof -
  have "last x \<noteq> CHR '':'' \<and> x \<noteq> []" if "x \<in> set space_runes" for x
    using that by (auto simp: space_runes_def ascii_space_def)
  then show ?thesis by (auto simp: ends_plain_def has_suffix_iff) (metis last_append last_snoc)
qed

lemma begins_plain_hd:
  assumes "begins_plain w" "w \<noteq> []"
  shows "hd w \<notin> set ascii_space"
proof
  assume "hd w \<in> set ascii_space"
  then have "[hd w] \<in> set space_runes" by (simp add: space_runes_def del: set_simps)
  moreover have "has_prefix w [hd w]" using assms(2) by (cases w) (simp_all add: has_prefix_def)
  ultimately show False using assms(1) by (auto simp: begins_plain_def)
qed

lemma trim_left_drop: "\<exists>n \<le> length s. trim_left s cs = drop n s"
  by (induction s) (auto intro: exI [of _ 0] exI [of _ "Suc _"])

lemma length_trim_left: "length (trim_left s cs) \<le> length s"
  by (induction s) auto

lemma length_trim_right: "length (trim_right s cs) \<le> length s"
  using length_trim_left [of "rev s" cs] by (simp add: trim_right_def)

lemma trim_left_hd: "trim_left s cs = c # t \<Longrightarrow> c \<notin> set cs"
  by (induction s) (auto split: if_splits)

lemma trim_left_Nil_iff: "trim_left s cs = [] \<longleftrightarrow> set s \<subseteq> set cs"
  by (induction s) auto

lemma trim_left_idle: "set s \<inter> set cs = {} \<Longrightarrow> trim_left s cs = s"
  by (cases s) auto

lemma trim_right_idle: "set s \<inter> set cs = {} \<Longrightarrow> trim_right s cs = s"
  by (simp add: trim_right_def trim_left_idle)

lemma str_trim_idle: "set s \<inter> set cs = {} \<Longrightarrow> str_trim s cs = s"
  by (simp add: str_trim_def trim_left_idle trim_right_idle)

section \<open>Case folding and decimal numbers\<close>

definition to_lower_char :: "char \<Rightarrow> char" where
  "to_lower_char c =
     (let n = of_char c :: nat in if 65 \<le> n \<and> n \<le> 90 then char_of (n + 32) else c)"

definition to_lower :: "string \<Rightarrow> string" where
  "to_lower s = map to_lower_char s"

lemma to_lower_char_idem: "to_lower_char (to_lower_char c) = to_lower_char c"
  by (auto simp: to_lower_char_def Let_def)

lemma to_lower_idem [simp]: "to_lower (to_lower s) = to_lower s"
  by (simp add: to_lower_def to_lower_char_idem)

text \<open>\<open>strconv.Itoa\<close>: decimal digits, with a sign in front of a negative number.\<close>

definition digit :: "nat \<Rightarrow> char" where
  "digit d = char_of (48 + d)"

fun nat_str :: "nat \<Rightarrow> string" where
  "nat_str n = (if n < 10 then [digit n] else nat_str (n div 10) @ [digit (n mod 10)])"

declare nat_str.simps [simp del]

definition itoa :: "int \<Rightarrow> string" where
  "itoa i = (if i < 0 then CHR ''-'' # nat_str (nat (- i)) else nat_str (nat i))"

lemma of_char_digit: "d < 10 \<Longrightarrow> (of_char (digit d) :: nat) = 48 + d"
  by (simp add: digit_def take_bit_eq_mod)

lemma digit_inj: "d < 10 \<Longrightarrow> e < 10 \<Longrightarrow> digit d = digit e \<Longrightarrow> d = e"
  by (metis of_char_digit add_left_imp_eq)

lemma digit_not_minus: "d < 10 \<Longrightarrow> digit d \<noteq> CHR ''-''"
proof
  assume "d < 10" "digit d = CHR ''-''"
  then have "48 + d = (45::nat)" using of_char_digit [of d] by simp
  then show False by simp
qed

lemma nat_str_nonempty [simp]: "nat_str n \<noteq> []"
  by (subst nat_str.simps) simp

lemma nat_str_digits: "c \<in> set (nat_str n) \<Longrightarrow> \<exists>d < 10. c = digit d"
proof (induction n rule: nat_str.induct)
  case (1 n)
  show ?case
  proof (cases "n < 10")
    case True
    with "1.prems" show ?thesis by (auto simp: nat_str.simps [of n])
  next
    case False
    with 1 have "c \<in> set (nat_str (n div 10)) \<or> c = digit (n mod 10)"
      by (auto simp: nat_str.simps [of n])
    with "1.IH" False show ?thesis by (metis mod_less_divisor zero_less_numeral)
  qed
qed

lemma nat_str_inj: "nat_str m = nat_str n \<Longrightarrow> m = n"
proof (induction m arbitrary: n rule: nat_str.induct)
  case (1 m)
  have small: "nat_str k = [c] \<Longrightarrow> k < 10" for k c
    by (subst (asm) nat_str.simps) (auto split: if_splits)
  show ?case
  proof (cases "m < 10")
    case True
    with "1.prems" have "n < 10" by (metis small nat_str.simps)
    with True "1.prems" show ?thesis by (auto simp: nat_str.simps [of m] nat_str.simps [of n] digit_inj)
  next
    case False
    have "\<not> n < 10" using False "1.prems" by (metis small nat_str.simps)
    with False "1.prems" have "nat_str (m div 10) = nat_str (n div 10)"
      and "digit (m mod 10) = digit (n mod 10)"
      by (simp_all add: nat_str.simps [of m] nat_str.simps [of n])
    with "1.IH" [OF False, of "n div 10"] have "m div 10 = n div 10" and "m mod 10 = n mod 10"
      by (auto intro: digit_inj)
    then show ?thesis by (metis div_mod_decomp)
  qed
qed

lemma itoa_inj: "itoa i = itoa j \<Longrightarrow> i = j"
proof -
  assume eq: "itoa i = itoa j"
  have minus: "nat_str n \<noteq> CHR ''-'' # s" for n s
    using nat_str_digits [of "CHR ''-''" n] digit_not_minus by (metis list.set_intros(1))
  show ?thesis
    using eq minus minus [symmetric] by (auto simp: itoa_def dest!: nat_str_inj split: if_splits)
qed

text \<open>\<open>'%s'\<close> in a format string\<close>

definition quoted :: "string \<Rightarrow> string" where
  "quoted s = [CHR 0x27] @ s @ [CHR 0x27]"

section \<open>Options, lists and finite maps\<close>

lemma fmlookup_fmadd_Some:
  "fmlookup n k = Some v \<Longrightarrow> fmlookup (m ++\<^sub>f n) k = Some v"
  by (auto simp: fmlookup_dom_iff)

lemma fmlookup_fmadd_None:
  "fmlookup n k = None \<Longrightarrow> fmlookup (m ++\<^sub>f n) k = fmlookup m k"
  by (auto simp: fmlookup_dom_iff)

lemma fmap_eqI: "(\<And>k. fmlookup m k = fmlookup n k) \<Longrightarrow> m = n"
  by (rule fmap_ext) simp


text \<open>In a list without contradictions the order of the pairs does not matter.\<close>

lemma map_of_Some_if:
  assumes "\<And>k a b. (k, a) \<in> set xs \<Longrightarrow> (k, b) \<in> set xs \<Longrightarrow> a = b" "(k, a) \<in> set xs"
  shows "map_of xs k = Some a"
proof -
  have "k \<in> fst ` set xs" using assms(2) by force
  then obtain b where "map_of xs k = Some b" by (metis map_of_eq_None_iff not_Some_eq)
  then show ?thesis using assms by (metis map_of_SomeD)
qed

lemma map_of_consistent:
  assumes "\<And>k a b. (k, a) \<in> set xs \<Longrightarrow> (k, b) \<in> set xs \<Longrightarrow> a = b" "set ys = set xs"
  shows "map_of ys = map_of xs"
proof
  fix k
  show "map_of ys k = map_of xs k"
  proof (cases "map_of xs k")
    case None
    then have "k \<notin> fst ` set ys" using assms(2) by (simp add: map_of_eq_None_iff)
    with None show ?thesis by (simp add: map_of_eq_None_iff [THEN iffD2])
  next
    case (Some a)
    then have "(k, a) \<in> set ys" using assms(2) by (auto dest: map_of_SomeD)
    then have "map_of ys k = Some a" using assms by (intro map_of_Some_if) auto
    with Some show ?thesis by simp
  qed
qed

end
