(* ===== verification/Agent_Errors.thy ===== *)
theory Agent_Errors
  imports Prelude
begin

text \<open>
  The error values of the agent: \<open>errors/error.go\<close> and \<open>errors/details.go\<close>.  A Go \<open>error\<close> is either
  an \<open>AgentError\<close> (description, suggestion, details) or an error of the standard library or of a
  third party, of which only the text is known.  Encoding for the zap logger (\<open>MarshalLogObject\<close>)
  is pure output and is not modelled.
\<close>

record AgentError =
  Description :: string
  Suggestion :: string
  Details :: "string gomap"

datatype gerror = StdError string | Agent AgentError

section \<open>Details\<close>

text \<open>
  The loop \<open>for i := 0; i+1 < len(keyValues); i += 2\<close> stores the pairs from left to right and
  ignores a last key without a value.
\<close>

fun add_pairs :: "string gomap \<Rightarrow> string list \<Rightarrow> string gomap" where
  "add_pairs d (k # v # kvs) = add_pairs (fmupd k v d) kvs"
| "add_pairs d _ = d"

definition createDetails :: "string list \<Rightarrow> string gomap" where
  "createDetails keyValues = add_pairs fmempty keyValues"

definition NewError :: "string \<Rightarrow> string \<Rightarrow> string list \<Rightarrow> AgentError" where
  "NewError description suggestion keyValues =
     \<lparr>Description = description, Suggestion = suggestion, Details = createDetails keyValues\<rparr>"

section \<open>The message of an error\<close>

text \<open>
  \<open>json.Marshal\<close> of a \<open>map[string]string\<close>: an object with the keys in ascending byte order.  The
  escapes are the ones of \<open>encoding/json\<close> with HTML escaping, on ASCII text.
\<close>

definition hex_digit :: "nat \<Rightarrow> char" where
  "hex_digit d = (if d < 10 then char_of (48 + d) else char_of (87 + d))"

definition json_char :: "char \<Rightarrow> string" where
  "json_char c =
     (let n = of_char c :: nat in
      if c = CHR 0x22 then [CHR 0x5C, CHR 0x22]
      else if c = CHR 0x5C then [CHR 0x5C, CHR 0x5C]
      else if c = CHR 0x0A then [CHR 0x5C, CHR ''n'']
      else if c = CHR 0x0D then [CHR 0x5C, CHR ''r'']
      else if c = CHR 0x09 then [CHR 0x5C, CHR ''t'']
      else if n < 32 \<or> c = CHR ''<'' \<or> c = CHR ''>'' \<or> c = CHR ''&''
           then [CHR 0x5C, CHR ''u'', CHR ''0'', CHR ''0'', hex_digit (n div 16), hex_digit (n mod 16)]
      else [c])"

definition json_string :: "string \<Rightarrow> string" where
  "json_string s = [CHR 0x22] @ concat (map json_char s) @ [CHR 0x22]"

definition json_details :: "string gomap \<Rightarrow> string" where
  "json_details d =
     ''{'' @ str_join (map (\<lambda>(k, v). json_string k @ '':'' @ json_string v) (sorted_list_of_fmap d)) '',''
        @ ''}''"

definition agent_error_text :: "AgentError \<Rightarrow> string" where
  "agent_error_text e =
     (if Details e = fmempty then Description e
      else Description e @ '': '' @ json_details (Details e))"

fun error_text :: "gerror \<Rightarrow> string" where
  "error_text (StdError s) = s"
| "error_text (Agent e) = agent_error_text e"

section \<open>Adding details and context\<close>

fun WithDetails :: "gerror \<Rightarrow> string list \<Rightarrow> AgentError" where
  "WithDetails (Agent e) keyValues = e\<lparr>Details := add_pairs (Details e) keyValues\<rparr>"
| "WithDetails (StdError s) keyValues = NewError s [] keyValues"

fun Wrap :: "gerror \<Rightarrow> string \<Rightarrow> AgentError" where
  "Wrap (Agent e) context = e\<lparr>Description := context @ '': '' @ Description e\<rparr>"
| "Wrap (StdError s) context = NewError (context @ '': '' @ s) [] []"

section \<open>Lemmas\<close>

text \<open>The pairs of a list of keys and values, as the loop reads them.\<close>

fun pairs_of :: "string list \<Rightarrow> (string \<times> string) list" where
  "pairs_of (k # v # kvs) = (k, v) # pairs_of kvs"
| "pairs_of _ = []"

lemma fmlookup_add_pairs:
  "fmlookup (add_pairs d kvs) k =
     (case map_of (rev (pairs_of kvs)) k of Some v \<Rightarrow> Some v | None \<Rightarrow> fmlookup d k)"
  by (induction d kvs rule: add_pairs.induct) (auto simp: map_add_def split: option.splits)

lemma createDetails_lookup:
  "fmlookup (createDetails kvs) k = map_of (rev (pairs_of kvs)) k"
  by (simp add: createDetails_def fmlookup_add_pairs split: option.split)

lemma add_pairs_keeps:
  assumes "k \<notin> set (map fst (pairs_of kvs))"
  shows "fmlookup (add_pairs d kvs) k = fmlookup d k"
proof -
  have "map_of (rev (pairs_of kvs)) k = None"
    using assms by (simp add: map_of_eq_None_iff)
  then show ?thesis by (simp add: fmlookup_add_pairs)
qed

lemma Details_Wrap [simp]: "Details (Wrap (Agent e) c) = Details e"
  by simp

lemma Suggestion_Wrap: "Suggestion (Wrap (Agent e) c) = Suggestion e"
  by simp

lemma error_text_Wrap: "error_text (Agent (Wrap err c)) = c @ '': '' @ error_text err"
  by (cases err) (auto simp: agent_error_text_def NewError_def createDetails_def)

end
