(* ===== verification/Go_Time.thy ===== *)
theory Go_Time
  imports Prelude
begin

text \<open>
  What the repository uses of Go's \<open>time.Time\<close>: an instant, counted in nanoseconds since the Unix
  epoch (unbounded here; Go's range is about 292 billion years of seconds), and the zone it is shown
  in, a fixed offset in seconds with a name.  The calendar is the proleptic Gregorian one that the
  package \<open>time\<close> computes.
\<close>

datatype gtime = GTime (UnixNano: int) (ZoneOffset: int) (ZoneName: string)

definition ns_per_s :: int where "ns_per_s = 1000000000"

text \<open>the zero value \<open>time.Time{}\<close>: 1 January of year 1, UTC\<close>

definition zero_time :: gtime where
  "zero_time = GTime (- 62135596800 * ns_per_s) 0 ''UTC''"

text \<open>\<open>time.Unix(sec, nsec)\<close>, in UTC\<close>

definition time_unix :: "int \<Rightarrow> int \<Rightarrow> gtime" where
  "time_unix sec nsec = GTime (sec * ns_per_s + nsec) 0 ''UTC''"

section \<open>The calendar\<close>

text \<open>Year, month and day of a number of days since the epoch; the year starts on 1 March.\<close>

definition civil_of_days :: "int \<Rightarrow> int \<times> int \<times> int" where
  "civil_of_days days =
     (let z = days + 719468;
          era = z div 146097;
          doe = z mod 146097;
          yoe = (doe - doe div 1460 + doe div 36524 - doe div 146096) div 365;
          doy = doe - (365 * yoe + yoe div 4 - yoe div 100);
          mp = (5 * doy + 2) div 153;
          d = doy - (153 * mp + 2) div 5 + 1;
          m = (if mp < 10 then mp + 3 else mp - 9);
          y = yoe + era * 400 + (if m \<le> 2 then 1 else 0)
      in (y, m, d))"

definition local_seconds :: "gtime \<Rightarrow> int" where
  "local_seconds t = UnixNano t div ns_per_s + ZoneOffset t"

definition time_date :: "gtime \<Rightarrow> int \<times> int \<times> int" where
  "time_date t = civil_of_days (local_seconds t div 86400)"

definition time_year :: "gtime \<Rightarrow> int" where
  "time_year t = fst (time_date t)"

definition time_clock :: "gtime \<Rightarrow> int \<times> int \<times> int" where
  "time_clock t =
     (let s = local_seconds t mod 86400 in (s div 3600, s div 60 mod 60, s mod 60))"

definition time_nanosecond :: "gtime \<Rightarrow> int" where
  "time_nanosecond t = UnixNano t mod ns_per_s"

section \<open>The text of a time in JSON\<close>

definition pad :: "nat \<Rightarrow> string \<Rightarrow> string" where
  "pad n s = replicate (n - length s) (CHR ''0'') @ s"

definition fraction_text :: "int \<Rightarrow> string" where
  "fraction_text ns =
     (if ns = 0 then [] else CHR ''.'' # trim_right (pad 9 (itoa ns)) ''0'')"

definition zone_text :: "int \<Rightarrow> string" where
  "zone_text off =
     (if off = 0 then ''Z''
      else let m = \<bar>off\<bar> div 60
           in (if off < 0 then CHR ''-'' else CHR ''+'')
              # pad 2 (itoa (m div 60)) @ '':'' @ pad 2 (itoa (m mod 60)))"

text \<open>\<open>Time.MarshalJSON\<close>: RFC 3339 with nanoseconds, an error outside the years 0 to 9999.\<close>

definition time_json :: "gtime \<Rightarrow> string option" where
  "time_json t =
     (case time_date t of (y, mo, d) \<Rightarrow>
      case time_clock t of (h, mi, s) \<Rightarrow>
        if y < 0 \<or> y \<ge> 10000 then None
        else Some (pad 4 (itoa y) @ ''-'' @ pad 2 (itoa mo) @ ''-'' @ pad 2 (itoa d) @ ''T''
               @ pad 2 (itoa h) @ '':'' @ pad 2 (itoa mi) @ '':'' @ pad 2 (itoa s)
               @ fraction_text (time_nanosecond t) @ zone_text (ZoneOffset t)))"

lemma time_json_epoch: "time_json (time_unix 0 0) = Some ''1970-01-01T00:00:00Z''"
  by code_simp

lemma time_date_zero: "time_date zero_time = (1, 1, 1)"
  by code_simp

end
