(* ===== verification/Values.thy ===== *)
theory Values
  imports Agent_Errors Go_Time "HOL-Library.Log_Nat"
begin

text \<open>
  The dynamic values an entry carries (\<open>interface{}\<close> in the code) and their deep copy,
  \<open>entry/copy.go\<close>.  A value is a tree: a map is a finite map, so two values never share a part.
  The types listed are the ones the code of the repository produces or switches on; floating point
  numbers are the finite ones, as rational numbers.  An unsigned integer of 16, 32 or 64 bits is given
  with its width.
\<close>

datatype gval =
    VNil
  | VBool bool
  | VString string
  | VInt i64
  | VByte "8 word"
  | VUint nat "64 word"
  | VFloat rat
  | VTime gtime
  | VBytes string
  | VStrings "string list"
  | VInts "i64 list"
  | VArr "gval list"
  | VMap "gval gomap"
  | VStrMap "string gomap"
  | VStrMaps "string gomap gomap"
  | VIfaceMap "(gval \<times> gval) list"

text \<open>The name of the dynamic type, as the verb \<open>%T\<close> prints it.\<close>

fun go_type :: "gval \<Rightarrow> string" where
  "go_type VNil = ''<nil>''"
| "go_type (VBool b) = ''bool''"
| "go_type (VString s) = ''string''"
| "go_type (VInt i) = ''int''"
| "go_type (VByte b) = ''uint8''"
| "go_type (VUint w u) = ''uint'' @ itoa (int w)"
| "go_type (VFloat r) = ''float64''"
| "go_type (VTime t) = ''time.Time''"
| "go_type (VBytes s) = ''[]uint8''"
| "go_type (VStrings ss) = ''[]string''"
| "go_type (VInts is) = ''[]int''"
| "go_type (VArr vs) = ''[]interface {}''"
| "go_type (VMap m) = ''map[string]interface {}''"
| "go_type (VStrMap m) = ''map[string]string''"
| "go_type (VStrMaps m) = ''map[string]map[string]string''"
| "go_type (VIfaceMap kvs) = ''map[interface {}]interface {}''"

section \<open>Deep copy\<close>

text \<open>The \<open>float64\<close> next to a number: 53 bits, the even one of two that are equally near.\<close>

definition nearest_float :: "nat \<Rightarrow> rat" where
  "nearest_float n =
     (if n < 2 ^ 53 then of_nat n
      else let u = 2 ^ (floorlog 2 n - 53); q = n div u; r = n mod u
           in of_nat ((if 2 * r < u \<or> (2 * r = u \<and> even q) then q else Suc q) * u))"

text \<open>
  \<open>copyUnknown\<close> marshals to JSON and back.  A float survives, an unsigned integer becomes a float, a time becomes its text, a map of
  string maps one of \<open>interface{}\<close> maps (for text that is valid UTF-8), and what JSON cannot encode (a map with non-string keys, a year outside 0 to 9999) leaves \<open>nil\<close>.
  It is only reached for the types that \<open>copyValue\<close> does not list.
\<close>

fun copyUnknown :: "gval \<Rightarrow> gval" where
  "copyUnknown (VFloat r) = VFloat r"
| "copyUnknown (VUint w u) = VFloat (nearest_float (unat u))"
| "copyUnknown (VTime t) = (case time_json t of Some s \<Rightarrow> VString s | None \<Rightarrow> VNil)"
| "copyUnknown (VStrMaps m) = VMap (fmmap (\<lambda>n. VMap (fmmap VString n)) m)"
| "copyUnknown _ = VNil"

primrec copyValue :: "gval \<Rightarrow> gval" where
  "copyValue VNil = VNil"
| "copyValue (VBool b) = VBool b"
| "copyValue (VString s) = VString s"
| "copyValue (VInt i) = VInt i"
| "copyValue (VByte b) = VByte b"
| "copyValue (VUint w u) = copyUnknown (VUint w u)"
| "copyValue (VFloat r) = copyUnknown (VFloat r)"
| "copyValue (VTime t) = copyUnknown (VTime t)"
| "copyValue (VBytes s) = VBytes s"
| "copyValue (VStrings ss) = VStrings ss"
| "copyValue (VInts is) = VInts is"
| "copyValue (VArr vs) = VArr (map copyValue vs)"
| "copyValue (VMap m) = VMap (fmmap copyValue m)"
| "copyValue (VStrMap m) = VStrMap m"
| "copyValue (VStrMaps m) = copyUnknown (VStrMaps m)"
| "copyValue (VIfaceMap kvs) = copyUnknown (VIfaceMap kvs)"

definition copyInterfaceMap :: "gval gomap option \<Rightarrow> gval gomap" where
  "copyInterfaceMap m = (case m of None \<Rightarrow> fmempty | Some m' \<Rightarrow> fmmap copyValue m')"

definition copyByteArray :: "string option \<Rightarrow> string" where
  "copyByteArray a = (case a of None \<Rightarrow> [] | Some bs \<Rightarrow> bs)"

text \<open>
  The values that deep copy keeps: no unsigned integer of more than a byte, no \<open>time.Time\<close>, no \<open>map[interface{}]interface{}\<close> and no
  \<open>map[string]map[string]string\<close> in them.
\<close>

primrec copyable :: "gval \<Rightarrow> bool" where
  "copyable VNil = True"
| "copyable (VBool b) = True"
| "copyable (VString s) = True"
| "copyable (VInt i) = True"
| "copyable (VByte b) = True"
| "copyable (VUint w u) = False"
| "copyable (VFloat r) = True"
| "copyable (VTime t) = False"
| "copyable (VBytes s) = True"
| "copyable (VStrings ss) = True"
| "copyable (VInts is) = True"
| "copyable (VArr vs) = list_all id (map copyable vs)"
| "copyable (VMap m) = fmpred (\<lambda>k b. b) (fmmap copyable m)"
| "copyable (VStrMap m) = True"
| "copyable (VStrMaps m) = False"
| "copyable (VIfaceMap kvs) = False"

lemma copyable_VMap_lookup:
  "copyable (VMap m) \<Longrightarrow> fmlookup m k = Some v \<Longrightarrow> copyable v"
  by (auto simp: fmpred_iff)

lemma copyable_VMapI:
  "(\<And>k v. fmlookup m k = Some v \<Longrightarrow> copyable v) \<Longrightarrow> copyable (VMap m)"
  by (auto simp: fmpred_iff)

lemma copyValue_id: "copyable v \<Longrightarrow> copyValue v = v"
proof (induction v)
  case (VArr vs)
  then show ?case by (auto simp: list_all_iff intro: map_idI)
next
  case (VMap m)
  have "copyValue v = v" if "fmlookup m k = Some v" for k v
    using VMap.IH [of v] VMap.prems that by (blast intro: fmran'I copyable_VMap_lookup)
  then have "fmlookup (fmmap copyValue m) k = fmlookup m k" for k
    by (cases "fmlookup m k") auto
  then have "fmmap copyValue m = m" by (rule fmap_eqI)
  then show ?case by simp
qed auto

lemma copyUnknown_copyable: "copyable (copyUnknown v)"
  by (cases v) (auto simp: fmpred_iff split: option.split)

lemma copyValue_copyable: "copyable (copyValue v)"
proof (induction v)
  case (VMap m)
  then show ?case by (auto simp: fmpred_iff intro: fmran'I)
qed (auto simp: list_all_iff copyUnknown_copyable split: option.split)

lemma copyValue_idem: "copyValue (copyValue v) = copyValue v"
  by (simp add: copyValue_copyable copyValue_id)

lemma copyInterfaceMap_id:
  assumes "\<And>k v. fmlookup m k = Some v \<Longrightarrow> copyable v"
  shows "copyInterfaceMap (Some m) = m"
proof -
  have "copyValue (VMap m) = VMap m"
    using assms by (intro copyValue_id copyable_VMapI)
  then show ?thesis by (simp add: copyInterfaceMap_def)
qed

end
