(* ===== verification/Field_Path.thy ===== *)
theory Field_Path
  imports Agent_Errors
begin

text \<open>
  The names of fields, \<open>entry/field.go\<close>: the splitter of the JSON dot notation (\<open>fromJSONDot\<close>), its
  printer (\<open>toJSONDot\<close>), and \<open>NewField\<close>.  The Go loop ranges over the runes of the string and slices
  it by byte offsets.  Every character it compares is ASCII, and a byte of a longer UTF-8 sequence
  never equals an ASCII character, so the model runs over bytes.

  \<open>split_loop\<close> is the loop as written, with \<open>tokenStart\<close> and slices of the input; \<open>tok_loop\<close> is a
  reference machine that carries the token read so far.  \<open>fromJSONDot_tok\<close> says they agree.
\<close>

datatype field =
    NilField
  | BodyField (Keys: "string list")
  | AttributeField (Keys: "string list")
  | ResourceField (Keys: "string list")

definition BodyPrefix :: string where "BodyPrefix = ''body''"
definition AttributesPrefix :: string where "AttributesPrefix = ''attributes''"
definition ResourcePrefix :: string where "ResourcePrefix = ''resource''"

section \<open>Splitting\<close>

datatype splitState = Begin | InBracket | InQuote | OutQuote | OutBracket | InUnbracketedToken

record split =
  state :: splitState
  quoteChar :: char
  tokenStart :: nat
  split_fields :: "string list"

abbreviation single_quote :: char where "single_quote \<equiv> CHR 0x27"
abbreviation double_quote :: char where "double_quote \<equiv> CHR 0x22"

text \<open>\<open>s[a:b]\<close>\<close>

definition slice :: "string \<Rightarrow> nat \<Rightarrow> nat \<Rightarrow> string" where
  "slice s a b = take (b - a) (drop a s)"

definition split_step :: "string \<Rightarrow> nat \<Rightarrow> char \<Rightarrow> split \<Rightarrow> gerror + split" where
  "split_step s i c x =
     (case state x of
        Begin \<Rightarrow>
          if c = CHR ''['' then Inr (x\<lparr>state := InBracket\<rparr>)
          else Inr (x\<lparr>tokenStart := i, state := InUnbracketedToken\<rparr>)
      | InBracket \<Rightarrow>
          if \<not> (c = single_quote \<or> c = double_quote)
          then Inl (StdError ''strings in brackets must be surrounded by quotes'')
          else Inr (x\<lparr>state := InQuote, quoteChar := c, tokenStart := i + 1\<rparr>)
      | InQuote \<Rightarrow>
          if c = quoteChar x
          then Inr (x\<lparr>split_fields := split_fields x @ [slice s (tokenStart x) i], state := OutQuote\<rparr>)
          else Inr x
      | OutQuote \<Rightarrow>
          if c \<noteq> CHR '']''
          then Inl (StdError ''found characters between closed quote and closing bracket'')
          else Inr (x\<lparr>state := OutBracket\<rparr>)
      | OutBracket \<Rightarrow>
          if c = CHR ''.'' then Inr (x\<lparr>state := InUnbracketedToken, tokenStart := i + 1\<rparr>)
          else if c = CHR ''['' then Inr (x\<lparr>state := InBracket\<rparr>)
          else Inl (StdError
            ''bracketed access must be followed by a dot or another bracketed access'')
      | InUnbracketedToken \<Rightarrow>
          if c = CHR ''.''
          then Inr (x\<lparr>split_fields := split_fields x @ [slice s (tokenStart x) i], tokenStart := i + 1\<rparr>)
          else if c = CHR ''[''
          then Inr (x\<lparr>split_fields := split_fields x @ [slice s (tokenStart x) i], state := InBracket\<rparr>)
          else Inr x)"

fun split_loop :: "string \<Rightarrow> nat \<Rightarrow> string \<Rightarrow> split \<Rightarrow> gerror + split" where
  "split_loop s i [] x = Inr x"
| "split_loop s i (c # cs) x =
     (case split_step s i c x of Inl e \<Rightarrow> Inl e | Inr x' \<Rightarrow> split_loop s (Suc i) cs x')"

definition split_end :: "string \<Rightarrow> split \<Rightarrow> gerror + string list" where
  "split_end s x =
     (let result = \<lambda>fs. if fs = [] then Inl (StdError ''fields size is 0'') else Inr fs
      in case state x of
           InBracket \<Rightarrow> Inl (StdError ''found unclosed left bracket'')
         | OutQuote \<Rightarrow> Inl (StdError ''found unclosed left bracket'')
         | InQuote \<Rightarrow>
             if quoteChar x = double_quote then Inl (StdError ''found unclosed double quote'')
             else Inl (StdError ''found unclosed single quote'')
         | InUnbracketedToken \<Rightarrow> result (split_fields x @ [drop (tokenStart x) s])
         | _ \<Rightarrow> result (split_fields x))"

definition split_init :: split where
  "split_init = \<lparr>state = Begin, quoteChar = CHR 0x00, tokenStart = 0, split_fields = []\<rparr>"

definition fromJSONDot :: "string \<Rightarrow> gerror + string list" where
  "fromJSONDot s =
     (case split_loop s 0 s split_init of Inl e \<Rightarrow> Inl e | Inr x \<Rightarrow> split_end s x)"

section \<open>Printing\<close>

definition toJSONDot :: "string \<Rightarrow> string list \<Rightarrow> string" where
  "toJSONDot pre keys =
     (if keys = [] then pre
      else if list_ex (\<lambda>key. str_contains key ''.'') keys
      then pre @ concat (map (\<lambda>key. ''['' @ [single_quote] @ key @ [single_quote] @ '']'') keys)
      else pre @ ''.'' @ str_join keys ''.'')"

fun field_string :: "field \<Rightarrow> string" where
  "field_string NilField = ''$nil''"
| "field_string (BodyField ks) = toJSONDot BodyPrefix ks"
| "field_string (AttributeField ks) = toJSONDot AttributesPrefix ks"
| "field_string (ResourceField ks) = toJSONDot ResourcePrefix ks"

section \<open>Fields from names\<close>

definition NewField :: "string \<Rightarrow> gerror + field" where
  "NewField s =
     (case fromJSONDot s of
        Inl e \<Rightarrow> Inl (StdError (''splitting field: '' @ error_text e))
      | Inr keys \<Rightarrow>
          if hd keys = AttributesPrefix then
            (if length keys = 1
             then Inl (StdError ''attributes cannot be referenced without subfield'')
             else Inr (AttributeField (tl keys)))
          else if hd keys = ResourcePrefix then
            (if length keys = 1
             then Inl (StdError ''resource cannot be referenced without subfield'')
             else Inr (ResourceField (tl keys)))
          else if hd keys = BodyPrefix then Inr (BodyField (tl keys))
          else Inl (StdError ''unrecognized prefix''))"

text \<open>
  \<open>UnmarshalJSON\<close> and \<open>UnmarshalYAML\<close> of \<open>Field\<close> differ only in the decoder of the raw bytes, which
  is a parameter.
\<close>

definition Field_unmarshal :: "('raw \<Rightarrow> gerror + string) \<Rightarrow> 'raw \<Rightarrow> gerror + field" where
  "Field_unmarshal decode raw = (case decode raw of Inl e \<Rightarrow> Inl e | Inr s \<Rightarrow> NewField s)"

definition Field_MarshalJSON :: "field \<Rightarrow> string" where
  "Field_MarshalJSON f = [double_quote] @ field_string f @ [double_quote]"

text \<open>The same for the three kinds of field, with their own prefix check.\<close>

definition unmarshal_keys :: "string \<Rightarrow> ('raw \<Rightarrow> gerror + string) \<Rightarrow> 'raw \<Rightarrow> gerror + string list" where
  "unmarshal_keys pre decode raw =
     (case decode raw of
        Inl e \<Rightarrow> Inl (StdError (''the field is not a string: '' @ error_text e))
      | Inr value \<Rightarrow>
          (case fromJSONDot value of
             Inl e \<Rightarrow> Inl e
           | Inr keys \<Rightarrow>
               if hd keys \<noteq> pre
               then Inl (StdError (''must start with '' @ quoted pre @ '': '' @ value))
               else Inr (tl keys)))"

definition BodyField_unmarshal :: "('raw \<Rightarrow> gerror + string) \<Rightarrow> 'raw \<Rightarrow> gerror + field" where
  "BodyField_unmarshal decode raw = map_sum id BodyField (unmarshal_keys BodyPrefix decode raw)"

definition AttributeField_unmarshal :: "('raw \<Rightarrow> gerror + string) \<Rightarrow> 'raw \<Rightarrow> gerror + field" where
  "AttributeField_unmarshal decode raw =
     map_sum id AttributeField (unmarshal_keys AttributesPrefix decode raw)"

definition ResourceField_unmarshal :: "('raw \<Rightarrow> gerror + string) \<Rightarrow> 'raw \<Rightarrow> gerror + field" where
  "ResourceField_unmarshal decode raw =
     map_sum id ResourceField (unmarshal_keys ResourcePrefix decode raw)"

section \<open>The reference machine\<close>

datatype tok =
    TBegin | TInBracket | TInQuote char string | TOutQuote | TOutBracket | TUnbracketed string

fun tok_loop :: "tok \<Rightarrow> string list \<Rightarrow> string \<Rightarrow> (tok \<times> string list) option" where
  "tok_loop t fs [] = Some (t, fs)"
| "tok_loop TBegin fs (c # cs) =
     (if c = CHR ''['' then tok_loop TInBracket fs cs else tok_loop (TUnbracketed [c]) fs cs)"
| "tok_loop TInBracket fs (c # cs) =
     (if c = single_quote \<or> c = double_quote then tok_loop (TInQuote c []) fs cs else None)"
| "tok_loop (TInQuote q w) fs (c # cs) =
     (if c = q then tok_loop TOutQuote (fs @ [w]) cs else tok_loop (TInQuote q (w @ [c])) fs cs)"
| "tok_loop TOutQuote fs (c # cs) =
     (if c = CHR '']'' then tok_loop TOutBracket fs cs else None)"
| "tok_loop TOutBracket fs (c # cs) =
     (if c = CHR ''.'' then tok_loop (TUnbracketed []) fs cs
      else if c = CHR ''['' then tok_loop TInBracket fs cs else None)"
| "tok_loop (TUnbracketed w) fs (c # cs) =
     (if c = CHR ''.'' then tok_loop (TUnbracketed []) (fs @ [w]) cs
      else if c = CHR ''['' then tok_loop TInBracket (fs @ [w]) cs
      else tok_loop (TUnbracketed (w @ [c])) fs cs)"

fun tok_end :: "tok \<times> string list \<Rightarrow> string list option" where
  "tok_end (TUnbracketed w, fs) = Some (fs @ [w])"
| "tok_end (TOutBracket, fs) = (if fs = [] then None else Some fs)"
| "tok_end _ = None"

definition tok_split :: "string \<Rightarrow> string list option" where
  "tok_split s = Option.bind (tok_loop TBegin [] s) tok_end"

text \<open>The token that the machine of the code would read at offset \<open>i\<close>.\<close>

definition tok_of :: "string \<Rightarrow> nat \<Rightarrow> split \<Rightarrow> tok" where
  "tok_of s i x =
     (case state x of
        Begin \<Rightarrow> TBegin
      | InBracket \<Rightarrow> TInBracket
      | InQuote \<Rightarrow> TInQuote (quoteChar x) (slice s (tokenStart x) i)
      | OutQuote \<Rightarrow> TOutQuote
      | OutBracket \<Rightarrow> TOutBracket
      | InUnbracketedToken \<Rightarrow> TUnbracketed (slice s (tokenStart x) i))"

definition split_ok :: "nat \<Rightarrow> split \<Rightarrow> bool" where
  "split_ok i x \<longleftrightarrow>
     (state x = InQuote \<or> state x = InUnbracketedToken \<longrightarrow> tokenStart x \<le> i)
     \<and> (state x = OutBracket \<longrightarrow> split_fields x \<noteq> []) \<and> (state x = OutQuote \<longrightarrow> split_fields x \<noteq> [])
     \<and> (state x = Begin \<longrightarrow> split_fields x = [])"

lemma slice_self [simp]: "slice s i i = []"
  by (simp add: slice_def)

lemma slice_Suc:
  "a \<le> i \<Longrightarrow> drop i s = c # cs \<Longrightarrow> slice s a (Suc i) = slice s a i @ [c]"
proof -
  assume a: "a \<le> i" and d: "drop i s = c # cs"
  have len: "i < length s" and nth: "s ! i = c"
    using d by (metis drop_eq_Nil2 linorder_not_less list.distinct(1))
      (metis d hd_drop_conv_nth drop_eq_Nil2 linorder_not_less list.distinct(1) list.sel(1))
  have "slice s a (Suc i) = take (Suc (i - a)) (drop a s)"
    using a by (simp add: slice_def Suc_diff_le)
  also have "\<dots> = take (i - a) (drop a s) @ [drop a s ! (i - a)]"
    using a len by (intro take_Suc_conv_app_nth) simp
  also have "\<dots> = slice s a i @ [c]"
    using a len nth by (simp add: slice_def)
  finally show ?thesis .
qed

lemma slice_to_end: "a \<le> length s \<Longrightarrow> slice s a (length s) = drop a s"
  by (simp add: slice_def)

lemma split_step_tok:
  assumes "split_ok i x" "drop i s = c # cs"
  shows "case split_step s i c x of
           Inl e \<Rightarrow> tok_loop (tok_of s i x) (split_fields x) (c # cs) = None
         | Inr x' \<Rightarrow> split_ok (Suc i) x' \<and>
             tok_loop (tok_of s i x) (split_fields x) (c # cs) = tok_loop (tok_of s (Suc i) x') (split_fields x') cs"
proof -
  have one: "slice s i (Suc i) = [c]"
    using slice_Suc [OF _ assms(2), of i] by simp
  show ?thesis
    using assms one slice_Suc [OF _ assms(2), of "tokenStart x"]
    by (cases "state x") (auto simp: split_step_def split_ok_def tok_of_def)
qed

lemma split_loop_tok:
  "split_ok i x \<Longrightarrow> drop i s = cs \<Longrightarrow> i \<le> length s \<Longrightarrow>
   (case split_loop s i cs x of
      Inl e \<Rightarrow> tok_loop (tok_of s i x) (split_fields x) cs = None
    | Inr x' \<Rightarrow> split_ok (length s) x' \<and>
        tok_loop (tok_of s i x) (split_fields x) cs = Some (tok_of s (length s) x', split_fields x'))"
proof (induction cs arbitrary: i x)
  case Nil
  then have "i = length s" by simp
  with Nil show ?case by simp
next
  case (Cons c cs)
  have len: "i < length s" using Cons.prems(2) by (metis drop_eq_Nil2 linorder_not_less list.distinct(1))
  have rest: "drop (Suc i) s = cs" using Cons.prems(2) by (metis drop_Suc list.sel(3) tl_drop)
  note step = split_step_tok [OF Cons.prems(1,2)]
  show ?case
  proof (cases "split_step s i c x")
    case (Inl e)
    with step show ?thesis by simp
  next
    case (Inr x')
    with step have ok: "split_ok (Suc i) x'" and
      eq: "tok_loop (tok_of s i x) (split_fields x) (c # cs) = tok_loop (tok_of s (Suc i) x') (split_fields x') cs"
      by auto
    from Cons.IH [OF ok rest] len Inr eq show ?thesis by (simp split: sum.splits)
  qed
qed

lemma split_end_tok:
  assumes "split_ok (length s) x"
  shows "(case split_end s x of Inl e \<Rightarrow> None | Inr fs \<Rightarrow> Some fs)
         = tok_end (tok_of s (length s) x, split_fields x)"
proof (cases "state x")
  case InUnbracketedToken
  then have "slice s (tokenStart x) (length s) = drop (tokenStart x) s"
    using assms by (auto simp: split_ok_def slice_to_end)
  with InUnbracketedToken show ?thesis by (simp add: split_end_def tok_of_def Let_def)
next
  case Begin
  then show ?thesis using assms by (simp add: split_end_def tok_of_def Let_def split_ok_def)
qed (use assms in \<open>simp_all add: split_end_def tok_of_def Let_def split_ok_def\<close>)

lemma fromJSONDot_tok:
  "(case fromJSONDot s of Inl e \<Rightarrow> None | Inr fs \<Rightarrow> Some fs) = tok_split s"
proof -
  have ok: "split_ok 0 split_init" by (simp add: split_ok_def split_init_def)
  have t: "tok_of s 0 split_init = TBegin" "split_fields split_init = []"
    by (simp_all add: tok_of_def split_init_def)
  show ?thesis
  proof (cases "split_loop s 0 s split_init")
    case (Inl e)
    then show ?thesis
      using split_loop_tok [OF ok, of s s] by (simp add: fromJSONDot_def tok_split_def t)
  next
    case (Inr x)
    then show ?thesis
      using split_loop_tok [OF ok, of s s] split_end_tok [of s x]
      by (simp add: fromJSONDot_def tok_split_def t)
  qed
qed

lemma fromJSONDot_Inr: "fromJSONDot s = Inr fs \<longleftrightarrow> tok_split s = Some fs"
  using fromJSONDot_tok [of s] by (auto split: sum.splits)

lemma fromJSONDot_nonempty: "fromJSONDot s = Inr fs \<Longrightarrow> fs \<noteq> []"
proof -
  assume "fromJSONDot s = Inr fs"
  then obtain r where "tok_end r = Some fs"
    by (auto simp: fromJSONDot_Inr tok_split_def bind_eq_Some_conv)
  then show ?thesis by (cases r rule: tok_end.cases) (auto split: if_splits)
qed

section \<open>Reading back what was printed\<close>

text \<open>
  The printer chooses brackets for the whole path as soon as one key holds a dot.  It never escapes
  a key, so a quote in a bracketed path or an opening bracket in a dotted one is misread.
\<close>

definition printable :: "string list \<Rightarrow> bool" where
  "printable keys =
     (if list_ex (\<lambda>key. CHR ''.'' \<in> set key) keys then list_all (\<lambda>key. single_quote \<notin> set key) keys
      else list_all (\<lambda>key. CHR ''['' \<notin> set key) keys)"

lemma tok_loop_plain:
  "CHR ''.'' \<notin> set w \<Longrightarrow> CHR ''['' \<notin> set w \<Longrightarrow>
   tok_loop (TUnbracketed u) fs (w @ rest) = tok_loop (TUnbracketed (u @ w)) fs rest"
  by (induction w arbitrary: u) auto

lemma tok_loop_quoted:
  "q \<notin> set w \<Longrightarrow> tok_loop (TInQuote q u) fs (w @ rest) = tok_loop (TInQuote q (u @ w)) fs rest"
  by (induction w arbitrary: u) auto

lemma tok_loop_start:
  "w \<noteq> [] \<Longrightarrow> CHR ''.'' \<notin> set w \<Longrightarrow> CHR ''['' \<notin> set w \<Longrightarrow>
   tok_loop TBegin fs (w @ rest) = tok_loop (TUnbracketed w) fs rest"
  by (cases w) (auto simp: tok_loop_plain)

lemma tok_loop_join:
  "list_all (\<lambda>key. CHR ''.'' \<notin> set key \<and> CHR ''['' \<notin> set key) (k # ks) \<Longrightarrow>
   tok_loop (TUnbracketed []) fs (str_join (k # ks) ''.'')
   = Some (TUnbracketed (last (k # ks)), fs @ butlast (k # ks))"
proof (induction ks arbitrary: k fs)
  case Nil
  then show ?case using tok_loop_plain [of k "[]" fs "[]"] by simp
next
  case (Cons k' ks)
  then have "tok_loop (TUnbracketed []) fs (str_join (k # k' # ks) ''.'')
    = tok_loop (TUnbracketed []) (fs @ [k]) (str_join (k' # ks) ''.'')"
    by (simp add: tok_loop_plain)
  also have "\<dots> = Some (TUnbracketed (last (k' # ks)), (fs @ [k]) @ butlast (k' # ks))"
    using Cons by (intro Cons.IH) simp
  finally show ?case by simp
qed

lemma tok_loop_brackets:
  "list_all (\<lambda>key. single_quote \<notin> set key) ks \<Longrightarrow>
   tok_loop TOutBracket fs
     (concat (map (\<lambda>key. ''['' @ [single_quote] @ key @ [single_quote] @ '']'') ks))
   = Some (TOutBracket, fs @ ks)"
  by (induction ks arbitrary: fs) (auto simp: tok_loop_quoted)

lemma tok_loop_open:
  "tok_loop (TUnbracketed w) fs (CHR ''['' # cs) = tok_loop TOutBracket (fs @ [w]) (CHR ''['' # cs)"
  by simp

lemma tok_split_toJSONDot:
  assumes pre: "pre \<noteq> []" "CHR ''.'' \<notin> set pre" "CHR ''['' \<notin> set pre" and keys: "printable keys"
  shows "tok_split (toJSONDot pre keys) = Some (pre # keys)"
proof (cases keys)
  case Nil
  then show ?thesis
    using tok_loop_start [OF pre, of "[]" "[]"] by (simp add: toJSONDot_def tok_split_def)
next
  case (Cons k ks)
  show ?thesis
  proof (cases "list_ex (\<lambda>key. CHR ''.'' \<in> set key) keys")
    case True
    then have all: "list_all (\<lambda>key. single_quote \<notin> set key) keys"
      using keys by (simp add: printable_def)
    have "tok_split (toJSONDot pre keys) = Option.bind (tok_loop TOutBracket [pre]
        (concat (map (\<lambda>key. ''['' @ [single_quote] @ key @ [single_quote] @ '']'') keys))) tok_end"
      using True tok_loop_start [OF pre] Cons
      by (simp add: toJSONDot_def tok_split_def str_contains_char)
    then show ?thesis by (simp only: tok_loop_brackets [OF all]) simp
  next
    case False
    then have all: "list_all (\<lambda>key. CHR ''.'' \<notin> set key \<and> CHR ''['' \<notin> set key) (k # ks)"
      using keys Cons by (auto simp: printable_def list_all_iff list_ex_iff)
    have "tok_split (toJSONDot pre keys)
      = Option.bind (tok_loop (TUnbracketed []) [pre] (str_join keys ''.'')) tok_end"
      using False tok_loop_start [OF pre] Cons
      by (simp add: toJSONDot_def tok_split_def str_contains_char)
    then show ?thesis
      using tok_loop_join [OF all, of "[pre]"] Cons by simp
  qed
qed

text \<open>The fields that \<open>NewField\<close> can return.\<close>

fun nameable :: "field \<Rightarrow> bool" where
  "nameable NilField = False"
| "nameable (BodyField ks) = True"
| "nameable (AttributeField ks) = (ks \<noteq> [])"
| "nameable (ResourceField ks) = (ks \<noteq> [])"

fun field_keys :: "field \<Rightarrow> string list" where
  "field_keys NilField = []"
| "field_keys (BodyField ks) = ks"
| "field_keys (AttributeField ks) = ks"
| "field_keys (ResourceField ks) = ks"

lemma NewField_nameable: "NewField s = Inr f \<Longrightarrow> nameable f"
  by (auto simp: NewField_def length_Suc_conv dest!: fromJSONDot_nonempty split: sum.splits if_splits)
    (metis hd_Cons_tl length_Cons list.size(3))+

lemma NewField_total: "fromJSONDot s = Inr ks \<Longrightarrow> \<exists>k ks'. ks = k # ks'"
  using fromJSONDot_nonempty by (cases ks) auto

lemma tok_loop_fields: "tok_loop t fs cs = Some (t', fs') \<Longrightarrow> \<exists>gs. fs' = fs @ gs"
  by (induction t fs cs rule: tok_loop.induct) (auto split: if_splits)

lemma tok_end_fields: "tok_end (t, fs) = Some gs \<Longrightarrow> \<exists>hs. gs = fs @ hs"
  by (cases "(t, fs)" rule: tok_end.cases) (auto split: if_splits)

lemma tok_bind_fields:
  "Option.bind (tok_loop t fs cs) tok_end = Some gs \<Longrightarrow> \<exists>hs. gs = fs @ hs"
  by (auto simp: bind_eq_Some_conv dest!: tok_loop_fields tok_end_fields)

text \<open>A dotted path whose keys hold an opening bracket is cut at the first one.\<close>

lemma tok_loop_join_cut:
  assumes "list_all (\<lambda>key. CHR ''.'' \<notin> set key) ks" "\<not> list_all (\<lambda>key. CHR ''['' \<notin> set key) ks"
    "Option.bind (tok_loop (TUnbracketed []) fs (str_join ks ''.'')) tok_end = Some gs"
  shows "gs \<noteq> fs @ ks"
  using assms
proof (induction ks arbitrary: fs)
  case (Cons k ks)
  show ?case
  proof (cases "CHR ''['' \<in> set k")
    case True
    then obtain u v where k: "k = u @ CHR ''['' # v" and u: "CHR ''['' \<notin> set u"
      by (metis split_list_first)
    obtain r where r: "str_join (k # ks) ''.'' = u @ CHR ''['' # r"
      by (cases ks) (auto simp: k)
    have "CHR ''.'' \<notin> set u" using Cons.prems(1) k by simp
    then have "tok_loop (TUnbracketed []) fs (str_join (k # ks) ''.'')
        = tok_loop TInBracket (fs @ [u]) r"
      using u unfolding r by (simp add: tok_loop_plain)
    with Cons.prems(3) obtain hs where "gs = (fs @ [u]) @ hs" using tok_bind_fields by metis
    then show ?thesis by (simp add: k)
  next
    case False
    with Cons.prems obtain k' ks' where ks: "ks = k' # ks'" by (cases ks) auto
    with False Cons.prems(1) have "tok_loop (TUnbracketed []) fs (str_join (k # ks) ''.'')
        = tok_loop (TUnbracketed []) (fs @ [k]) (str_join ks ''.'')"
      by (simp add: tok_loop_plain)
    with Cons.prems False have "gs \<noteq> (fs @ [k]) @ ks" by (intro Cons.IH) simp_all
    then show ?thesis by simp
  qed
qed simp

text \<open>A bracketed path whose keys hold a quote is cut at the first one.\<close>

lemma tok_loop_brackets_cut:
  assumes "\<not> list_all (\<lambda>key. single_quote \<notin> set key) ks"
    "Option.bind (tok_loop TOutBracket fs
       (concat (map (\<lambda>key. ''['' @ [single_quote] @ key @ [single_quote] @ '']'') ks))) tok_end
     = Some gs"
  shows "gs \<noteq> fs @ ks"
  using assms
proof (induction ks arbitrary: fs)
  case (Cons k ks)
  show ?case
  proof (cases "single_quote \<in> set k")
    case True
    then obtain u v where k: "k = u @ single_quote # v" and u: "single_quote \<notin> set u"
      by (metis split_list_first)
    let ?r = "v @ [single_quote] @ '']'' @
      concat (map (\<lambda>key. ''['' @ [single_quote] @ key @ [single_quote] @ '']'') ks)"
    from u Cons.prems(2) have "Option.bind (tok_loop TOutQuote (fs @ [u]) ?r) tok_end = Some gs"
      by (simp add: k tok_loop_quoted)
    then obtain hs where "gs = (fs @ [u]) @ hs" using tok_bind_fields by metis
    then show ?thesis by (simp add: k)
  next
    case False
    with Cons.prems have "gs \<noteq> (fs @ [k]) @ ks"
      by (intro Cons.IH) (simp_all add: tok_loop_quoted)
    then show ?thesis by simp
  qed
qed simp

lemma tok_split_toJSONDot_cut:
  assumes pre: "pre \<noteq> []" "CHR ''.'' \<notin> set pre" "CHR ''['' \<notin> set pre"
    and keys: "\<not> printable keys"
  shows "tok_split (toJSONDot pre keys) \<noteq> Some (pre # keys)"
proof
  assume eq: "tok_split (toJSONDot pre keys) = Some (pre # keys)"
  from keys obtain k ks where ne: "keys = k # ks" by (cases keys) (auto simp: printable_def)
  show False
  proof (cases "list_ex (\<lambda>key. CHR ''.'' \<in> set key) keys")
    case True
    then have "Option.bind (tok_loop TOutBracket [pre]
        (concat (map (\<lambda>key. ''['' @ [single_quote] @ key @ [single_quote] @ '']'') keys))) tok_end
        = Some (pre # keys)"
      using eq tok_loop_start [OF pre] ne
      by (simp add: toJSONDot_def tok_split_def str_contains_char)
    with True keys tok_loop_brackets_cut [of keys "[pre]"] show False
      by (simp add: printable_def)
  next
    case False
    then have "Option.bind (tok_loop (TUnbracketed []) [pre] (str_join keys ''.'')) tok_end
        = Some (pre # keys)"
      using eq tok_loop_start [OF pre] ne
      by (simp add: toJSONDot_def tok_split_def str_contains_char)
    with False keys tok_loop_join_cut [of keys "[pre]"] show False
      by (auto simp: printable_def list_all_iff list_ex_iff)
  qed
qed

lemma fromJSONDot_toJSONDot:
  assumes "pre \<in> {BodyPrefix, AttributesPrefix, ResourcePrefix}"
  shows "fromJSONDot (toJSONDot pre keys) = Inr (pre # keys) \<longleftrightarrow> printable keys"
proof -
  have "pre \<noteq> []" "CHR ''.'' \<notin> set pre" "CHR ''['' \<notin> set pre"
    using assms by (auto simp: BodyPrefix_def AttributesPrefix_def ResourcePrefix_def)
  then show ?thesis
    using tok_split_toJSONDot tok_split_toJSONDot_cut by (auto simp: fromJSONDot_Inr)
qed

lemma NewField_Inr_iff:
  "nameable f \<Longrightarrow> NewField s = Inr f \<longleftrightarrow>
   fromJSONDot s = Inr ((case f of BodyField _ \<Rightarrow> BodyPrefix | AttributeField _ \<Rightarrow> AttributesPrefix
       | ResourceField _ \<Rightarrow> ResourcePrefix | NilField \<Rightarrow> []) # field_keys f)"
proof (cases "fromJSONDot s")
  case (Inr ks)
  assume f: "nameable f"
  from Inr obtain k ks' where "ks = k # ks'" using NewField_total by blast
  with Inr f show ?thesis
    by (cases f)
      (auto simp: NewField_def BodyPrefix_def AttributesPrefix_def ResourcePrefix_def)
qed (simp add: NewField_def)

text \<open>
  C22: reading back a printed field.  For every field that \<open>NewField\<close> can return, \<open>NewField\<close> applied
  to its \<open>String\<close> gives the field back exactly when the unescaped notation can show its keys: a
  path with a dot in some key (printed in brackets) must not hold a single quote, a path without
  dots (printed dotted) must not hold an opening bracket.  Other fields, which the parser accepts
  in double quotes, are misread after printing.
\<close>

theorem NewField_String_roundtrip:
  assumes "nameable f"
  shows "NewField (field_string f) = Inr f \<longleftrightarrow> printable (field_keys f)"
  using assms fromJSONDot_toJSONDot by (cases f) (auto simp: NewField_Inr_iff)

theorem NewField_String_roundtrip_witness:
  "NewField (field_string (BodyField [''a.b'', ''c''])) = Inr (BodyField [''a.b'', ''c''])
   \<and> NewField (field_string (AttributeField [''a[b''])) \<noteq> Inr (AttributeField [''a[b''])"
  using NewField_String_roundtrip [of "BodyField [''a.b'', ''c'']"]
    NewField_String_roundtrip [of "AttributeField [''a[b'']"]
  by (simp add: printable_def)

end
