(* ===== verification/Entries.thy ===== *)
theory Entries
  imports Values Field_Path "HOL-Library.Sublist"
begin

text \<open>
  Log entries and the fields that read and write them: \<open>entry/entry.go\<close>, \<open>entry/body_field.go\<close>,
  \<open>entry/attribute_field.go\<close>, \<open>entry/resource_field.go\<close> and \<open>entry/nil_field.go\<close>.

  An entry is a record with the fields of the Go struct.  The two maps may be \<open>nil\<close>, so they are
  optional.  The code changes an entry in place through a pointer; the model returns the new entry.
  The loops over the keys of a field, which walk down nested maps by reference, are the \<open>path_\<close>
  functions: they rebuild the maps on the way back up.

  The locale \<open>nested_field\<close> is the interface \<open>FieldInterface\<close> with the laws its users rely on; it
  is interpreted for the body, attribute and resource fields with at least one key.
\<close>

type_synonym severity = int

record entry =
  ObservedTimestamp :: gtime
  Timestamp :: gtime
  Body :: gval
  Attributes :: "gval gomap option"
  Resource :: "gval gomap option"
  SeverityText :: string
  SpanId :: "string option"
  TraceId :: "string option"
  TraceFlags :: "string option"
  Severity :: severity
  ScopeName :: string

text \<open>\<open>New()\<close>; the observed timestamp is the clock's.\<close>

definition New :: "gtime \<Rightarrow> entry" where
  "New now = \<lparr>ObservedTimestamp = now, Timestamp = zero_time, Body = VNil, Attributes = None,
     Resource = None, SeverityText = [], SpanId = None, TraceId = None, TraceFlags = None,
     Severity = 0, ScopeName = []\<rparr>"

definition nonnil :: "gval gomap option \<Rightarrow> gval gomap" where
  "nonnil m = (case m of None \<Rightarrow> fmempty | Some m' \<Rightarrow> m')"

definition AddAttribute :: "string \<Rightarrow> string \<Rightarrow> entry \<Rightarrow> entry" where
  "AddAttribute key val e = e\<lparr>Attributes := Some (fmupd key (VString val) (nonnil (Attributes e)))\<rparr>"

definition AddResourceKey :: "string \<Rightarrow> string \<Rightarrow> entry \<Rightarrow> entry" where
  "AddResourceKey key val e = e\<lparr>Resource := Some (fmupd key (VString val) (nonnil (Resource e)))\<rparr>"

section \<open>Paths through nested maps\<close>

fun path_get :: "string list \<Rightarrow> gval \<Rightarrow> gval option" where
  "path_get [] v = Some v"
| "path_get (k # ks) (VMap m) =
     (case fmlookup m k of Some v \<Rightarrow> path_get ks v | None \<Rightarrow> None)"
| "path_get (k # ks) _ = None"

text \<open>\<open>getNestedMap\<close>: the map under a key, an empty one where there is none.\<close>

definition getNestedMap :: "gval gomap \<Rightarrow> string \<Rightarrow> gval gomap" where
  "getNestedMap currentMap key =
     (case fmlookup currentMap key of Some (VMap m) \<Rightarrow> m | _ \<Rightarrow> fmempty)"

fun path_set :: "string list \<Rightarrow> gval \<Rightarrow> gval gomap \<Rightarrow> gval gomap" where
  "path_set [] v m = m"
| "path_set [k] v m = fmupd k v m"
| "path_set (k # ks) v m = fmupd k (VMap (path_set ks v (getNestedMap m k))) m"

fun path_merge :: "string list \<Rightarrow> gval gomap \<Rightarrow> gval gomap \<Rightarrow> gval gomap" where
  "path_merge [] vals m = m ++\<^sub>f vals"
| "path_merge (k # ks) vals m = fmupd k (VMap (path_merge ks vals (getNestedMap m k))) m"

fun path_delete :: "string list \<Rightarrow> gval gomap \<Rightarrow> (gval gomap \<times> gval) option" where
  "path_delete [] m = None"
| "path_delete [k] m = map_option (\<lambda>v. (fmdrop k m, v)) (fmlookup m k)"
| "path_delete (k # ks) m =
     (case fmlookup m k of
        Some (VMap m') \<Rightarrow> map_option (\<lambda>(m'', v). (fmupd k (VMap m'') m, v)) (path_delete ks m')
      | _ \<Rightarrow> None)"

section \<open>Body fields\<close>

definition as_map :: "gval \<Rightarrow> gval gomap" where
  "as_map v = (case v of VMap m \<Rightarrow> m | _ \<Rightarrow> fmempty)"

definition BodyField_Get :: "string list \<Rightarrow> entry \<Rightarrow> gval option" where
  "BodyField_Get keys e = path_get keys (Body e)"

definition BodyField_Merge :: "string list \<Rightarrow> gval gomap \<Rightarrow> entry \<Rightarrow> entry" where
  "BodyField_Merge keys mapValues e =
     e\<lparr>Body := VMap (path_merge keys mapValues (as_map (Body e)))\<rparr>"

definition BodyField_Set :: "string list \<Rightarrow> gval \<Rightarrow> entry \<Rightarrow> entry \<times> gerror option" where
  "BodyField_Set keys v e =
     (case v of
        VMap mapValue \<Rightarrow> (BodyField_Merge keys mapValue e, None)
      | _ \<Rightarrow>
          if keys = [] then (e\<lparr>Body := v\<rparr>, None)
          else (e\<lparr>Body := VMap (path_set keys v (as_map (Body e)))\<rparr>, None))"

definition BodyField_Delete :: "string list \<Rightarrow> entry \<Rightarrow> entry \<times> gval option" where
  "BodyField_Delete keys e =
     (if keys = [] then (e\<lparr>Body := VNil\<rparr>, Some (Body e))
      else case Body e of
             VMap m \<Rightarrow>
               (case path_delete keys m of
                  Some (m', v) \<Rightarrow> (e\<lparr>Body := VMap m'\<rparr>, Some v)
                | None \<Rightarrow> (e, None))
           | _ \<Rightarrow> (e, None))"

section \<open>Attribute fields\<close>

definition AttributeField_Get :: "string list \<Rightarrow> entry \<Rightarrow> gval option" where
  "AttributeField_Get keys e =
     (case Attributes e of None \<Rightarrow> None | Some m \<Rightarrow> path_get keys (VMap m))"

definition AttributeField_Merge :: "string list \<Rightarrow> gval gomap \<Rightarrow> entry \<Rightarrow> entry" where
  "AttributeField_Merge keys mapValues e =
     e\<lparr>Attributes := Some (path_merge keys mapValues (nonnil (Attributes e)))\<rparr>"

definition AttributeField_Set :: "string list \<Rightarrow> gval \<Rightarrow> entry \<Rightarrow> entry \<times> gerror option" where
  "AttributeField_Set keys v e =
     (let e = e\<lparr>Attributes := Some (nonnil (Attributes e))\<rparr>
      in case v of
           VMap mapValue \<Rightarrow> (AttributeField_Merge keys mapValue e, None)
         | _ \<Rightarrow>
             if keys = [] then (e, Some (StdError ''cannot set attributes root''))
             else (e\<lparr>Attributes := Some (path_set keys v (nonnil (Attributes e)))\<rparr>, None))"

definition AttributeField_Delete :: "string list \<Rightarrow> entry \<Rightarrow> entry \<times> gval option" where
  "AttributeField_Delete keys e =
     (case Attributes e of
        None \<Rightarrow> (e, None)
      | Some m \<Rightarrow>
          if keys = [] then (e\<lparr>Attributes := None\<rparr>, Some (VMap m))
          else (case path_delete keys m of
                  Some (m', v) \<Rightarrow> (e\<lparr>Attributes := Some m'\<rparr>, Some v)
                | None \<Rightarrow> (e, None)))"

section \<open>Resource fields\<close>

definition ResourceField_Get :: "string list \<Rightarrow> entry \<Rightarrow> gval option" where
  "ResourceField_Get keys e =
     (case Resource e of None \<Rightarrow> None | Some m \<Rightarrow> path_get keys (VMap m))"

definition ResourceField_Merge :: "string list \<Rightarrow> gval gomap \<Rightarrow> entry \<Rightarrow> entry" where
  "ResourceField_Merge keys mapValues e =
     e\<lparr>Resource := Some (path_merge keys mapValues (nonnil (Resource e)))\<rparr>"

definition ResourceField_Set :: "string list \<Rightarrow> gval \<Rightarrow> entry \<Rightarrow> entry \<times> gerror option" where
  "ResourceField_Set keys v e =
     (let e = e\<lparr>Resource := Some (nonnil (Resource e))\<rparr>
      in case v of
           VMap mapValue \<Rightarrow> (ResourceField_Merge keys mapValue e, None)
         | _ \<Rightarrow>
             if keys = [] then (e, Some (StdError ''cannot set resource root''))
             else (e\<lparr>Resource := Some (path_set keys v (nonnil (Resource e)))\<rparr>, None))"

definition ResourceField_Delete :: "string list \<Rightarrow> entry \<Rightarrow> entry \<times> gval option" where
  "ResourceField_Delete keys e =
     (case Resource e of
        None \<Rightarrow> (e, None)
      | Some m \<Rightarrow>
          if keys = [] then (e\<lparr>Resource := None\<rparr>, Some (VMap m))
          else (case path_delete keys m of
                  Some (m', v) \<Rightarrow> (e\<lparr>Resource := Some m'\<rparr>, Some v)
                | None \<Rightarrow> (e, None)))"

section \<open>Any field\<close>

text \<open>The dispatch of \<open>FieldInterface\<close>; the operations of \<open>NilField\<close> do nothing and succeed.\<close>

fun field_Get :: "field \<Rightarrow> entry \<Rightarrow> gval option" where
  "field_Get NilField e = Some VNil"
| "field_Get (BodyField ks) e = BodyField_Get ks e"
| "field_Get (AttributeField ks) e = AttributeField_Get ks e"
| "field_Get (ResourceField ks) e = ResourceField_Get ks e"

fun field_Set :: "field \<Rightarrow> gval \<Rightarrow> entry \<Rightarrow> entry \<times> gerror option" where
  "field_Set NilField v e = (e, None)"
| "field_Set (BodyField ks) v e = BodyField_Set ks v e"
| "field_Set (AttributeField ks) v e = AttributeField_Set ks v e"
| "field_Set (ResourceField ks) v e = ResourceField_Set ks v e"

fun field_Delete :: "field \<Rightarrow> entry \<Rightarrow> entry \<times> gval option" where
  "field_Delete NilField e = (e, Some VNil)"
| "field_Delete (BodyField ks) e = BodyField_Delete ks e"
| "field_Delete (AttributeField ks) e = AttributeField_Delete ks e"
| "field_Delete (ResourceField ks) e = ResourceField_Delete ks e"

definition isRoot :: "string list \<Rightarrow> bool" where
  "isRoot keys \<longleftrightarrow> keys = []"

definition Parent :: "string list \<Rightarrow> string list" where
  "Parent keys = (if isRoot keys then keys else butlast keys)"

definition Child :: "string list \<Rightarrow> string \<Rightarrow> string list" where
  "Child keys key = keys @ [key]"

section \<open>Typed reads\<close>

text \<open>
  The destination keeps its old contents on an error.  Ranging over a map is in ascending order of
  its keys here; the order decides only which offending member the error names.
\<close>

datatype dest =
    ToString string | ToInterfaceMap "gval gomap" | ToStringMap "string gomap" | ToInterface gval
  | ToOther string

definition readToInterface :: "field \<Rightarrow> entry \<Rightarrow> gval \<Rightarrow> gval \<times> gerror option" where
  "readToInterface f e dest =
     (case field_Get f e of
        None \<Rightarrow> (dest, Some (StdError (''field '' @ quoted (field_string f) @ '' is missing and can not be read as a interface{}'')))
      | Some v \<Rightarrow> (v, None))"

definition readToString :: "field \<Rightarrow> entry \<Rightarrow> string \<Rightarrow> string \<times> gerror option" where
  "readToString f e dest =
     (case field_Get f e of
        None \<Rightarrow> (dest, Some (StdError (''field '' @ quoted (field_string f) @ '' is missing and can not be read as a string'')))
      | Some (VString s) \<Rightarrow> (s, None)
      | Some (VBytes s) \<Rightarrow> (s, None)
      | Some v \<Rightarrow> (dest, Some (StdError (''field '' @ quoted (field_string f) @ '' of type '' @ go_type v
                    @ '' can not be cast to a string''))))"

definition readToInterfaceMap :: "field \<Rightarrow> entry \<Rightarrow> gval gomap \<Rightarrow> gval gomap \<times> gerror option" where
  "readToInterfaceMap f e dest =
     (case field_Get f e of
        None \<Rightarrow> (dest, Some (StdError (''field '' @ quoted (field_string f) @ '' is missing and can not be read as a map[string]interface{}'')))
      | Some (VMap m) \<Rightarrow> (m, None)
      | Some v \<Rightarrow> (dest, Some (StdError (''field '' @ quoted (field_string f) @ '' of type '' @ go_type v
                    @ '' can not be cast to a map[string]interface{}''))))"

text \<open>
  \<open>fmt_s\<close> is what \<open>fmt\<close> prints for a value that is not a string under the verb \<open>%s\<close>.  Of several such
  members the one is named that Go comes to first; here it is the first in the order of the keys.
\<close>

fun string_members :: "(gval \<Rightarrow> string) \<Rightarrow> (string \<times> gval) list \<Rightarrow> gerror + string gomap" where
  "string_members fmt_s [] = Inr fmempty"
| "string_members fmt_s ((k, v) # kvs) =
     (case v of
        VString s \<Rightarrow> map_sum id (fmupd k s) (string_members fmt_s kvs)
      | _ \<Rightarrow> Inl (StdError (''can not cast map members '' @ quoted k @ '' of type ''
              @ quoted (fmt_s v) @ '' to string'')))"

fun iface_members :: "(gval \<times> gval) list \<Rightarrow> gerror + string gomap" where
  "iface_members [] = Inr fmempty"
| "iface_members ((k, v) # kvs) =
     (case k of
        VString keyStr \<Rightarrow>
          (case v of
             VString vStr \<Rightarrow> map_sum id (fmupd keyStr vStr) (iface_members kvs)
           | _ \<Rightarrow> Inl (StdError (''can not cast map value of type '' @ go_type v @ '' to string'')))
      | _ \<Rightarrow> Inl (StdError (''can not cast map key of type '' @ go_type k @ '' to string'')))"

definition readToStringMap :: "(gval \<Rightarrow> string) \<Rightarrow> field \<Rightarrow> entry \<Rightarrow> string gomap \<Rightarrow> string gomap \<times> gerror option" where
  "readToStringMap fmt_s f e dest =
     (case field_Get f e of
        None \<Rightarrow> (dest, Some (StdError (''field '' @ quoted (field_string f) @ '' is missing and can not be read as a map[string]string{}'')))
      | Some (VMap m) \<Rightarrow>
          (case string_members fmt_s (sorted_list_of_fmap m) of Inl err \<Rightarrow> (dest, Some err) | Inr d \<Rightarrow> (d, None))
      | Some (VIfaceMap kvs) \<Rightarrow>
          (case iface_members kvs of Inl err \<Rightarrow> (dest, Some err) | Inr d \<Rightarrow> (d, None))
      | Some _ \<Rightarrow> (dest, None))"

fun Read :: "(gval \<Rightarrow> string) \<Rightarrow> field \<Rightarrow> entry \<Rightarrow> dest \<Rightarrow> dest \<times> gerror option" where
  "Read fmt_s f e (ToString d) = apfst ToString (readToString f e d)"
| "Read fmt_s f e (ToInterfaceMap d) = apfst ToInterfaceMap (readToInterfaceMap f e d)"
| "Read fmt_s f e (ToStringMap d) = apfst ToStringMap (readToStringMap fmt_s f e d)"
| "Read fmt_s f e (ToInterface d) = apfst ToInterface (readToInterface f e d)"
| "Read fmt_s f e (ToOther t) = (ToOther t, Some (StdError (''can not read to unsupported type '' @ t)))"

section \<open>Copying an entry\<close>

definition entry_Copy :: "entry \<Rightarrow> entry" where
  "entry_Copy e =
     \<lparr>ObservedTimestamp = ObservedTimestamp e, Timestamp = Timestamp e, Body = copyValue (Body e),
      Attributes = Some (copyInterfaceMap (Attributes e)),
      Resource = Some (copyInterfaceMap (Resource e)), SeverityText = SeverityText e,
      SpanId = Some (copyByteArray (SpanId e)), TraceId = Some (copyByteArray (TraceId e)),
      TraceFlags = Some (copyByteArray (TraceFlags e)), Severity = Severity e,
      ScopeName = ScopeName e\<rparr>"

end
