(* ===== verification/Line_Splitting.thy ===== *)
theory Line_Splitting
  imports Entries
begin

text \<open>
  Splitting a stream of bytes into log lines: \<open>operator/helper/multiline.go\<close>, with the flusher.

  A \<open>bufio.SplitFunc\<close> gets the buffered bytes and whether the input has ended, and gives the number of
  bytes to drop, a token or nil (\<open>None\<close>), and an error.  A regular expression is what
  \<open>FindIndex\<close> returns for it; an encoding is known by the bytes it gives for a character.  Times are
  nanoseconds of the monotonic clock.
\<close>

type_synonym split_func = "string \<Rightarrow> bool \<Rightarrow> nat \<times> string option \<times> gerror option"
type_synonym find_index = "string \<Rightarrow> (nat \<times> nat) option"

section \<open>Split functions\<close>

definition trimWhitespaces :: "string \<Rightarrow> string option" where
  "trimWhitespaces data =
     (let token = trim_left (trim_right data [CR, LF, CHR 0x09, CHR '' '']) [CR, LF]
      in if token = [] then None else Some token)"

definition NewLineStartSplitFunc :: "find_index \<Rightarrow> bool \<Rightarrow> split_func" where
  "NewLineStartSplitFunc findIndex flushAtEOF data atEOF =
     (case findIndex data of
        None \<Rightarrow>
          if data \<noteq> [] \<and> atEOF \<and> flushAtEOF then (length data, trimWhitespaces data, None)
          else (0, None, None)
      | Some (firstMatchStart, firstMatchEnd) \<Rightarrow>
          if firstMatchStart \<noteq> 0 \<and> trimWhitespaces (take firstMatchStart data) \<noteq> None
          then (firstMatchStart, trimWhitespaces (take firstMatchStart data), None)
          else if firstMatchEnd = length data then (0, None, None)
          else if atEOF \<and> flushAtEOF then (length data, trimWhitespaces data, None)
          else
            let secondLocOfset = firstMatchEnd + 1
            in (case findIndex (drop secondLocOfset data) of
                  None \<Rightarrow> (0, None, None)
                | Some (secondLocStart, _) \<Rightarrow>
                    let secondMatchStart = secondLocStart + secondLocOfset
                    in (secondMatchStart,
                        trimWhitespaces (drop firstMatchStart (take secondMatchStart data)), None)))"

text \<open>Every caller passes a positive size.\<close>

definition SplitNone :: "nat \<Rightarrow> split_func" where
  "SplitNone maxLogSize data atEOF =
     (if length data \<ge> maxLogSize then (maxLogSize, Some (take maxLogSize data), None)
      else if \<not> atEOF then (0, None, None)
      else if data = [] then (0, None, None)
      else (length data, Some data, None))"

definition NewLineEndSplitFunc :: "find_index \<Rightarrow> bool \<Rightarrow> split_func" where
  "NewLineEndSplitFunc findIndex flushAtEOF data atEOF =
     (case findIndex data of
        None \<Rightarrow>
          if data \<noteq> [] \<and> atEOF \<and> flushAtEOF then (length data, trimWhitespaces data, None)
          else (0, None, None)
      | Some (_, matchEnd) \<Rightarrow>
          if int matchEnd = int (length data) - 1 \<and> \<not> atEOF then (0, None, None)
          else (matchEnd, trimWhitespaces (take matchEnd data), None))"

definition newline_split :: "string \<Rightarrow> string \<Rightarrow> bool \<Rightarrow> split_func" where
  "newline_split newline carriageReturn flushAtEOF data atEOF =
     (if atEOF \<and> data = [] then (0, None, None)
      else case str_index data newline of
        Some i \<Rightarrow> (i + length newline, trimWhitespaces (trim_suffix (take i data) carriageReturn), None)
      | None \<Rightarrow>
          if atEOF \<and> flushAtEOF then (length data, trimWhitespaces data, None)
          else (0, None, None))"

record text_encoding =
  is_nop :: bool
  encode :: "string \<Rightarrow> gerror + string"

definition encodedNewline :: "text_encoding \<Rightarrow> gerror + string" where
  "encodedNewline enc = encode enc [LF]"

definition encodedCarriageReturn :: "text_encoding \<Rightarrow> gerror + string" where
  "encodedCarriageReturn enc = encode enc [CR]"

definition NewNewlineSplitFunc :: "text_encoding \<Rightarrow> bool \<Rightarrow> gerror + split_func" where
  "NewNewlineSplitFunc enc flushAtEOF =
     (case encodedNewline enc of
        Inl err \<Rightarrow> Inl err
      | Inr newline \<Rightarrow>
     (case encodedCarriageReturn enc of
        Inl err \<Rightarrow> Inl err
      | Inr carriageReturn \<Rightarrow> Inr (newline_split newline carriageReturn flushAtEOF)))"

section \<open>The flusher\<close>

record Flusher =
  forcePeriod :: int
  lastDataChange :: int
  previousDataLength :: nat

definition NewFlusherConfig :: int where
  "NewFlusherConfig = 500000000"

definition FlusherConfig_Build :: "int \<Rightarrow> int \<Rightarrow> Flusher" where
  "FlusherConfig_Build now period = \<lparr>forcePeriod = period, lastDataChange = now, previousDataLength = 0\<rparr>"

definition UpdateDataChangeTime :: "int \<Rightarrow> nat \<Rightarrow> Flusher \<Rightarrow> Flusher" where
  "UpdateDataChangeTime now len f =
     (if len > 0 \<and> len = previousDataLength f then f
      else f\<lparr>previousDataLength := len, lastDataChange := now\<rparr>)"

definition Flushed :: "int \<Rightarrow> Flusher \<Rightarrow> Flusher" where
  "Flushed now f = UpdateDataChangeTime now 0 f"

definition ShouldFlush :: "int \<Rightarrow> Flusher \<Rightarrow> bool" where
  "ShouldFlush now f \<longleftrightarrow>
     forcePeriod f > 0 \<and> now - lastDataChange f > forcePeriod f \<and> previousDataLength f > 0"

definition Flusher_SplitFunc ::
  "split_func \<Rightarrow> int \<Rightarrow> Flusher \<Rightarrow> string \<Rightarrow> bool \<Rightarrow> Flusher \<times> nat \<times> string option \<times> gerror option" where
  "Flusher_SplitFunc splitFunc now f data atEOF =
     (case splitFunc data atEOF of
        (advance, token, Some err) \<Rightarrow> (f, advance, token, Some err)
      | (advance, Some token, None) \<Rightarrow> (Flushed now f, advance, Some token, None)
      | (advance, None, None) \<Rightarrow>
          if ShouldFlush now f then (Flushed now f, length data, trimWhitespaces data, None)
          else (UpdateDataChangeTime now (length data) f, advance, None, None))"

section \<open>Choosing the split function\<close>

record MultilineConfig =
  LineStartPattern :: string
  LineEndPattern :: string

definition NewMultilineConfig :: MultilineConfig where
  "NewMultilineConfig = \<lparr>LineStartPattern = [], LineEndPattern = []\<rparr>"

text \<open>Whether the result is wrapped by the flusher is the second component.\<close>

definition getSplitFunc ::
  "(string \<Rightarrow> string + find_index) \<Rightarrow> MultilineConfig \<Rightarrow> text_encoding \<Rightarrow> bool \<Rightarrow> bool \<Rightarrow> nat \<Rightarrow> gerror + split_func \<times> bool" where
  "getSplitFunc compile c enc flushAtEOF has_force maxLogSize =
     (let endPattern = LineEndPattern c; startPattern = LineStartPattern c in
      if endPattern \<noteq> [] \<and> startPattern \<noteq> []
      then Inl (StdError ''only one of line_start_pattern or line_end_pattern can be set'')
      else if is_nop enc \<and> (endPattern \<noteq> [] \<or> startPattern \<noteq> [])
      then Inl (StdError ''line_start_pattern or line_end_pattern should not be set when using nop encoding'')
      else if is_nop enc then Inr (SplitNone maxLogSize, False)
      else map_sum id (\<lambda>f. (f, has_force))
        (if endPattern = [] \<and> startPattern = [] then NewNewlineSplitFunc enc flushAtEOF
         else if endPattern \<noteq> []
         then (case compile (''(?m)'' @ endPattern) of
                 Inl err \<Rightarrow> Inl (StdError (''compile line end regex: '' @ err))
               | Inr re \<Rightarrow> Inr (NewLineEndSplitFunc re flushAtEOF))
         else (case compile (''(?m)'' @ startPattern) of
                 Inl err \<Rightarrow> Inl (StdError (''compile line start regex: '' @ err))
               | Inr re \<Rightarrow> Inr (NewLineStartSplitFunc re flushAtEOF))))"

record Splitter =
  sp_split :: split_func
  sp_forced :: bool
  sp_flusher :: Flusher

definition SplitterConfig_Build ::
  "(string \<Rightarrow> string + find_index) \<Rightarrow> int \<Rightarrow> MultilineConfig \<Rightarrow> int \<Rightarrow> text_encoding \<Rightarrow> bool \<Rightarrow> nat \<Rightarrow> gerror + Splitter" where
  "SplitterConfig_Build compile now multiline period enc flushAtEOF maxLogSize =
     map_sum id (\<lambda>(f, forced). \<lparr>sp_split = f, sp_forced = forced, sp_flusher = FlusherConfig_Build now period\<rparr>)
       (getSplitFunc compile multiline enc flushAtEOF True maxLogSize)"

definition Splitter_Split ::
  "int \<Rightarrow> Splitter \<Rightarrow> string \<Rightarrow> bool \<Rightarrow> Splitter \<times> nat \<times> string option \<times> gerror option" where
  "Splitter_Split now s data atEOF =
     (if sp_forced s
      then (case Flusher_SplitFunc (sp_split s) now (sp_flusher s) data atEOF of
              (f, r) \<Rightarrow> (s\<lparr>sp_flusher := f\<rparr>, r))
      else (s, sp_split s data atEOF))"

end
