(* ===== verification/Field_Laws.thy ===== *)
theory Field_Laws
  imports Entries
begin

text \<open>
  What reading, writing and deleting a field promise to each other.  First the laws of the paths
  through nested maps, then the interface \<open>nested_field\<close> with its interpretations for the three kinds
  of field, then the laws between two fields (frames) and the laws of \<open>Entry.Copy\<close>.
\<close>

section \<open>Paths\<close>

text \<open>The map a value holds, an empty one for anything else.\<close>

definition map_at :: "gval option \<Rightarrow> gval gomap" where
  "map_at v = (case v of Some (VMap m) \<Rightarrow> m | _ \<Rightarrow> fmempty)"

definition independent :: "string list \<Rightarrow> string list \<Rightarrow> bool" where
  "independent ks js \<longleftrightarrow> \<not> prefix ks js \<and> \<not> prefix js ks"

definition is_map :: "gval \<Rightarrow> bool" where
  "is_map v \<longleftrightarrow> (\<exists>m. v = VMap m)"

lemma independent_Cons:
  "independent (k # ks) (j # js) \<longleftrightarrow> k \<noteq> j \<or> independent ks js"
  by (auto simp: independent_def)

lemma independent_Nil [simp]: "\<not> independent [] js" "\<not> independent ks []"
  by (auto simp: independent_def)

lemma independent_sym: "independent ks js \<longleftrightarrow> independent js ks"
  by (auto simp: independent_def)

lemma path_get_Cons:
  "path_get (k # ks) v = (case v of VMap m \<Rightarrow> Option.bind (fmlookup m k) (path_get ks) | _ \<Rightarrow> None)"
  by (cases v) (auto split: option.split)

lemma path_get_VMap [simp]:
  "path_get (k # ks) (VMap m) = Option.bind (fmlookup m k) (path_get ks)"
  by (simp add: path_get_Cons)

lemma path_get_Nil_Some [simp]: "path_get [] = Some"
  by (rule ext) simp

declare path_get.simps(2) [simp del]

lemma path_get_append: "path_get (ks @ js) v = Option.bind (path_get ks v) (path_get js)"
proof (induction ks arbitrary: v)
  case (Cons k ks)
  then have "path_get (ks @ js) = (\<lambda>v. Option.bind (path_get ks v) (path_get js))" by auto
  then show ?case by (cases v) auto
qed simp

lemma path_get_nested:
  "ks \<noteq> [] \<Longrightarrow> path_get ks (VMap (getNestedMap m k)) = path_get (k # ks) (VMap m)"
  by (cases ks) (auto simp: getNestedMap_def path_get_Cons split: option.split gval.split)

lemma map_at_nested: "map_at (path_get ks (VMap (getNestedMap m k))) = map_at (path_get (k # ks) (VMap m))"
  by (cases ks)
    (auto simp: getNestedMap_def path_get_Cons map_at_def split: option.split gval.split)

lemma path_get_set [path_laws]: "ks \<noteq> [] \<Longrightarrow> path_get ks (VMap (path_set ks v m)) = Some v"
  by (induction ks v m rule: path_set.induct) auto

lemma path_get_merge [path_laws]:
  "path_get ks (VMap (path_merge ks vals m)) = Some (VMap (map_at (path_get ks (VMap m)) ++\<^sub>f vals))"
proof (induction ks arbitrary: m)
  case Nil
  then show ?case by (simp add: map_at_def)
next
  case (Cons k ks)
  then show ?case by (simp add: map_at_nested [simplified])
qed

lemma path_set_frame [path_laws]:
  "independent ks js \<Longrightarrow> path_get js (VMap (path_set ks v m)) = path_get js (VMap m)"
proof (induction ks v m arbitrary: js rule: path_set.induct)
  case (2 k v m)
  then show ?case by (cases js) (auto simp: independent_Cons)
next
  case (3 k k' ks v m)
  obtain j js' where js: "js = j # js'" using "3.prems" by (cases js) auto
  show ?case
  proof (cases "k = j")
    case True
    with "3.prems" js have ind: "independent (k' # ks) js'" by (simp add: independent_Cons)
    then have "js' \<noteq> []" by auto
    with "3.IH" [OF ind] True js show ?thesis by (simp add: path_get_nested)
  qed (simp add: js)
qed simp

lemma path_merge_frame [path_laws]:
  "independent ks js \<Longrightarrow> path_get js (VMap (path_merge ks vals m)) = path_get js (VMap m)"
proof (induction ks arbitrary: js m)
  case (Cons k ks)
  obtain j js' where js: "js = j # js'" using Cons.prems by (cases js) auto
  show ?case
  proof (cases "k = j")
    case True
    with Cons.prems js have ind: "independent ks js'" by (simp add: independent_Cons)
    then have "js' \<noteq> []" by auto
    with Cons.IH [OF ind] True js show ?thesis by (simp add: path_get_nested)
  qed (simp add: js)
qed simp

lemma path_delete_Some:
  "path_delete ks m = Some (m', v) \<Longrightarrow>
   ks \<noteq> [] \<and> path_get ks (VMap m) = Some v \<and> path_get ks (VMap m') = None \<and> path_set ks v m' = m
   \<and> (\<forall>js. independent ks js \<longrightarrow> path_get js (VMap m') = path_get js (VMap m))"
proof (induction ks m arbitrary: m' v rule: path_delete.induct)
  case (2 k m)
  have "path_get js (VMap (fmdrop k m)) = path_get js (VMap m)" if "independent [k] js" for js
    using that by (cases js) (auto simp: independent_Cons)
  moreover have "fmupd k v (fmdrop k m) = m" if "fmlookup m k = Some v" for v
    using that by (intro fmap_eqI) auto
  moreover from "2.prems" have "m' = fmdrop k m" "fmlookup m k = Some v" by auto
  ultimately show ?case by simp
next
  case (3 k k' ks m)
  from "3.prems" obtain n n' where n: "fmlookup m k = Some (VMap n)"
    and d: "path_delete (k' # ks) n = Some (n', v)" and m': "m' = fmupd k (VMap n') m"
    by (auto split: option.splits gval.splits)
  note IH = "3.IH" [OF n [THEN trans] _ d, simplified]
  have IH: "path_get (k' # ks) (VMap n) = Some v \<and> path_get (k' # ks) (VMap n') = None
      \<and> path_set (k' # ks) v n' = n
      \<and> (\<forall>js. independent (k' # ks) js \<longrightarrow> path_get js (VMap n') = path_get js (VMap n))"
    using "3.IH" [of "VMap n" n] n d by auto
  have "path_get js (VMap m') = path_get js (VMap m)" if "independent (k # k' # ks) js" for js
    using that IH n m' by (cases js) (auto simp: independent_Cons path_get_VMap)
  moreover have "fmupd k (VMap n) m = m" using n by (intro fmap_eqI) auto
  ultimately show ?case using IH n m' by (auto simp: path_get_VMap getNestedMap_def)
qed simp

lemma path_delete_None_iff: "ks \<noteq> [] \<Longrightarrow> path_delete ks m = None \<longleftrightarrow> path_get ks (VMap m) = None"
  by (induction ks m rule: path_delete.induct)
    (auto simp: path_get_Cons split: option.splits gval.splits)

lemma path_set_set: "path_set ks v (path_set ks w m) = path_set ks v m"
  by (induction ks w m rule: path_set.induct) (auto simp: getNestedMap_def)

lemma path_merge_empty_at:
  "path_get ks (VMap m) = Some (VMap n) \<Longrightarrow> path_merge ks fmempty m = m"
proof (induction ks arbitrary: m)
  case (Cons k ks)
  then obtain v where k: "fmlookup m k = Some v" and v: "path_get ks v = Some (VMap n)"
    by (auto simp: path_get_VMap bind_eq_Some_conv)
  obtain m1 where "v = VMap m1" using v by (cases ks; cases v) auto
  with k v Cons.IH [of m1] show ?case
    by (auto simp: getNestedMap_def intro!: fmap_eqI)
qed simp

section \<open>The interface of a field\<close>

text \<open>
  \<open>FieldInterface\<close> of the code: \<open>Get\<close>, \<open>Set\<close>, \<open>Delete\<close>, for a field that names a place below the root of
  the body, the attributes or the resource.  Setting a plain value replaces what was there; setting
  a map merges into the map that was there; a deleted value is the one that could be read, and
  setting it again undoes the deletion.
\<close>

locale nested_field =
  fixes get :: "entry \<Rightarrow> gval option"
    and set :: "gval \<Rightarrow> entry \<Rightarrow> entry \<times> gerror option"
    and delete :: "entry \<Rightarrow> entry \<times> gval option"
  assumes set_ok: "snd (set v e) = None"
    and get_set: "\<not> is_map v \<Longrightarrow> get (fst (set v e)) = Some v"
    and get_set_map: "get (fst (set (VMap m) e)) = Some (VMap (map_at (get e) ++\<^sub>f m))"
    and delete_miss: "get e = None \<Longrightarrow> delete e = (e, None)"
    and delete_hit: "get e = Some v \<Longrightarrow> snd (delete e) = Some v"
    and get_delete: "get (fst (delete e)) = None"
    and set_delete: "get e = Some v \<Longrightarrow> \<not> is_map v \<Longrightarrow> fst (set v (fst (delete e))) = e"
begin

lemma delete_result: "snd (delete e) = get e"
  by (cases "get e") (simp_all add: delete_miss delete_hit)

lemma delete_delete: "delete (fst (delete e)) = (fst (delete e), None)"
  by (rule delete_miss) (rule get_delete)

text \<open>After deletion a map is set as it is: nothing is left to merge with.\<close>

lemma get_set_after_delete: "get (fst (set v (fst (delete e)))) = Some v"
proof (cases "is_map v")
  case True
  then obtain m where v: "v = VMap m" by (auto simp: is_map_def)
  show ?thesis unfolding v using get_set_map [of m "fst (delete e)"]
    by (simp add: get_delete map_at_def)
qed (simp add: get_set)

lemma get_set_twice: "\<not> is_map w \<Longrightarrow> get (fst (set w (fst (set v e)))) = Some w"
  by (rule get_set)

lemma get_set_map_twice:
  "get (fst (set (VMap n) (fst (set (VMap m) e)))) = Some (VMap (map_at (get e) ++\<^sub>f m ++\<^sub>f n))"
  by (simp add: get_set_map map_at_def)

end

lemma as_map_map_at: "as_map v = map_at (Some v)"
  by (cases v) (simp_all add: as_map_def map_at_def)

lemma path_get_as_map: "ks \<noteq> [] \<Longrightarrow> path_get ks (VMap (as_map v)) = path_get ks v"
  by (cases ks; cases v) (simp_all add: as_map_def)

lemma map_at_as_map: "map_at (path_get ks (VMap (as_map v))) = map_at (path_get ks v)"
  by (cases ks; cases v) (simp_all add: as_map_def map_at_def)

lemma not_is_map_case:
  "\<not> is_map v \<Longrightarrow> (case v of VMap m \<Rightarrow> f m | _ \<Rightarrow> x) = x"
  by (cases v) (auto simp: is_map_def)

lemma BodyField_Set_plain:
  "\<not> is_map v \<Longrightarrow> ks \<noteq> [] \<Longrightarrow>
   BodyField_Set ks v e = (e\<lparr>Body := VMap (path_set ks v (as_map (Body e)))\<rparr>, None)"
  by (simp add: BodyField_Set_def not_is_map_case)

lemma BodyField_Set_VMap: "BodyField_Set ks (VMap m) e = (BodyField_Merge ks m e, None)"
  by (simp add: BodyField_Set_def)

lemma BodyField_Delete_eq:
  "ks \<noteq> [] \<Longrightarrow> BodyField_Delete ks e =
   (case path_delete ks (as_map (Body e)) of
      Some (m', v) \<Rightarrow> (e\<lparr>Body := VMap m'\<rparr>, Some v) | None \<Rightarrow> (e, None))"
proof -
  assume ks: "ks \<noteq> []"
  then have "path_delete ks fmempty = None" by (cases ks) (auto simp: path_delete_None_iff)
  with ks show ?thesis by (simp add: BodyField_Delete_def as_map_def split: gval.split)
qed

text \<open>
  The two outcomes of a deletion; the proofs below unfold the operations and use one of the two.
\<close>

lemma path_delete_outcome:
  assumes "ks \<noteq> []"
  obtains (miss) "path_delete ks m = None" "path_get ks (VMap m) = None"
  | (hit) m' v where "path_delete ks m = Some (m', v)" "path_get ks (VMap m) = Some v"
      "path_get ks (VMap m') = None" "path_set ks v m' = m"
proof (cases "path_delete ks m")
  case None
  with assms show thesis by (intro miss) (simp_all add: path_delete_None_iff)
next
  case (Some r)
  obtain m' v where "r = (m', v)" by (cases r)
  with Some path_delete_Some [of ks m m' v] show thesis by (intro hit [of m' v]) auto
qed

lemma body_nested_field:
  assumes ks: "ks \<noteq> []"
  shows "nested_field (BodyField_Get ks) (BodyField_Set ks) (BodyField_Delete ks)"
proof
  fix v e
  note get = BodyField_Get_def path_get_as_map [OF ks, of "Body e", symmetric]
  note del = BodyField_Delete_eq [OF ks]
  show "snd (BodyField_Set ks v e) = None"
    by (simp add: BodyField_Set_def split: gval.split)
  show "BodyField_Get ks (fst (BodyField_Set ks v e)) = Some v" if "\<not> is_map v"
    using that ks by (simp add: BodyField_Set_plain BodyField_Get_def path_laws)
  show "BodyField_Get ks (fst (BodyField_Set ks (VMap m) e))
      = Some (VMap (map_at (BodyField_Get ks e) ++\<^sub>f m))" for m
    by (simp add: BodyField_Set_VMap BodyField_Merge_def BodyField_Get_def path_laws map_at_as_map)
  show "BodyField_Delete ks e = (e, None)" if "BodyField_Get ks e = None"
    using that by (cases rule: path_delete_outcome [OF ks, of "as_map (Body e)"])
      (simp_all add: get del)
  show "snd (BodyField_Delete ks e) = Some v" if "BodyField_Get ks e = Some v"
    using that by (cases rule: path_delete_outcome [OF ks, of "as_map (Body e)"])
      (simp_all add: get del)
  show "BodyField_Get ks (fst (BodyField_Delete ks e)) = None"
    by (cases rule: path_delete_outcome [OF ks, of "as_map (Body e)"])
      (simp_all add: get del)
  show "fst (BodyField_Set ks v (fst (BodyField_Delete ks e))) = e"
    if g: "BodyField_Get ks e = Some v" and v: "\<not> is_map v"
  proof -
    obtain m where m: "Body e = VMap m"
      using g ks by (cases "Body e"; cases ks) (simp_all add: BodyField_Get_def)
    from g v ks show ?thesis
      by (cases rule: path_delete_outcome [OF ks, of m])
        (simp_all add: BodyField_Get_def m del BodyField_Set_plain as_map_def)
  qed
qed

lemma AttributeField_Set_plain:
  "\<not> is_map v \<Longrightarrow> ks \<noteq> [] \<Longrightarrow> AttributeField_Set ks v e
   = (e\<lparr>Attributes := Some (path_set ks v (nonnil (Attributes e)))\<rparr>, None)"
  by (simp add: AttributeField_Set_def not_is_map_case nonnil_def)

lemma ResourceField_Set_plain:
  "\<not> is_map v \<Longrightarrow> ks \<noteq> [] \<Longrightarrow> ResourceField_Set ks v e
   = (e\<lparr>Resource := Some (path_set ks v (nonnil (Resource e)))\<rparr>, None)"
  by (simp add: ResourceField_Set_def not_is_map_case nonnil_def)

lemma path_get_fmempty: "ks \<noteq> [] \<Longrightarrow> path_get ks (VMap fmempty) = None"
  by (cases ks) auto

lemma nonnil_Some [simp]: "nonnil (Some m) = m"
  by (simp add: nonnil_def)

lemma AttributeField_Get_nonnil:
  "ks \<noteq> [] \<Longrightarrow> AttributeField_Get ks e = path_get ks (VMap (nonnil (Attributes e)))"
  by (simp add: AttributeField_Get_def nonnil_def path_get_fmempty split: option.split)

lemma ResourceField_Get_nonnil:
  "ks \<noteq> [] \<Longrightarrow> ResourceField_Get ks e = path_get ks (VMap (nonnil (Resource e)))"
  by (simp add: ResourceField_Get_def nonnil_def path_get_fmempty split: option.split)

lemma AttributeField_Set_VMap:
  "AttributeField_Set ks (VMap m) e
   = (e\<lparr>Attributes := Some (path_merge ks m (nonnil (Attributes e)))\<rparr>, None)"
  by (simp add: AttributeField_Set_def AttributeField_Merge_def)

lemma ResourceField_Set_VMap:
  "ResourceField_Set ks (VMap m) e
   = (e\<lparr>Resource := Some (path_merge ks m (nonnil (Resource e)))\<rparr>, None)"
  by (simp add: ResourceField_Set_def ResourceField_Merge_def)

lemma AttributeField_Delete_eq:
  "ks \<noteq> [] \<Longrightarrow> AttributeField_Delete ks e =
   (case path_delete ks (nonnil (Attributes e)) of
      Some (m', v) \<Rightarrow> (e\<lparr>Attributes := Some m'\<rparr>, Some v) | None \<Rightarrow> (e, None))"
  using path_delete_None_iff [of ks fmempty]
  by (simp add: AttributeField_Delete_def nonnil_def path_get_fmempty split: option.split)

lemma ResourceField_Delete_eq:
  "ks \<noteq> [] \<Longrightarrow> ResourceField_Delete ks e =
   (case path_delete ks (nonnil (Resource e)) of
      Some (m', v) \<Rightarrow> (e\<lparr>Resource := Some m'\<rparr>, Some v) | None \<Rightarrow> (e, None))"
  using path_delete_None_iff [of ks fmempty]
  by (simp add: ResourceField_Delete_def nonnil_def path_get_fmempty split: option.split)

lemma attribute_nested_field:
  assumes ks: "ks \<noteq> []"
  shows "nested_field (AttributeField_Get ks) (AttributeField_Set ks) (AttributeField_Delete ks)"
proof
  fix v e
  note get = AttributeField_Get_nonnil [OF ks]
  note del = AttributeField_Delete_eq [OF ks]
  show "snd (AttributeField_Set ks v e) = None"
    using ks by (simp add: AttributeField_Set_def Let_def split: gval.split)
  show "AttributeField_Get ks (fst (AttributeField_Set ks v e)) = Some v" if "\<not> is_map v"
    using that ks by (simp add: AttributeField_Set_plain get path_laws)
  show "AttributeField_Get ks (fst (AttributeField_Set ks (VMap m) e))
      = Some (VMap (map_at (AttributeField_Get ks e) ++\<^sub>f m))" for m
    by (simp add: AttributeField_Set_VMap get path_laws)
  show "AttributeField_Delete ks e = (e, None)" if "AttributeField_Get ks e = None"
    using that by (cases rule: path_delete_outcome [OF ks, of "nonnil (Attributes e)"])
      (simp_all add: get del)
  show "snd (AttributeField_Delete ks e) = Some v" if "AttributeField_Get ks e = Some v"
    using that by (cases rule: path_delete_outcome [OF ks, of "nonnil (Attributes e)"])
      (simp_all add: get del)
  show "AttributeField_Get ks (fst (AttributeField_Delete ks e)) = None"
    by (cases rule: path_delete_outcome [OF ks, of "nonnil (Attributes e)"])
      (simp_all add: get del)
  show "fst (AttributeField_Set ks v (fst (AttributeField_Delete ks e))) = e"
    if g: "AttributeField_Get ks e = Some v" and v: "\<not> is_map v"
  proof -
    obtain m where m: "Attributes e = Some m"
      using g by (cases "Attributes e") (simp_all add: AttributeField_Get_def)
    from g v ks show ?thesis
      by (cases rule: path_delete_outcome [OF ks, of m])
        (simp_all add: m get del AttributeField_Set_plain)
  qed
qed

lemma resource_nested_field:
  assumes ks: "ks \<noteq> []"
  shows "nested_field (ResourceField_Get ks) (ResourceField_Set ks) (ResourceField_Delete ks)"
proof
  fix v e
  note get = ResourceField_Get_nonnil [OF ks]
  note del = ResourceField_Delete_eq [OF ks]
  show "snd (ResourceField_Set ks v e) = None"
    using ks by (simp add: ResourceField_Set_def Let_def split: gval.split)
  show "ResourceField_Get ks (fst (ResourceField_Set ks v e)) = Some v" if "\<not> is_map v"
    using that ks by (simp add: ResourceField_Set_plain get path_laws)
  show "ResourceField_Get ks (fst (ResourceField_Set ks (VMap m) e))
      = Some (VMap (map_at (ResourceField_Get ks e) ++\<^sub>f m))" for m
    by (simp add: ResourceField_Set_VMap get path_laws)
  show "ResourceField_Delete ks e = (e, None)" if "ResourceField_Get ks e = None"
    using that by (cases rule: path_delete_outcome [OF ks, of "nonnil (Resource e)"])
      (simp_all add: get del)
  show "snd (ResourceField_Delete ks e) = Some v" if "ResourceField_Get ks e = Some v"
    using that by (cases rule: path_delete_outcome [OF ks, of "nonnil (Resource e)"])
      (simp_all add: get del)
  show "ResourceField_Get ks (fst (ResourceField_Delete ks e)) = None"
    by (cases rule: path_delete_outcome [OF ks, of "nonnil (Resource e)"])
      (simp_all add: get del)
  show "fst (ResourceField_Set ks v (fst (ResourceField_Delete ks e))) = e"
    if g: "ResourceField_Get ks e = Some v" and v: "\<not> is_map v"
  proof -
    obtain m where m: "Resource e = Some m"
      using g by (cases "Resource e") (simp_all add: ResourceField_Get_def)
    from g v ks show ?thesis
      by (cases rule: path_delete_outcome [OF ks, of m])
        (simp_all add: m get del ResourceField_Set_plain)
  qed
qed

interpretation body_field: nested_field "BodyField_Get (k # ks)" "BodyField_Set (k # ks)"
  "BodyField_Delete (k # ks)" for k ks
  by (rule body_nested_field) simp

interpretation attribute_field: nested_field "AttributeField_Get (k # ks)"
  "AttributeField_Set (k # ks)" "AttributeField_Delete (k # ks)" for k ks
  by (rule attribute_nested_field) simp

interpretation resource_field: nested_field "ResourceField_Get (k # ks)"
  "ResourceField_Set (k # ks)" "ResourceField_Delete (k # ks)" for k ks
  by (rule resource_nested_field) simp

section \<open>Fields of any kind\<close>

text \<open>A field below the root of the body, the attributes or the resource.\<close>

definition nested :: "field \<Rightarrow> bool" where
  "nested f \<longleftrightarrow> f \<noteq> NilField \<and> field_keys f \<noteq> []"

lemma field_ops_eta [simp]:
  "field_Get (BodyField ks) = BodyField_Get ks"
  "field_Set (BodyField ks) = BodyField_Set ks"
  "field_Delete (BodyField ks) = BodyField_Delete ks"
  "field_Get (AttributeField ks) = AttributeField_Get ks"
  "field_Set (AttributeField ks) = AttributeField_Set ks"
  "field_Delete (AttributeField ks) = AttributeField_Delete ks"
  "field_Get (ResourceField ks) = ResourceField_Get ks"
  "field_Set (ResourceField ks) = ResourceField_Set ks"
  "field_Delete (ResourceField ks) = ResourceField_Delete ks"
  by (auto simp: fun_eq_iff)

lemma field_nested_field:
  "nested f \<Longrightarrow> nested_field (field_Get f) (field_Set f) (field_Delete f)"
  using body_nested_field attribute_nested_field resource_nested_field
  by (cases f) (simp_all add: nested_def)

lemma nested_nameable: "nested f \<Longrightarrow> nameable f"
  by (cases f) (simp_all add: nested_def)

lemma field_Set_ok: "nested f \<Longrightarrow> snd (field_Set f v e) = None"
  by (rule nested_field.set_ok) (rule field_nested_field)

lemma BodyField_Set_ok [simp]: "snd (BodyField_Set ks v e) = None"
  by (simp add: BodyField_Set_def split: gval.split)

lemma field_Set_nameable_ok: "nameable f \<Longrightarrow> snd (field_Set f v e) = None"
  by (cases f) (auto intro: nested_field.set_ok attribute_nested_field resource_nested_field)

text \<open>Fields whose places do not overlap: of different kinds, or with independent keys.\<close>

fun separate :: "field \<Rightarrow> field \<Rightarrow> bool" where
  "separate (BodyField ks) (BodyField js) = independent ks js"
| "separate (AttributeField ks) (AttributeField js) = independent ks js"
| "separate (ResourceField ks) (ResourceField js) = independent ks js"
| "separate _ _ = True"

lemma independent_ne: "independent ks js \<Longrightarrow> ks \<noteq> [] \<and> js \<noteq> []"
  by auto

lemma path_delete_frame:
  "path_delete ks m = Some (m', v) \<Longrightarrow> independent ks js \<Longrightarrow>
   path_get js (VMap m') = path_get js (VMap m)"
  by (blast dest: path_delete_Some)

lemma BodyField_frame:
  assumes "independent ks js"
  shows "BodyField_Get js (fst (BodyField_Set ks v e)) = BodyField_Get js e"
    and "BodyField_Get js (fst (BodyField_Delete ks e)) = BodyField_Get js e"
proof -
  have ne: "ks \<noteq> []" "js \<noteq> []" using assms by auto
  show "BodyField_Get js (fst (BodyField_Set ks v e)) = BodyField_Get js e"
    using assms ne
    by (cases "is_map v")
      (auto simp: is_map_def BodyField_Set_VMap BodyField_Merge_def BodyField_Set_plain
        BodyField_Get_def path_laws path_get_as_map simp del: path_get_VMap)
  show "BodyField_Get js (fst (BodyField_Delete ks e)) = BodyField_Get js e"
    using assms ne path_get_as_map [of js "Body e"]
    by (auto simp: BodyField_Delete_eq BodyField_Get_def split: option.split
        dest!: path_delete_frame [of ks _ _ _ js])
qed

lemma AttributeField_frame:
  assumes "independent ks js"
  shows "AttributeField_Get js (fst (AttributeField_Set ks v e)) = AttributeField_Get js e"
    and "AttributeField_Get js (fst (AttributeField_Delete ks e)) = AttributeField_Get js e"
proof -
  have ne: "ks \<noteq> []" "js \<noteq> []" using assms by auto
  show "AttributeField_Get js (fst (AttributeField_Set ks v e)) = AttributeField_Get js e"
    using assms ne
    by (cases "is_map v")
      (auto simp: is_map_def AttributeField_Set_VMap AttributeField_Set_plain
        AttributeField_Get_nonnil path_laws)
  show "AttributeField_Get js (fst (AttributeField_Delete ks e)) = AttributeField_Get js e"
    using assms ne
    by (auto simp: AttributeField_Delete_eq AttributeField_Get_nonnil split: option.split
        dest!: path_delete_frame [of ks _ _ _ js])
qed

lemma ResourceField_frame:
  assumes "independent ks js"
  shows "ResourceField_Get js (fst (ResourceField_Set ks v e)) = ResourceField_Get js e"
    and "ResourceField_Get js (fst (ResourceField_Delete ks e)) = ResourceField_Get js e"
proof -
  have ne: "ks \<noteq> []" "js \<noteq> []" using assms by auto
  show "ResourceField_Get js (fst (ResourceField_Set ks v e)) = ResourceField_Get js e"
    using assms ne
    by (cases "is_map v")
      (auto simp: is_map_def ResourceField_Set_VMap ResourceField_Set_plain
        ResourceField_Get_nonnil path_laws)
  show "ResourceField_Get js (fst (ResourceField_Delete ks e)) = ResourceField_Get js e"
    using assms ne
    by (auto simp: ResourceField_Delete_eq ResourceField_Get_nonnil split: option.split
        dest!: path_delete_frame [of ks _ _ _ js])
qed

text \<open>An operation of one kind leaves the two other roots of the entry alone.\<close>

lemma BodyField_other_roots [simp]:
  "Attributes (fst (BodyField_Set ks v e)) = Attributes e"
  "Resource (fst (BodyField_Set ks v e)) = Resource e"
  "Attributes (fst (BodyField_Delete ks e)) = Attributes e"
  "Resource (fst (BodyField_Delete ks e)) = Resource e"
  by (auto simp: BodyField_Set_def BodyField_Merge_def BodyField_Delete_def
      split: gval.split option.split)

lemma AttributeField_other_roots [simp]:
  "Body (fst (AttributeField_Set ks v e)) = Body e"
  "Resource (fst (AttributeField_Set ks v e)) = Resource e"
  "Body (fst (AttributeField_Delete ks e)) = Body e"
  "Resource (fst (AttributeField_Delete ks e)) = Resource e"
  by (auto simp: AttributeField_Set_def AttributeField_Merge_def AttributeField_Delete_def Let_def
      split: gval.split option.split)

lemma ResourceField_other_roots [simp]:
  "Body (fst (ResourceField_Set ks v e)) = Body e"
  "Attributes (fst (ResourceField_Set ks v e)) = Attributes e"
  "Body (fst (ResourceField_Delete ks e)) = Body e"
  "Attributes (fst (ResourceField_Delete ks e)) = Attributes e"
  by (auto simp: ResourceField_Set_def ResourceField_Merge_def ResourceField_Delete_def Let_def
      split: gval.split option.split)

lemma field_frame:
  "separate f g \<Longrightarrow> field_Get g (fst (field_Set f v e)) = field_Get g e"
  "separate f g \<Longrightarrow> field_Get g (fst (field_Delete f e)) = field_Get g e"
  by (cases f; cases g; simp add: BodyField_frame AttributeField_frame ResourceField_frame;
      simp add: BodyField_Get_def AttributeField_Get_def ResourceField_Get_def)+

text \<open>
  C21: what a field reads after it was set.  For every field below a root, \<open>Set\<close> does not fail, and
  \<open>Get\<close> then finds a value that is not a map as it was set (whatever was there before, also on the
  way down), and a map merged into the map that was there, the new keys winning.
\<close>

theorem field_Set_then_Get:
  assumes "nested f"
  shows "snd (field_Set f v e) = None \<and>
    field_Get f (fst (field_Set f v e)) =
      Some (case v of VMap m \<Rightarrow> VMap (map_at (field_Get f e) ++\<^sub>f m) | _ \<Rightarrow> v)"
proof -
  note law = field_nested_field [OF assms]
  show ?thesis
    using nested_field.set_ok [OF law] nested_field.get_set [OF law, of v]
      nested_field.get_set_map [OF law]
    by (cases v) (auto simp: is_map_def)
qed

theorem field_Set_then_Get_witness:
  "nested (BodyField [''a'', ''b'']) \<and>
   field_Get (BodyField [''a'', ''b''])
     (fst (field_Set (BodyField [''a'', ''b'']) (VString ''x'') ((New zero_time)\<lparr>Body := VString ''y''\<rparr>)))
   = Some (VString ''x'')"
proof -
  have n: "nested (BodyField [''a'', ''b''])" by (simp add: nested_def)
  show ?thesis using n field_Set_then_Get [OF n, of "VString ''x''"] by simp
qed

text \<open>
  What a deletion does.  \<open>Delete\<close> of a field below a root returns exactly what \<open>Get\<close> read, the
  field reads as missing afterwards, a missing field leaves the entry as it was, and setting a
  deleted value again restores the entry (a value that is not a map; a map would be merged).
\<close>

lemma field_Delete_effect:
  assumes "nested f" and d: "field_Delete f e = (e', r)"
  shows "r = field_Get f e \<and> field_Get f e' = None \<and> (r = None \<longrightarrow> e' = e)
    \<and> (\<forall>v. r = Some v \<and> \<not> is_map v \<longrightarrow> field_Set f v e' = (e, None))"
proof -
  note law = field_nested_field [OF assms(1)]
  have e': "e' = fst (field_Delete f e)" and r: "r = snd (field_Delete f e)" using d by simp_all
  have "r = field_Get f e" unfolding r by (rule nested_field.delete_result [OF law])
  moreover have "field_Get f e' = None" unfolding e' by (rule nested_field.get_delete [OF law])
  moreover have "e' = e" if "r = None"
    using that calculation(1) nested_field.delete_miss [OF law, of e] d by simp
  moreover have "field_Set f v e' = (e, None)" if "r = Some v" "\<not> is_map v" for v
    using that calculation(1) nested_field.set_delete [OF law, of e v] nested_field.set_ok [OF law, of v e']
    by (simp add: e' prod_eq_iff)
  ultimately show ?thesis by blast
qed

lemma field_Delete_effect_witness:
  "field_Get (AttributeField [''k'']) (fst (field_Delete (AttributeField [''k''])
      ((New zero_time)\<lparr>Attributes := Some (fmupd ''k'' (VInt 7) fmempty)\<rparr>))) = None"
proof -
  let ?e = "(New zero_time)\<lparr>Attributes := Some (fmupd ''k'' (VInt 7) fmempty)\<rparr>"
  have n: "nested (AttributeField [''k''])" by (simp add: nested_def)
  show ?thesis
    using field_Delete_effect [OF n, of ?e "fst (field_Delete (AttributeField [''k'']) ?e)"
        "snd (field_Delete (AttributeField [''k'']) ?e)"] by simp
qed

text \<open>
  C20: the frame of a write.  Setting or deleting a field does not change what any other field reads
  whose place does not overlap: a field of another kind, or one of the same kind when neither key
  path is a prefix of the other.  In particular an intermediate value that \<open>Set\<close> overwrites with a
  fresh map was not readable through such a field.
\<close>

theorem field_write_frame:
  assumes "separate f g"
  shows "field_Get g (fst (field_Set f v e)) = field_Get g e
    \<and> field_Get g (fst (field_Delete f e)) = field_Get g e"
  using field_frame [OF assms] by blast

theorem field_write_frame_witness:
  "field_Get (BodyField [''a'', ''c'']) (fst (field_Set (BodyField [''a'', ''b'']) (VInt 1)
      ((New zero_time)\<lparr>Body := VMap (fmupd ''a'' (VMap (fmupd ''c'' (VInt 2) fmempty)) fmempty)\<rparr>)))
   = Some (VInt 2)"
proof -
  let ?e = "(New zero_time)\<lparr>Body := VMap (fmupd ''a'' (VMap (fmupd ''c'' (VInt 2) fmempty)) fmempty)\<rparr>"
  have "separate (BodyField [''a'', ''b'']) (BodyField [''a'', ''c''])"
    by (simp add: independent_def)
  from field_write_frame [OF this, of "VInt 1" ?e] show ?thesis
    by (simp add: BodyField_Get_def)
qed

section \<open>Copies\<close>

lemma path_get_copyValue: "path_get ks v = Some w \<Longrightarrow> path_get ks (copyValue v) = Some (copyValue w)"
proof (induction ks arbitrary: v)
  case (Cons k ks)
  show ?case
  proof (cases v)
    case (VMap m)
    with Cons show ?thesis by (cases "fmlookup m k") auto
  qed (use Cons.prems in auto)
qed simp

lemma copyInterfaceMap_nonnil: "VMap (copyInterfaceMap m) = copyValue (VMap (nonnil m))"
  by (cases m) (simp_all add: copyInterfaceMap_def nonnil_def)

definition entry_copyable :: "entry \<Rightarrow> bool" where
  "entry_copyable e \<longleftrightarrow> copyable (Body e) \<and> copyable (VMap (nonnil (Attributes e)))
     \<and> copyable (VMap (nonnil (Resource e)))"

lemma path_get_copyable: "copyable v \<Longrightarrow> path_get ks v = Some w \<Longrightarrow> copyable w"
  using path_get_copyValue [of ks v] copyValue_id [of v] copyValue_copyable [of w] by auto

lemma field_Get_entry_Copy:
  "nested f \<Longrightarrow> field_Get f e = Some w \<Longrightarrow> field_Get f (entry_Copy e) = Some (copyValue w)"
proof (cases f)
  case (AttributeField ks)
  assume "nested f" and get: "field_Get f e = Some w"
  then have "ks \<noteq> []" using AttributeField by (simp add: nested_def)
  then show ?thesis
    using path_get_copyValue [of ks "VMap (nonnil (Attributes e))" w] AttributeField get
    by (simp add: AttributeField_Get_nonnil entry_Copy_def del: copyValue.simps
        flip: copyInterfaceMap_nonnil)
next
  case (ResourceField ks)
  assume "nested f" and get: "field_Get f e = Some w"
  then have "ks \<noteq> []" using ResourceField by (simp add: nested_def)
  then show ?thesis
    using path_get_copyValue [of ks "VMap (nonnil (Resource e))" w] ResourceField get
    by (simp add: ResourceField_Get_nonnil entry_Copy_def del: copyValue.simps
        flip: copyInterfaceMap_nonnil)
qed (auto simp: nested_def BodyField_Get_def entry_Copy_def intro: path_get_copyValue)

lemma entry_Copy_copyable: "entry_copyable (entry_Copy e)"
  unfolding entry_copyable_def entry_Copy_def
  by (simp only: entry.simps nonnil_Some copyInterfaceMap_nonnil copyValue_copyable)

lemma entry_Copy_idem: "entry_Copy (entry_Copy e) = entry_Copy e"
proof -
  have m: "copyInterfaceMap (Some (copyInterfaceMap m)) = copyInterfaceMap m" for m
  proof -
    have "VMap (copyInterfaceMap (Some (copyInterfaceMap m))) = VMap (copyInterfaceMap m)"
      by (simp only: copyInterfaceMap_nonnil nonnil_Some copyValue_idem)
    then show ?thesis by simp
  qed
  show ?thesis by (simp add: entry_Copy_def m copyValue_idem copyByteArray_def)
qed

lemma copied_reads:
  assumes "nested f \<or> f = BodyField []" "entry_copyable e"
  shows "field_Get f (entry_Copy e) = field_Get f e"
proof -
  have body: "copyValue (Body e) = Body e" using assms(2) by (simp add: entry_copyable_def copyValue_id)
  have maps: "copyInterfaceMap (Attributes e) = nonnil (Attributes e)"
    "copyInterfaceMap (Resource e) = nonnil (Resource e)"
    using assms(2) copyInterfaceMap_nonnil [of "Attributes e"] copyInterfaceMap_nonnil [of "Resource e"]
      copyValue_id [of "VMap (nonnil (Attributes e))"] copyValue_id [of "VMap (nonnil (Resource e))"]
    by (simp_all add: entry_copyable_def)
  show ?thesis
    using assms(1) by (cases f) (auto simp: nested_def entry_Copy_def body maps BodyField_Get_def
        AttributeField_Get_nonnil ResourceField_Get_nonnil)
qed

text \<open>
  A copy reads like its original.  Every field below a root, and the body itself, that can be
  read in an entry reads in its \<open>Entry.Copy\<close> as the deep copy of that value; all fields read the
  same where the entry holds no \<open>time.Time\<close>, no \<open>map[interface{}]interface{}\<close> and no map of string
  maps (the first becomes text, the second \<open>nil\<close>, the third a map of another type); the
  timestamps, severity and scope name are kept; copying again changes nothing.
\<close>

lemma entry_Copy_reads:
  assumes "nested f \<or> f = BodyField []"
  shows "(\<forall>v. field_Get f e = Some v \<longrightarrow> field_Get f (entry_Copy e) = Some (copyValue v))
    \<and> (entry_copyable e \<longrightarrow> field_Get f (entry_Copy e) = field_Get f e)
    \<and> Timestamp (entry_Copy e) = Timestamp e \<and> Severity (entry_Copy e) = Severity e
    \<and> SeverityText (entry_Copy e) = SeverityText e \<and> ScopeName (entry_Copy e) = ScopeName e
    \<and> ObservedTimestamp (entry_Copy e) = ObservedTimestamp e
    \<and> entry_Copy (entry_Copy e) = entry_Copy e"
proof -
  have "\<forall>v. field_Get f e = Some v \<longrightarrow> field_Get f (entry_Copy e) = Some (copyValue v)"
    using assms field_Get_entry_Copy by (auto simp: BodyField_Get_def entry_Copy_def)
  moreover have "field_Get f (entry_Copy e) = field_Get f e" if "entry_copyable e"
    using assms that by (rule copied_reads)
  ultimately show ?thesis
    by (simp add: entry_Copy_idem) (simp add: entry_Copy_def)
qed

lemma entry_Copy_reads_witness:
  "field_Get (BodyField [''a'']) (entry_Copy ((New zero_time)\<lparr>Body :=
      VMap (fmupd ''a'' (VIfaceMap [(VString ''x'', VInt 1)]) fmempty)\<rparr>)) = Some VNil"
proof -
  have "nested (BodyField [''a'']) \<or> BodyField [''a''] = BodyField []" by (simp add: nested_def)
  from entry_Copy_reads [OF this, of "(New zero_time)\<lparr>Body :=
      VMap (fmupd ''a'' (VIfaceMap [(VString ''x'', VInt 1)]) fmempty)\<rparr>"]
  show ?thesis by (simp add: BodyField_Get_def)
qed

section \<open>Typed reads\<close>

lemma readToString_Some:
  "readToString f e d = (s, None) \<Longrightarrow>
   field_Get f e = Some (VString s) \<or> field_Get f e = Some (VBytes s)"
  by (auto simp: readToString_def split: option.splits gval.splits)

lemma readToString_error_keeps: "readToString f e d = (s, Some err) \<Longrightarrow> s = d"
  by (auto simp: readToString_def split: option.splits gval.splits)

text \<open>
  \<open>readToStringMap\<close> has no default branch: a field that holds neither kind of map is reported as
  read, with the destination untouched, where the other reads report an error.
\<close>

lemma readToStringMap_silent:
  "field_Get f e = Some (VString s) \<Longrightarrow> readToStringMap fmt_s f e d = (d, None)"
  by (simp add: readToStringMap_def)

end
