(* ===== verification/Severities.thy ===== *)
theory Severities
  imports Field_Laws
begin

text \<open>
  Severities: the levels and their names (\<open>entry/severity.go\<close>), the severity parser
  (\<open>operator/helper/severity.go\<close>) and the builder of its mapping from the configuration
  (\<open>operator/helper/severity_builder.go\<close>).

  A configuration mapping is a \<open>map[interface{}]interface{}\<close>, over which Go iterates in an unspecified
  order: here it is a list, in the order of one such iteration, and the theorem on \<open>Build\<close> says when
  the order does not matter.  \<open>expandRange\<close> counts in 64-bit integers and does not return when its
  upper end is the largest one; so it is a \<open>partial_function\<close>, and \<open>None\<close> is "does not return".
\<close>

section \<open>Levels\<close>

abbreviation Default :: severity where "Default \<equiv> 0"
abbreviation Trace :: severity where "Trace \<equiv> 1"
abbreviation Trace2 :: severity where "Trace2 \<equiv> 2"
abbreviation Trace3 :: severity where "Trace3 \<equiv> 3"
abbreviation Trace4 :: severity where "Trace4 \<equiv> 4"
abbreviation Debug :: severity where "Debug \<equiv> 5"
abbreviation Debug2 :: severity where "Debug2 \<equiv> 6"
abbreviation Debug3 :: severity where "Debug3 \<equiv> 7"
abbreviation Debug4 :: severity where "Debug4 \<equiv> 8"
abbreviation Info :: severity where "Info \<equiv> 9"
abbreviation Info2 :: severity where "Info2 \<equiv> 10"
abbreviation Info3 :: severity where "Info3 \<equiv> 11"
abbreviation Info4 :: severity where "Info4 \<equiv> 12"
abbreviation Warn :: severity where "Warn \<equiv> 13"
abbreviation Warn2 :: severity where "Warn2 \<equiv> 14"
abbreviation Warn3 :: severity where "Warn3 \<equiv> 15"
abbreviation Warn4 :: severity where "Warn4 \<equiv> 16"
abbreviation Error :: severity where "Error \<equiv> 17"
abbreviation Error2 :: severity where "Error2 \<equiv> 18"
abbreviation Error3 :: severity where "Error3 \<equiv> 19"
abbreviation Error4 :: severity where "Error4 \<equiv> 20"
abbreviation Fatal :: severity where "Fatal \<equiv> 21"
abbreviation Fatal2 :: severity where "Fatal2 \<equiv> 22"
abbreviation Fatal3 :: severity where "Fatal3 \<equiv> 23"
abbreviation Fatal4 :: severity where "Fatal4 \<equiv> 24"

definition sevText :: "(severity \<times> string) list" where
  "sevText =
     [(Default, ''default''),
      (Trace, ''trace''), (Trace2, ''trace2''), (Trace3, ''trace3''), (Trace4, ''trace4''),
      (Debug, ''debug''), (Debug2, ''debug2''), (Debug3, ''debug3''), (Debug4, ''debug4''),
      (Info, ''info''), (Info2, ''info2''), (Info3, ''info3''), (Info4, ''info4''),
      (Warn, ''warn''), (Warn2, ''warn2''), (Warn3, ''warn3''), (Warn4, ''warn4''),
      (Error, ''error''), (Error2, ''error2''), (Error3, ''error3''), (Error4, ''error4''),
      (Fatal, ''fatal''), (Fatal2, ''fatal2''), (Fatal3, ''fatal3''), (Fatal4, ''fatal4'')]"

definition Severity_String :: "severity \<Rightarrow> string" where
  "Severity_String s = (case map_of sevText s of Some str \<Rightarrow> str | None \<Rightarrow> itoa s)"

section \<open>Built-in mappings\<close>

type_synonym severityMap = "severity gomap"

definition aliases :: "(string \<times> severity) list" where
  "aliases =
     [(''trace'', Trace), (''trace2'', Trace2), (''trace3'', Trace3), (''trace4'', Trace4),
      (''debug'', Debug), (''debug2'', Debug2), (''debug3'', Debug3), (''debug4'', Debug4),
      (''info'', Info), (''info2'', Info2), (''info3'', Info3), (''info4'', Info4),
      (''warn'', Warn), (''warn2'', Warn2), (''warn3'', Warn3), (''warn4'', Warn4),
      (''error'', Error), (''error2'', Error2), (''error3'', Error3), (''error4'', Error4),
      (''fatal'', Fatal), (''fatal2'', Fatal2), (''fatal3'', Fatal3), (''fatal4'', Fatal4)]"

definition otel_numbers :: "(string \<times> severity) list" where
  "otel_numbers =
     [(''1'', Trace), (''2'', Trace2), (''3'', Trace3), (''4'', Trace4),
      (''5'', Debug), (''6'', Debug2), (''7'', Debug3), (''8'', Debug4),
      (''9'', Info), (''10'', Info2), (''11'', Info3), (''12'', Info4),
      (''13'', Warn), (''14'', Warn2), (''15'', Warn3), (''16'', Warn4),
      (''17'', Error), (''18'', Error2), (''19'', Error3), (''20'', Error4),
      (''21'', Fatal), (''22'', Fatal2), (''23'', Fatal3), (''24'', Fatal4)]"

fun severityMap_add :: "severity \<Rightarrow> string list \<Rightarrow> severityMap \<Rightarrow> severityMap" where
  "severityMap_add severity [] m = m"
| "severityMap_add severity (str # strs) m = severityMap_add severity strs (fmupd str severity m)"

definition getBuiltinMapping :: "string \<Rightarrow> severityMap" where
  "getBuiltinMapping name =
     (if name = ''none'' then fmempty
      else if name = ''aliases'' then fmap_of_list aliases
      else if name = ''otel'' then fmap_of_list (aliases @ otel_numbers)
      else severityMap_add Error4 [''err4''] (severityMap_add Error3 [''err3'']
        (severityMap_add Error2 [''err2''] (severityMap_add Error [''err'']
        (severityMap_add Warn4 [''warning4''] (severityMap_add Warn3 [''warning3'']
        (severityMap_add Warn2 [''warning2''] (severityMap_add Warn [''warning'']
        (fmap_of_list aliases)))))))))"

section \<open>Finding a severity\<close>

text \<open>
  \<open>int(v)\<close> for a float: truncation; a value outside the 64-bit range converts to the smallest
  integer, as on amd64 (the language leaves it to the implementation).
\<close>

definition int_of_float :: "rat \<Rightarrow> int" where
  "int_of_float v =
     (let t = (if v \<ge> 0 then \<lfloor>v\<rfloor> else \<lceil>v\<rceil>)
      in if - (2 ^ 63) \<le> t \<and> t < 2 ^ 63 then t else - (2 ^ 63))"

definition lookup_severity :: "severityMap \<Rightarrow> string \<Rightarrow> severity" where
  "lookup_severity m s = (case fmlookup m s of Some severity \<Rightarrow> severity | None \<Rightarrow> Default)"

definition severityMap_find :: "severityMap \<Rightarrow> gval \<Rightarrow> severity \<times> string \<times> gerror option" where
  "severityMap_find m value =
     (case value of
        VInt v \<Rightarrow> (let strV = itoa (sint v) in (lookup_severity m strV, strV, None))
      | VFloat v \<Rightarrow>
          if v \<noteq> of_int (int_of_float v)
          then (Default, [], Some (StdError
            ''type float64 cannot be a severity unless it is a whole number''))
          else (let strV = itoa (int_of_float v) in (lookup_severity m strV, strV, None))
      | VString v \<Rightarrow> (lookup_severity m (to_lower v), v, None)
      | VBytes v \<Rightarrow> (lookup_severity m (to_lower v), v, None)
      | _ \<Rightarrow> (Default, [], Some (StdError
            (''type '' @ go_type value @ '' cannot be a severity''))))"

record SeverityParser =
  ParseFrom :: field
  Mapping :: severityMap

definition SeverityParser_Parse :: "SeverityParser \<Rightarrow> entry \<Rightarrow> entry \<times> gerror option" where
  "SeverityParser_Parse p ent =
     (case field_Get (ParseFrom p) ent of
        None \<Rightarrow> (ent, Some (Agent (NewError ''log entry does not have the expected parse_from field''
          ''ensure that all entries forwarded to this parser contain the parse_from field''
          [''parse_from'', field_string (ParseFrom p)])))
      | Some value \<Rightarrow>
          (case severityMap_find (Mapping p) value of
             (severity, sText, Some err) \<Rightarrow> (ent, Some (Agent (Wrap err ''parse'')))
           | (severity, sText, None) \<Rightarrow>
               (ent\<lparr>Severity := severity, SeverityText := sText\<rparr>, None)))"

section \<open>Building a mapping\<close>

partial_function (option) range_loop :: "i64 \<Rightarrow> i64 \<Rightarrow> string list \<Rightarrow> string list option" where
  "range_loop i hi rangeOfStrings =
     (if sint i \<le> sint hi then range_loop (i + 1) hi (rangeOfStrings @ [itoa (sint i)])
      else Some rangeOfStrings)"

definition expandRange :: "i64 \<Rightarrow> i64 \<Rightarrow> string list option" where
  "expandRange lo hi =
     (if sint lo > sint hi then range_loop hi lo [] else range_loop lo hi [])"

definition isRange :: "gval \<Rightarrow> (i64 \<times> i64) option" where
  "isRange value =
     (case value of
        VIfaceMap rawMap \<Rightarrow>
          (case (map_of rawMap (VString ''min''), map_of rawMap (VString ''max'')) of
             (Some (VInt minInt), Some (VInt maxInt)) \<Rightarrow> Some (minInt, maxInt)
           | _ \<Rightarrow> None)
      | _ \<Rightarrow> None)"

definition parseableValues :: "gval \<Rightarrow> (gerror + string list) option" where
  "parseableValues value =
     (case value of
        VInt v \<Rightarrow> Some (Inr [itoa (sint v)])
      | VString v \<Rightarrow>
          if v = ''2xx'' then map_option Inr (expandRange 200 299)
          else if v = ''3xx'' then map_option Inr (expandRange 300 399)
          else if v = ''4xx'' then map_option Inr (expandRange 400 499)
          else if v = ''5xx'' then map_option Inr (expandRange 500 599)
          else Some (Inr [to_lower v])
      | VBytes v \<Rightarrow> Some (Inr [to_lower v])
      | _ \<Rightarrow>
          (case isRange value of
             Some (lo, hi) \<Rightarrow> map_option Inr (expandRange lo hi)
           | None \<Rightarrow> Some (Inl (StdError (''type '' @ go_type value @ '' cannot be parsed as a severity'')))))"

definition validateSeverity :: "gval \<Rightarrow> gerror + severity" where
  "validateSeverity severity =
     (case severityMap_find (getBuiltinMapping ''aliases'') severity of
        (sev, _, Some err) \<Rightarrow> Inl err
      | (sev, _, None) \<Rightarrow> Inr sev)"

fun add_values :: "severity \<Rightarrow> gval list \<Rightarrow> severityMap \<Rightarrow> (gerror + severityMap) option" where
  "add_values sev [] m = Some (Inr m)"
| "add_values sev (value # values) m =
     (case parseableValues value of
        None \<Rightarrow> None
      | Some (Inl err) \<Rightarrow> Some (Inl err)
      | Some (Inr v) \<Rightarrow> add_values sev values (severityMap_add sev v m))"

text \<open>A \<open>nil\<close> value matches neither case of the type switch and adds nothing.\<close>

definition values_of :: "gval \<Rightarrow> gval list" where
  "values_of unknown = (case unknown of VArr u \<Rightarrow> u | VNil \<Rightarrow> [] | _ \<Rightarrow> [unknown])"

fun build_mapping :: "(gval \<times> gval) list \<Rightarrow> severityMap \<Rightarrow> (gerror + severityMap) option" where
  "build_mapping [] m = Some (Inr m)"
| "build_mapping ((severity, unknown) # rest) m =
     (case validateSeverity severity of
        Inl err \<Rightarrow> Some (Inl err)
      | Inr sev \<Rightarrow>
          (case add_values sev (values_of unknown) m of
             None \<Rightarrow> None
           | Some (Inl err) \<Rightarrow> Some (Inl err)
           | Some (Inr m') \<Rightarrow> build_mapping rest m'))"

record SeverityParserConfig =
  cfgParseFrom :: "field option"
  Preset :: string
  cfgMapping :: "(gval \<times> gval) list"

definition SeverityParserConfig_Build :: "SeverityParserConfig \<Rightarrow> (gerror + SeverityParser) option" where
  "SeverityParserConfig_Build c =
     (case build_mapping (cfgMapping c) (getBuiltinMapping (Preset c)) of
        None \<Rightarrow> None
      | Some (Inl err) \<Rightarrow> Some (Inl err)
      | Some (Inr operatorMapping) \<Rightarrow>
          (case cfgParseFrom c of
             None \<Rightarrow> Some (Inl (StdError (''missing required field '' @ quoted ''parse_from'')))
           | Some f \<Rightarrow> Some (Inr \<lparr>ParseFrom = f, Mapping = operatorMapping\<rparr>)))"

section \<open>Ranges\<close>

definition max_int :: i64 where "max_int = 2 ^ 63 - 1"

lemma sint_max_int: "sint max_int = 2 ^ 63 - 1"
  by (simp add: max_int_def)

lemma sint_le_max_int: "sint (i :: i64) \<le> sint max_int"
  using sint_lt [of i] by (simp add: sint_max_int)

lemma sint_Suc: "sint (i :: i64) < 2 ^ 63 - 1 \<Longrightarrow> sint (i + 1) = sint i + 1"
  using sint_ge [of i] by (simp add: signed_take_bit_int_eq_self sint_word_ariths)

lemma range_loop_returns:
  assumes "sint hi < 2 ^ 63 - 1"
  shows "range_loop i hi acc = Some (acc @ map itoa [sint i..sint hi])"
proof (induction "nat (sint hi + 1 - sint i)" arbitrary: i acc)
  case 0
  then show ?case by (subst range_loop.simps) simp
next
  case (Suc n)
  then have le: "sint i \<le> sint hi" by simp
  then have s: "sint (i + 1) = sint i + 1" using assms by (intro sint_Suc) simp
  have "range_loop (i + 1) hi (acc @ [itoa (sint i)])
      = Some ((acc @ [itoa (sint i)]) @ map itoa [sint (i + 1)..sint hi])"
    using Suc s by (intro Suc.hyps) simp
  moreover have "[sint i..sint hi] = sint i # [sint i + 1..sint hi]"
    using le by (rule upto_rec1)
  ultimately show ?case using le by (subst range_loop.simps) (simp add: s)
qed

lemma range_loop_diverges: "range_loop i max_int acc = None"
proof (cases "range_loop i max_int acc")
  case (Some r)
  have "max_int \<noteq> max_int"
    by (rule range_loop.raw_induct [where P = "\<lambda>i hi acc r. hi \<noteq> max_int", OF _ Some])
      (metis option.inject sint_le_max_int)
  then show ?thesis by simp
qed simp

text \<open>
  C38: \<open>expandRange\<close> returns exactly when neither end is the largest 64-bit integer, and then lists
  the decimal numbers from the smaller to the larger end, whichever comes first.  With the largest
  integer as an end, the loop counter wraps around and the loop never ends.
\<close>

theorem expandRange_result:
  "expandRange lo hi =
     (if lo = max_int \<or> hi = max_int then None
      else Some (map itoa [min (sint lo) (sint hi)..max (sint lo) (sint hi)]))"
proof -
  have lt: "sint i < 2 ^ 63 - 1 \<longleftrightarrow> i \<noteq> max_int" for i :: i64
    using sint_le_max_int [of i] sint_max_int by (metis nle_le not_less signed_word_eqI)
  show ?thesis
  proof (cases "lo = max_int \<or> hi = max_int")
    case True
    then show ?thesis
      using sint_le_max_int [of lo] sint_le_max_int [of hi] range_loop_diverges
      by (auto simp: expandRange_def not_less)
        (metis nle_le signed_word_eqI)
  next
    case False
    with lt show ?thesis by (auto simp: expandRange_def range_loop_returns)
  qed
qed

section \<open>What the built mapping holds\<close>

text \<open>
  The strings that one configured value stands for, and all the additions a configuration makes, in
  the order of the list.
\<close>

definition value_strings :: "gval \<Rightarrow> string list" where
  "value_strings v = (case parseableValues v of Some (Inr ss) \<Rightarrow> ss | _ \<Rightarrow> [])"

fun pair_adds :: "gval \<times> gval \<Rightarrow> (string \<times> severity) list" where
  "pair_adds (severity, unknown) =
     (case validateSeverity severity of
        Inr sev \<Rightarrow> map (\<lambda>s. (s, sev)) (concat (map value_strings (values_of unknown)))
      | Inl _ \<Rightarrow> [])"

definition config_adds :: "(gval \<times> gval) list \<Rightarrow> (string \<times> severity) list" where
  "config_adds mapping = concat (map pair_adds mapping)"

definition consistent :: "(gval \<times> gval) list \<Rightarrow> bool" where
  "consistent mapping \<longleftrightarrow>
     (\<forall>s a b. (s, a) \<in> set (config_adds mapping) \<longrightarrow> (s, b) \<in> set (config_adds mapping) \<longrightarrow> a = b)"

definition config_ok :: "(gval \<times> gval) list \<Rightarrow> bool" where
  "config_ok mapping \<longleftrightarrow>
     (\<forall>(severity, unknown) \<in> set mapping. (\<exists>sev. validateSeverity severity = Inr sev)
        \<and> (\<forall>v \<in> set (values_of unknown). \<exists>ss. parseableValues v = Some (Inr ss)))"

lemma fmlookup_severityMap_add:
  "fmlookup (severityMap_add sev ss m) s = (if s \<in> set ss then Some sev else fmlookup m s)"
  by (induction sev ss m rule: severityMap_add.induct) auto

lemma add_values_Inr:
  "add_values sev vs m = Some (Inr m') \<Longrightarrow>
   (\<forall>v \<in> set vs. \<exists>ss. parseableValues v = Some (Inr ss))
   \<and> fmlookup m' s = (if s \<in> set (concat (map value_strings vs)) then Some sev else fmlookup m s)"
  by (induction vs arbitrary: m)
    (auto simp: value_strings_def fmlookup_severityMap_add split: option.splits sum.splits)

lemma add_values_ok:
  "\<forall>v \<in> set vs. \<exists>ss. parseableValues v = Some (Inr ss) \<Longrightarrow> \<exists>m'. add_values sev vs m = Some (Inr m')"
  by (induction vs arbitrary: m) auto

lemma build_mapping_ok: "config_ok mapping \<Longrightarrow> \<exists>m'. build_mapping mapping m = Some (Inr m')"
proof (induction mapping m rule: build_mapping.induct)
  case (2 severity unknown rest m)
  then obtain sev where "validateSeverity severity = Inr sev" by (auto simp: config_ok_def)
  moreover obtain m1 where "add_values sev (values_of unknown) m = Some (Inr m1)"
    using add_values_ok 2 by (fastforce simp: config_ok_def)
  moreover have "config_ok rest" using 2 by (auto simp: config_ok_def)
  ultimately show ?case using 2 by auto
qed simp

lemma map_of_rev_Cons_block:
  "map_of (rev (map (\<lambda>s. (s, sev)) ss)) s = (if s \<in> set ss then Some sev else None)"
  by (induction ss) (auto simp: map_add_def)

lemma build_mapping_Inr:
  "build_mapping mapping m = Some (Inr m') \<Longrightarrow>
   config_ok mapping
   \<and> fmlookup m' s = (case map_of (rev (config_adds mapping)) s of Some sev \<Rightarrow> Some sev
       | None \<Rightarrow> fmlookup m s)"
proof (induction mapping m rule: build_mapping.induct)
  case (2 severity unknown rest m)
  then obtain sev m1 where sev: "validateSeverity severity = Inr sev"
    and m1: "add_values sev (values_of unknown) m = Some (Inr m1)"
    and rest: "build_mapping rest m1 = Some (Inr m')"
    by (auto split: sum.splits option.splits)
  have "config_ok rest \<and> fmlookup m' s = (case map_of (rev (config_adds rest)) s of
      Some sev \<Rightarrow> Some sev | None \<Rightarrow> fmlookup m1 s)"
    using 2 sev m1 rest by blast
  moreover note add_values_Inr [OF m1, of s]
  ultimately show ?case using sev
    by (auto simp: config_ok_def config_adds_def map_of_rev_Cons_block map_add_def
        split: option.splits if_splits)
qed (simp add: config_ok_def config_adds_def)

lemma consistent_map_of:
  assumes "consistent mapping" "set mapping' = set mapping"
  shows "map_of (rev (config_adds mapping')) = map_of (config_adds mapping)"
  using assms by (intro map_of_consistent) (auto simp: consistent_def config_adds_def)

text \<open>
  C26: the built severity mapping.  If \<open>Build\<close> succeeds and no string is configured for two different
  severities, then every configured string (a number, a text in any case, a member of a numeric
  range such as \<open>2xx\<close>) is found with its severity, winning over the preset, and every other string
  is found as in the preset; and every order in which Go may iterate over the configuration builds
  the same parser.
\<close>

theorem severity_Build_mapping:
  assumes build: "SeverityParserConfig_Build c = Some (Inr p)"
    and cons: "consistent (cfgMapping c)"
    and order: "set mapping' = set (cfgMapping c)"
  shows "severityMap_find (Mapping p) (VString t) =
      (case map_of (config_adds (cfgMapping c)) (to_lower t) of
         Some sev \<Rightarrow> sev | None \<Rightarrow> lookup_severity (getBuiltinMapping (Preset c)) (to_lower t), t, None)
    \<and> SeverityParserConfig_Build (c\<lparr>cfgMapping := mapping'\<rparr>) = Some (Inr p)"
proof -
  let ?m = "getBuiltinMapping (Preset c)"
  obtain f where f: "cfgParseFrom c = Some f"
    and b: "build_mapping (cfgMapping c) ?m = Some (Inr (Mapping p))" and p: "ParseFrom p = f"
    using build by (auto simp: SeverityParserConfig_Build_def split: option.splits sum.splits)
  have look: "fmlookup (Mapping p) s = (case map_of (rev (config_adds (cfgMapping c))) s of
      Some sev \<Rightarrow> Some sev | None \<Rightarrow> fmlookup ?m s)" for s
    using build_mapping_Inr [OF b] by blast
  note rev = consistent_map_of [OF cons refl]
  have found: "severityMap_find (Mapping p) (VString t) =
      (case map_of (config_adds (cfgMapping c)) (to_lower t) of
         Some sev \<Rightarrow> sev | None \<Rightarrow> lookup_severity ?m (to_lower t), t, None)"
    by (simp add: severityMap_find_def lookup_severity_def look rev split: option.split)
  have "config_ok mapping'"
    using build_mapping_Inr [OF b, of "[]"] order by (simp add: config_ok_def)
  then obtain m' where m': "build_mapping mapping' ?m = Some (Inr m')"
    using build_mapping_ok by blast
  have "fmlookup m' s = fmlookup (Mapping p) s" for s
    using build_mapping_Inr [OF m', of s] look [of s] consistent_map_of [OF cons order] rev by simp
  then have "m' = Mapping p" by (rule fmap_eqI)
  with m' f p have "SeverityParserConfig_Build (c\<lparr>cfgMapping := mapping'\<rparr>) = Some (Inr p)"
    by (cases p) (simp add: SeverityParserConfig_Build_def)
  with found show ?thesis by blast
qed

theorem severity_Build_mapping_witness:
  "severityMap_find (fmap_of_list [(''42'', Error), (''oops'', Error)]) (VString ''OOPS'')
   = (Error, ''OOPS'', None)"
proof -
  let ?map = "[(VString ''error'', VArr [VString ''Oops'', VInt 42])]"
  let ?c = "\<lparr>cfgParseFrom = Some (BodyField [''sev'']), Preset = ''none'', cfgMapping = ?map\<rparr>"
  let ?p = "\<lparr>ParseFrom = BodyField [''sev''], Mapping = fmap_of_list [(''42'', Error), (''oops'', Error)]\<rparr>"
  have v: "validateSeverity (VString ''error'') = Inr Error"
    and p1: "parseableValues (VString ''Oops'') = Some (Inr [''oops''])"
    and p2: "parseableValues (VInt 42) = Some (Inr [''42''])"
    and lower: "to_lower ''OOPS'' = ''oops''"
    by code_simp+
  have build: "SeverityParserConfig_Build ?c = Some (Inr ?p)"
    by (simp add: SeverityParserConfig_Build_def v values_of_def p1 p2 getBuiltinMapping_def)
  have adds: "config_adds ?map = [(''oops'', Error), (''42'', Error)]"
    by (simp add: config_adds_def v values_of_def value_strings_def p1 p2)
  have "consistent (cfgMapping ?c)" by (simp add: consistent_def adds)
  from severity_Build_mapping [OF build this, of ?map "''OOPS''"] show ?thesis
    by (simp add: adds lower)
qed

end
