(* ===== verification/Expr_Strings.thy ===== *)
theory Expr_Strings
  imports Field_Laws
begin

text \<open>
  Strings with embedded expressions and what is built from them: \<open>operator/helper/expr_string.go\<close>,
  \<open>attributer.go\<close>, \<open>identifier.go\<close> and \<open>host_identifier.go\<close>.

  The expression language is a third-party library.  A compiled program is a function from the
  environment to a value or an error, and the compiler is a parameter.  The environment is the map
  of \<open>GetExprEnv\<close> without its constant member \<open>env\<close> (the function \<open>os.Getenv\<close>).
\<close>

type_synonym env = "gval gomap"
type_synonym program = "env \<Rightarrow> gerror + gval"
type_synonym compiler = "string \<Rightarrow> gerror + program"

section \<open>Environments\<close>

text \<open>
  \<open>GetExprEnv\<close> takes a map from a pool, which holds what an earlier entry left there, and overwrites
  its members.  A nil map of an entry reads like an empty one.
\<close>

definition GetExprEnv :: "env \<Rightarrow> entry \<Rightarrow> env" where
  "GetExprEnv pooled e =
     fmupd ''timestamp'' (VTime (Timestamp e)) (fmupd ''resource'' (VMap (nonnil (Resource e)))
       (fmupd ''attributes'' (VMap (nonnil (Attributes e))) (fmupd ''body'' (Body e)
         (fmupd ''$'' (Body e) pooled))))"

text \<open>The pool: a list of maps; \<open>Get\<close> takes any of them or makes a new one, \<open>Put\<close> returns one.\<close>

inductive envPool :: "env list \<Rightarrow> bool" where
  pool_empty: "envPool []"
| pool_put_new: "envPool pool \<Longrightarrow> envPool (GetExprEnv fmempty e # pool)"
| pool_reuse: "envPool (xs @ pooled # ys) \<Longrightarrow> envPool (GetExprEnv pooled e # xs @ ys)"
| pool_drop: "envPool (xs @ pooled # ys) \<Longrightarrow> envPool (xs @ ys)"

definition env_names :: "string set" where
  "env_names = {''$'', ''body'', ''attributes'', ''resource'', ''timestamp''}"

lemma fmdom'_GetExprEnv: "fmdom' (GetExprEnv pooled e) = env_names \<union> fmdom' pooled"
  by (auto simp: GetExprEnv_def env_names_def)

lemma envPool_names: "envPool pool \<Longrightarrow> pooled \<in> set pool \<Longrightarrow> fmdom' pooled \<subseteq> env_names"
  by (induction arbitrary: pooled rule: envPool.induct)
    (fastforce simp: fmdom'_GetExprEnv)+

lemma GetExprEnv_fresh:
  assumes "fmdom' pooled \<subseteq> env_names"
  shows "GetExprEnv pooled e = GetExprEnv fmempty e"
proof (rule fmap_eqI)
  fix k
  have "fmlookup pooled k = None" if "k \<notin> env_names"
    using assms that by (metis fmdom'_notD subsetD)
  then show "fmlookup (GetExprEnv pooled e) k = fmlookup (GetExprEnv fmempty e) k"
    by (auto simp: GetExprEnv_def env_names_def)
qed

text \<open>
  C37: expressions see one entry only.  Whatever map the pool hands out, after any history of
  entries, the environment of an entry is the one a new map would give: nothing of an entry
  processed before is visible to an expression.
\<close>

theorem GetExprEnv_no_leak:
  assumes "envPool pool" "pooled \<in> set pool"
  shows "GetExprEnv pooled e = GetExprEnv fmempty e"
  using envPool_names [OF assms] by (rule GetExprEnv_fresh)

theorem GetExprEnv_no_leak_witness:
  "GetExprEnv (GetExprEnv fmempty ((New zero_time)\<lparr>Body := VString ''secret''\<rparr>)) (New zero_time)
   = GetExprEnv fmempty (New zero_time)"
  by (rule GetExprEnv_no_leak [of "[GetExprEnv fmempty ((New zero_time)\<lparr>Body := VString ''secret''\<rparr>)]"])
    (auto intro: envPool.intros)

section \<open>Splitting an expression string\<close>

definition exprStartToken :: string where "exprStartToken = ''EXPR(''"
definition exprEndToken :: string where "exprEndToken = '')''"

function expr_loop :: "string \<Rightarrow> nat \<Rightarrow> string list \<Rightarrow> string list \<Rightarrow> string list \<times> string list" where
  "expr_loop s rangeStart subStrings subExprStrings =
     (if rangeStart > length s then (subStrings, subExprStrings)
      else case str_index (drop rangeStart s) exprStartToken of
        None \<Rightarrow> (subStrings @ [drop rangeStart s], subExprStrings)
      | Some offset \<Rightarrow>
          let indexStart = rangeStart + offset;
              rangeEnd = (case str_index (drop (indexStart + length exprStartToken) s) exprStartToken of
                  None \<Rightarrow> length s
                | Some nextIndexStart \<Rightarrow> indexStart + length exprStartToken + nextIndexStart)
          in case str_last_index (slice s indexStart rangeEnd) exprEndToken of
               None \<Rightarrow> (subStrings @ [drop rangeStart s], subExprStrings)
             | Some lastEnd \<Rightarrow>
                 let indexEnd = indexStart + lastEnd
                 in expr_loop s (indexEnd + length exprEndToken)
                      (subStrings @ [slice s rangeStart indexStart])
                      (subExprStrings @ [slice s (indexStart + length exprStartToken) indexEnd]))"
  by pat_completeness auto
termination
  by (relation "measure (\<lambda>(s, rangeStart, _, _). Suc (length s) - rangeStart)")
    (auto simp: exprEndToken_def)

declare expr_loop.simps [simp del]

definition expr_parts :: "string \<Rightarrow> string list \<times> string list" where
  "expr_parts s = expr_loop s 0 [] []"

record ExprString =
  SubStrings :: "string list"
  SubExprs :: "program list"

fun compile_all :: "compiler \<Rightarrow> string list \<Rightarrow> gerror + program list" where
  "compile_all compile [] = Inr []"
| "compile_all compile (x # xs) =
     (case compile x of
        Inl err \<Rightarrow> Inl (Agent (Wrap err ''compile embedded expression''))
      | Inr p \<Rightarrow> map_sum id ((#) p) (compile_all compile xs))"

definition ExprString_Build :: "compiler \<Rightarrow> string \<Rightarrow> gerror + ExprString" where
  "ExprString_Build compile s =
     (case expr_parts s of
        (subStrings, subExprStrings) \<Rightarrow>
          map_sum id (\<lambda>subExprs. \<lparr>SubStrings = subStrings, SubExprs = subExprs\<rparr>)
            (compile_all compile subExprStrings))"

text \<open>
  \<open>Render\<close> writes literals and results alternately; \<open>SubStrings\<close> is indexed up to
  \<open>len(SubExprs)\<close> and at its last position, so a shorter one would panic (\<open>None\<close>).  The source
  prints a result that is not a string with \<open>%v\<close>; here its type stands in the text of that error.
\<close>

fun render_loop :: "string list \<Rightarrow> program list \<Rightarrow> env \<Rightarrow> string \<Rightarrow> (gerror + string) option" where
  "render_loop [] _ env b = None"
| "render_loop (sub # subs) [] env b = Some (Inr (b @ last (sub # subs)))"
| "render_loop (sub # subs) (p # ps) env b =
     (case p env of
        Inl err \<Rightarrow> Some (Inl (Agent (Wrap err ''render embedded expression'')))
      | Inr (VString out) \<Rightarrow> render_loop subs ps env (b @ sub @ out)
      | Inr out \<Rightarrow> Some (Inl (StdError (''embedded expression returned non-string '' @ go_type out))))"

definition Render :: "ExprString \<Rightarrow> env \<Rightarrow> (gerror + string) option" where
  "Render e env = render_loop (SubStrings e) (SubExprs e) env []"

section \<open>The parts make up the string\<close>

text \<open>Literals and bracketed expressions put together again.\<close>

fun reassemble :: "string list \<Rightarrow> string list \<Rightarrow> string" where
  "reassemble (a # subs) (x # exprs) = a @ exprStartToken @ x @ exprEndToken @ reassemble subs exprs"
| "reassemble (a # subs) [] = a"
| "reassemble [] exprs = []"

lemma slice_append:
  "a \<le> b \<Longrightarrow> b \<le> c \<Longrightarrow> slice s a b @ slice s b c = slice s a c"
proof -
  assume le: "a \<le> b" "b \<le> c"
  then have "c - a = (b - a) + (c - b)" by simp
  then have "take (c - a) (drop a s) = take (b - a) (drop a s) @ take (c - b) (drop (b - a) (drop a s))"
    by (simp only: take_add)
  with le show ?thesis by (simp add: slice_def)
qed

lemma reassemble_snoc:
  "length subs = length exprs \<Longrightarrow>
   reassemble (subs @ [a]) exprs = reassemble (subs @ [[]]) exprs @ a"
  by (induction subs exprs rule: reassemble.induct) auto

lemma reassemble_snoc2:
  "length subs = length exprs \<Longrightarrow>
   reassemble (subs @ [a, b]) (exprs @ [x])
   = reassemble (subs @ [[]]) exprs @ a @ exprStartToken @ x @ exprEndToken @ b"
  by (induction subs exprs rule: reassemble.induct) auto

text \<open>The closing bracket that is found lies behind the opening token.\<close>

lemma closing_behind_opening:
  assumes "str_index (drop r s) exprStartToken = Some i"
    and "str_last_index (slice s (r + i) e) exprEndToken = Some j"
  shows "length exprStartToken \<le> j" "slice s (r + i) (r + i + length exprStartToken) = exprStartToken"
    "slice s (r + i + j) (r + i + j + 1) = exprEndToken" "r + i + j + 1 \<le> length s"
proof -
  let ?t = "drop (r + i) s"
  have "has_prefix (drop i (drop r s)) exprStartToken" using assms(1) by (rule str_index_prefix)
  then obtain u where u: "?t = exprStartToken @ u" by (auto simp: has_prefix_iff add.commute)
  then show "slice s (r + i) (r + i + length exprStartToken) = exprStartToken"
    by (simp add: slice_def)
  let ?n = "e - (r + i)"
  have j: "has_prefix (drop j (take ?n ?t)) exprEndToken"
    using str_last_index_prefix [OF assms(2)] by (simp add: slice_def)
  have jb: "j + 1 \<le> length (take ?n ?t)"
    using str_last_index_bound [OF assms(2)] by (simp add: slice_def exprEndToken_def)
  have nth: "?t ! j = CHR '')''" and len: "j < length ?t"
  proof -
    obtain w where w: "drop j (take ?n ?t) = CHR '')'' # w"
      using j by (auto simp: has_prefix_iff exprEndToken_def)
    have "take ?n ?t ! j = hd (drop j (take ?n ?t))"
      using jb by (intro hd_drop_conv_nth [symmetric]) (simp only: Suc_eq_plus1 flip: Suc_le_eq)
    then have "take ?n ?t ! j = CHR '')''" by (simp only: w list.sel)
    then show "?t ! j = CHR '')''" using jb by simp
    show "j < length ?t" using jb by simp
  qed
  show "length exprStartToken \<le> j"
  proof (rule ccontr)
    assume "\<not> length exprStartToken \<le> j"
    then have "j < length exprStartToken" by simp
    then have "exprStartToken ! j = CHR '')''" using nth u by (simp add: nth_append)
    then have "CHR '')'' \<in> set exprStartToken"
      using \<open>j < length exprStartToken\<close> by (metis nth_mem)
    then show False by (simp add: exprStartToken_def)
  qed
  show "r + i + j + 1 \<le> length s" using len by simp
  have "slice s (r + i + j) (r + i + j + 1) = take 1 (drop j ?t)"
    by (simp add: slice_def add.commute add.left_commute)
  also have "\<dots> = [?t ! j]" using len by (simp add: take_Suc_conv_app_nth [of 0] hd_drop_conv_nth add.commute)
  finally show "slice s (r + i + j) (r + i + j + 1) = exprEndToken"
    using nth by (simp add: exprEndToken_def)
qed

text \<open>
  The loop keeps the parts so far equal to the string up to \<open>rangeStart\<close>, with as many literals as
  expressions.
\<close>

lemma expr_loop_parts:
  assumes "r \<le> length s" "length subs = length exprs"
    "reassemble (subs @ [[]]) exprs = take r s"
  shows "case expr_loop s r subs exprs of (subs', exprs') \<Rightarrow>
      length subs' = length exprs' + 1 \<and> reassemble subs' exprs' = s"
  using assms
proof (induction s r subs exprs rule: expr_loop.induct)
  case (1 s r subs exprs)
  have rest: "reassemble (subs @ [drop r s]) exprs = s"
    using "1.prems" reassemble_snoc [of subs exprs "drop r s"] by simp
  show ?case
  proof (cases "str_index (drop r s) exprStartToken")
    case None
    with rest "1.prems" show ?thesis by (simp add: expr_loop.simps [of s r])
  next
    case (Some i)
    define e where "e = (case str_index (drop (r + i + length exprStartToken) s) exprStartToken of
        None \<Rightarrow> length s | Some n \<Rightarrow> r + i + length exprStartToken + n)"
    show ?thesis
    proof (cases "str_last_index (slice s (r + i) e) exprEndToken")
      case None
      with Some rest "1.prems" show ?thesis
        by (simp add: expr_loop.simps [of s r] Let_def flip: e_def)
    next
      case j: (Some j)
      note c = closing_behind_opening [OF Some j]
      let ?l = "length exprStartToken"
      let ?sub = "slice s r (r + i)" and ?ex = "slice s (r + i + ?l) (r + i + j)"
      have end1: "length exprEndToken = 1" by (simp add: exprEndToken_def)
      have "take r s @ ?sub @ exprStartToken @ ?ex @ exprEndToken = take (r + i + j + 1) s"
      proof -
        have "slice s 0 r @ ?sub @ slice s (r + i) (r + i + ?l) @ ?ex @ slice s (r + i + j) (r + i + j + 1)
            = slice s 0 (r + i + j + 1)"
          using c(1) by (simp add: slice_append)
        then show ?thesis unfolding c(2,3) by (simp add: slice_def)
      qed
      then have "reassemble ((subs @ [?sub]) @ [[]]) (exprs @ [?ex]) = take (r + i + j + 1) s"
        using "1.prems" by (simp add: reassemble_snoc2)
      then have "case expr_loop s (r + i + j + length exprEndToken) (subs @ [?sub]) (exprs @ [?ex]) of
          (subs', exprs') \<Rightarrow> length subs' = length exprs' + 1 \<and> reassemble subs' exprs' = s"
        using "1.prems" c(4) Some j unfolding e_def
        by (intro "1.IH") (simp_all add: end1)
      then show ?thesis
        using "1.prems" Some j by (simp add: expr_loop.simps [of s r] Let_def flip: e_def)
    qed
  qed
qed

text \<open>
  \<open>Build\<close> partitions the string.  For every configured string there is one literal more than
  there are embedded expressions, as the comment on \<open>ExprString\<close> says, and the literals and the
  expressions between \<open>EXPR(\<close> and \<open>)\<close>, put together in order, are the string itself: nothing is
  lost or duplicated, whatever brackets and start tokens it holds.
\<close>

lemma expr_parts_partition:
  "case expr_parts s of (subs, exprs) \<Rightarrow>
     length subs = length exprs + 1 \<and> reassemble subs exprs = s"
  unfolding expr_parts_def by (rule expr_loop_parts) simp_all

lemma length_compile_all: "compile_all compile xs = Inr ps \<Longrightarrow> length ps = length xs"
  by (induction xs arbitrary: ps) (auto split: sum.splits simp: map_sum_def)

lemma compile_all_nth:
  "compile_all compile xs = Inr ps \<Longrightarrow> i < length xs \<Longrightarrow> compile (xs ! i) = Inr (ps ! i)"
proof (induction xs arbitrary: ps i)
  case (Cons x xs)
  then obtain p ps' where "compile x = Inr p" "compile_all compile xs = Inr ps'" "ps = p # ps'"
    by (auto split: sum.splits simp: map_sum_def)
  with Cons show ?case by (cases i) auto
qed simp

text \<open>The text that the parts render to when every expression gives a string.\<close>

fun filled :: "string list \<Rightarrow> string list \<Rightarrow> string" where
  "filled (a # subs) (x # outs) = a @ x @ filled subs outs"
| "filled (a # subs) [] = a"
| "filled [] outs = []"

lemma render_loop_filled:
  assumes "length subs = length ps + 1" "length outs = length ps"
    "\<forall>i < length ps. (ps ! i) env = Inr (VString (outs ! i))"
  shows "render_loop subs ps env b = Some (Inr (b @ filled subs outs))"
  using assms
proof (induction ps arbitrary: subs outs b)
  case Nil
  then show ?case by (cases subs) auto
next
  case (Cons p ps)
  then obtain a subs' x outs' where s: "subs = a # subs'" "outs = x # outs'"
    by (cases subs; cases outs) auto
  have "\<forall>i < length ps. (ps ! i) env = Inr (VString (outs' ! i))"
    using Cons.prems(3) s by (metis Suc_less_eq length_Cons nth_Cons_Suc)
  moreover have "p env = Inr (VString x)" using Cons.prems(3) s by force
  ultimately show ?case using Cons.IH [of subs' outs' "b @ a @ x"] Cons.prems s by simp
qed

lemma render_loop_total: "length subs = length ps + 1 \<Longrightarrow> render_loop subs ps env b \<noteq> None"
proof (induction ps arbitrary: subs b)
  case Nil
  then show ?case by (cases subs) auto
next
  case (Cons p ps)
  then obtain a subs' where "subs = a # subs'" by (cases subs) auto
  with Cons show ?case by (auto split: sum.split gval.split)
qed

text \<open>
  Rendering.  An expression string that \<open>Build\<close> accepted never makes \<open>Render\<close> index out of its
  literals, and when every embedded program gives a string, \<open>Render\<close> gives the literals with the
  results in the places of the expressions; a string without expressions renders to itself.
\<close>

lemma Render_Build:
  assumes build: "ExprString_Build compile s = Inr e"
  shows "Render e env \<noteq> None
    \<and> (length outs = length (SubExprs e)
        \<and> (\<forall>i < length outs. (SubExprs e ! i) env = Inr (VString (outs ! i)))
        \<longrightarrow> Render e env = Some (Inr (filled (fst (expr_parts s)) outs)))
    \<and> (SubExprs e = [] \<longrightarrow> Render e env = Some (Inr s))"
proof -
  obtain subs exprs where p: "expr_parts s = (subs, exprs)" by (cases "expr_parts s")
  have part: "length subs = length exprs + 1" "reassemble subs exprs = s"
    using expr_loop_parts [of 0 s "[]" "[]"] p by (simp_all add: expr_parts_def)
  obtain ps where ps: "compile_all compile exprs = Inr ps" and e: "e = \<lparr>SubStrings = subs, SubExprs = ps\<rparr>"
    using build p by (auto simp: ExprString_Build_def map_sum_def split: sum.splits)
  have len: "length subs = length ps + 1" using length_compile_all [OF ps] part(1) by simp
  have "Render e env = Some (Inr s)" if none: "ps = []"
  proof -
    from none have "exprs = []" using length_compile_all [OF ps] by simp
    with part obtain a where "subs = [a]" "a = s" by (cases subs) auto
    with none show ?thesis by (simp add: Render_def e)
  qed
  then show ?thesis
    using render_loop_total [OF len] render_loop_filled [OF len, of outs env] p
    by (auto simp: Render_def e)
qed

lemma Render_Build_witness:
  "Render \<lparr>SubStrings = [''a-'', []], SubExprs = [\<lambda>env. Inr (VString ''x'')]\<rparr> fmempty
   = Some (Inr ''a-x'')"
proof -
  let ?e = "\<lparr>SubStrings = [''a-'', []], SubExprs = [\<lambda>env. Inr (VString ''x'')]\<rparr>"
  let ?c = "\<lambda>_. Inr (\<lambda>env. Inr (VString ''x''))"
  have parts: "expr_parts ''a-EXPR(k)'' = ([''a-'', []], [''k''])" by code_simp
  have "ExprString_Build ?c ''a-EXPR(k)'' = Inr ?e" by (simp add: ExprString_Build_def parts)
  from Render_Build [OF this, of fmempty "[''x'']"] show ?thesis by (simp add: parts)
qed

section \<open>Attributes and resource keys\<close>

text \<open>
  The loops of \<open>Attribute\<close> and \<open>Identify\<close> range over a map; the list is one such order.  The
  environment is made once.  It holds the entry's own attribute map, so an expression sees the
  attributes added before it, unless the entry had no map and \<open>AddAttribute\<close> made a new one.
\<close>

fun attribute_loop :: "bool \<Rightarrow> (string \<times> ExprString) list \<Rightarrow> env \<Rightarrow> entry \<Rightarrow> (entry \<times> gerror option) option" where
  "attribute_loop shared [] env e = Some (e, None)"
| "attribute_loop shared ((k, v) # rest) env e =
     (case Render v env of
        None \<Rightarrow> None
      | Some (Inl err) \<Rightarrow> Some (e, Some err)
      | Some (Inr rendered) \<Rightarrow>
          (let e' = AddAttribute k rendered e;
               env' = (if shared then fmupd ''attributes'' (VMap (nonnil (Attributes e'))) env else env)
           in attribute_loop shared rest env' e'))"

definition Attribute :: "(string \<times> ExprString) list \<Rightarrow> entry \<Rightarrow> (entry \<times> gerror option) option" where
  "Attribute attributes e =
     (if attributes = [] then Some (e, None)
      else attribute_loop (Attributes e \<noteq> None) attributes (GetExprEnv fmempty e) e)"

fun identify_loop :: "bool \<Rightarrow> (string \<times> ExprString) list \<Rightarrow> env \<Rightarrow> entry \<Rightarrow> (entry \<times> gerror option) option" where
  "identify_loop shared [] env e = Some (e, None)"
| "identify_loop shared ((k, v) # rest) env e =
     (case Render v env of
        None \<Rightarrow> None
      | Some (Inl err) \<Rightarrow> Some (e, Some err)
      | Some (Inr rendered) \<Rightarrow>
          (let e' = AddResourceKey k rendered e;
               env' = (if shared then fmupd ''resource'' (VMap (nonnil (Resource e'))) env else env)
           in identify_loop shared rest env' e'))"

definition Identify :: "(string \<times> ExprString) list \<Rightarrow> entry \<Rightarrow> (entry \<times> gerror option) option" where
  "Identify resources e =
     (if resources = [] then Some (e, None)
      else identify_loop (Resource e \<noteq> None) resources (GetExprEnv fmempty e) e)"

text \<open>The \<open>Build\<close> methods: every configured string is built, in the order of the loop.\<close>

fun build_exprs :: "compiler \<Rightarrow> (string \<times> string) list \<Rightarrow> gerror + (string \<times> ExprString) list" where
  "build_exprs compile [] = Inr []"
| "build_exprs compile ((k, v) # rest) =
     (case ExprString_Build compile v of
        Inl err \<Rightarrow> Inl err
      | Inr x \<Rightarrow> map_sum id ((#) (k, x)) (build_exprs compile rest))"

definition AttributerConfig_Build :: "compiler \<Rightarrow> (string \<times> string) list \<Rightarrow> gerror + (string \<times> ExprString) list" where
  "AttributerConfig_Build compile attributes = build_exprs compile attributes"

definition IdentifierConfig_Build :: "compiler \<Rightarrow> (string \<times> string) list \<Rightarrow> gerror + (string \<times> ExprString) list" where
  "IdentifierConfig_Build compile resources = build_exprs compile resources"

section \<open>Host metadata\<close>

record HostIdentifierConfig =
  IncludeHostname :: bool
  IncludeIP :: bool
  cfgGetHostname :: "(gerror + string) option"
  cfgGetIP :: "(gerror + string) option"

record HostIdentifier =
  hostname :: string
  ip :: string
  includeHostname :: bool
  includeIP :: bool

text \<open>The two functions are given by what they return; \<open>None\<close> is a function that is not set.\<close>

definition HostIdentifierConfig_Build :: "HostIdentifierConfig \<Rightarrow> gerror + HostIdentifier" where
  "HostIdentifierConfig_Build c =
     (case cfgGetHostname c of
        None \<Rightarrow> Inl (StdError ''getHostname func is not set'')
      | Some getHostname \<Rightarrow>
     (case cfgGetIP c of
        None \<Rightarrow> Inl (StdError ''getIP func is not set'')
      | Some getIP \<Rightarrow>
     (let identifier = \<lparr>hostname = [], ip = [], includeHostname = IncludeHostname c, includeIP = IncludeIP c\<rparr> in
      case (if IncludeHostname c then getHostname else Inr []) of
        Inl err \<Rightarrow> Inl (Agent (Wrap err ''get hostname''))
      | Inr h \<Rightarrow>
     (case (if IncludeIP c then getIP else Inr []) of
        Inl err \<Rightarrow> Inl (Agent (Wrap err ''get ip address''))
      | Inr i \<Rightarrow> Inr (identifier\<lparr>hostname := h, ip := i\<rparr>)))))"

definition HostIdentifier_Identify :: "HostIdentifier \<Rightarrow> entry \<Rightarrow> entry" where
  "HostIdentifier_Identify h e =
     (let e = (if includeHostname h then AddResourceKey ''host.name'' (hostname h) e else e)
      in if includeIP h then AddResourceKey ''host.ip'' (ip h) e else e)"

text \<open>
  \<open>getIP\<close>: the first address of the last usable interface, without its mask.  An interface is given
  by its flags and its addresses (an error of \<open>Addrs\<close> is \<open>None\<close>).
\<close>

record interface =
  loopback :: bool
  up :: bool
  addrs :: "string list option"

fun ip_loop :: "interface list \<Rightarrow> string \<Rightarrow> string" where
  "ip_loop [] addr = addr"
| "ip_loop (i # is) addr =
     (if loopback i then ip_loop is addr
      else if \<not> up i then ip_loop is addr
      else case addrs i of
             Some (a # as) \<Rightarrow> ip_loop is (hd (str_split a ''/''))
           | _ \<Rightarrow> ip_loop is addr)"

definition getIP :: "gerror + interface list \<Rightarrow> gerror + string" where
  "getIP interfaces =
     (case interfaces of
        Inl err \<Rightarrow> Inl (Agent (Wrap err ''list interfaces''))
      | Inr is \<Rightarrow>
          (if ip_loop is [] = [] then Inl (Agent (NewError ''failed to find ip address''
             ''check that a non-loopback interface with an assigned IP address exists and is running'' []))
           else Inr (ip_loop is [])))"

text \<open>What adding attributes does to an entry: only the attribute map changes.\<close>

lemma attribute_loop_frame:
  "attribute_loop shared attributes env e = Some (e', r) \<Longrightarrow>
   Body e' = Body e \<and> Resource e' = Resource e \<and> Timestamp e' = Timestamp e
   \<and> (\<forall>k. k \<notin> fst ` set attributes \<longrightarrow>
        fmlookup (nonnil (Attributes e')) k = fmlookup (nonnil (Attributes e)) k)"
  by (induction shared attributes env e rule: attribute_loop.induct)
    (auto simp: AddAttribute_def Let_def split: option.splits sum.splits)

lemma Attribute_frame:
  "Attribute attributes e = Some (e', r) \<Longrightarrow>
   Body e' = Body e \<and> Resource e' = Resource e \<and> Timestamp e' = Timestamp e"
  using attribute_loop_frame by (auto simp: Attribute_def split: if_splits)

lemma identify_loop_frame:
  "identify_loop shared resources env e = Some (e', r) \<Longrightarrow>
   Body e' = Body e \<and> Attributes e' = Attributes e \<and> Timestamp e' = Timestamp e
   \<and> (\<forall>k. k \<notin> fst ` set resources \<longrightarrow>
        fmlookup (nonnil (Resource e')) k = fmlookup (nonnil (Resource e)) k)"
  by (induction shared resources env e rule: identify_loop.induct)
    (auto simp: AddResourceKey_def Let_def split: option.splits sum.splits)

lemma Identify_frame:
  "Identify resources e = Some (e', r) \<Longrightarrow>
   Body e' = Body e \<and> Attributes e' = Attributes e \<and> Timestamp e' = Timestamp e"
  using identify_loop_frame by (auto simp: Identify_def split: if_splits)

end
