(* ===== verification/Base_Operators.thy ===== *)
theory Base_Operators
  imports Severities Expr_Strings
begin

text \<open>
  The operators that all others embed: \<open>operator/helper/operator.go\<close> (basic), \<open>writer.go\<close>,
  \<open>transformer.go\<close>, \<open>parser.go\<close>, \<open>input.go\<close>, \<open>output.go\<close>, the sub-parsers \<open>scope_name.go\<close> and
  \<open>trace.go\<close>, and the interface \<open>operator/operator.go\<close> with its registry and persister.

  Embedding of structs is extension of records.  Sending an entry is a list of deliveries: which
  operator gets which entry, in order.  A transform changes the entry in place and may fail, so it
  gives the changed entry next to the error; \<open>None\<close> is a panic.  Loggers and contexts are left
  out, up to the check for a missing logger.
\<close>

type_synonym transform = "entry \<Rightarrow> (entry \<times> gerror option) option"
type_synonym parse_function = "gval \<Rightarrow> (gerror + gval) option"

text \<open>What an operator knows of another one that it writes to.\<close>

record opref =
  Op_ID :: string
  Op_CanProcess :: bool

type_synonym outcome = "(opref \<times> entry) list \<times> gerror option"

section \<open>Basic operators\<close>

record BasicConfig =
  cfgOperatorID :: string
  cfgOperatorType :: string

definition NewBasicConfig :: "string \<Rightarrow> string \<Rightarrow> BasicConfig" where
  "NewBasicConfig i t = \<lparr>cfgOperatorID = i, cfgOperatorType = t\<rparr>"

definition BasicConfig_ID :: "'a BasicConfig_scheme \<Rightarrow> string" where
  "BasicConfig_ID c = (if cfgOperatorID c = [] then cfgOperatorType c else cfgOperatorID c)"

definition BasicConfig_SetID :: "string \<Rightarrow> 'a BasicConfig_scheme \<Rightarrow> 'a BasicConfig_scheme" where
  "BasicConfig_SetID i c = c\<lparr>cfgOperatorID := i\<rparr>"

record BasicOperator =
  OperatorID :: string
  OperatorType :: string

definition BasicConfig_Build :: "bool \<Rightarrow> 'a BasicConfig_scheme \<Rightarrow> gerror + BasicOperator" where
  "BasicConfig_Build has_logger c =
     (if cfgOperatorType c = [] then Inl (Agent (NewError ''missing required `type` field.''
        ''ensure that all operators have a uniquely defined `type` field.''
        [''operator_id'', BasicConfig_ID c]))
      else if \<not> has_logger then Inl (Agent (NewError ''operator build context is missing a logger.''
        ''this is an unexpected internal error''
        [''operator_id'', BasicConfig_ID c, ''operator_type'', cfgOperatorType c]))
      else Inr \<lparr>OperatorID = BasicConfig_ID c, OperatorType = cfgOperatorType c\<rparr>)"

definition BasicOperator_ID :: "'a BasicOperator_scheme \<Rightarrow> string" where
  "BasicOperator_ID p = (if OperatorID p = [] then OperatorType p else OperatorID p)"

section \<open>Writers\<close>

record WriterConfig = BasicConfig +
  cfgOutputIDs :: "string list"

record WriterOperator = BasicOperator +
  OutputIDs :: "string list"
  OutputOperators :: "opref list"

definition NewWriterConfig :: "string \<Rightarrow> string \<Rightarrow> WriterConfig" where
  "NewWriterConfig i t = BasicConfig.extend (NewBasicConfig i t) (WriterConfig.fields [])"

definition WriterConfig_Build :: "bool \<Rightarrow> 'a WriterConfig_scheme \<Rightarrow> gerror + WriterOperator" where
  "WriterConfig_Build has_logger c =
     (case BasicConfig_Build has_logger c of
        Inl err \<Rightarrow> Inl err
      | Inr b \<Rightarrow> Inr (BasicOperator.extend b (WriterOperator.fields (cfgOutputIDs c) [])))"

text \<open>Every output but the last gets a copy; the last one gets the entry itself.\<close>

fun write_loop :: "opref list \<Rightarrow> entry \<Rightarrow> (opref \<times> entry) list" where
  "write_loop [] e = []"
| "write_loop [op] e = [(op, e)]"
| "write_loop (op # ops) e = (op, entry_Copy e) # write_loop ops e"

definition Write :: "'a WriterOperator_scheme \<Rightarrow> entry \<Rightarrow> (opref \<times> entry) list" where
  "Write w e = write_loop (OutputOperators w) e"

fun findOperator :: "opref list \<Rightarrow> string \<Rightarrow> opref option" where
  "findOperator [] operatorID = None"
| "findOperator (op # ops) operatorID = (if Op_ID op = operatorID then Some op else findOperator ops operatorID)"

fun set_outputs_loop :: "opref list \<Rightarrow> string list \<Rightarrow> gerror + opref list" where
  "set_outputs_loop operators [] = Inr []"
| "set_outputs_loop operators (operatorID # ids) =
     (case findOperator operators operatorID of
        None \<Rightarrow> Inl (StdError (''operator '' @ quoted operatorID @ '' does not exist''))
      | Some operator \<Rightarrow>
          if \<not> Op_CanProcess operator
          then Inl (StdError (''operator '' @ quoted operatorID @ '' can not process entries''))
          else map_sum id ((#) operator) (set_outputs_loop operators ids))"

definition SetOutputs :: "opref list \<Rightarrow> 'a WriterOperator_scheme \<Rightarrow> 'a WriterOperator_scheme \<times> gerror option" where
  "SetOutputs operators w =
     (case set_outputs_loop operators (OutputIDs w) of
        Inl err \<Rightarrow> (w, Some err)
      | Inr outputOperators \<Rightarrow> (w\<lparr>OutputOperators := outputOperators\<rparr>, None))"

definition SetOutputIDs :: "string list \<Rightarrow> 'a WriterOperator_scheme \<Rightarrow> 'a WriterOperator_scheme" where
  "SetOutputIDs opIds w = w\<lparr>OutputIDs := opIds\<rparr>"

fun NewOutputIDsFromArray :: "gval list \<Rightarrow> gerror + string list" where
  "NewOutputIDsFromArray [] = Inr []"
| "NewOutputIDsFromArray (rawValue # rest) =
     (case rawValue of
        VString strValue \<Rightarrow> map_sum id ((#) strValue) (NewOutputIDsFromArray rest)
      | _ \<Rightarrow> Inl (StdError ''value in array is not of type string''))"

definition NewOutputIDsFromInterface :: "gval \<Rightarrow> gerror + string list" where
  "NewOutputIDsFromInterface value =
     (case value of
        VString str \<Rightarrow> Inr [str]
      | VArr array \<Rightarrow> NewOutputIDsFromArray array
      | _ \<Rightarrow> Inl (StdError ''value is not of type string or string array''))"

text \<open>\<open>UnmarshalJSON\<close> and \<open>UnmarshalYAML\<close>, over the decoder; on an error the receiver keeps its IDs.\<close>

definition OutputIDs_Unmarshal ::
  "('raw \<Rightarrow> gerror + gval) \<Rightarrow> 'raw \<Rightarrow> string list \<Rightarrow> string list \<times> gerror option" where
  "OutputIDs_Unmarshal unmarshal bytes oids =
     (case unmarshal bytes of
        Inl err \<Rightarrow> (oids, Some err)
      | Inr value \<Rightarrow>
          (case NewOutputIDsFromInterface value of Inl err \<Rightarrow> (oids, Some err) | Inr ids \<Rightarrow> (ids, None)))"

section \<open>Transformers\<close>

abbreviation SendOnError :: string where "SendOnError \<equiv> ''send''"
abbreviation DropOnError :: string where "DropOnError \<equiv> ''drop''"

record TransformerConfig = WriterConfig +
  cfgOnError :: string
  cfgIfExpr :: string

record TransformerOperator = WriterOperator +
  OnError :: string
  IfExpr :: "program option"

definition NewTransformerConfig :: "string \<Rightarrow> string \<Rightarrow> TransformerConfig" where
  "NewTransformerConfig i t =
     WriterConfig.extend (NewWriterConfig i t) (TransformerConfig.fields SendOnError [])"

definition TransformerConfig_Build ::
  "compiler \<Rightarrow> bool \<Rightarrow> 'a TransformerConfig_scheme \<Rightarrow> gerror + TransformerOperator" where
  "TransformerConfig_Build compile has_logger c =
     (case WriterConfig_Build has_logger c of
        Inl err \<Rightarrow> Inl (Agent (WithDetails err [''operator_id'', BasicConfig_ID c]))
      | Inr w \<Rightarrow>
          if cfgOnError c \<noteq> SendOnError \<and> cfgOnError c \<noteq> DropOnError
          then Inl (Agent (NewError ''operator config has an invalid `on_error` field.''
            ''ensure that the `on_error` field is set to either `send` or `drop`.''
            [''on_error'', cfgOnError c]))
          else if cfgIfExpr c \<noteq> []
          then (case compile (cfgIfExpr c) of
                  Inl err \<Rightarrow> Inl (StdError (''failed to compile expression '' @ quoted (cfgIfExpr c)
                    @ '': '' @ error_text err))
                | Inr compiled \<Rightarrow> Inr (WriterOperator.extend w (TransformerOperator.fields (cfgOnError c) (Some compiled))))
          else Inr (WriterOperator.extend w (TransformerOperator.fields (cfgOnError c) None)))"

text \<open>\<open>matches.(bool)\<close> panics on another type; a program compiled with \<open>AsBool\<close> gives none.\<close>

definition Skip :: "'a TransformerOperator_scheme \<Rightarrow> entry \<Rightarrow> (gerror + bool) option" where
  "Skip t e =
     (case IfExpr t of
        None \<Rightarrow> Some (Inr False)
      | Some program \<Rightarrow>
          (case program (GetExprEnv fmempty e) of
             Inl err \<Rightarrow> Some (Inl (StdError (''running if expr: '' @ error_text err)))
           | Inr (VBool matches) \<Rightarrow> Some (Inr (\<not> matches))
           | Inr _ \<Rightarrow> None))"

definition HandleEntryError :: "'a TransformerOperator_scheme \<Rightarrow> entry \<Rightarrow> gerror \<Rightarrow> outcome" where
  "HandleEntryError t e err = (if OnError t = SendOnError then Write t e else [], Some err)"

definition ProcessWith :: "'a TransformerOperator_scheme \<Rightarrow> entry \<Rightarrow> transform \<Rightarrow> outcome option" where
  "ProcessWith t e transform =
     (case Skip t e of
        None \<Rightarrow> None
      | Some (Inl err) \<Rightarrow> Some (HandleEntryError t e err)
      | Some (Inr True) \<Rightarrow> Some (Write t e, None)
      | Some (Inr False) \<Rightarrow>
          (case transform e of
             None \<Rightarrow> None
           | Some (e', Some err) \<Rightarrow> Some (HandleEntryError t e' err)
           | Some (e', None) \<Rightarrow> Some (Write t e', None)))"

section \<open>Sub-parsers for the scope name and for traces\<close>

text \<open>A field of a config that was not set (\<open>Field{}\<close>) holds no interface: using it panics.\<close>

definition ScopeNameParser_Parse :: "field option \<Rightarrow> transform" where
  "ScopeNameParser_Parse parseFrom ent =
     (case parseFrom of
        None \<Rightarrow> None
      | Some f \<Rightarrow>
          (case field_Get f ent of
             None \<Rightarrow> Some (ent, Some (Agent (NewError ''log entry does not have the expected parse_from field''
               ''ensure that all entries forwarded to this parser contain the parse_from field''
               [''parse_from'', field_string f])))
           | Some (VString strVal) \<Rightarrow> Some (ent\<lparr>ScopeName := strVal\<rparr>, None)
           | Some value \<Rightarrow>
               (case field_Set f value ent of
                  (ent', Some err) \<Rightarrow>
                    Some (ent', Some (Agent (Wrap err ''parse_from field does not contain a string'')))
                | (ent', None) \<Rightarrow> Some (ent', Some (Agent (NewError ''parse_from field does not contain a string''
                    ''ensure that all entries forwarded to this parser contain a string in the parse_from field''
                    [''parse_from'', field_string f]))))))"

text \<open>
  The verb \<open>%v\<close> on a value.  The text of floats, times and maps with keys of any type is left to
  the parameter \<open>show_other\<close>.
\<close>

primrec sprint_v :: "(gval \<Rightarrow> string) \<Rightarrow> gval \<Rightarrow> string" where
  "sprint_v show_other VNil = ''<nil>''"
| "sprint_v show_other (VBool b) = (if b then ''true'' else ''false'')"
| "sprint_v show_other (VString s) = s"
| "sprint_v show_other (VInt i) = itoa (sint i)"
| "sprint_v show_other (VByte b) = itoa (uint b)"
| "sprint_v show_other (VUint w u) = itoa (uint u)"
| "sprint_v show_other (VFloat r) = show_other (VFloat r)"
| "sprint_v show_other (VTime t) = show_other (VTime t)"
| "sprint_v show_other (VBytes s) = ''['' @ str_join (map (\<lambda>c. itoa (of_char c)) s) '' '' @ '']''"
| "sprint_v show_other (VStrings ss) = ''['' @ str_join ss '' '' @ '']''"
| "sprint_v show_other (VInts is) = ''['' @ str_join (map (\<lambda>i. itoa (sint i)) is) '' '' @ '']''"
| "sprint_v show_other (VArr vs) = ''['' @ str_join (map (sprint_v show_other) vs) '' '' @ '']''"
| "sprint_v show_other (VMap m) =
     ''map['' @ str_join (map (\<lambda>(k, v). k @ '':'' @ v) (sorted_list_of_fmap (fmmap (sprint_v show_other) m))) '' '' @ '']''"
| "sprint_v show_other (VStrMap m) =
     ''map['' @ str_join (map (\<lambda>(k, v). k @ '':'' @ v) (sorted_list_of_fmap m)) '' '' @ '']''"
| "sprint_v show_other (VStrMaps m) =
     ''map['' @ str_join (map (\<lambda>(k, v). k @ '':map['' @ str_join (map (\<lambda>(k, v). k @ '':'' @ v)
       (sorted_list_of_fmap v)) '' '' @ '']'') (sorted_list_of_fmap m)) '' '' @ '']''"
| "sprint_v show_other (VIfaceMap kvs) = show_other (VIfaceMap kvs)"

text \<open>\<open>hex.DecodeString\<close>\<close>

definition hex_value :: "char \<Rightarrow> nat option" where
  "hex_value c =
     (let n = of_char c :: nat in
      if 48 \<le> n \<and> n \<le> 57 then Some (n - 48)
      else if 97 \<le> n \<and> n \<le> 102 then Some (n - 87)
      else if 65 \<le> n \<and> n \<le> 70 then Some (n - 55)
      else None)"

definition hex_upper :: "nat \<Rightarrow> char" where
  "hex_upper d = (if d < 10 then char_of (48 + d) else char_of (55 + d))"

text \<open>the verb \<open>%#U\<close> on a byte: the code point, and the character when it is printable\<close>

definition byte_point :: "char \<Rightarrow> string" where
  "byte_point c =
     (let n = of_char c :: nat
      in ''U+00'' @ [hex_upper (n div 16), hex_upper (n mod 16)]
         @ (if 32 \<le> n \<and> n < 127 then '' '' @ quoted [c]
            else if 161 \<le> n \<and> n \<noteq> 173
            then '' '' @ quoted [char_of (192 + n div 64), char_of (128 + n mod 64)]
            else []))"

definition invalid_byte :: "char \<Rightarrow> gerror" where
  "invalid_byte c = StdError (''encoding/hex: invalid byte: '' @ byte_point c)"

fun hex_decode :: "string \<Rightarrow> gerror + string" where
  "hex_decode [] = Inr []"
| "hex_decode [c] =
     (case hex_value c of
        None \<Rightarrow> Inl (invalid_byte c)
      | Some _ \<Rightarrow> Inl (StdError ''encoding/hex: odd length hex string''))"
| "hex_decode (c # d # s) =
     (case hex_value c of
        None \<Rightarrow> Inl (invalid_byte c)
      | Some a \<Rightarrow>
          (case hex_value d of
             None \<Rightarrow> Inl (invalid_byte d)
           | Some b \<Rightarrow> map_sum id ((#) (char_of (16 * a + b))) (hex_decode s)))"

definition parseHexField :: "(gval \<Rightarrow> string) \<Rightarrow> entry \<Rightarrow> field \<Rightarrow> string option \<times> gerror option" where
  "parseHexField show_other e f =
     (case field_Get f e of
        None \<Rightarrow> (None, None)
      | Some value \<Rightarrow>
          (case hex_decode (sprint_v show_other value) of
             Inl err \<Rightarrow> (None, Some err)
           | Inr data \<Rightarrow> (Some data, None)))"

record TraceParser =
  tp_TraceId :: "field option"
  tp_SpanId :: "field option"
  tp_TraceFlags :: "field option"

definition NewTraceParser :: TraceParser where
  "NewTraceParser = \<lparr>tp_TraceId = Some (BodyField [''trace_id'']),
     tp_SpanId = Some (BodyField [''span_id'']), tp_TraceFlags = Some (BodyField [''trace_flags''])\<rparr>"

definition default_to :: "'a \<Rightarrow> 'a option \<Rightarrow> 'a option" where
  "default_to d x = (case x of None \<Rightarrow> Some d | Some y \<Rightarrow> Some y)"

definition TraceParser_Validate :: "TraceParser \<Rightarrow> TraceParser" where
  "TraceParser_Validate t =
     \<lparr>tp_TraceId = default_to (BodyField [''trace_id'']) (tp_TraceId t),
      tp_SpanId = default_to (BodyField [''span_id'']) (tp_SpanId t),
      tp_TraceFlags = default_to (BodyField [''trace_flags'']) (tp_TraceFlags t)\<rparr>"

definition detail :: "string \<Rightarrow> gerror option \<Rightarrow> string list" where
  "detail k err = (case err of None \<Rightarrow> [] | Some x \<Rightarrow> [k, error_text x])"

text \<open>The three fields are read and set one after the other, also when one of them fails.\<close>

definition TraceParser_Parse :: "(gval \<Rightarrow> string) \<Rightarrow> TraceParser \<Rightarrow> transform" where
  "TraceParser_Parse show_other t e =
     (case (tp_TraceId t, tp_SpanId t, tp_TraceFlags t) of
        (Some ft, Some fs, Some ff) \<Rightarrow>
          (case parseHexField show_other e ft of (tid, errTraceId) \<Rightarrow>
           let e = e\<lparr>TraceId := tid\<rparr> in
           case parseHexField show_other e fs of (sid, errSpanId) \<Rightarrow>
           let e = e\<lparr>SpanId := sid\<rparr> in
           case parseHexField show_other e ff of (tf, errTraceFlags) \<Rightarrow>
           let e = e\<lparr>TraceFlags := tf\<rparr> in
           if errTraceId \<noteq> None \<or> errTraceFlags \<noteq> None \<or> errSpanId \<noteq> None
           then Some (e, Some (Agent (WithDetails (Agent (NewError ''Error decoding traces for logs'' [] []))
             (detail ''trace_id'' errTraceId @ detail ''span_id'' errSpanId
              @ detail ''trace_flags'' errTraceFlags))))
           else Some (e, None))
      | _ \<Rightarrow> None)"

text \<open>What a transformer has after \<open>Build\<close>; its outputs are connected later.\<close>

lemma TransformerConfig_Build_facts:
  assumes "TransformerConfig_Build compile has_logger c = Inr t"
  shows "OnError t = cfgOnError c" "OnError t = SendOnError \<or> OnError t = DropOnError"
    "OutputOperators t = []" "OutputIDs t = cfgOutputIDs c" "IfExpr t = None \<longleftrightarrow> cfgIfExpr c = []"
    "OperatorID t = BasicConfig_ID c"
proof -
  obtain w where w: "WriterConfig_Build has_logger c = Inr w"
    using assms by (cases "WriterConfig_Build has_logger c") (auto simp: TransformerConfig_Build_def)
  obtain b where b: "BasicConfig_Build has_logger c = Inr b"
    using w by (cases "BasicConfig_Build has_logger c") (auto simp: WriterConfig_Build_def)
  have "OperatorID b = BasicConfig_ID c" using b by (auto simp: BasicConfig_Build_def split: if_splits)
  moreover have "w = BasicOperator.extend b (WriterOperator.fields (cfgOutputIDs c) [])"
    using w b by (simp add: WriterConfig_Build_def)
  moreover have "cfgOnError c = SendOnError \<or> cfgOnError c = DropOnError"
    using assms w unfolding TransformerConfig_Build_def by (simp split: if_splits)
  moreover have "\<exists>x. t = WriterOperator.extend w (TransformerOperator.fields (cfgOnError c) x)
      \<and> (x = None \<longleftrightarrow> cfgIfExpr c = [])"
    using assms w calculation(3) unfolding TransformerConfig_Build_def
    by (cases "compile (cfgIfExpr c)") (auto split: if_splits)
  ultimately show "OnError t = cfgOnError c" "OnError t = SendOnError \<or> OnError t = DropOnError"
    "OutputOperators t = []" "OutputIDs t = cfgOutputIDs c" "IfExpr t = None \<longleftrightarrow> cfgIfExpr c = []"
    "OperatorID t = BasicConfig_ID c"
    by (auto simp: BasicOperator.defs WriterOperator.defs TransformerOperator.defs)
qed

end
