(* ===== verification/Time_Parsing.thy ===== *)
theory Time_Parsing
  imports Base_Operators "HOL-Library.Signed_Division"
begin

text \<open>
  The time parser: \<open>operator/helper/time.go\<close>.

  Parameters are the strptime translation (a third-party package), the time zone database with
  \<open>time.LoadLocation\<close>, and \<open>time.ParseInLocation\<close>, whose layouts and zone rules depend on that
  database.  The clock \<open>now\<close> is an argument.  A time is shown in a zone of fixed offset and the
  process runs in UTC, so \<open>time.Unix\<close> gives UTC times.
\<close>

record 'loc time_env =
  toNative :: "string \<Rightarrow> gerror + string"
  loadLocation :: "string \<Rightarrow> gerror + 'loc"
  utcLocation :: 'loc
  localLocation :: 'loc
  parseInLocation :: "string \<Rightarrow> string \<Rightarrow> 'loc option \<Rightarrow> gtime \<times> gerror option"

record 'loc TimeParser =
  tmParseFrom :: "field option"
  Layout :: string
  LayoutType :: string
  Location :: string
  location :: "'loc option"

definition NewTimeParser :: "'loc TimeParser" where
  "NewTimeParser = \<lparr>tmParseFrom = None, Layout = [], LayoutType = ''strptime'', Location = [], location = None\<rparr>"

definition TimeParser_IsZero :: "'loc TimeParser \<Rightarrow> bool" where
  "TimeParser_IsZero t \<longleftrightarrow> Layout t = []"

section \<open>Validation\<close>

definition setLocation :: "'loc time_env \<Rightarrow> 'loc TimeParser \<Rightarrow> gerror + 'loc TimeParser" where
  "setLocation te t =
     (if Location t \<noteq> [] then
        (case loadLocation te (Location t) of
           Inl err \<Rightarrow> Inl (StdError (''failed to load location '' @ Location t @ '': '' @ error_text err))
         | Inr loc \<Rightarrow> Inr (t\<lparr>location := Some loc\<rparr>))
      else if has_suffix (Layout t) ''Z'' then Inr (t\<lparr>location := Some (utcLocation te)\<rparr>)
      else Inr (t\<lparr>location := Some (localLocation te)\<rparr>))"

definition check_location :: "'loc time_env \<Rightarrow> 'loc TimeParser \<Rightarrow> gerror + 'loc TimeParser" where
  "check_location te t =
     (if LayoutType t = ''gotime''
      then (case setLocation te t of
              Inl err \<Rightarrow> Inl (Agent (Wrap err (''invalid '' @ quoted ''location'')))
            | Inr t' \<Rightarrow> Inr t')
      else Inr t)"

definition TimeParser_Validate :: "'loc time_env \<Rightarrow> 'loc TimeParser \<Rightarrow> gerror + 'loc TimeParser" where
  "TimeParser_Validate te t =
     (if tmParseFrom t = None then Inl (StdError (''missing required parameter '' @ quoted ''parse_from''))
      else if Layout t = [] \<and> LayoutType t \<noteq> ''native''
      then Inl (Agent (NewError ''missing required configuration parameter `layout`'' [] []))
      else
        (let t = (if LayoutType t = [] then t\<lparr>LayoutType := ''strptime''\<rparr> else t)
         in if LayoutType t = ''native'' \<or> LayoutType t = ''gotime'' then check_location te t
            else if LayoutType t = ''strptime'' then
              (case toNative te (Layout t) of
                 Inl err \<Rightarrow> Inl (Agent (Wrap err ''parse strptime layout''))
               | Inr layout \<Rightarrow> check_location te (t\<lparr>Layout := layout, LayoutType := ''gotime''\<rparr>))
            else if LayoutType t = ''epoch'' then
              (if Layout t \<in> set [''s'', ''ms'', ''us'', ''ns'', ''s.ms'', ''s.us'', ''s.ns'']
               then check_location te t
               else Inl (Agent (NewError ''invalid `layout` for `epoch` type''
                 (''specify '' @ str_join (map quoted [''s'', ''ms'', ''us'', ''ns'', ''s.ms'', ''s.us'']) '', ''
                  @ '', or '' @ quoted ''s.ns'') [])))
            else Inl (Agent (NewError (''unsupported layout_type '' @ LayoutType t)
              (''valid values are '' @ quoted ''strptime'' @ '', '' @ quoted ''gotime'' @ '', and ''
               @ quoted ''epoch'') []))))"

section \<open>Epoch stamps\<close>

text \<open>\<open>strconv.ParseInt(s, 10, 64)\<close>: an optional sign, decimal digits, in range.\<close>

definition digit_value :: "char \<Rightarrow> nat option" where
  "digit_value c = (let n = of_char c :: nat in if 48 \<le> n \<and> n \<le> 57 then Some (n - 48) else None)"

fun digits_value :: "string \<Rightarrow> nat \<Rightarrow> nat option" where
  "digits_value [] acc = Some acc"
| "digits_value (c # cs) acc =
     (case digit_value c of None \<Rightarrow> None | Some d \<Rightarrow> digits_value cs (10 * acc + d))"

definition in_i64 :: "int \<Rightarrow> i64 option" where
  "in_i64 i = (if - (2 ^ 63) \<le> i \<and> i < 2 ^ 63 then Some (word_of_int i) else None)"

definition parse_int :: "string \<Rightarrow> i64 option" where
  "parse_int s =
     (let neg = has_prefix s ''-'';
          ds = (if neg \<or> has_prefix s ''+'' then tl s else s)
      in if ds = [] then None
         else case digits_value ds 0 of
                None \<Rightarrow> None
              | Some n \<Rightarrow> in_i64 (if neg then - int n else int n))"

text \<open>
  The verb \<open>%10.nf\<close>: \<open>n\<close> decimals, rounded half to even, right-aligned in ten columns.
\<close>

definition round_half_even :: "rat \<Rightarrow> int" where
  "round_half_even r =
     (let f = \<lfloor>r\<rfloor>; d = r - of_int f
      in if d < 1/2 then f else if d > 1/2 then f + 1 else if even f then f else f + 1)"

definition format_f :: "nat \<Rightarrow> rat \<Rightarrow> string" where
  "format_f n v =
     (let k = round_half_even (\<bar>v\<bar> * 10 ^ n);
          text = (if v < 0 then ''-'' else []) @ itoa (k div 10 ^ n) @ ''.'' @ pad n (itoa (k mod 10 ^ n))
      in replicate (10 - length text) (CHR '' '') @ text)"

definition getEpochStamp :: "string \<Rightarrow> gval \<Rightarrow> gerror + string" where
  "getEpochStamp layout value =
     (case value of
        VString v \<Rightarrow> Inr v
      | VBytes v \<Rightarrow> Inr v
      | VInt v \<Rightarrow>
          if layout \<in> set [''s'', ''ms'', ''us'', ''ns''] then Inr (itoa (sint v))
          else if layout \<in> set [''s.ms'', ''s.us'', ''s.ns''] then Inr (itoa (sint v) @ ''.0'')
          else Inl (StdError (''invalid layout '' @ quoted layout))
      | VUint w v \<Rightarrow>
          if w = 16 then Inl (StdError (''type '' @ go_type value @ '' cannot be parsed as a time''))
          else if layout \<in> set [''s'', ''ms'', ''us'', ''ns''] then Inr (itoa (uint v))
          else if layout \<in> set [''s.ms'', ''s.us'', ''s.ns''] then Inr (itoa (uint v) @ ''.0'')
          else Inl (StdError (''invalid layout '' @ quoted layout))
      | VFloat v \<Rightarrow>
          if layout \<in> set [''s'', ''ms'', ''us'', ''ns''] then Inr (itoa (int_of_float v))
          else if layout = ''s.ms'' then Inr (format_f 3 v)
          else if layout = ''s.us'' then Inr (format_f 6 v)
          else if layout = ''s.ns'' then Inr (format_f 9 v)
          else Inl (StdError (''invalid layout '' @ quoted layout))
      | _ \<Rightarrow> Inl (StdError (''type '' @ go_type value @ '' cannot be parsed as a time'')))"

definition toTime :: "string \<Rightarrow> i64 \<Rightarrow> gtime" where
  "toTime layout i =
     (let n = sint i in
      if layout = ''s'' then time_unix n 0
      else if layout = ''ms'' then time_unix (n sdiv 1000) ((n smod 1000) * 1000000)
      else if layout = ''us'' then time_unix (n sdiv 1000000) ((n smod 1000000) * 1000)
      else time_unix 0 n)"

definition subsecToNs :: "string \<Rightarrow> i64" where
  "subsecToNs layout = (if layout = ''s.ms'' then 1000000 else if layout = ''s.us'' then 1000 else 1)"

definition invalid_stamp :: "string \<Rightarrow> string \<Rightarrow> gerror" where
  "invalid_stamp stamp layout =
     StdError (''invalid value '' @ quoted stamp @ '' for layout '' @ quoted layout)"

text \<open>The product \<open>subsec*subsecToNs\<close> is one of 64-bit integers and wraps around.\<close>

definition parseEpochTime :: "string \<Rightarrow> gval \<Rightarrow> gerror + gtime" where
  "parseEpochTime layout value =
     (case getEpochStamp layout value of
        Inl err \<Rightarrow> Inl err
      | Inr stamp \<Rightarrow>
          if layout \<in> set [''s'', ''ms'', ''us'', ''ns''] then
            (case parse_int stamp of
               None \<Rightarrow> Inl (invalid_stamp stamp layout)
             | Some i \<Rightarrow> Inr (toTime layout i))
          else if layout \<in> set [''s.ms'', ''s.us'', ''s.ns''] then
            (case str_split stamp ''.'' of
               [a, b] \<Rightarrow>
                 (case (parse_int a, parse_int b) of
                    (Some sec, Some subsec) \<Rightarrow> Inr (time_unix (sint sec) (sint (subsec * subsecToNs layout)))
                  | _ \<Rightarrow> Inl (invalid_stamp stamp layout))
             | _ \<Rightarrow> Inl (invalid_stamp stamp layout))
          else Inl (StdError (''invalid layout '' @ quoted layout)))"

section \<open>Parsing\<close>

text \<open>
  \<open>time.Date\<close> in a zone of fixed offset: the fields of the date need not be in range, a 29 February
  outside a leap year is 1 March.
\<close>

definition days_of_civil :: "int \<Rightarrow> int \<Rightarrow> int \<Rightarrow> int" where
  "days_of_civil y m d =
     (let y = (if m \<le> 2 then y - 1 else y);
          mp = (if m > 2 then m - 3 else m + 9)
      in 365 * y + y div 4 - y div 100 + y div 400 + (153 * mp + 2) div 5 + d - 1 - 719468)"

text \<open>the same month, day and clock reading in another year\<close>

definition with_year :: "int \<Rightarrow> gtime \<Rightarrow> gtime" where
  "with_year y t =
     (case time_date t of (_, mo, d) \<Rightarrow>
        GTime ((days_of_civil y mo d * 86400 + local_seconds t mod 86400 - ZoneOffset t) * ns_per_s
               + time_nanosecond t) (ZoneOffset t) (ZoneName t))"

definition setTimestampYear :: "gtime \<Rightarrow> gtime \<Rightarrow> gtime" where
  "setTimestampYear now t =
     (if time_year t > 0 then t
      else let d = with_year (time_year now) t
           in if UnixNano d > UnixNano now + 7 * 86400 * ns_per_s
              then with_year (time_year d - 1) d else d)"

definition parseGotime :: "'loc time_env \<Rightarrow> 'loc TimeParser \<Rightarrow> gval \<Rightarrow> gtime \<times> gerror option" where
  "parseGotime te t value =
     (case (case value of VString v \<Rightarrow> Some v | VBytes v \<Rightarrow> Some v | _ \<Rightarrow> None) of
        None \<Rightarrow> (zero_time, Some (StdError (''type '' @ go_type value @ '' cannot be parsed as a time'')))
      | Some str \<Rightarrow>
          (case parseInLocation te (Layout t) str (location t) of
             (result, err) \<Rightarrow>
               if ZoneOffset result \<noteq> 0 \<or> ZoneName result = ''UTC'' then (result, err)
               else (case loadLocation te (ZoneName result) of
                       Inl locErr \<Rightarrow> (result, Some (StdError (''failed to load location '' @ ZoneName result
                         @ '': '' @ error_text locErr)))
                     | Inr loc \<Rightarrow>
                         (case parseInLocation te (Layout t) str (Some loc) of
                            (resultLoc, Some locErr) \<Rightarrow> (result, err)
                          | (resultLoc, None) \<Rightarrow> (resultLoc, None)))))"

definition TimeParser_Parse ::
  "'loc time_env \<Rightarrow> (gval \<Rightarrow> string) \<Rightarrow> gtime \<Rightarrow> 'loc TimeParser \<Rightarrow> transform" where
  "TimeParser_Parse te show_other now t e =
     (case tmParseFrom t of
        None \<Rightarrow> None
      | Some f \<Rightarrow>
     (case field_Get f e of
        None \<Rightarrow> Some (e, Some (Agent (NewError ''log entry does not have the expected parse_from field''
          ''ensure that all entries forwarded to this parser contain the parse_from field''
          [''parse_from'', field_string f])))
      | Some value \<Rightarrow>
          if LayoutType t = ''native'' then
            (case value of
               VTime timeValue \<Rightarrow> Some (e\<lparr>Timestamp := setTimestampYear now timeValue\<rparr>, None)
             | _ \<Rightarrow> Some (e, Some (StdError (''native time.Time field required, but found ''
                 @ sprint_v show_other value @ '' of type '' @ go_type value))))
          else if LayoutType t = ''gotime'' then
            (case parseGotime te t value of
               (_, Some err) \<Rightarrow> Some (e, Some err)
             | (timeValue, None) \<Rightarrow> Some (e\<lparr>Timestamp := setTimestampYear now timeValue\<rparr>, None))
          else if LayoutType t = ''epoch'' then
            (case parseEpochTime (Layout t) value of
               Inl err \<Rightarrow> Some (e, Some err)
             | Inr timeValue \<Rightarrow> Some (e\<lparr>Timestamp := setTimestampYear now timeValue\<rparr>, None))
          else Some (e, Some (StdError (''unsupported layout type: '' @ LayoutType t)))))"

section \<open>Whole epoch stamps\<close>

lemma digit_value_digit: "d < 10 \<Longrightarrow> digit_value (digit d) = Some d"
  by (simp add: digit_value_def of_char_digit)

lemma digits_value_append:
  "digits_value (xs @ ys) acc = Option.bind (digits_value xs acc) (digits_value ys)"
  by (induction xs acc rule: digits_value.induct) (auto split: option.splits)

lemma digits_value_nat_str: "digits_value (nat_str n) 0 = Some n"
proof (induction n rule: nat_str.induct)
  case (1 n)
  show ?case
  proof (cases "n < 10")
    case True
    then show ?thesis by (simp add: nat_str.simps [of n] digit_value_digit)
  next
    case False
    with 1 show ?thesis
      by (simp add: nat_str.simps [of n] digits_value_append digit_value_digit)
  qed
qed

lemma nat_str_no_sign: "\<not> has_prefix (nat_str n) ''-''" "\<not> has_prefix (nat_str n) ''+''"
proof -
  obtain c cs where n: "nat_str n = c # cs" by (metis nat_str_nonempty neq_Nil_conv)
  then obtain d where d: "d < 10" "c = digit d" using nat_str_digits [of c n] by auto
  then have "(of_char c :: nat) = 48 + d" by (simp add: of_char_digit)
  then have "c \<noteq> CHR ''-''" "c \<noteq> CHR ''+''" by auto
  with n show "\<not> has_prefix (nat_str n) ''-''" "\<not> has_prefix (nat_str n) ''+''"
    by (auto simp: has_prefix_def)
qed

lemma parse_int_itoa: "parse_int (itoa i) = in_i64 i"
proof (cases "i < 0")
  case True
  then show ?thesis
    by (simp add: parse_int_def itoa_def Let_def digits_value_nat_str has_prefix_def)
next
  case False
  then show ?thesis
    by (simp add: parse_int_def itoa_def Let_def digits_value_nat_str nat_str_no_sign)
qed

lemma parse_int_itoa_sint: "parse_int (itoa (sint (i :: i64))) = Some i"
proof -
  have "- (2 ^ 63) \<le> sint i" "sint i < 2 ^ 63"
    using sint_ge [of i] sint_lt [of i] by simp_all
  then show ?thesis by (simp add: parse_int_itoa in_i64_def)
qed

lemma parseEpochTime_text:
  "getEpochStamp layout v = Inr (itoa n) \<Longrightarrow> layout \<in> set [''s'', ''ms'', ''us'', ''ns''] \<Longrightarrow>
   parseEpochTime layout v =
     (case in_i64 n of None \<Rightarrow> Inl (invalid_stamp (itoa n) layout) | Some i \<Rightarrow> Inr (toTime layout i))"
  by (simp add: parseEpochTime_def parse_int_itoa)

lemma in_i64_sint: "in_i64 (sint (i :: i64)) = Some i"
  using parse_int_itoa_sint [of i] by (simp add: parse_int_itoa)

text \<open>the instants that the four whole layouts stand for, in nanoseconds\<close>

definition epoch_unit :: "string \<Rightarrow> int" where
  "epoch_unit layout =
     (if layout = ''s'' then 1000000000 else if layout = ''ms'' then 1000000
      else if layout = ''us'' then 1000 else 1)"

lemma UnixNano_toTime:
  assumes "layout \<in> set [''s'', ''ms'', ''us'', ''ns'']"
  shows "toTime layout i = time_unix 0 (sint i * epoch_unit layout)"
proof -
  have split: "(n sdiv k) * k + n smod k = n" for n k :: int
    by (rule sdiv_mult_smod_eq)
  have ms: "(sint i sdiv 1000) * 1000000000 + (sint i smod 1000) * 1000000 = sint i * 1000000"
    using split [of "sint i" 1000] by linarith
  have us: "(sint i sdiv 1000000) * 1000000000 + (sint i smod 1000000) * 1000 = sint i * 1000"
    using split [of "sint i" 1000000] by linarith
  from assms ms us show ?thesis
    by (auto simp: toTime_def Let_def epoch_unit_def time_unix_def ns_per_s_def)
qed

text \<open>
  Whole epoch stamps are exact.  For each of the layouts \<open>s\<close>, \<open>ms\<close>, \<open>us\<close> and \<open>ns\<close> an integer
  and its decimal text, as a string or as bytes, of any 64-bit value, negative ones included, give
  the instant that is so many units from the epoch: the split into seconds and a rest, which may be
  negative, loses nothing.  A text that is no 64-bit integer is an error.
\<close>

lemma parseEpochTime_whole:
  assumes "layout \<in> set [''s'', ''ms'', ''us'', ''ns'']"
  shows "parseEpochTime layout (VInt i) = Inr (time_unix 0 (sint i * epoch_unit layout))
    \<and> parseEpochTime layout (VString (itoa (sint i))) = Inr (time_unix 0 (sint i * epoch_unit layout))
    \<and> parseEpochTime layout (VBytes (itoa (sint i))) = Inr (time_unix 0 (sint i * epoch_unit layout))
    \<and> (in_i64 n = None \<longrightarrow>
         parseEpochTime layout (VString (itoa n)) = Inl (invalid_stamp (itoa n) layout))"
proof -
  have stamp: "getEpochStamp layout (VInt i) = Inr (itoa (sint i))"
    using assms by (simp add: getEpochStamp_def)
  have "getEpochStamp layout (VString s) = Inr s" "getEpochStamp layout (VBytes s) = Inr s" for s
    by (simp_all add: getEpochStamp_def)
  with stamp show ?thesis
    using parseEpochTime_text [OF _ assms] UnixNano_toTime [OF assms] by (simp add: in_i64_sint)
qed

lemma parseEpochTime_whole_witness:
  "parseEpochTime ''ms'' (VInt (- 1)) = Inr (time_unix 0 (- 1000000))
   \<and> parseEpochTime ''ms'' (VString (itoa (2 ^ 63))) = Inl (invalid_stamp (itoa (2 ^ 63)) ''ms'')"
  using parseEpochTime_whole [of "''ms''" "- 1" "2 ^ 63"]
  by (simp add: epoch_unit_def in_i64_def)

end
