(* ===== verification/Parser_Operators.thy ===== *)
theory Parser_Operators
  imports Time_Parsing
begin

text \<open>
  Operators that parse a field, that make entries and that end a pipeline:
  \<open>operator/helper/parser.go\<close>, \<open>input.go\<close> and \<open>output.go\<close>, the operators around one sub-parser
  (\<open>operator/parser/{severity,time,trace,scope}\<close>), \<open>operator/output/drop\<close> and
  \<open>operator/transformer/noop\<close>.

  A run environment holds what lies outside: the clock, the time zone database and the layouts
  library, and the text of floats and times.
\<close>

record 'loc run_env = "'loc time_env" +
  clock_now :: gtime
  show_other :: "gval \<Rightarrow> string"

section \<open>The parser operator\<close>

record 'loc ParserConfig = TransformerConfig +
  cfgPFrom :: field
  cfgPTo :: field
  cfgTimeParser :: "'loc TimeParser option"
  cfgSeverityParser :: "SeverityParserConfig option"
  cfgTraceParser :: "TraceParser option"
  cfgScopeNameParser :: "field option option"

record 'loc ParserOperator = TransformerOperator +
  PFrom :: field
  PTo :: field
  POTime :: "'loc TimeParser option"
  POSeverity :: "SeverityParser option"
  POTrace :: "TraceParser option"
  POScopeName :: "field option option"

definition NewParserConfig :: "string \<Rightarrow> string \<Rightarrow> 'loc ParserConfig" where
  "NewParserConfig i t = TransformerConfig.extend (NewTransformerConfig i t)
     (ParserConfig.fields (BodyField []) (AttributeField []) None None None None)"

text \<open>\<open>None\<close> is a severity mapping whose construction does not return.\<close>

definition ParserConfig_Build ::
  "'loc time_env \<Rightarrow> compiler \<Rightarrow> bool \<Rightarrow> ('loc, 'a) ParserConfig_scheme \<Rightarrow> (gerror + 'loc ParserOperator) option" where
  "ParserConfig_Build te compile has_logger c =
     (case TransformerConfig_Build compile has_logger c of
        Inl err \<Rightarrow> Some (Inl err)
      | Inr transformerOperator \<Rightarrow>
     (case (case cfgTimeParser c of None \<Rightarrow> Inr None | Some tp \<Rightarrow> map_sum id Some (TimeParser_Validate te tp)) of
        Inl err \<Rightarrow> Some (Inl err)
      | Inr timeParser \<Rightarrow>
     (case (case cfgSeverityParser c of None \<Rightarrow> Some (Inr None)
            | Some sp \<Rightarrow> map_option (map_sum id Some) (SeverityParserConfig_Build sp)) of
        None \<Rightarrow> None
      | Some (Inl err) \<Rightarrow> Some (Inl err)
      | Some (Inr severityParser) \<Rightarrow>
          Some (Inr (TransformerOperator.extend transformerOperator
            (ParserOperator.fields (cfgPFrom c) (cfgPTo c) timeParser severityParser
               (map_option TraceParser_Validate (cfgTraceParser c)) (cfgScopeNameParser c)))))))"

text \<open>
  \<open>ParseWith\<close>: the entry after it, what it sent (on an error only), and the error.  All four
  sub-parsers run before the first of their errors is handled.
\<close>

definition run_sub :: "transform option \<Rightarrow> transform" where
  "run_sub p e = (case p of None \<Rightarrow> Some (e, None) | Some parse \<Rightarrow> parse e)"

definition ParseWith ::
  "('loc, 'b) run_env_scheme \<Rightarrow> ('loc, 'a) ParserOperator_scheme \<Rightarrow> entry \<Rightarrow> parse_function \<Rightarrow> (entry \<times> outcome) option" where
  "ParseWith re p e parse =
     (let fail = (\<lambda>e err. Some (e, HandleEntryError p e err)) in
      case field_Get (PFrom p) e of
        None \<Rightarrow> fail e (Agent (NewError ''Entry is missing the expected parse_from field.''
          ''Ensure that all incoming entries contain the parse_from field.''
          [''parse_from'', field_string (PFrom p)]))
      | Some value \<Rightarrow>
     (case parse value of
        None \<Rightarrow> None
      | Some (Inl err) \<Rightarrow> fail e err
      | Some (Inr newValue) \<Rightarrow>
     (case field_Set (PTo p) newValue e of
        (e, Some err) \<Rightarrow> fail e (Agent (Wrap err ''set parse_to''))
      | (e, None) \<Rightarrow>
     (case run_sub (map_option (TimeParser_Parse (time_env.truncate re) (show_other re) (clock_now re)) (POTime p)) e of
        None \<Rightarrow> None | Some (e, timeParseErr) \<Rightarrow>
     (case run_sub (map_option (\<lambda>sp e. Some (SeverityParser_Parse sp e)) (POSeverity p)) e of
        None \<Rightarrow> None | Some (e, severityParseErr) \<Rightarrow>
     (case run_sub (map_option (TraceParser_Parse (show_other re)) (POTrace p)) e of
        None \<Rightarrow> None | Some (e, traceParseErr) \<Rightarrow>
     (case run_sub (map_option ScopeNameParser_Parse (POScopeName p)) e of
        None \<Rightarrow> None | Some (e, scopeNameParserErr) \<Rightarrow>
          (case timeParseErr of Some err \<Rightarrow> fail e (Agent (Wrap err ''time parser'')) | None \<Rightarrow>
          (case severityParseErr of Some err \<Rightarrow> fail e (Agent (Wrap err ''severity parser'')) | None \<Rightarrow>
          (case traceParseErr of Some err \<Rightarrow> fail e (Agent (Wrap err ''trace parser'')) | None \<Rightarrow>
          (case scopeNameParserErr of Some err \<Rightarrow> fail e (Agent (Wrap err ''scope_name parser'')) | None \<Rightarrow>
            Some (e, [], None))))))))))))"

definition ProcessWithCallback ::
  "('loc, 'b) run_env_scheme \<Rightarrow> ('loc, 'a) ParserOperator_scheme \<Rightarrow> entry \<Rightarrow> parse_function \<Rightarrow> transform option \<Rightarrow> outcome option" where
  "ProcessWithCallback re p e parse cb =
     (case Skip p e of
        None \<Rightarrow> None
      | Some (Inl err) \<Rightarrow> Some (HandleEntryError p e err)
      | Some (Inr True) \<Rightarrow> Some (Write p e, None)
      | Some (Inr False) \<Rightarrow>
          (case ParseWith re p e parse of
             None \<Rightarrow> None
           | Some (e, sent, Some err) \<Rightarrow> Some (sent, Some err)
           | Some (e, sent, None) \<Rightarrow>
               (case cb of
                  None \<Rightarrow> Some (Write p e, None)
                | Some callback \<Rightarrow>
                    (case callback e of
                       None \<Rightarrow> None
                     | Some (e, Some err) \<Rightarrow> Some ([], Some err)
                     | Some (e, None) \<Rightarrow> Some (Write p e, None)))))"

definition Parser_ProcessWith ::
  "('loc, 'b) run_env_scheme \<Rightarrow> ('loc, 'a) ParserOperator_scheme \<Rightarrow> entry \<Rightarrow> parse_function \<Rightarrow> outcome option" where
  "Parser_ProcessWith re p e parse = ProcessWithCallback re p e parse None"

section \<open>Input operators\<close>

record InputConfig = WriterConfig +
  cfgAttributes :: "(string \<times> string) list"
  cfgResource :: "(string \<times> string) list"

record InputOperator = WriterOperator +
  in_attributes :: "(string \<times> ExprString) list"
  in_resource :: "(string \<times> ExprString) list"

definition NewInputConfig :: "string \<Rightarrow> string \<Rightarrow> InputConfig" where
  "NewInputConfig i t = WriterConfig.extend (NewWriterConfig i t) (InputConfig.fields [] [])"

definition InputConfig_Build :: "compiler \<Rightarrow> bool \<Rightarrow> 'a InputConfig_scheme \<Rightarrow> gerror + InputOperator" where
  "InputConfig_Build compile has_logger c =
     (let fail = (\<lambda>err. Inl (Agent (WithDetails err [''operator_id'', BasicConfig_ID c]))) in
      case WriterConfig_Build has_logger c of
        Inl err \<Rightarrow> fail err
      | Inr writerOperator \<Rightarrow>
     (case AttributerConfig_Build compile (cfgAttributes c) of
        Inl err \<Rightarrow> fail err
      | Inr attributer \<Rightarrow>
     (case IdentifierConfig_Build compile (cfgResource c) of
        Inl err \<Rightarrow> fail err
      | Inr identifier \<Rightarrow>
          Inr (WriterOperator.extend writerOperator (InputOperator.fields attributer identifier)))))"

definition NewEntry :: "gtime \<Rightarrow> 'a InputOperator_scheme \<Rightarrow> gval \<Rightarrow> (gerror + entry) option" where
  "NewEntry now i value =
     (case Attribute (in_attributes i) ((New now)\<lparr>Body := value\<rparr>) of
        None \<Rightarrow> None
      | Some (e, Some err) \<Rightarrow> Some (Inl (Agent (Wrap err ''add attributes to entry'')))
      | Some (e, None) \<Rightarrow>
          (case Identify (in_resource i) e of
             None \<Rightarrow> None
           | Some (e, Some err) \<Rightarrow> Some (Inl (Agent (Wrap err ''add resource keys to entry'')))
           | Some (e, None) \<Rightarrow> Some (Inr e)))"

definition Input_Process :: "'a InputOperator_scheme \<Rightarrow> entry \<Rightarrow> outcome" where
  "Input_Process i e = ([], Some (Agent (NewError ''Operator can not process logs.''
     ''Ensure that operator is not configured to receive logs from other operators'' [])))"

section \<open>Output operators\<close>

definition OutputConfig_Build :: "bool \<Rightarrow> 'a BasicConfig_scheme \<Rightarrow> gerror + BasicOperator" where
  "OutputConfig_Build has_logger c = BasicConfig_Build has_logger c"

definition Output_Outputs :: "'a BasicOperator_scheme \<Rightarrow> opref list" where
  "Output_Outputs op = []"

definition Output_SetOutputs :: "opref list \<Rightarrow> 'a BasicOperator_scheme \<Rightarrow> 'a BasicOperator_scheme \<times> gerror option" where
  "Output_SetOutputs operators op =
     (op, Some (Agent (NewError ''Operator can not output, but is attempting to set an output.''
       ''This is an unexpected internal error. Please submit a bug/issue.'' [])))"

definition Output_SetOutputIDs :: "string list \<Rightarrow> 'a BasicOperator_scheme \<Rightarrow> 'a BasicOperator_scheme" where
  "Output_SetOutputIDs opIDs op = op"

text \<open>\<open>drop_output\<close> consumes an entry and does nothing.\<close>

definition DropOutputConfig_Build :: "bool \<Rightarrow> 'a BasicConfig_scheme \<Rightarrow> gerror + BasicOperator" where
  "DropOutputConfig_Build has_logger c = OutputConfig_Build has_logger c"

definition DropOutput_Process :: "'a BasicOperator_scheme \<Rightarrow> entry \<Rightarrow> outcome" where
  "DropOutput_Process p e = ([], None)"

section \<open>Operators around one step\<close>

definition NoopOperatorConfig_Build ::
  "compiler \<Rightarrow> bool \<Rightarrow> 'a TransformerConfig_scheme \<Rightarrow> gerror + TransformerOperator" where
  "NoopOperatorConfig_Build compile has_logger c = TransformerConfig_Build compile has_logger c"

definition Noop_Process :: "'a TransformerOperator_scheme \<Rightarrow> entry \<Rightarrow> outcome option" where
  "Noop_Process p e = Some (Write p e, None)"

record SeverityParserOperatorConfig = TransformerConfig +
  spoConfig :: SeverityParserConfig

record SeverityParserOperator = TransformerOperator +
  spoParser :: SeverityParser

definition SeverityParserOperatorConfig_Build ::
  "compiler \<Rightarrow> bool \<Rightarrow> 'a SeverityParserOperatorConfig_scheme \<Rightarrow> (gerror + SeverityParserOperator) option" where
  "SeverityParserOperatorConfig_Build compile has_logger c =
     (case TransformerConfig_Build compile has_logger c of
        Inl err \<Rightarrow> Some (Inl err)
      | Inr t \<Rightarrow> map_option (map_sum id (\<lambda>sp. TransformerOperator.extend t (SeverityParserOperator.fields sp)))
          (SeverityParserConfig_Build (spoConfig c)))"

definition SeverityParserOperator_Process :: "'a SeverityParserOperator_scheme \<Rightarrow> entry \<Rightarrow> outcome option" where
  "SeverityParserOperator_Process p e = ProcessWith p e (\<lambda>e. Some (SeverityParser_Parse (spoParser p) e))"

record 'loc TimeParserConfig = TransformerConfig +
  tpoConfig :: "'loc TimeParser"

record 'loc TimeParserOperator = TransformerOperator +
  tpoParser :: "'loc TimeParser"

definition TimeParserConfig_Build ::
  "'loc time_env \<Rightarrow> compiler \<Rightarrow> bool \<Rightarrow> ('loc, 'a) TimeParserConfig_scheme \<Rightarrow> gerror + 'loc TimeParserOperator" where
  "TimeParserConfig_Build te compile has_logger c =
     (case TransformerConfig_Build compile has_logger c of
        Inl err \<Rightarrow> Inl err
      | Inr t \<Rightarrow> map_sum id (\<lambda>tp. TransformerOperator.extend t (TimeParserOperator.fields tp))
          (TimeParser_Validate te (tpoConfig c)))"

definition TimeParserOperator_Process ::
  "('loc, 'b) run_env_scheme \<Rightarrow> ('loc, 'a) TimeParserOperator_scheme \<Rightarrow> entry \<Rightarrow> outcome option" where
  "TimeParserOperator_Process re p e =
     ProcessWith p e (TimeParser_Parse (time_env.truncate re) (show_other re) (clock_now re) (tpoParser p))"

record TraceParserConfig = TransformerConfig +
  trConfig :: TraceParser

record TraceParserOperator = TransformerOperator +
  trParser :: TraceParser

definition TraceParserConfig_Build ::
  "compiler \<Rightarrow> bool \<Rightarrow> 'a TraceParserConfig_scheme \<Rightarrow> gerror + TraceParserOperator" where
  "TraceParserConfig_Build compile has_logger c =
     map_sum id (\<lambda>t. TransformerOperator.extend t (TraceParserOperator.fields (TraceParser_Validate (trConfig c))))
       (TransformerConfig_Build compile has_logger c)"

definition TraceParserOperator_Process ::
  "('loc, 'b) run_env_scheme \<Rightarrow> 'a TraceParserOperator_scheme \<Rightarrow> entry \<Rightarrow> outcome option" where
  "TraceParserOperator_Process re p e = ProcessWith p e (TraceParser_Parse (show_other re) (trParser p))"

record ScopeNameParserConfig = TransformerConfig +
  scConfig :: "field option"

record ScopeNameParserOperator = TransformerOperator +
  scParser :: "field option"

definition ScopeNameParserConfig_Build ::
  "compiler \<Rightarrow> bool \<Rightarrow> 'a ScopeNameParserConfig_scheme \<Rightarrow> gerror + ScopeNameParserOperator" where
  "ScopeNameParserConfig_Build compile has_logger c =
     map_sum id (\<lambda>t. TransformerOperator.extend t (ScopeNameParserOperator.fields (scConfig c)))
       (TransformerConfig_Build compile has_logger c)"

definition ScopeNameParserOperator_Process :: "'a ScopeNameParserOperator_scheme \<Rightarrow> entry \<Rightarrow> outcome option" where
  "ScopeNameParserOperator_Process p e = ProcessWith p e (ScopeNameParser_Parse (scParser p))"

section \<open>Writing\<close>

lemma write_loop_targets [simp]: "map fst (write_loop ops e) = ops"
  by (induction ops e rule: write_loop.induct) auto

lemma write_loop_entries:
  "i < length ops \<Longrightarrow> write_loop ops e ! i = (ops ! i, if Suc i = length ops then e else entry_Copy e)"
proof (induction ops e arbitrary: i rule: write_loop.induct)
  case (3 op op' ops e)
  then show ?case by (cases i) auto
qed auto

lemma write_loop_copyable_reads:
  assumes "(op, e') \<in> set (write_loop ops e)" "nested f \<or> f = BodyField []" "entry_copyable e"
  shows "field_Get f e' = field_Get f e"
proof -
  obtain i where i: "i < length ops" "write_loop ops e ! i = (op, e')"
    using assms(1) by (metis in_set_conv_nth length_map write_loop_targets)
  then have "e' = e \<or> e' = entry_Copy e" by (auto simp: write_loop_entries split: if_splits)
  moreover have "field_Get f (entry_Copy e) = field_Get f e"
    using copied_reads [OF assms(2,3)] .
  ultimately show ?thesis by auto
qed

lemma findOperator_Some: "findOperator ops i = Some op \<Longrightarrow> op \<in> set ops \<and> Op_ID op = i"
  by (induction ops i rule: findOperator.induct) (auto split: if_splits)

lemma findOperator_None: "findOperator ops i = None \<longleftrightarrow> i \<notin> Op_ID ` set ops"
  by (induction ops i rule: findOperator.induct) auto

lemma set_outputs_loop_Inr:
  "set_outputs_loop ops ids = Inr outs \<longleftrightarrow>
   map (findOperator ops) ids = map Some outs \<and> list_all Op_CanProcess outs"
proof (induction ids arbitrary: outs)
  case (Cons i ids)
  show ?case
  proof (cases "findOperator ops i")
    case (Some op)
    show ?thesis
    proof (cases outs)
      case Nil
      then show ?thesis using Some by (auto simp: map_sum_def split: sum.splits)
    next
      case (Cons o1 outs')
      with Some Cons.IH [of outs'] show ?thesis by (auto simp: map_sum_def split: sum.splits)
    qed
  qed auto
qed auto

text \<open>
  Writing an entry.  \<open>Write\<close> sends exactly one entry to each output, in the order of the outputs:
  the entry itself to the last and a deep copy to every other.  Each of them reads like the entry
  through every field below a root and through the body, when the entry holds nothing that the
  deep copy changes.
\<close>

lemma Write_delivers:
  assumes "entry_copyable e"
  shows "map fst (Write w e) = OutputOperators w
    \<and> (\<forall>i < length (OutputOperators w).
         snd (Write w e ! i) = (if Suc i = length (OutputOperators w) then e else entry_Copy e)
         \<and> (\<forall>f. nested f \<or> f = BodyField [] \<longrightarrow> field_Get f (snd (Write w e ! i)) = field_Get f e))"
proof -
  have "field_Get f (snd (Write w e ! i)) = field_Get f e"
    if "i < length (OutputOperators w)" "nested f \<or> f = BodyField []" for i f
    using that assms copied_reads by (simp add: Write_def write_loop_entries)
  then show ?thesis by (simp add: Write_def write_loop_entries)
qed

lemma Write_delivers_witness:
  "map fst (Write \<lparr>OperatorID = ''a'', OperatorType = ''noop'', OutputIDs = [''b'', ''c''],
      OutputOperators = [\<lparr>Op_ID = ''b'', Op_CanProcess = True\<rparr>, \<lparr>Op_ID = ''c'', Op_CanProcess = True\<rparr>]\<rparr>
      (New zero_time))
   = [\<lparr>Op_ID = ''b'', Op_CanProcess = True\<rparr>, \<lparr>Op_ID = ''c'', Op_CanProcess = True\<rparr>]"
proof -
  have "entry_copyable (New zero_time)"
    by (simp add: entry_copyable_def New_def nonnil_def fmpred_iff)
  from Write_delivers [OF this, of "\<lparr>OperatorID = ''a'', OperatorType = ''noop'', OutputIDs = [''b'', ''c''],
      OutputOperators = [\<lparr>Op_ID = ''b'', Op_CanProcess = True\<rparr>, \<lparr>Op_ID = ''c'', Op_CanProcess = True\<rparr>]\<rparr>"]
  show ?thesis by simp
qed

text \<open>
  C33: connecting outputs.  \<open>SetOutputs\<close> fails, and leaves the operator as it was, if and only if some
  configured output ID names no operator or one that cannot process entries.  When it succeeds the
  outputs are operators of the pipeline that can process, one for each configured ID and in that
  order.
\<close>

theorem SetOutputs_connects:
  assumes "SetOutputs operators w = (w', err)"
  shows "(err = None \<longleftrightarrow> (\<forall>i \<in> set (OutputIDs w).
            \<exists>op. findOperator operators i = Some op \<and> Op_CanProcess op))
    \<and> (err \<noteq> None \<longrightarrow> w' = w)
    \<and> (err = None \<longrightarrow> map Op_ID (OutputOperators w') = OutputIDs w
         \<and> set (OutputOperators w') \<subseteq> {op \<in> set operators. Op_CanProcess op})"
proof (cases "set_outputs_loop operators (OutputIDs w)")
  case (Inl x)
  have "\<not> (\<forall>i \<in> set (OutputIDs w). \<exists>op. findOperator operators i = Some op \<and> Op_CanProcess op)"
  proof
    assume "\<forall>i \<in> set (OutputIDs w). \<exists>op. findOperator operators i = Some op \<and> Op_CanProcess op"
    then have "\<exists>outs. map (findOperator operators) (OutputIDs w) = map Some outs \<and> list_all Op_CanProcess outs"
      by (intro exI [of _ "map (\<lambda>i. the (findOperator operators i)) (OutputIDs w)"])
        (auto simp: list_all_iff)
    then show False using Inl set_outputs_loop_Inr [of operators "OutputIDs w"] by auto
  qed
  with Inl assms show ?thesis by (auto simp: SetOutputs_def)
next
  case (Inr outs)
  then have outs: "map (findOperator operators) (OutputIDs w) = map Some outs" "list_all Op_CanProcess outs"
    by (simp_all add: set_outputs_loop_Inr)
  then have len: "length (OutputIDs w) = length outs" by (metis length_map)
  have nth: "findOperator operators (OutputIDs w ! i) = Some (outs ! i)" if "i < length outs" for i
    using arg_cong [OF outs(1), of "\<lambda>xs. xs ! i"] that len by simp
  have "map Op_ID outs = OutputIDs w"
    by (rule nth_equalityI) (use len nth findOperator_Some in auto)
  moreover have "op \<in> set operators" if "op \<in> set outs" for op
    using that nth findOperator_Some by (metis in_set_conv_nth)
  moreover have "\<exists>op. findOperator operators i = Some op \<and> Op_CanProcess op" if "i \<in> set (OutputIDs w)" for i
    using that nth len outs(2) by (metis in_set_conv_nth list_all_length)
  ultimately show ?thesis using assms Inr outs(2) by (auto simp: SetOutputs_def list_all_iff)
qed

theorem SetOutputs_connects_witness:
  "map Op_ID (OutputOperators (fst (SetOutputs [\<lparr>Op_ID = ''x'', Op_CanProcess = True\<rparr>]
      \<lparr>OperatorID = ''a'', OperatorType = ''noop'', OutputIDs = [''x''], OutputOperators = []\<rparr>))) = [''x'']"
proof -
  let ?w = "\<lparr>OperatorID = ''a'', OperatorType = ''noop'', OutputIDs = [''x''], OutputOperators = []\<rparr>"
  let ?r = "SetOutputs [\<lparr>Op_ID = ''x'', Op_CanProcess = True\<rparr>] ?w"
  have "?r = (fst ?r, snd ?r)" by simp
  from SetOutputs_connects [OF this] show ?thesis by simp
qed

section \<open>Processing\<close>

text \<open>
  Every entry is handed on exactly once or not at all.  Whatever the transform does short of
  panicking, \<open>ProcessWith\<close> ends with one \<open>Write\<close> of the entry, or with none precisely when there is
  an error and \<open>on_error\<close> is not \<open>send\<close>.  The entry written is the unchanged one when the \<open>if\<close>
  expression fails or does not match, and otherwise what the transform made of it, errors
  included; an entry that does not match is no error.
\<close>

lemma ProcessWith_exactly_once:
  assumes "ProcessWith t e transform = Some (sent, err)"
  shows "\<exists>e'. sent = (if err = None \<or> OnError t = SendOnError then Write t e' else [])
    \<and> (Skip t e = Some (Inr False) \<longrightarrow> transform e = Some (e', err))
    \<and> (Skip t e \<noteq> Some (Inr False) \<longrightarrow> e' = e \<and> (err = None \<longleftrightarrow> Skip t e = Some (Inr True)))"
  using assms
  by (auto simp: ProcessWith_def HandleEntryError_def split: option.splits sum.splits bool.splits prod.splits)

lemma ProcessWith_exactly_once_witness:
  "ProcessWith \<lparr>OperatorID = ''a'', OperatorType = ''add'', OutputIDs = [''x''],
      OutputOperators = [\<lparr>Op_ID = ''x'', Op_CanProcess = True\<rparr>], OnError = ''send'', IfExpr = None\<rparr>
      (New zero_time) (\<lambda>e. Some (e, Some (StdError ''bad'')))
   = Some ([(\<lparr>Op_ID = ''x'', Op_CanProcess = True\<rparr>, New zero_time)], Some (StdError ''bad''))"
proof -
  let ?t = "\<lparr>OperatorID = ''a'', OperatorType = ''add'', OutputIDs = [''x''],
      OutputOperators = [\<lparr>Op_ID = ''x'', Op_CanProcess = True\<rparr>], OnError = ''send'', IfExpr = None\<rparr>"
  let ?tr = "\<lambda>e. Some (e, Some (StdError ''bad'')) :: (entry \<times> gerror option) option"
  obtain sent err where p: "ProcessWith ?t (New zero_time) ?tr = Some (sent, err)"
    by (simp add: ProcessWith_def Skip_def HandleEntryError_def)
  from ProcessWith_exactly_once [OF p] p show ?thesis
    by (auto simp: Skip_def Write_def)
qed

lemma ParseWith_sends:
  "ParseWith re p e parse = Some (e', sent, err) \<Longrightarrow>
   sent = (if err \<noteq> None \<and> OnError p = SendOnError then Write p e' else [])"
  by (auto simp: ParseWith_def Let_def HandleEntryError_def split: option.splits sum.splits prod.splits)

lemma ParseWith_error_keeps:
  assumes "ParseWith re p e parse = Some (e', sent, err)"
    "field_Get (PFrom p) e = None \<or> (\<exists>v x. field_Get (PFrom p) e = Some v \<and> parse v = Some (Inl x))"
  shows "e' = e \<and> err \<noteq> None"
  using assms by (auto simp: ParseWith_def Let_def HandleEntryError_def)

lemma Parser_parsed:
  assumes "ProcessWithCallback re p e parse cb = Some (sent, err)" "Skip p e = Some (Inr False)"
  obtains e1 sent1 err1 where "ParseWith re p e parse = Some (e1, sent1, err1)"
    and "err1 \<noteq> None \<or> cb = None \<Longrightarrow>
      sent = (if err1 = None \<or> OnError p = SendOnError then Write p e1 else []) \<and> err = err1"
    and "\<And>c. err1 = None \<Longrightarrow> cb = Some c \<Longrightarrow>
      \<exists>e2. c e1 = Some (e2, err) \<and> sent = (if err = None then Write p e2 else [])"
proof -
  obtain e1 sent1 err1 where pw: "ParseWith re p e parse = Some (e1, sent1, err1)"
    using assms by (auto simp: ProcessWithCallback_def split: option.splits)
  show ?thesis
    by (rule that [OF pw]; cases err1)
      (use assms pw ParseWith_sends [OF pw] in
        \<open>auto simp: ProcessWithCallback_def split: option.splits if_splits\<close>)
qed

text \<open>
  C1: parsing hands an entry on exactly once.  An operator that processes with \<open>ProcessWithCallback\<close>
  ends with one \<open>Write\<close>, or with none when there is an error and either \<open>on_error\<close> is not \<open>send\<close> or the
  callback failed.  An entry that the condition leaves out is written as it is; one whose condition fails,
  that lacks the \<open>parse_from\<close> field, or whose value the parse function rejects, is an error and is handled
  unchanged.  An error of one of the four sub-parsers is handled with the entry as far as it got.  The
  callback runs only on an entry that parsed: the entry it leaves is written once, and if it fails the
  entry is dropped with its error, also where \<open>on_error\<close> is \<open>send\<close>.
\<close>

theorem Parser_exactly_once:
  assumes "ProcessWithCallback re p e parse cb = Some (sent, err)"
  shows "(\<exists>e'. sent = Write p e' \<or> sent = [] \<and> err \<noteq> None \<and> (OnError p \<noteq> SendOnError \<or> cb \<noteq> None))
    \<and> (cb = None \<longrightarrow>
        (\<exists>e'. sent = (if err = None \<or> OnError p = SendOnError then Write p e' else [])))
    \<and> (Skip p e = Some (Inr True) \<longrightarrow> sent = Write p e \<and> err = None)
    \<and> (\<forall>x. Skip p e = Some (Inl x) \<longrightarrow> err \<noteq> None \<and> sent = (if OnError p = SendOnError then Write p e else []))
    \<and> (Skip p e = Some (Inr False)
         \<and> (field_Get (PFrom p) e = None \<or> (\<exists>v x. field_Get (PFrom p) e = Some v \<and> parse v = Some (Inl x)))
       \<longrightarrow> err \<noteq> None \<and> sent = (if OnError p = SendOnError then Write p e else []))
    \<and> (Skip p e = Some (Inr False) \<longrightarrow>
        (\<exists>e1 sent1 err1. ParseWith re p e parse = Some (e1, sent1, err1)
          \<and> (err1 \<noteq> None \<longrightarrow> err = err1 \<and> sent = (if OnError p = SendOnError then Write p e1 else []))
          \<and> (err1 = None \<and> cb = None \<longrightarrow> err = None \<and> sent = Write p e1)
          \<and> (\<forall>c. err1 = None \<and> cb = Some c \<longrightarrow>
               (\<exists>e2. c e1 = Some (e2, err) \<and> sent = (if err = None then Write p e2 else [])))))"
proof (cases "Skip p e = Some (Inr False)")
  case False
  then show ?thesis using assms
    by (auto simp: ProcessWithCallback_def HandleEntryError_def split: option.splits sum.splits bool.splits)
next
  case True
  obtain e1 sent1 err1 where parsed: "ParseWith re p e parse = Some (e1, sent1, err1)"
    "err1 \<noteq> None \<or> cb = None \<Longrightarrow>
      sent = (if err1 = None \<or> OnError p = SendOnError then Write p e1 else []) \<and> err = err1"
    "\<And>c. err1 = None \<Longrightarrow> cb = Some c \<Longrightarrow>
      \<exists>e2. c e1 = Some (e2, err) \<and> sent = (if err = None then Write p e2 else [])"
    using Parser_parsed [OF assms True] by metis
  have once: "\<exists>e'. sent = Write p e' \<or> sent = [] \<and> err \<noteq> None \<and> (OnError p \<noteq> SendOnError \<or> cb \<noteq> None)"
    using parsed(2,3) by (cases err1; cases cb) (auto split: if_splits)
  have fails: "err \<noteq> None \<and> sent = (if OnError p = SendOnError then Write p e else [])"
    if "field_Get (PFrom p) e = None \<or> (\<exists>v x. field_Get (PFrom p) e = Some v \<and> parse v = Some (Inl x))"
    using ParseWith_error_keeps [OF parsed(1) that] parsed(2) by auto
  show ?thesis using True once fails parsed by auto
qed

theorem Parser_exactly_once_witness:
  "\<exists>err. ProcessWithCallback \<lparr>toNative = Inr, loadLocation = \<lambda>_. Inr (), utcLocation = (), localLocation = (),
      parseInLocation = \<lambda>_ _ _. (zero_time, None), clock_now = zero_time, show_other = \<lambda>_. []\<rparr>
     \<lparr>OperatorID = ''p'', OperatorType = ''json_parser'', OutputIDs = [''x''],
       OutputOperators = [\<lparr>Op_ID = ''x'', Op_CanProcess = True\<rparr>], OnError = ''send'', IfExpr = None,
       PFrom = BodyField [''a''], PTo = AttributeField [], POTime = (None :: unit TimeParser option), POSeverity = None,
       POTrace = None, POScopeName = None\<rparr>
     (New zero_time) (\<lambda>v. Some (Inr v)) None
   = Some ([(\<lparr>Op_ID = ''x'', Op_CanProcess = True\<rparr>, New zero_time)], Some err)"
proof -
  let ?re = "\<lparr>toNative = Inr, loadLocation = \<lambda>_. Inr (), utcLocation = (), localLocation = (),
      parseInLocation = \<lambda>_ _ _. (zero_time, None), clock_now = zero_time, show_other = \<lambda>_. []\<rparr>"
  let ?p = "\<lparr>OperatorID = ''p'', OperatorType = ''json_parser'', OutputIDs = [''x''],
       OutputOperators = [\<lparr>Op_ID = ''x'', Op_CanProcess = True\<rparr>], OnError = ''send'', IfExpr = None,
       PFrom = BodyField [''a''], PTo = AttributeField [], POTime = (None :: unit TimeParser option), POSeverity = None,
       POTrace = None, POScopeName = None\<rparr>"
  have miss: "field_Get (PFrom ?p) (New zero_time) = None" "Skip ?p (New zero_time) = Some (Inr False)"
    by (simp_all add: BodyField_Get_def New_def Skip_def)
  then obtain sent err where r: "ProcessWithCallback ?re ?p (New zero_time) (\<lambda>v. Some (Inr v)) None = Some (sent, err)"
    using that by (simp add: ProcessWithCallback_def ParseWith_def HandleEntryError_def Skip_def
        BodyField_Get_def New_def)
  have "err \<noteq> None \<and> sent = Write ?p (New zero_time)"
    using Parser_exactly_once [OF r] miss by simp
  then show ?thesis unfolding r by (auto simp: Write_def)
qed

text \<open>The entries an input makes carry the value as their body and the zero timestamp.\<close>

lemma NewEntry_body:
  "NewEntry now i value = Some (Inr e) \<Longrightarrow> Timestamp e = zero_time \<and> Body e = value"
  by (auto simp: NewEntry_def New_def dest!: Attribute_frame Identify_frame
      split: option.splits prod.splits)

text \<open>Labelling never fails; so it is for an input without attributes and resource keys of its own.\<close>

definition labels_entries :: "'a InputOperator_scheme \<Rightarrow> bool" where
  "labels_entries op \<longleftrightarrow> (\<forall>now v. \<exists>e. NewEntry now op v = Some (Inr e))"

lemma labels_bare: "in_attributes op = [] \<Longrightarrow> in_resource op = [] \<Longrightarrow> labels_entries op"
  by (simp add: labels_entries_def NewEntry_def Attribute_def Identify_def)

end
