(* ===== verification/File_Reader.thy ===== *)
theory File_Reader
  imports Line_Splitting Parser_Operators
begin

text \<open>
  Reading one file: \<open>operator/input/file/fingerprint.go\<close>, \<open>reader.go\<close> and \<open>positional_scanner.go\<close> with the
  \<open>bufio.Scanner\<close> that it wraps.

  A file is its bytes.  Decoding is a parameter.  The cancellation of a context between two tokens
  is left out.
\<close>

section \<open>Fingerprints\<close>

definition defaultFingerprintSize :: nat where "defaultFingerprintSize = 1000"
definition minFingerprintSize :: nat where "minFingerprintSize = 16"

text \<open>
  A slice sees the front part of an array, and slicing it again can show what lies behind: \<open>spare\<close> is
  the array from the end of the slice to its capacity.
\<close>

record fingerprint =
  FirstBytes :: string
  spare :: string

definition zeros :: "nat \<Rightarrow> string" where "zeros n = replicate n (CHR 0x00)"

definition NewFingerprint :: "nat \<Rightarrow> string \<Rightarrow> fingerprint" where
  "NewFingerprint fingerprintSize content =
     \<lparr>FirstBytes = take fingerprintSize content, spare = zeros (fingerprintSize - length content)\<rparr>"

definition Fingerprint_Copy :: "fingerprint \<Rightarrow> fingerprint" where
  "Fingerprint_Copy f = f\<lparr>spare := zeros (length (spare f))\<rparr>"

definition StartsWith :: "fingerprint \<Rightarrow> fingerprint \<Rightarrow> bool" where
  "StartsWith f old =
     (let l0 = length (FirstBytes old); l1 = length (FirstBytes f) in
      if l0 = 0 then False else if l0 > l1 then False
      else take l0 (FirstBytes old) = take l0 (FirstBytes f))"

text \<open>
  \<open>append(FirstBytes[:k], bytes...)\<close>: slicing beyond the capacity panics (\<open>None\<close>).  An array that has to
  grow gets the capacity it needs.
\<close>

definition append_at :: "nat \<Rightarrow> string \<Rightarrow> fingerprint \<Rightarrow> fingerprint option" where
  "append_at k bytes f =
     (let array = FirstBytes f @ spare f in
      if k > length array then None
      else Some \<lparr>FirstBytes = take k array @ bytes, spare = drop (k + length bytes) array\<rparr>)"

section \<open>The reader as a source of bytes\<close>

text \<open>
  What is left of the file, how many bytes each \<open>Read\<close> of the file gives at most, the reader's
  fingerprint, the configured size of it, and the reader's offset.
\<close>

record source =
  remaining :: string
  limits :: "nat list"
  src_fp :: fingerprint
  fp_size :: nat
  read_offset :: nat

definition min0 :: "int \<Rightarrow> int \<Rightarrow> int" where
  "min0 a b = (if a < 0 \<or> b < 0 then 0 else if a < b then a else b)"

definition file_Read :: "nat \<Rightarrow> source \<Rightarrow> string \<times> source" where
  "file_Read room src =
     (let n = (case limits src of [] \<Rightarrow> room | l # _ \<Rightarrow> min room (Suc l))
      in (take n (remaining src), src\<lparr>remaining := drop n (remaining src), limits := tl (limits src)\<rparr>))"

definition Reader_Read :: "nat \<Rightarrow> source \<Rightarrow> (string \<times> source) option" where
  "Reader_Read room src =
     (case file_Read room src of
        (bytes, src') \<Rightarrow>
          if length (FirstBytes (src_fp src)) = fp_size src then Some (bytes, src')
          else
            let appendCount = nat (min0 (int (length bytes)) (int (fp_size src) - int (read_offset src)))
            in map_option (\<lambda>fp. (bytes, src'\<lparr>src_fp := fp\<rparr>))
                 (append_at (read_offset src) (take appendCount bytes) (src_fp src)))"

section \<open>The scanner\<close>

text \<open>
  \<open>bufio.Scanner\<close>: the bytes between start and end of the buffer, where they start, the size of the
  buffer and the maximal token size, whether the end of the input was seen, the number of empty
  tokens in a row, and the position that \<open>PositionalScanner\<close> keeps.
\<close>

record scanner =
  window :: string
  w_start :: nat
  buf_size :: nat
  max_token :: nat
  at_end :: bool
  empties :: nat
  scan_pos :: nat

definition NewPositionalScanner :: "nat \<Rightarrow> nat \<Rightarrow> scanner" where
  "NewPositionalScanner maxLogSize startOffset =
     \<lparr>window = [], w_start = 0, buf_size = 16384, max_token = maxLogSize, at_end = False, empties = 0,
      scan_pos = startOffset\<rparr>"

datatype scan_error = ErrTooLong | ErrAdvanceTooFar | ErrNoProgress | SplitError gerror

datatype ('f, 'src) scan_result =
    Scanned string 'f scanner 'src
  | Stopped "scan_error option" 'f scanner 'src
  | Scan_Panic

text \<open>Making room: shift the bytes to the front, or double a buffer that is full.\<close>

definition make_room :: "scanner \<Rightarrow> scanner option" where
  "make_room s =
     (let s = (if w_start s > 0 \<and> (w_start s + length (window s) = buf_size s \<or> w_start s > buf_size s div 2)
               then s\<lparr>w_start := 0\<rparr> else s)
      in if w_start s + length (window s) = buf_size s
         then (if buf_size s \<ge> max_token s then None
               else Some (s\<lparr>buf_size := min (2 * buf_size s) (max_token s)\<rparr>))
         else Some s)"

definition fill :: "scanner \<Rightarrow> source \<Rightarrow> (scanner \<times> source) option" where
  "fill s src =
     map_option (\<lambda>(bytes, src).
         (if bytes = [] then s\<lparr>at_end := True\<rparr> else s\<lparr>window := window s @ bytes, empties := 0\<rparr>, src))
       (Reader_Read (buf_size s - (w_start s + length (window s))) src)"

text \<open>
  One round of \<open>Scan\<close>: call the split function if there is something to split or the input has ended.
  \<open>None\<close> asks for more input.
\<close>

type_synonym 'f split_state = "'f \<Rightarrow> string \<Rightarrow> bool \<Rightarrow> 'f \<times> nat \<times> string option \<times> gerror option"

datatype 'f round = Done string 'f scanner | Fail "scan_error option" 'f scanner | More 'f scanner | Panic

definition scan_round :: "'f split_state \<Rightarrow> 'f \<Rightarrow> scanner \<Rightarrow> 'f round" where
  "scan_round split f s =
     (if window s = [] \<and> \<not> at_end s then More f s
      else case split f (window s) (at_end s) of
        (f, advance, token, err) \<Rightarrow>
          let s = s\<lparr>scan_pos := scan_pos s + advance\<rparr> in
          case err of
            Some e \<Rightarrow> Fail (Some (SplitError e)) f s
          | None \<Rightarrow>
              if advance > length (window s) then Fail (Some ErrAdvanceTooFar) f s
              else
                let s = s\<lparr>window := drop advance (window s), w_start := w_start s + advance\<rparr> in
                case token of
                  Some t \<Rightarrow>
                    if \<not> at_end s \<or> advance > 0 then Done t f (s\<lparr>empties := 0\<rparr>)
                    else if empties s + 1 > 100 then Panic
                    else Done t f (s\<lparr>empties := empties s + 1\<rparr>)
                | None \<Rightarrow>
                    if at_end s then Fail None f (s\<lparr>window := [], w_start := 0\<rparr>)
                    else More f s)"

lemma scan_round_More: "scan_round split f s = More f' s' \<Longrightarrow> \<not> at_end s' \<and> at_end s = at_end s'"
  by (auto simp: scan_round_def Let_def split: if_splits prod.splits option.splits)

lemma make_room_at_end: "make_room s = Some s' \<Longrightarrow> at_end s' = at_end s"
  by (auto simp: make_room_def Let_def split: if_splits)

lemma file_Read_take:
  assumes "room > 0"
  obtains n where "n > 0" "n \<le> room" "file_Read room src =
      (take n (remaining src), src\<lparr>remaining := drop n (remaining src), limits := tl (limits src)\<rparr>)"
  using assms by (cases "limits src")
    (auto simp: file_Read_def Let_def intro: that [of room] that [of "min room (Suc _)"])

lemma Reader_Read_take:
  assumes "room > 0" "Reader_Read room src = Some (bytes, src')"
  obtains n where "n > 0" "n \<le> room" "bytes = take n (remaining src)" "remaining src' = drop n (remaining src)"
    "fp_size src' = fp_size src" "read_offset src' = read_offset src"
proof -
  obtain n where "n > 0" "n \<le> room" "file_Read room src =
      (take n (remaining src), src\<lparr>remaining := drop n (remaining src), limits := tl (limits src)\<rparr>)"
    using file_Read_take [OF assms(1)] by metis
  with assms(2) show ?thesis
    by (intro that [of n]) (auto simp: Reader_Read_def Let_def split: if_splits)
qed

lemma fill_progress:
  assumes "w_start s + length (window s) < buf_size s" "fill s src = Some (s', src')"
  obtains (bytes) n where "n > 0" "remaining src \<noteq> []" "remaining src' = drop n (remaining src)"
      "s' = s\<lparr>window := window s @ take n (remaining src), empties := 0\<rparr>"
      "length (window s') + w_start s \<le> buf_size s"
    | (eof) "remaining src = []" "remaining src' = []" "s' = s\<lparr>at_end := True\<rparr>"
proof -
  obtain bytes where r: "Reader_Read (buf_size s - (w_start s + length (window s))) src = Some (bytes, src')"
    "s' = (if bytes = [] then s\<lparr>at_end := True\<rparr> else s\<lparr>window := window s @ bytes, empties := 0\<rparr>)"
    using assms(2) by (auto simp: fill_def)
  obtain n where n: "n > 0" "n \<le> buf_size s - (w_start s + length (window s))" "bytes = take n (remaining src)"
    "remaining src' = drop n (remaining src)"
    using Reader_Read_take [OF _ r(1)] assms(1) by auto
  show ?thesis
  proof (cases "remaining src")
    case Nil
    with n r show ?thesis by (intro eof) simp_all
  next
    case Cons
    then have "bytes \<noteq> []" using n by (cases n) auto
    with n r assms(1) Cons show ?thesis by (intro bytes [of n]) auto
  qed
qed

lemma scan_decreases:
  assumes "scan_round split f s = More f' s1" "make_room s1 = Some s2"
    "\<not> buf_size s2 \<le> w_start s2 + length (window s2)"
    "fill s2 src = Some (s3, src')"
  shows "length (remaining src') + (if at_end s3 then 0 else 1)
    < length (remaining src) + (if at_end s then 0 else 1)"
proof -
  have at_end: "\<not> at_end s" "\<not> at_end s2" using assms(1,2) scan_round_More make_room_at_end by metis+
  have "w_start s2 + length (window s2) < buf_size s2" using assms(3) by simp
  from this assms(4) show ?thesis
    by (cases rule: fill_progress) (use at_end in \<open>auto simp: neq_Nil_conv\<close>)
qed

function scan :: "'f split_state \<Rightarrow> 'f \<Rightarrow> scanner \<Rightarrow> source \<Rightarrow> ('f, source) scan_result" where
  "scan split f s src =
     (case scan_round split f s of
        Done t f s \<Rightarrow> Scanned t f s src
      | Fail err f s \<Rightarrow> Stopped err f s src
      | Panic \<Rightarrow> Scan_Panic
      | More f s \<Rightarrow>
          (case make_room s of
            None \<Rightarrow> Stopped (Some ErrTooLong) f s src
          | Some s \<Rightarrow>
              if w_start s + length (window s) \<ge> buf_size s then Stopped (Some ErrNoProgress) f s src
              else (case fill s src of
                      None \<Rightarrow> Scan_Panic
                    | Some (s, src) \<Rightarrow> scan split f s src)))"
  by pat_completeness auto
termination
  by (relation "measure (\<lambda>(split, f, s, src). length (remaining src) + (if at_end s then 0 else 1))")
    (simp, auto dest: scan_decreases)

declare scan.simps [simp del]

section \<open>Tokens of one pass\<close>

text \<open>
  The loop of \<open>ReadToEnd\<close> without the emission: the tokens, the split state, the source and the error
  at its end.  \<open>None\<close> is a panic, or a loop that never ends.
\<close>

partial_function (option) read_loop ::
  "'f split_state \<Rightarrow> 'f \<Rightarrow> scanner \<Rightarrow> source \<Rightarrow> string list \<Rightarrow> (string list \<times> 'f \<times> source \<times> scan_error option) option" where
  "read_loop split f s src tokens =
     (case scan split f s src of
        Scan_Panic \<Rightarrow> None
      | Stopped err f s src \<Rightarrow> Some (tokens, f, src, err)
      | Scanned t f s src \<Rightarrow> read_loop split f s (src\<lparr>read_offset := scan_pos s\<rparr>) (tokens @ [t]))"

record fileAttributes =
  fa_Name :: string
  fa_Path :: string
  fa_ResolvedName :: string
  fa_ResolvedPath :: string

record Reader =
  Fingerprint :: fingerprint
  Offset :: nat
  generation :: nat
  reader_attributes :: fileAttributes
  reader_splitter :: Splitter

text \<open>The \<open>k\<close>-th call of the split function sees the clock at \<open>clock k\<close>.\<close>

definition clocked_split :: "(nat \<Rightarrow> int) \<Rightarrow> (Splitter \<times> nat) split_state" where
  "clocked_split clock sk data atEOF =
     (case Splitter_Split (clock (snd sk)) (fst sk) data atEOF of (sp, r) \<Rightarrow> ((sp, Suc (snd sk)), r))"

record FileInput = InputOperator +
  FilePathField :: field
  FileNameField :: field
  FilePathResolvedField :: field
  FileNameResolvedField :: field
  MaxLogSize :: nat
  fingerprintSize :: nat
  startAtBeginning :: bool
  encoding_nop :: bool

definition read_tokens ::
  "(nat \<Rightarrow> int) \<Rightarrow> nat list \<Rightarrow> 'a FileInput_scheme \<Rightarrow> string \<Rightarrow> Reader \<Rightarrow> (string list \<times> Reader) option" where
  "read_tokens clock lims fi content r =
     map_option (\<lambda>(tokens, (sp, _), src, err).
         (tokens, r\<lparr>Fingerprint := src_fp src, Offset := read_offset src, reader_splitter := sp\<rparr>))
       (read_loop (clocked_split clock) (reader_splitter r, 0) (NewPositionalScanner (MaxLogSize fi) (Offset r))
          \<lparr>remaining = drop (Offset r) content, limits = lims, src_fp = Fingerprint r,
           fp_size = fingerprintSize fi, read_offset = Offset r\<rparr> [])"

section \<open>Emission\<close>

text \<open>Decoding of all bytes into a buffer that is large enough, which \<open>decode\<close> finds by doubling.\<close>

type_synonym decoder = "string \<Rightarrow> gerror + string"

definition Reader_decode :: "decoder \<Rightarrow> string \<Rightarrow> gerror + string" where
  "Reader_decode dec msgBuf =
     map_sum (\<lambda>err. StdError (''transform encoding: '' @ error_text err)) id (dec msgBuf)"

fun set_fields :: "(field \<times> string) list \<Rightarrow> entry \<Rightarrow> entry \<times> gerror option" where
  "set_fields [] e = (e, None)"
| "set_fields ((f, v) # fs) e =
     (case field_Set f (VString v) e of
        (e, Some err) \<Rightarrow> (e, Some err)
      | (e, None) \<Rightarrow> set_fields fs e)"

definition emit ::
  "decoder \<Rightarrow> gtime \<Rightarrow> 'a FileInput_scheme \<Rightarrow> fileAttributes \<Rightarrow> string \<Rightarrow> outcome option" where
  "emit dec now fi fa msgBuf =
     (if msgBuf = [] then Some ([], None)
      else case (if encoding_nop fi then Inr (VBytes msgBuf) else map_sum id VString (Reader_decode dec msgBuf)) of
        Inl err \<Rightarrow> Some ([], Some (StdError (''decode: '' @ error_text err)))
      | Inr msg \<Rightarrow>
          (case NewEntry now fi msg of
             None \<Rightarrow> None
           | Some (Inl err) \<Rightarrow> Some ([], Some (StdError (''create entry: '' @ error_text err)))
           | Some (Inr e) \<Rightarrow>
               (case set_fields [(FilePathField fi, fa_Path fa), (FileNameField fi, fa_Name fa),
                       (FilePathResolvedField fi, fa_ResolvedPath fa), (FileNameResolvedField fi, fa_ResolvedName fa)] e of
                  (e, Some err) \<Rightarrow> Some ([], Some err)
                | (e, None) \<Rightarrow> Some (Write fi e, None))))"

text \<open>An error of one emission is logged, and the loop goes on.\<close>

fun emit_all ::
  "decoder \<Rightarrow> gtime \<Rightarrow> 'a FileInput_scheme \<Rightarrow> fileAttributes \<Rightarrow> string list \<Rightarrow> (opref \<times> entry) list option" where
  "emit_all dec now fi fa [] = Some []"
| "emit_all dec now fi fa (t # ts) =
     (case emit dec now fi fa t of
        None \<Rightarrow> None
      | Some (sent, err) \<Rightarrow> map_option ((@) sent) (emit_all dec now fi fa ts))"

definition ReadToEnd ::
  "decoder \<Rightarrow> gtime \<Rightarrow> (nat \<Rightarrow> int) \<Rightarrow> nat list \<Rightarrow> 'a FileInput_scheme \<Rightarrow> string \<Rightarrow> Reader
    \<Rightarrow> ((opref \<times> entry) list \<times> Reader) option" where
  "ReadToEnd dec now clock lims fi content r =
     (case read_tokens clock lims fi content r of
        None \<Rightarrow> None
      | Some (tokens, r) \<Rightarrow>
          map_option (\<lambda>sent. (sent, r)) (emit_all dec now fi (reader_attributes r) tokens))"

definition InitializeOffset :: "bool \<Rightarrow> string \<Rightarrow> Reader \<Rightarrow> Reader" where
  "InitializeOffset fromStart content r =
     (if fromStart then r else r\<lparr>Offset := length content\<rparr>)"

definition NewReader :: "fileAttributes \<Rightarrow> fingerprint \<Rightarrow> Splitter \<Rightarrow> Reader" where
  "NewReader fa fp sp =
     \<lparr>Fingerprint = fp, Offset = 0, generation = 0, reader_attributes = fa, reader_splitter = sp\<rparr>"

text \<open>
  The source shares the splitter between a reader and its copy.  Here the copy has its own, with the
  same state: a reader that was copied is not read again, unless two new files continue it in one poll.
\<close>

definition Reader_Copy :: "Reader \<Rightarrow> Reader" where
  "Reader_Copy r = (NewReader (reader_attributes r) (Fingerprint_Copy (Fingerprint r)) (reader_splitter r))\<lparr>Offset := Offset r\<rparr>"

end
