(* ===== verification/Persisters.thy ===== *)
theory Persisters
  imports Entries
begin

text \<open>
  What survives a restart: \<open>operator/persister.go\<close>, the interface \<open>Persister\<close> and the persister that
  puts the id of an operator in front of its keys, and the persister in memory of
  \<open>testutil/util.go\<close>.

  A persister is a state with three operations; a key without a value reads as nil (\<open>None\<close>).
\<close>

section \<open>The interface\<close>

locale persister =
  fixes get :: "'s \<Rightarrow> string \<Rightarrow> gerror + string option"
    and put :: "'s \<Rightarrow> string \<Rightarrow> string \<Rightarrow> 's \<times> gerror option"
    and remove :: "'s \<Rightarrow> string \<Rightarrow> 's \<times> gerror option"
  assumes get_put: "put s k v = (s', None) \<Longrightarrow> get s' k = Inr (Some v)"
    and get_put_other: "put s k v = (s', err) \<Longrightarrow> k' \<noteq> k \<Longrightarrow> get s' k' = get s k'"
    and get_remove: "remove s k = (s', None) \<Longrightarrow> get s' k = Inr None"
    and get_remove_other: "remove s k = (s', err) \<Longrightarrow> k' \<noteq> k \<Longrightarrow> get s' k' = get s k'"

section \<open>Scopes\<close>

definition scoped_key :: "string \<Rightarrow> string \<Rightarrow> string" where
  "scoped_key scope key = scope @ ''.'' @ key"

definition scoped_Get :: "('s \<Rightarrow> string \<Rightarrow> gerror + string option) \<Rightarrow> string \<Rightarrow> 's \<Rightarrow> string \<Rightarrow> gerror + string option" where
  "scoped_Get get scope s key = get s (scoped_key scope key)"

definition scoped_Set ::
  "('s \<Rightarrow> string \<Rightarrow> string \<Rightarrow> 's \<times> gerror option) \<Rightarrow> string \<Rightarrow> 's \<Rightarrow> string \<Rightarrow> string \<Rightarrow> 's \<times> gerror option" where
  "scoped_Set put scope s key v = put s (scoped_key scope key) v"

definition scoped_Delete ::
  "('s \<Rightarrow> string \<Rightarrow> 's \<times> gerror option) \<Rightarrow> string \<Rightarrow> 's \<Rightarrow> string \<Rightarrow> 's \<times> gerror option" where
  "scoped_Delete remove scope s key = remove s (scoped_key scope key)"

lemma scoped_key_inj [simp]: "scoped_key scope k = scoped_key scope k' \<longleftrightarrow> k = k'"
  by (simp add: scoped_key_def)

text \<open>Scopes are kept apart when neither holds a dot.\<close>

lemma scoped_key_apart:
  "CHR ''.'' \<notin> set a \<Longrightarrow> CHR ''.'' \<notin> set b \<Longrightarrow> a \<noteq> b \<Longrightarrow> scoped_key a k \<noteq> scoped_key b k'"
proof
  assume "CHR ''.'' \<notin> set a" "CHR ''.'' \<notin> set b" "a \<noteq> b" "scoped_key a k = scoped_key b k'"
  moreover from this have "split_at CHR ''.'' (a @ CHR ''.'' # k) = split_at CHR ''.'' (b @ CHR ''.'' # k')"
    by (simp add: scoped_key_def)
  ultimately show False by (simp add: split_at_join)
qed

context persister
begin

lemma scoped_persister:
  "persister (scoped_Get get scope) (scoped_Set put scope) (scoped_Delete remove scope)"
  by unfold_locales
    (auto simp: scoped_Get_def scoped_Set_def scoped_Delete_def intro: get_put get_remove
      get_put_other get_remove_other)

lemma scopes_apart:
  assumes "CHR ''.'' \<notin> set a" "CHR ''.'' \<notin> set b" "a \<noteq> b"
  shows "scoped_Set put a s k v = (s', err) \<Longrightarrow> scoped_Get get b s' k' = scoped_Get get b s k'"
    and "scoped_Delete remove a s k = (s', err) \<Longrightarrow> scoped_Get get b s' k' = scoped_Get get b s k'"
  using assms scoped_key_apart [of a b]
  by (metis scoped_Get_def scoped_Set_def get_put_other, metis scoped_Get_def scoped_Delete_def get_remove_other)

end

section \<open>The persister in memory\<close>

type_synonym mockPersister = "string gomap"

definition mock_Get :: "mockPersister \<Rightarrow> string \<Rightarrow> gerror + string option" where
  "mock_Get p k = Inr (fmlookup p k)"

definition mock_Set :: "mockPersister \<Rightarrow> string \<Rightarrow> string \<Rightarrow> mockPersister \<times> gerror option" where
  "mock_Set p k v = (fmupd k v p, None)"

definition mock_Delete :: "mockPersister \<Rightarrow> string \<Rightarrow> mockPersister \<times> gerror option" where
  "mock_Delete p k = (fmdrop k p, None)"

definition NewUnscopedMockPersister :: mockPersister where
  "NewUnscopedMockPersister = fmempty"

interpretation mock: persister mock_Get mock_Set mock_Delete
  by unfold_locales (auto simp: mock_Get_def mock_Set_def mock_Delete_def)

interpretation mock_scoped: persister "scoped_Get mock_Get scope" "scoped_Set mock_Set scope"
    "scoped_Delete mock_Delete scope" for scope
  by (rule mock.scoped_persister)

text \<open>
  Operators do not see each other's persisted data.  On one store, what an operator with an id
  without dots sets or deletes, under any key, does not change what another such operator reads;
  the operator itself reads back what it set.
\<close>

lemma scoped_isolation:
  assumes "CHR ''.'' \<notin> set a" "CHR ''.'' \<notin> set b" "a \<noteq> b"
  shows "scoped_Get mock_Get b (fst (scoped_Set mock_Set a s k v)) k' = scoped_Get mock_Get b s k'
    \<and> scoped_Get mock_Get b (fst (scoped_Delete mock_Delete a s k)) k' = scoped_Get mock_Get b s k'
    \<and> scoped_Get mock_Get a (fst (scoped_Set mock_Set a s k v)) k = Inr (Some v)"
proof (intro conjI)
  show "scoped_Get mock_Get b (fst (scoped_Set mock_Set a s k v)) k' = scoped_Get mock_Get b s k'"
    using mock.scopes_apart(1) [OF assms] by (metis prod.collapse)
  show "scoped_Get mock_Get b (fst (scoped_Delete mock_Delete a s k)) k' = scoped_Get mock_Get b s k'"
    using mock.scopes_apart(2) [OF assms] by (metis prod.collapse)
  show "scoped_Get mock_Get a (fst (scoped_Set mock_Set a s k v)) k = Inr (Some v)"
    by (rule mock_scoped.get_put [where s = s]) (simp add: scoped_Set_def mock_Set_def)
qed

lemma scoped_isolation_witness:
  "scoped_Get mock_Get ''b'' (fst (scoped_Set mock_Set ''a'' NewUnscopedMockPersister ''k'' ''v'')) ''k'' = Inr None"
  using scoped_isolation [of "''a''" "''b''" NewUnscopedMockPersister "''k''" "''v''" "''k''"]
  by (simp add: scoped_Get_def mock_Get_def NewUnscopedMockPersister_def)

end
