(* ===== verification/File_Input.thy ===== *)
theory File_Input
  imports File_Reader Persisters
begin

text \<open>
  The file input: \<open>operator/input/file/config.go\<close>, \<open>finder.go\<close>, \<open>file.go\<close> and the roller of
  \<open>roller_other.go\<close>, with the encoding lookup of \<open>operator/helper/encoding.go\<close>.

  The file system gives for a path the file that it names now, and for a file its bytes now; an open
  file is the file itself, so that a reader stays on it when the path is moved.  Readers are pointers:
  they live in a store and are known by their addresses, so that the readers of the last polls and
  those that the roller remembers are the same ones.  The passes of one poll run at the same time in
  the code; they touch separate readers and are taken one after the other.  Closing files and log
  messages are left out.
\<close>

section \<open>Encodings\<close>

text \<open>
  The encodings that \<open>lookupEncoding\<close> knows itself; any other name is looked up at IANA, which is a
  parameter: an error, no charmap, or the encoding.
\<close>

datatype known_encoding = UTF8 | UTF16LE | NopEncoding | IANA "string \<Rightarrow> gerror + string"

definition encodingOverrides :: "string \<Rightarrow> known_encoding option" where
  "encodingOverrides name = map_of
     [(''utf-16'', UTF16LE), (''utf16'', UTF16LE), (''utf-8'', UTF8), (''utf8'', UTF8), (''ascii'', UTF8),
      (''us-ascii'', UTF8), (''nop'', NopEncoding), ([], UTF8)] name"

type_synonym iana_index = "string \<Rightarrow> gerror + (string \<Rightarrow> gerror + string) option"

definition lookupEncoding :: "iana_index \<Rightarrow> string \<Rightarrow> gerror + known_encoding" where
  "lookupEncoding iana enc =
     (case encodingOverrides (to_lower enc) of
        Some e \<Rightarrow> Inr e
      | None \<Rightarrow>
          (case iana enc of
             Inl err \<Rightarrow> Inl (StdError (''unsupported encoding '' @ quoted enc))
           | Inr None \<Rightarrow> Inl (StdError (''no charmap defined for encoding '' @ quoted enc))
           | Inr (Some e) \<Rightarrow> Inr (IANA e)))"

text \<open>The bytes that an encoding gives for ASCII text, such as a newline.\<close>

fun text_encoding_of :: "known_encoding \<Rightarrow> text_encoding" where
  "text_encoding_of UTF8 = \<lparr>is_nop = False, encode = Inr\<rparr>"
| "text_encoding_of UTF16LE = \<lparr>is_nop = False, encode = \<lambda>s. Inr (concat (map (\<lambda>c. [c, CHR 0x00]) s))\<rparr>"
| "text_encoding_of NopEncoding = \<lparr>is_nop = True, encode = Inr\<rparr>"
| "text_encoding_of (IANA e) = \<lparr>is_nop = False, encode = e\<rparr>"

definition EncodingConfig_Build :: "iana_index \<Rightarrow> string \<Rightarrow> gerror + text_encoding" where
  "EncodingConfig_Build iana enc = map_sum id text_encoding_of (lookupEncoding iana enc)"

section \<open>Configuration\<close>

record finder =
  Include :: "string list"
  Exclude :: "string list"

record InputConfig_file = InputConfig +
  cfgFinder :: finder
  cfgPollInterval :: int
  cfgIncludeFileName :: bool
  cfgIncludeFilePath :: bool
  cfgIncludeFileNameResolved :: bool
  cfgIncludeFilePathResolved :: bool
  cfgStartAt :: string
  cfgFingerprintSize :: int
  cfgMaxLogSize :: int
  cfgMaxConcurrentFiles :: int
  cfgEncoding :: string
  cfgMultiline :: MultilineConfig
  cfgFlushPeriod :: int

definition NewInputConfig_file :: "string \<Rightarrow> InputConfig_file" where
  "NewInputConfig_file i = InputConfig.extend (NewInputConfig i ''file_input'')
     (InputConfig_file.fields \<lparr>Include = [], Exclude = []\<rparr> 200000000 True False False False ''end'' 1000
        1048576 1024 ''utf-8'' NewMultilineConfig NewFlusherConfig)"

record FileOperator = FileInput +
  op_finder :: finder
  PollInterval :: int
  op_multiline :: MultilineConfig
  op_flush_period :: int
  MaxConcurrentFiles :: nat
  op_encoding :: text_encoding
  firstCheck :: bool
  queuedMatches :: "string list"
  knownFiles :: "nat list"
  oldReaders :: "nat list"
  heap :: "(nat, nat option \<times> Reader) fmap"
  next_address :: nat

text \<open>What lies outside: whether a glob parses, the regular expressions and the IANA index.\<close>

record build_env =
  glob_error :: "string \<Rightarrow> gerror option"
  env_regexp :: "string \<Rightarrow> string + find_index"
  env_iana :: iana_index

definition glob_errors :: "build_env \<Rightarrow> string list \<Rightarrow> gerror option" where
  "glob_errors env globs = List.find (\<lambda>_. True) (List.map_filter (glob_error env) globs)"

definition include_field :: "bool \<Rightarrow> string \<Rightarrow> field" where
  "include_field b name = (if b then AttributeField [name] else NilField)"

definition FileInputConfig_Build ::
  "build_env \<Rightarrow> compiler \<Rightarrow> bool \<Rightarrow> int \<Rightarrow> 'a InputConfig_file_scheme \<Rightarrow> gerror + FileOperator" where
  "FileInputConfig_Build env compile has_logger now c =
     (case InputConfig_Build compile has_logger c of
        Inl err \<Rightarrow> Inl err
      | Inr inputOperator \<Rightarrow>
      if Include (cfgFinder c) = [] then Inl (StdError ''required argument `include` is empty'')
      else case glob_errors env (Include (cfgFinder c)) of
        Some err \<Rightarrow> Inl (StdError (''parse include glob: '' @ error_text err))
      | None \<Rightarrow>
     (case glob_errors env (Exclude (cfgFinder c)) of
        Some err \<Rightarrow> Inl (StdError (''parse exclude glob: '' @ error_text err))
      | None \<Rightarrow>
      if cfgMaxLogSize c \<le> 0 then Inl (StdError ''`max_log_size` must be positive'')
      else if cfgMaxConcurrentFiles c \<le> 1 then Inl (StdError ''`max_concurrent_files` must be greater than 1'')
      else if cfgFingerprintSize c \<noteq> 0 \<and> cfgFingerprintSize c < int minFingerprintSize
      then Inl (StdError (''`fingerprint_size` must be at least '' @ itoa (int minFingerprintSize) @ '' bytes''))
      else
       let fpSize = (if cfgFingerprintSize c = 0 then defaultFingerprintSize else nat (cfgFingerprintSize c)) in
       case EncodingConfig_Build (env_iana env) (cfgEncoding c) of
        Inl err \<Rightarrow> Inl err
      | Inr encoding \<Rightarrow>
     (case SplitterConfig_Build (env_regexp env) now (cfgMultiline c) (cfgFlushPeriod c) encoding False (nat (cfgMaxLogSize c)) of
        Inl err \<Rightarrow> Inl err
      | Inr _ \<Rightarrow>
      if cfgStartAt c \<notin> {''beginning'', ''end''}
      then Inl (StdError (''invalid start_at location '' @ quoted (cfgStartAt c)))
      else Inr (FileInput.extend (InputOperator.extend inputOperator (FileInput.fields
           (include_field (cfgIncludeFilePath c) ''log.file.path'')
           (include_field (cfgIncludeFileName c) ''log.file.name'')
           (include_field (cfgIncludeFilePathResolved c) ''log.file.path_resolved'')
           (include_field (cfgIncludeFileNameResolved c) ''log.file.name_resolved'')
           (nat (cfgMaxLogSize c)) fpSize (cfgStartAt c = ''beginning'') (is_nop encoding)))
        (FileOperator.fields (cfgFinder c) (cfgPollInterval c) (cfgMultiline c) (cfgFlushPeriod c)
           (nat (cfgMaxConcurrentFiles c)) encoding True [] [] [] fmempty 0)))))"

section \<open>Finding files\<close>

text \<open>
  What a poll sees: the file system, the globs, the attributes of a path after symbolic links were
  resolved, the clocks, and the decoder.  A read of a regular file gives what there is.
\<close>

record poll_env =
  path_file :: "string \<Rightarrow> nat option"
  file_data :: "nat \<Rightarrow> string"
  unreadable :: "nat \<Rightarrow> bool"
  Glob :: "string \<Rightarrow> string list"
  PathMatch :: "string \<Rightarrow> string \<Rightarrow> bool"
  attributes_of :: "string \<Rightarrow> fileAttributes"
  poll_regexp :: "string \<Rightarrow> string + find_index"
  poll_now :: gtime
  poll_instant :: int
  pass_clock :: "nat \<Rightarrow> nat \<Rightarrow> int"
  poll_decode :: decoder

definition add_matches :: "poll_env \<Rightarrow> finder \<Rightarrow> string list \<Rightarrow> string list \<Rightarrow> string list" where
  "add_matches env f ms found = foldl (\<lambda>found m.
     if (\<exists>e \<in> set (Exclude f). PathMatch env e m) \<or> m \<in> set found then found else found @ [m]) found ms"

definition FindFiles :: "poll_env \<Rightarrow> finder \<Rightarrow> string list" where
  "FindFiles env f = foldl (\<lambda>found inc. add_matches env f (Glob env inc) found) [] (Include f)"

section \<open>Making readers\<close>

definition open_files :: "poll_env \<Rightarrow> string list \<Rightarrow> (string \<times> nat) list" where
  "open_files env paths = List.map_filter (\<lambda>p. map_option (Pair p) (path_file env p)) paths"

definition fingerprints :: "poll_env \<Rightarrow> nat \<Rightarrow> (string \<times> nat) list \<Rightarrow> fingerprint list" where
  "fingerprints env n files = List.map_filter
     (\<lambda>(p, i). if unreadable env i then None else Some (NewFingerprint n (file_data env i))) files"

text \<open>
  The two lists run in parallel by index, the fingerprints being possibly fewer than the files; an
  index is removed from both.
\<close>

fun exclude_duplicates :: "fingerprint list \<Rightarrow> (string \<times> nat) list \<Rightarrow> (fingerprint \<times> string \<times> nat) list" where
  "exclude_duplicates (fp # fps) (f # fs) =
     (if FirstBytes fp = [] \<or> (\<exists>fp2 \<in> set fps. StartsWith fp fp2 \<or> StartsWith fp2 fp) then exclude_duplicates fps fs
      else (fp, f) # exclude_duplicates fps fs)"
| "exclude_duplicates _ _ = []"

definition reader_at :: "'a FileOperator_scheme \<Rightarrow> nat \<Rightarrow> Reader option" where
  "reader_at op a = map_option snd (fmlookup (heap op) a)"

definition findFingerprintMatch :: "'a FileOperator_scheme \<Rightarrow> fingerprint \<Rightarrow> Reader option" where
  "findFingerprintMatch op fp =
     List.find (\<lambda>r. StartsWith fp (Fingerprint r)) (List.map_filter (reader_at op) (rev (knownFiles op)))"

definition getMultiline :: "poll_env \<Rightarrow> 'a FileOperator_scheme \<Rightarrow> gerror + Splitter" where
  "getMultiline env op = SplitterConfig_Build (poll_regexp env) (poll_instant env) (op_multiline op)
     (op_flush_period op) (op_encoding op) False (MaxLogSize op)"

definition newReader :: "poll_env \<Rightarrow> 'a FileOperator_scheme \<Rightarrow> fingerprint \<times> string \<times> nat \<Rightarrow> gerror + nat option \<times> Reader" where
  "newReader env op f =
     (case f of (fp, path, i) \<Rightarrow>
        (case findFingerprintMatch op fp of
           Some oldReader \<Rightarrow> Inr (Some i, (Reader_Copy oldReader)\<lparr>reader_attributes := attributes_of env path\<rparr>)
         | None \<Rightarrow> map_sum id (\<lambda>sp. (Some i, InitializeOffset (\<not> firstCheck op \<or> startAtBeginning op) (file_data env i)
               (NewReader (attributes_of env path) fp sp))) (getMultiline env op)))"

definition allocate :: "nat option \<times> Reader \<Rightarrow> 'a FileOperator_scheme \<Rightarrow> nat \<times> 'a FileOperator_scheme" where
  "allocate r op = (next_address op, op\<lparr>heap := fmupd (next_address op) r (heap op), next_address := Suc (next_address op)\<rparr>)"

fun make_each :: "poll_env \<Rightarrow> 'a FileOperator_scheme \<Rightarrow> (fingerprint \<times> string \<times> nat) list \<Rightarrow> nat list \<times> 'a FileOperator_scheme" where
  "make_each env op [] = ([], op)"
| "make_each env op (f # fs) =
     (case newReader env op f of
        Inl err \<Rightarrow> make_each env op fs
      | Inr r \<Rightarrow> (case allocate r op of (a, op) \<Rightarrow> apfst (Cons a) (make_each env op fs)))"

definition makeReaders :: "poll_env \<Rightarrow> 'a FileOperator_scheme \<Rightarrow> string list \<Rightarrow> nat list \<times> 'a FileOperator_scheme" where
  "makeReaders env op filesPaths =
     (let files = open_files env filesPaths; fps = fingerprints env (fingerprintSize op) files
      in make_each env op (exclude_duplicates fps files))"

section \<open>Polling\<close>

definition bump :: "nat option \<times> Reader \<Rightarrow> nat option \<times> Reader" where
  "bump r = apsnd (\<lambda>r. r\<lparr>generation := Suc (generation r)\<rparr>) r"

definition bump_known :: "'a FileOperator_scheme \<Rightarrow> 'a FileOperator_scheme" where
  "bump_known op = op\<lparr>heap := foldl (\<lambda>h a. case fmlookup h a of None \<Rightarrow> h | Some r \<Rightarrow> fmupd a (bump r) h) (heap op) (knownFiles op)\<rparr>"

definition next_batch :: "poll_env \<Rightarrow> 'a FileOperator_scheme \<Rightarrow> string list \<times> 'a FileOperator_scheme" where
  "next_batch env op =
     (let maxBatchFiles = MaxConcurrentFiles op div 2; queued = queuedMatches op in
      if length queued > maxBatchFiles
      then (take maxBatchFiles queued, op\<lparr>queuedMatches := drop maxBatchFiles queued\<rparr>)
      else if queued \<noteq> [] then (queued, op\<lparr>queuedMatches := []\<rparr>)
      else
        let op = bump_known op; matches = FindFiles env (op_finder op) in
        if length matches > maxBatchFiles
        then (take maxBatchFiles matches, op\<lparr>queuedMatches := drop maxBatchFiles matches\<rparr>)
        else (matches, op))"

text \<open>The passes of some readers; seeking in a reader without a file fails, and nothing is read.\<close>

fun read_files :: "poll_env \<Rightarrow> nat \<Rightarrow> 'a FileOperator_scheme \<Rightarrow> nat list \<Rightarrow> ((opref \<times> entry) list \<times> 'a FileOperator_scheme) option" where
  "read_files env k op [] = Some ([], op)"
| "read_files env k op (a # as) =
     (case fmlookup (heap op) a of
        None \<Rightarrow> None
      | Some (None, r) \<Rightarrow> read_files env (Suc k) op as
      | Some (Some i, r) \<Rightarrow>
          (case ReadToEnd (poll_decode env) (poll_now env) (pass_clock env k) [] op (file_data env i) r of
             None \<Rightarrow> None
           | Some (sent, r) \<Rightarrow>
               map_option (\<lambda>(sent', op). (sent @ sent', op))
                 (read_files env (Suc k) (op\<lparr>heap := fmupd a (Some i, r) (heap op)\<rparr>) as)))"

definition fingerprint_at :: "'a FileOperator_scheme \<Rightarrow> nat \<Rightarrow> fingerprint" where
  "fingerprint_at op a = (case reader_at op a of None \<Rightarrow> \<lparr>FirstBytes = [], spare = []\<rparr> | Some r \<Rightarrow> Fingerprint r)"

definition lost_readers :: "'a FileOperator_scheme \<Rightarrow> nat list \<Rightarrow> nat list" where
  "lost_readers op readers = filter
     (\<lambda>a. \<not> (\<exists>b \<in> set readers. StartsWith (fingerprint_at op b) (fingerprint_at op a))) (oldReaders op)"

definition roll :: "poll_env \<Rightarrow> nat \<Rightarrow> 'a FileOperator_scheme \<Rightarrow> nat list \<Rightarrow> ((opref \<times> entry) list \<times> 'a FileOperator_scheme) option" where
  "roll env k op readers =
     map_option (\<lambda>(sent, op). (sent, op\<lparr>oldReaders := readers\<rparr>)) (read_files env k op (lost_readers op readers))"

definition young :: "'a FileOperator_scheme \<Rightarrow> nat \<Rightarrow> bool" where
  "young op a \<longleftrightarrow> (case reader_at op a of None \<Rightarrow> False | Some r \<Rightarrow> generation r \<le> 3)"

definition saveCurrent :: "nat list \<Rightarrow> 'a FileOperator_scheme \<Rightarrow> 'a FileOperator_scheme" where
  "saveCurrent readers op =
     (let known = knownFiles op @ readers; kept = dropWhile (\<lambda>a. \<not> young op a) known
      in op\<lparr>knownFiles := (if kept = [] then known else kept)\<rparr>)"

section \<open>What survives a restart\<close>

text \<open>JSON writes of a reader its exported fields, the fingerprint and the offset.\<close>

record 's disk =
  disk_get :: "'s \<Rightarrow> string \<Rightarrow> gerror + string option"
  disk_put :: "'s \<Rightarrow> string \<Rightarrow> string \<Rightarrow> 's \<times> gerror option"
  json_encode :: "(string \<times> nat) list \<Rightarrow> string"
  json_decode :: "string \<Rightarrow> gerror + (string \<times> nat) list"

definition knownFilesKey :: string where
  "knownFilesKey = ''knownFiles''"

definition syncLastPollFiles :: "('s, 'b) disk_scheme \<Rightarrow> 'a FileOperator_scheme \<Rightarrow> 's \<Rightarrow> 's" where
  "syncLastPollFiles d op s = fst (disk_put d s knownFilesKey
     (json_encode d (map (\<lambda>r. (FirstBytes (Fingerprint r), Offset r)) (List.map_filter (reader_at op) (knownFiles op)))))"

text \<open>The decoder makes the array of a fingerprint as large as its base64 text allows, in threes.\<close>

definition decoded_fingerprint :: "string \<Rightarrow> fingerprint" where
  "decoded_fingerprint bs = \<lparr>FirstBytes = bs, spare = zeros ((3 - length bs mod 3) mod 3)\<rparr>"

fun load_each :: "poll_env \<Rightarrow> 'a FileOperator_scheme \<Rightarrow> (string \<times> nat) list \<Rightarrow> gerror + 'a FileOperator_scheme" where
  "load_each env op [] = Inr op"
| "load_each env op ((fp, off) # rest) =
     (case getMultiline env op of
        Inl err \<Rightarrow> Inl err
      | Inr sp \<Rightarrow>
          (case allocate (None, (NewReader (attributes_of env []) (decoded_fingerprint fp) sp)\<lparr>Offset := off\<rparr>) op of
             (a, op) \<Rightarrow> load_each env (op\<lparr>knownFiles := knownFiles op @ [a]\<rparr>) rest))"

definition loadLastPollFiles :: "('s, 'b) disk_scheme \<Rightarrow> poll_env \<Rightarrow> 's \<Rightarrow> 'a FileOperator_scheme \<Rightarrow> gerror + 'a FileOperator_scheme" where
  "loadLastPollFiles d env s op =
     (case disk_get d s knownFilesKey of
        Inl err \<Rightarrow> Inl err
      | Inr None \<Rightarrow> Inr (op\<lparr>knownFiles := []\<rparr>)
      | Inr (Some encoded) \<Rightarrow>
          (case json_decode d encoded of
             Inl err \<Rightarrow> Inl err
           | Inr known \<Rightarrow> load_each env (op\<lparr>knownFiles := []\<rparr>) known))"

definition FileInput_Start :: "('s, 'b) disk_scheme \<Rightarrow> poll_env \<Rightarrow> 's \<Rightarrow> 'a FileOperator_scheme \<Rightarrow> gerror + 'a FileOperator_scheme" where
  "FileInput_Start d env s op =
     map_sum (\<lambda>err. StdError (''read known files from database: '' @ error_text err)) id
       (loadLastPollFiles d env s (op\<lparr>firstCheck := True\<rparr>))"

definition FileInput_Stop :: "'a FileOperator_scheme \<Rightarrow> 'a FileOperator_scheme" where
  "FileInput_Stop op = op\<lparr>knownFiles := []\<rparr>"

definition poll ::
  "('s, 'b) disk_scheme \<Rightarrow> poll_env \<Rightarrow> 'a FileOperator_scheme \<Rightarrow> 's \<Rightarrow> ((opref \<times> entry) list \<times> 'a FileOperator_scheme \<times> 's) option" where
  "poll d env op s =
     (case next_batch env op of (matches, op) \<Rightarrow>
     (case makeReaders env op matches of (readers, op) \<Rightarrow>
     (case read_files env 0 (op\<lparr>firstCheck := False\<rparr>) readers of
        None \<Rightarrow> None
      | Some (sent, op) \<Rightarrow>
     (case roll env (length readers) op readers of
        None \<Rightarrow> None
      | Some (lost, op) \<Rightarrow>
          let op = saveCurrent readers op in Some (sent @ lost, op, syncLastPollFiles d op s)))))"

end
