(* ===== verification/File_Reader_Laws.thy ===== *)
theory File_Reader_Laws
  imports File_Reader
begin

text \<open>
  What a pass over a file delivers: the contract of split functions and that the functions of the code
  meet it, the consumption of bytes by the scanner, that passes return, that they never deliver a byte
  twice, that whole lines come out whole, and the cases in which lines are delayed for good.
\<close>

section \<open>The contract of a split function\<close>

text \<open>
  It never drops more than it was given, gives no error, and a token is a non-empty piece of what it
  drops.
\<close>

definition piece :: "string \<Rightarrow> string \<Rightarrow> bool" where
  "piece t c \<longleftrightarrow> t \<noteq> [] \<and> (\<exists>a b. c = a @ t @ b)"

lemma piece_append: "piece t c \<Longrightarrow> piece t (x @ c @ y)"
  unfolding piece_def by (metis append.assoc)

lemma piece_refl: "t \<noteq> [] \<Longrightarrow> piece t t"
  using piece_append [of t t "[]" "[]"] by (auto simp: piece_def intro: exI [of _ "[]"])

lemma piece_left: "piece t c \<Longrightarrow> piece t (c @ y)"
  using piece_append [of t c "[]" y] by simp

locale token_splitter =
  fixes split :: "'f split_state" and ok :: "'f \<Rightarrow> bool"
  assumes advance_le: "ok f \<Longrightarrow> split f d e = (f', adv, tok, err) \<Longrightarrow> adv \<le> length d"
    and no_error: "ok f \<Longrightarrow> split f d e = (f', adv, tok, err) \<Longrightarrow> err = None"
    and token_piece: "ok f \<Longrightarrow> split f d e = (f', adv, Some t, err) \<Longrightarrow> piece t (take adv d)"
    and keeps_ok: "ok f \<Longrightarrow> split f d e = (f', adv, tok, err) \<Longrightarrow> ok f'"

lemma trim_right_prefix: "\<exists>b. s = trim_right s cs @ b"
proof -
  obtain n where "trim_left (rev s) cs = drop n (rev s)" using trim_left_drop by blast
  then have "trim_right s cs = take (length s - n) s" by (simp add: trim_right_def rev_drop)
  then show ?thesis by (metis append_take_drop_id)
qed

lemma trimWhitespaces_piece: "trimWhitespaces d = Some t \<Longrightarrow> piece t d"
proof -
  assume t: "trimWhitespaces d = Some t"
  let ?r = "trim_right d [CR, LF, CHR 0x09, CHR '' '']"
  have t: "t = trim_left ?r [CR, LF]" "t \<noteq> []" using t by (auto simp: trimWhitespaces_def Let_def split: if_splits)
  obtain n where "t = drop n ?r" using trim_left_drop t(1) by metis
  then have "?r = take n ?r @ t" by simp
  moreover obtain b where "d = ?r @ b" using trim_right_prefix by blast
  ultimately have "d = take n ?r @ t @ b" by (metis append.assoc)
  with t(2) show ?thesis by (auto simp: piece_def)
qed

text \<open>What \<open>regexp\<close> promises of \<open>FindIndex\<close>.\<close>

definition locates :: "find_index \<Rightarrow> bool" where
  "locates f \<longleftrightarrow> (\<forall>d a b. f d = Some (a, b) \<longrightarrow> a \<le> b \<and> b \<le> length d)"

definition good_split :: "split_func \<Rightarrow> bool" where
  "good_split sf \<longleftrightarrow> (\<forall>d e adv tok err. sf d e = (adv, tok, err) \<longrightarrow>
     adv \<le> length d \<and> err = None \<and> (\<forall>t. tok = Some t \<longrightarrow> piece t (take adv d)))"

lemma good_SplitNone: "0 < n \<Longrightarrow> good_split (SplitNone n)"
  by (auto simp: good_split_def SplitNone_def piece_refl)

lemma trim_suffix_prefix: "\<exists>b. s = trim_suffix s p @ b"
  unfolding trim_suffix_def by (metis append_take_drop_id append_Nil2)

lemma good_newline: "good_split (newline_split nl cr flush)"
proof -
  have "piece t (take (i + length nl) d)"
    if "str_index d nl = Some i" "trimWhitespaces (trim_suffix (take i d) cr) = Some t" for d i t
  proof -
    obtain b where b: "take i d = trim_suffix (take i d) cr @ b" using trim_suffix_prefix by blast
    have "take (i + length nl) d = trim_suffix (take i d) cr @ b @ take (length nl) (drop i d)"
      using b by (metis append.assoc take_add)
    then show ?thesis using piece_left [OF trimWhitespaces_piece [OF that(2)]] by metis
  qed
  then show ?thesis
    by (auto simp: good_split_def newline_split_def trimWhitespaces_piece split: if_splits option.splits
        dest: str_index_bound)
qed

lemma good_line_end:
  assumes "locates f"
  shows "good_split (NewLineEndSplitFunc f flush)"
  using assms
  by (auto simp: good_split_def NewLineEndSplitFunc_def locates_def trimWhitespaces_piece
      split: if_splits option.splits)

lemma good_line_start:
  assumes "locates f"
  shows "good_split (NewLineStartSplitFunc f flush)"
proof -
  have bound: "a \<le> b \<and> b \<le> length d" if "f d = Some (a, b)" for d a b
    using assms that by (auto simp: locates_def)
  have second: "b2 + Suc b \<le> length d \<and> (trimWhitespaces (drop a (take (b2 + Suc b) d)) = Some t \<longrightarrow>
      piece t (take (b2 + Suc b) d))"
    if f: "f d = Some (a, b)" "b \<noteq> length d" "f (drop (Suc b) d) = Some (b2, b3)" for d a b b2 b3 t
  proof -
    have "b2 + Suc b \<le> length d" using bound [OF f(1)] bound [OF f(3)] f(2) by auto
    moreover have "piece t (take (b2 + Suc b) d)" if "trimWhitespaces (drop a (take (b2 + Suc b) d)) = Some t"
      using piece_append [OF trimWhitespaces_piece [OF that], of "take a (take (b2 + Suc b) d)" "[]"]
      unfolding append_Nil2 append_take_drop_id .
    ultimately show ?thesis by blast
  qed
  show ?thesis unfolding good_split_def
  proof (intro allI impI)
    fix d e adv tok err
    assume r: "NewLineStartSplitFunc f flush d e = (adv, tok, err)"
    show "adv \<le> length d \<and> err = None \<and> (\<forall>t. tok = Some t \<longrightarrow> piece t (take adv d))"
    proof (cases "f d")
      case None
      with r show ?thesis by (auto simp: NewLineStartSplitFunc_def trimWhitespaces_piece split: if_splits)
    next
      case (Some ab)
      then obtain a b where ab: "f d = Some (a, b)" by (cases ab) simp
      with r show ?thesis using bound [OF ab] second [OF ab]
        by (cases "f (drop (Suc b) d)")
          (auto simp: NewLineStartSplitFunc_def trimWhitespaces_piece Let_def split: if_splits)
    qed
  qed
qed

lemma good_getSplitFunc:
  assumes "getSplitFunc compile c enc flush forced maxLogSize = Inr (sf, b)" "0 < maxLogSize"
    and "\<And>p re. compile p = Inr re \<Longrightarrow> locates re"
  shows "good_split sf"
  using assms
  by (auto simp: getSplitFunc_def NewNewlineSplitFunc_def Let_def good_SplitNone good_newline good_line_end good_line_start
      split: if_splits sum.splits)

text \<open>The flusher keeps the contract, and so does the clocked splitter of a reader.\<close>

lemma good_flusher:
  assumes "good_split sf" "Flusher_SplitFunc sf now f d e = (f', adv, tok, err)"
  shows "adv \<le> length d \<and> err = None \<and> (\<forall>t. tok = Some t \<longrightarrow> piece t (take adv d))"
proof -
  obtain adv1 tok1 err1 where r: "sf d e = (adv1, tok1, err1)" by (cases "sf d e")
  with assms(1) have "adv1 \<le> length d" "err1 = None" "\<And>t. tok1 = Some t \<Longrightarrow> piece t (take adv1 d)"
    by (auto simp: good_split_def)
  with assms(2) r show ?thesis
    by (auto simp: Flusher_SplitFunc_def trimWhitespaces_piece split: option.splits if_splits)
qed

definition splitter_ok :: "Splitter \<times> nat \<Rightarrow> bool" where
  "splitter_ok sk \<longleftrightarrow> good_split (sp_split (fst sk))"

lemma clocked_good:
  assumes "splitter_ok sk" "clocked_split clock sk d e = (sk', adv, tok, err)"
  shows "adv \<le> length d \<and> err = None \<and> (\<forall>t. tok = Some t \<longrightarrow> piece t (take adv d)) \<and> splitter_ok sk'"
proof -
  obtain sp k where sk: "sk = (sp, k)" by (cases sk)
  obtain sp' r where r: "Splitter_Split (clock k) sp d e = (sp', r)" "sk' = (sp', Suc k)" "r = (adv, tok, err)"
    using assms(2) by (auto simp: clocked_split_def sk split: prod.splits)
  show ?thesis
  proof (cases "sp_forced sp")
    case True
    then show ?thesis using r assms(1) good_flusher [of "sp_split sp" "clock k" "sp_flusher sp" d e _ adv tok err]
      by (auto simp: Splitter_Split_def splitter_ok_def sk split: prod.splits)
  next
    case False
    then show ?thesis using r assms(1) by (auto simp: Splitter_Split_def splitter_ok_def sk good_split_def)
  qed
qed

interpretation file_split: token_splitter "clocked_split clock" splitter_ok for clock
  by unfold_locales (use clocked_good in blast)+

section \<open>What the scanner consumes\<close>

text \<open>Bytes not yet consumed, and a list of pieces that lie in a text one after the other.\<close>

definition unread :: "scanner \<Rightarrow> source \<Rightarrow> string" where
  "unread s src = window s @ remaining src"

fun pieces_of :: "string list \<Rightarrow> string \<Rightarrow> bool" where
  "pieces_of [] text = True"
| "pieces_of (t # ts) text = (\<exists>a b. text = a @ t @ b \<and> t \<noteq> [] \<and> pieces_of ts b)"

lemma pieces_ConsI: "pieces_of ts b \<Longrightarrow> t \<noteq> [] \<Longrightarrow> pieces_of (t # ts) (a @ t @ b)"
  by auto

lemma pieces_left: "pieces_of ts x \<Longrightarrow> pieces_of ts (c @ x)"
proof (cases ts)
  case (Cons t ts')
  moreover assume "pieces_of ts x"
  ultimately obtain a b where x: "x = a @ t @ b" "t \<noteq> []" "pieces_of ts' b" by auto
  from pieces_ConsI [OF x(3,2), of "c @ a"] show ?thesis by (simp add: Cons x(1) del: pieces_of.simps)
qed simp

lemma pieces_append: "pieces_of ts x \<Longrightarrow> pieces_of us y \<Longrightarrow> pieces_of (ts @ us) (x @ y)"
proof (induction ts arbitrary: x)
  case (Cons t ts)
  then obtain a b where x: "x = a @ t @ b" "t \<noteq> []" "pieces_of ts b" by auto
  from pieces_ConsI [OF Cons.IH [OF x(3) Cons.prems(2)] x(2), of a] show ?case
    by (simp add: x(1) del: pieces_of.simps)
qed (simp add: pieces_left)

lemma pieces_right: "pieces_of ts x \<Longrightarrow> pieces_of ts (x @ y)"
  using pieces_append [of ts x "[]" y] by simp

lemma pieces_single: "piece t c \<Longrightarrow> pieces_of [t] c"
  by (auto simp: piece_def)

lemma make_room_same:
  "make_room s = Some s' \<Longrightarrow> window s' = window s \<and> scan_pos s' = scan_pos s \<and> at_end s' = at_end s"
  by (auto simp: make_room_def Let_def split: if_splits)

lemma fill_same:
  assumes "w_start s + length (window s) < buf_size s" "fill s src = Some (s', src')"
  shows "unread s' src' = unread s src" "scan_pos s' = scan_pos s"
    "fp_size src' = fp_size src" "read_offset src' = read_offset src"
proof -
  show "unread s' src' = unread s src" "scan_pos s' = scan_pos s"
    using assms by (cases rule: fill_progress; auto simp: unread_def; metis append_take_drop_id fill_progress)+
  show "fp_size src' = fp_size src" "read_offset src' = read_offset src"
    using Reader_Read_take [of "buf_size s - (w_start s + length (window s))" src] assms
    by (auto simp: fill_def)
qed

context token_splitter
begin

lemma round_Done:
  assumes "ok f" "scan_round split f s = Done t f' s'"
  obtains c where "window s = c @ window s'" "scan_pos s' = scan_pos s + length c" "piece t c" "ok f'"
    "at_end s' = at_end s" "w_start s' = w_start s + length c" "buf_size s' = buf_size s" "max_token s' = max_token s"
proof -
  obtain adv tok err where r: "split f (window s) (at_end s) = (f', adv, tok, err)"
    using assms(2) by (auto simp: scan_round_def Let_def split: if_splits prod.splits option.splits)
  have "adv \<le> length (window s)" "err = None" using advance_le [OF assms(1) r] no_error [OF assms(1) r] by auto
  with assms(2) r have "tok = Some t" "window s' = drop adv (window s)" "scan_pos s' = scan_pos s + adv"
    "at_end s' = at_end s" "w_start s' = w_start s + adv" "buf_size s' = buf_size s" "max_token s' = max_token s"
    by (auto simp: scan_round_def Let_def split: if_splits option.splits)
  with \<open>adv \<le> _\<close> token_piece [OF assms(1), of "window s" "at_end s" f' adv t err] r keeps_ok [OF assms(1) r]
  show ?thesis by (intro that [of "take adv (window s)"]) simp_all
qed

lemma round_More:
  assumes "ok f" "scan_round split f s = More f' s'"
  obtains c where "window s = c @ window s'" "scan_pos s' = scan_pos s + length c" "ok f'"
    "\<not> at_end s" "\<not> at_end s'" "w_start s' = w_start s + length c" "buf_size s' = buf_size s" "max_token s' = max_token s"
proof (cases "window s = [] \<and> \<not> at_end s")
  case True
  with assms show ?thesis by (intro that [of "[]"]) (auto simp: scan_round_def)
next
  case False
  then obtain adv tok err where r: "split f (window s) (at_end s) = (f', adv, tok, err)"
    using assms(2) by (auto simp: scan_round_def Let_def split: if_splits prod.splits option.splits)
  have le: "adv \<le> length (window s)" "err = None"
    using advance_le [OF assms(1) r] no_error [OF assms(1) r] by auto
  with assms(2) r False have "window s' = drop adv (window s)" "scan_pos s' = scan_pos s + adv"
    "w_start s' = w_start s + adv" "buf_size s' = buf_size s" "max_token s' = max_token s"
    by (auto simp: scan_round_def Let_def split: if_splits option.splits)
  with le keeps_ok [OF assms(1) r] scan_round_More [OF assms(2)] show ?thesis
    by (intro that [of "take adv (window s)"]) auto
qed

lemma round_no_Panic: "ok f \<Longrightarrow> scan_round split f s \<noteq> Panic"
proof
  assume ok: "ok f" and p: "scan_round split f s = Panic"
  then obtain f' adv t err where r: "split f (window s) (at_end s) = (f', adv, Some t, err)" "adv = 0"
    by (auto simp: scan_round_def Let_def split: if_splits prod.splits option.splits)
  then show False using token_piece [OF ok r(1)] by (simp add: piece_def)
qed

text \<open>One call of \<open>Scan\<close>, in cases.\<close>

lemma scan_cases:
  assumes "ok f"
  obtains (found) t f1 s1 where "scan_round split f s = Done t f1 s1" "scan split f s src = Scanned t f1 s1 src"
    | (failed) err f1 s1 where "scan_round split f s = Fail err f1 s1" "scan split f s src = Stopped err f1 s1 src"
    | (full) err f1 s1 s2 where "scan_round split f s = More f1 s1" "scan split f s src = Stopped (Some err) f1 s2 src"
    | (panic) f1 s1 s2 where "scan_round split f s = More f1 s1" "make_room s1 = Some s2"
        "w_start s2 + length (window s2) < buf_size s2" "fill s2 src = None" "scan split f s src = Scan_Panic"
    | (more) f1 s1 s2 s3 src3 where "scan_round split f s = More f1 s1" "make_room s1 = Some s2"
        "w_start s2 + length (window s2) < buf_size s2" "fill s2 src = Some (s3, src3)"
        "scan split f s src = scan split f1 s3 src3"
        "length (remaining src3) + (if at_end s3 then 0 else 1) < length (remaining src) + (if at_end s then 0 else 1)"
proof (cases "scan_round split f s")
  case (More f1 s1)
  show ?thesis
  proof (cases "make_room s1")
    case None
    with More show ?thesis by (intro full) (auto simp: scan.simps [of split f s])
  next
    case (Some s2)
    show ?thesis
    proof (cases "w_start s2 + length (window s2) < buf_size s2")
      case False
      with More Some show ?thesis by (intro full) (auto simp: scan.simps [of split f s])
    next
      case True
      note room = this
      show ?thesis
      proof (cases "fill s2 src")
        case None
        with More Some room show ?thesis by (intro panic) (auto simp: scan.simps [of split f s])
      next
        case (Some r)
        then obtain s3 src3 where r: "fill s2 src = Some (s3, src3)" by (cases r) simp
        with More \<open>make_room s1 = Some s2\<close> room show ?thesis
          by (intro more) (auto simp: scan.simps [of split f s] dest: scan_decreases)
      qed
    qed
  qed
qed (use round_no_Panic [OF assms, of s] in \<open>auto intro: that simp: scan.simps [of split f s]\<close>)

lemma scan_Scanned:
  "scan split f s src = Scanned t f' s' src' \<Longrightarrow> ok f \<Longrightarrow>
   \<exists>c. unread s src = c @ unread s' src' \<and> scan_pos s' = scan_pos s + length c \<and> piece t c \<and> ok f'
     \<and> fp_size src' = fp_size src \<and> read_offset src' = read_offset src"
proof (induction "length (remaining src) + (if at_end s then 0 else 1 :: nat)" arbitrary: f s src rule: less_induct)
  case less
  from less.prems(2) show ?case
  proof (cases rule: scan_cases [of f s src])
    case (found t1 f1 s1)
    with less.prems have eq: "scan_round split f s = Done t f' s'" "src' = src" by simp_all
    from less.prems(2) eq(1) show ?thesis
      by (cases rule: round_Done) (use eq(2) in \<open>auto simp: unread_def\<close>)
  next
    case (more f1 s1 s2 s3 src3)
    from less.prems(2) more(1) obtain c where c: "window s = c @ window s1" "scan_pos s1 = scan_pos s + length c" "ok f1"
      by (cases rule: round_More) auto
    note same = make_room_same [OF more(2)] fill_same [OF more(3,4)]
    from less.hyps [OF more(6) less.prems(1) [unfolded more(5)] c(3)] obtain d where
      d: "unread s3 src3 = d @ unread s' src'" "scan_pos s' = scan_pos s3 + length d" "piece t d" "ok f'"
      "fp_size src' = fp_size src3" "read_offset src' = read_offset src3" by blast
    have "unread s src = c @ unread s1 src" using c(1) by (simp add: unread_def)
    also have "unread s1 src = unread s3 src3" using same by (simp add: unread_def)
    finally show ?thesis using c same d piece_append [OF d(3), of c "[]"]
      by (intro exI [of _ "c @ d"]) simp
  qed (use less.prems in auto)
qed

lemma scan_Stopped:
  "scan split f s src = Stopped err f' s' src' \<Longrightarrow> ok f \<Longrightarrow> ok f' \<and> read_offset src' = read_offset src"
proof (induction "length (remaining src) + (if at_end s then 0 else 1 :: nat)" arbitrary: f s src rule: less_induct)
  case less
  from less.prems(2) show ?case
  proof (cases rule: scan_cases [of f s src])
    case (failed err1 f1 s1)
    have "ok f1" using less.prems(2) failed(1) keeps_ok
      by (auto simp: scan_round_def Let_def split: if_splits prod.splits option.splits)
    with failed less.prems show ?thesis by simp
  next
    case (full err1 f1 s1 s2)
    with less.prems show ?thesis using round_More [OF less.prems(2) full(1)] by auto
  next
    case (more f1 s1 s2 s3 src3)
    have "ok f1" using less.prems(2) more(1) by (cases rule: round_More) auto
    with less.hyps [OF more(6) less.prems(1) [unfolded more(5)]] fill_same [OF more(3,4)] show ?thesis by simp
  qed (use less.prems in auto)
qed

lemma read_loop_pieces:
  "read_loop split f s src toks = Some (toks', f', src', err) \<Longrightarrow> ok f \<Longrightarrow> scan_pos s = read_offset src \<Longrightarrow>
   \<exists>new c rest. toks' = toks @ new \<and> unread s src = c @ rest \<and> read_offset src' = read_offset src + length c
     \<and> pieces_of new c \<and> ok f'"
proof (induction "length (unread s src)" arbitrary: f s src toks rule: less_induct)
  case less
  show ?case
  proof (cases "scan split f s src")
    case (Scanned t f1 s1 src1)
    let ?src = "src1\<lparr>read_offset := scan_pos s1\<rparr>"
    from scan_Scanned [OF Scanned less.prems(2)] obtain c where
      c: "unread s src = c @ unread s1 src1" "scan_pos s1 = scan_pos s + length c" "piece t c" "ok f1" by blast
    have same: "unread s1 ?src = unread s1 src1" by (simp add: unread_def)
    have "length (unread s1 ?src) < length (unread s src)" using c(1,3) same by (auto simp: piece_def)
    moreover have "read_loop split f1 s1 ?src (toks @ [t]) = Some (toks', f', src', err)"
      using less.prems(1) Scanned by (simp add: read_loop.simps [of split f s])
    ultimately obtain new d rest where d: "toks' = (toks @ [t]) @ new" "unread s1 ?src = d @ rest"
      "read_offset src' = read_offset ?src + length d" "pieces_of new d" "ok f'"
      using less.hyps [of s1 ?src f1 "toks @ [t]"] c(4) by auto
    have "pieces_of ([t] @ new) (c @ d)" using pieces_append [OF pieces_single [OF c(3)] d(4)] .
    then show ?thesis using c d same less.prems(3)
      by (intro exI [of _ "[t] @ new"] exI [of _ "c @ d"] exI [of _ rest]) (simp del: pieces_of.simps)
  next
    case (Stopped err1 f1 s1 src1)
    then have "toks' = toks" "f' = f1" "src' = src1" using less.prems(1) by (simp_all add: read_loop.simps [of split f s])
    with scan_Stopped [OF Stopped less.prems(2)] show ?thesis
      by (intro exI [of _ "[]"] exI [of _ "unread s src"]) simp
  qed (use less.prems(1) in \<open>simp add: read_loop.simps [of split f s]\<close>)
qed

end

section \<open>Passes return\<close>

text \<open>
  A pass can only panic while the reader completes its fingerprint.  It does not when the fingerprint
  is complete, or when what is left of the file ends within its size, or at the very start of a pass,
  if a read of the file is not cut short.
\<close>

definition room_for :: "nat \<Rightarrow> fingerprint \<Rightarrow> nat" where
  "room_for n f = min n (length (FirstBytes f) + length (spare f))"

definition settled :: "scanner \<Rightarrow> source \<Rightarrow> bool" where
  "settled s src \<longleftrightarrow> length (FirstBytes (src_fp src)) = fp_size src
     \<or> read_offset src \<le> scan_pos s \<and> scan_pos s + length (unread s src) \<le> room_for (fp_size src) (src_fp src)"

definition fresh :: "scanner \<Rightarrow> source \<Rightarrow> bool" where
  "fresh s src \<longleftrightarrow> window s = [] \<and> \<not> at_end s \<and> w_start s = 0 \<and> 0 < buf_size s \<and> fp_size src \<le> buf_size s
     \<and> limits src = [] \<and> read_offset src \<le> room_for (fp_size src) (src_fp src) \<and> scan_pos s = read_offset src"

lemma min0_nat: "nat (min0 (int a) (int b - int c)) = min a (b - c)"
  by (auto simp: min0_def)

lemma Reader_Read_full:
  "length (FirstBytes (src_fp src)) = fp_size src \<Longrightarrow> Reader_Read room src = Some (file_Read room src)"
  by (simp add: Reader_Read_def split: prod.split)

lemma array_capacity:
  "k \<le> length xs \<Longrightarrow> length (take k xs @ bs) + length (drop (k + length bs) xs) = max (length xs) (k + length bs)"
  by auto

lemma Reader_Read_open:
  assumes "length (FirstBytes (src_fp src)) \<noteq> fp_size src" "read_offset src \<le> room_for (fp_size src) (src_fp src)"
  obtains fp where "Reader_Read room src = Some (fst (file_Read room src), (snd (file_Read room src))\<lparr>src_fp := fp\<rparr>)"
    "FirstBytes fp = take (read_offset src) (FirstBytes (src_fp src) @ spare (src_fp src))
       @ take (fp_size src - read_offset src) (fst (file_Read room src))"
    "room_for (fp_size src) (src_fp src) \<le> room_for (fp_size src) fp"
    "read_offset src + min (length (fst (file_Read room src))) (fp_size src - read_offset src) \<le> room_for (fp_size src) fp"
proof -
  let ?b = "fst (file_Read room src)" and ?f = "src_fp src"
  let ?cs = "take (fp_size src - read_offset src) ?b" and ?a = "FirstBytes ?f @ spare ?f"
  define fp where "fp = \<lparr>FirstBytes = take (read_offset src) ?a @ ?cs, spare = drop (read_offset src + length ?cs) ?a\<rparr>"
  have off: "read_offset src \<le> length ?a" "read_offset src \<le> fp_size src" using assms(2) by (simp_all add: room_for_def)
  have "take (min (length ?b) (fp_size src - read_offset src)) ?b = ?cs" by (simp add: min_def)
  then have read: "Reader_Read room src = Some (?b, (snd (file_Read room src))\<lparr>src_fp := fp\<rparr>)"
    using assms(1) off by (auto simp: Reader_Read_def min0_nat Let_def append_at_def fp_def split: prod.split)
  have "room_for (fp_size src) fp = min (fp_size src) (max (length ?a) (read_offset src + length ?cs))"
    unfolding room_for_def fp_def fingerprint.simps array_capacity [OF off(1)] ..
  moreover have "room_for (fp_size src) ?f = min (fp_size src) (length ?a)" by (simp add: room_for_def)
  moreover have "length ?cs = min (length ?b) (fp_size src - read_offset src)" by simp
  ultimately show ?thesis using off(2) by (intro that [OF read]) (simp_all only: fp_def fingerprint.simps, linarith+)
qed

lemma fill_settled:
  assumes "settled s src" "w_start s + length (window s) < buf_size s"
  obtains s' src' where "fill s src = Some (s', src')" "settled s' src'"
proof -
  let ?room = "buf_size s - (w_start s + length (window s))"
  obtain n where n: "n > 0" "n \<le> ?room" "file_Read ?room src =
      (take n (remaining src), src\<lparr>remaining := drop n (remaining src), limits := tl (limits src)\<rparr>)"
    using file_Read_take [of ?room src] assms(2) by auto
  show ?thesis
  proof (cases "length (FirstBytes (src_fp src)) = fp_size src")
    case True
    then show ?thesis using n that by (auto simp: fill_def Reader_Read_full settled_def)
  next
    case False
    with assms(1) have le: "read_offset src \<le> scan_pos s"
      "scan_pos s + length (unread s src) \<le> room_for (fp_size src) (src_fp src)"
      by (auto simp: settled_def)
    then obtain fp where fp: "Reader_Read ?room src = Some (fst (file_Read ?room src), (snd (file_Read ?room src))\<lparr>src_fp := fp\<rparr>)"
      "room_for (fp_size src) (src_fp src) \<le> room_for (fp_size src) fp"
      using Reader_Read_open [OF False, of ?room] by auto
    let ?src' = "(snd (file_Read ?room src))\<lparr>src_fp := fp\<rparr>"
    obtain s' where f: "fill s src = Some (s', ?src')" by (simp add: fill_def fp(1))
    have "src_fp ?src' = fp" by simp
    with le fp(2) fill_same [OF assms(2) f] show ?thesis by (intro that [OF f]) (simp add: settled_def)
  qed
qed

lemma fill_fresh:
  assumes "fresh s src"
  obtains s' src' where "fill s src = Some (s', src')" "settled s' src'"
proof (cases "length (FirstBytes (src_fp src)) = fp_size src")
  case True
  then have "settled s src" by (simp add: settled_def)
  from fill_settled [OF this] show ?thesis using assms that by (auto simp: fresh_def)
next
  case False
  let ?b = "take (buf_size s) (remaining src)"
  have r: "file_Read (buf_size s) src = (?b, src\<lparr>remaining := drop (buf_size s) (remaining src), limits := []\<rparr>)"
    using assms by (auto simp: file_Read_def fresh_def Let_def)
  have off: "read_offset src \<le> room_for (fp_size src) (src_fp src)" using assms by (simp add: fresh_def)
  obtain fp where fp: "Reader_Read (buf_size s) src = Some (?b, src\<lparr>remaining := drop (buf_size s) (remaining src), limits := [], src_fp := fp\<rparr>)"
    "FirstBytes fp = take (read_offset src) (FirstBytes (src_fp src) @ spare (src_fp src)) @ take (fp_size src - read_offset src) ?b"
    "read_offset src + min (length ?b) (fp_size src - read_offset src) \<le> room_for (fp_size src) fp"
    using Reader_Read_open [OF False off, of "buf_size s"] r by auto
  let ?src' = "src\<lparr>remaining := drop (buf_size s) (remaining src), limits := [], src_fp := fp\<rparr>"
  obtain s' where f: "fill s src = Some (s', ?src')" using assms fp(1) by (simp add: fill_def fresh_def)
  note same = fill_same [OF _ f]
  show ?thesis
  proof (cases "fp_size src - read_offset src \<le> length ?b")
    case True
    then have "length (FirstBytes fp) = fp_size src" using fp(2) off by (auto simp: room_for_def)
    then show ?thesis by (intro that [OF f]) (simp add: settled_def)
  next
    case False
    then have "scan_pos s' + length (unread s' ?src') \<le> room_for (fp_size src) fp" "read_offset ?src' \<le> scan_pos s'"
      using same assms fp(3) by (auto simp: fresh_def unread_def)
    then show ?thesis by (intro that [OF f]) (simp add: settled_def)
  qed
qed

definition fp_fine :: "source \<Rightarrow> bool" where
  "fp_fine src \<longleftrightarrow> length (FirstBytes (src_fp src)) = fp_size src \<or> read_offset src \<le> room_for (fp_size src) (src_fp src)"

lemma settled_fine: "settled s src \<or> fresh s src \<Longrightarrow> fp_fine src"
  by (auto simp: settled_def fresh_def fp_fine_def)

lemma settled_consume:
  "settled s src \<Longrightarrow> window s = c @ window s' \<Longrightarrow> scan_pos s' = scan_pos s + length c \<Longrightarrow> settled s' src"
  by (auto simp: settled_def unread_def)

context token_splitter
begin

lemma scan_settled:
  "ok f \<Longrightarrow> settled s src \<or> fresh s src \<Longrightarrow>
   (case scan split f s src of
      Scan_Panic \<Rightarrow> False
    | Stopped err f' s' src' \<Rightarrow> fp_fine src' \<and> fp_size src' = fp_size src
    | Scanned t f' s' src' \<Rightarrow> settled s' (src'\<lparr>read_offset := scan_pos s'\<rparr>) \<and> fp_size src' = fp_size src)"
proof (induction "length (remaining src) + (if at_end s then 0 else 1 :: nat)" arbitrary: f s src rule: less_induct)
  case less
  have room: "settled s2 src \<or> fresh s2 src" if "scan_round split f s = More f1 s1" "make_room s1 = Some s2" for f1 s1 s2
    using less.prems(2)
  proof
    assume "settled s src"
    have "settled s1 src"
      by (rule round_More [OF less.prems(1) that(1)]) (rule settled_consume [OF \<open>settled s src\<close>])
    with make_room_same [OF that(2)] show ?thesis by (simp add: settled_def unread_def)
  next
    assume f: "fresh s src"
    then have "s1 = s" using that(1) by (simp add: scan_round_def fresh_def)
    then have "s2 = s" using that(2) f by (auto simp: make_room_def fresh_def Let_def)
    with f show ?thesis by simp
  qed
  from less.prems(1) show ?case
  proof (cases rule: scan_cases [of f s src])
    case (found t f1 s1)
    then have "\<not> fresh s src" by (auto simp: scan_round_def fresh_def)
    then have "settled s src" using less.prems(2) by simp
    have "settled s1 src"
      by (rule round_Done [OF less.prems(1) found(1)]) (rule settled_consume [OF \<open>settled s src\<close>])
    then show ?thesis using found by (auto simp: settled_def unread_def)
  next
    case (failed err f1 s1)
    then show ?thesis using settled_fine less.prems(2) by simp
  next
    case (full err f1 s1 s2)
    then show ?thesis using settled_fine less.prems(2) by simp
  next
    case (panic f1 s1 s2)
    then show ?thesis using room [OF panic(1,2)] fill_settled [OF _ panic(3)] fill_fresh by (metis option.distinct(1))
  next
    case (more f1 s1 s2 s3 src3)
    have ok: "ok f1" using less.prems(1) more(1) by (cases rule: round_More) auto
    have "settled s3 src3"
      using room [OF more(1,2)] more(4) fill_settled [OF _ more(3)] fill_fresh by (metis option.inject prod.inject)
    with less.hyps [OF more(6) ok] fill_same [OF more(3,4)] show ?thesis unfolding more(5)
      by (auto split: scan_result.splits)
  qed
qed

lemma read_loop_returns:
  "ok f \<Longrightarrow> settled s src \<or> fresh s src \<Longrightarrow>
   \<exists>toks' f' src' err. read_loop split f s src toks = Some (toks', f', src', err) \<and> fp_fine src' \<and> fp_size src' = fp_size src"
proof (induction "length (unread s src)" arbitrary: f s src toks rule: less_induct)
  case less
  show ?case
  proof (cases "scan split f s src")
    case (Scanned t f1 s1 src1)
    let ?src = "src1\<lparr>read_offset := scan_pos s1\<rparr>"
    from scan_Scanned [OF Scanned less.prems(1)] obtain c where
      c: "unread s src = c @ unread s1 src1" "piece t c" "ok f1" by blast
    have "length (unread s1 ?src) < length (unread s src)" using c(1,2) by (auto simp: piece_def unread_def)
    moreover have "settled s1 ?src" "fp_size ?src = fp_size src" using scan_settled [OF less.prems] Scanned by simp_all
    ultimately show ?thesis using less.hyps [of s1 ?src f1 "toks @ [t]"] c(3) Scanned
      by (simp add: read_loop.simps [of split f s])
  next
    case (Stopped err1 f1 s1 src1)
    then show ?thesis using scan_settled [OF less.prems] by (simp add: read_loop.simps [of split f s])
  qed (use scan_settled [OF less.prems] in simp)
qed

end

section \<open>A reader over its life\<close>

definition reader_ok :: "'a FileInput_scheme \<Rightarrow> Reader \<Rightarrow> bool" where
  "reader_ok fi r \<longleftrightarrow> good_split (sp_split (reader_splitter r)) \<and> fingerprintSize fi \<le> 16384
     \<and> (length (FirstBytes (Fingerprint r)) = fingerprintSize fi \<or> Offset r \<le> room_for (fingerprintSize fi) (Fingerprint r))"

lemma read_tokens_spec:
  assumes "reader_ok fi r"
  obtains tokens r' c rest where "read_tokens clock [] fi content r = Some (tokens, r')" "reader_ok fi r'"
    "drop (Offset r) content = c @ rest" "Offset r' = Offset r + length c" "pieces_of tokens c"
    "reader_attributes r' = reader_attributes r"
proof -
  let ?s = "NewPositionalScanner (MaxLogSize fi) (Offset r)"
  let ?src = "\<lparr>remaining = drop (Offset r) content, limits = [], src_fp = Fingerprint r,
           fp_size = fingerprintSize fi, read_offset = Offset r\<rparr>"
  have ok: "splitter_ok (reader_splitter r, 0)" using assms by (simp add: splitter_ok_def reader_ok_def)
  have "settled ?s ?src \<or> fresh ?s ?src"
    using assms by (auto simp: settled_def fresh_def reader_ok_def NewPositionalScanner_def)
  from file_split.read_loop_returns [OF ok this, of clock "[]"] obtain tokens sk src' err where
    l: "read_loop (clocked_split clock) (reader_splitter r, 0) ?s ?src [] = Some (tokens, sk, src', err)"
    "fp_fine src'" "fp_size src' = fingerprintSize fi" by auto
  have "scan_pos ?s = read_offset ?src" by (simp add: NewPositionalScanner_def)
  from file_split.read_loop_pieces [OF l(1) ok this] obtain c rest where
    c: "unread ?s ?src = c @ rest" "read_offset src' = Offset r + length c" "pieces_of tokens c" "splitter_ok sk"
    by auto
  obtain sp k where sk: "sk = (sp, k)" by (cases sk)
  have ok': "good_split (sp_split sp)" using c(4) by (simp add: splitter_ok_def sk)
  have drop: "drop (Offset r) content = c @ rest" using c(1) by (simp add: unread_def NewPositionalScanner_def)
  show ?thesis
  proof (rule that [OF _ _ drop _ c(3)])
    show "read_tokens clock [] fi content r =
        Some (tokens, r\<lparr>Fingerprint := src_fp src', Offset := read_offset src', reader_splitter := sp\<rparr>)"
      by (simp add: read_tokens_def l(1) sk)
  qed (use l(2,3) ok' assms c(2) in \<open>auto simp: reader_ok_def fp_fine_def\<close>)
qed

lemma map_sum_eq_Inr: "map_sum f g x = Inr y \<longleftrightarrow> (\<exists>z. x = Inr z \<and> y = g z)"
  by (cases x) auto

text \<open>Passes over a file that grows, each with its clock.\<close>

type_synonym pass = "string \<times> (nat \<Rightarrow> int)"

fun read_passes :: "'a FileInput_scheme \<Rightarrow> pass list \<Rightarrow> Reader \<Rightarrow> (string list \<times> Reader) option" where
  "read_passes fi [] r = Some ([], r)"
| "read_passes fi ((content, clock) # ps) r =
     (case read_tokens clock [] fi content r of
        None \<Rightarrow> None
      | Some (tokens, r) \<Rightarrow> map_option (\<lambda>(ts, r). (tokens @ ts, r)) (read_passes fi ps r))"

lemma take_prefix_append: "c = take j x \<Longrightarrow> x = c @ drop (length c) x"
  by (cases "j \<le> length x") auto

lemma read_passes_spec:
  "reader_ok fi r \<Longrightarrow> \<forall>p \<in> set ps. \<exists>m. fst p = take m final \<Longrightarrow>
   \<exists>tokens r' c rest. read_passes fi ps r = Some (tokens, r') \<and> drop (Offset r) final = c @ rest
     \<and> Offset r' = Offset r + length c \<and> pieces_of tokens c"
proof (induction ps arbitrary: r)
  case Nil
  then show ?case by auto
next
  case (Cons p ps)
  obtain content clock where p: "p = (content, clock)" by (cases p)
  obtain m where m: "content = take m final" using Cons.prems(2) p by auto
  obtain tokens r1 c rest where r1: "read_tokens clock [] fi content r = Some (tokens, r1)" "reader_ok fi r1"
    "drop (Offset r) content = c @ rest" "Offset r1 = Offset r + length c" "pieces_of tokens c"
    using read_tokens_spec [OF Cons.prems(1), of clock content] by metis
  obtain ts r' d rest' where r': "read_passes fi ps r1 = Some (ts, r')" "drop (Offset r1) final = d @ rest'"
    "Offset r' = Offset r1 + length d" "pieces_of ts d"
    using Cons.IH [OF r1(2)] Cons.prems(2) by auto
  have "take (m - Offset r) (drop (Offset r) final) = c @ rest" using r1(3) m by (simp add: drop_take)
  then have "c = take (length c) (take (m - Offset r) (drop (Offset r) final))" by simp
  then have "c = take (min (length c) (m - Offset r)) (drop (Offset r) final)" by simp
  from take_prefix_append [OF this] have "drop (Offset r) final = c @ drop (Offset r1) final"
    unfolding r1(4) by (simp add: add.commute)
  then have "drop (Offset r) final = (c @ d) @ rest'" using r'(2) by simp
  moreover have "Offset r' = Offset r + length (c @ d)" using r1(4) r'(3) by simp
  moreover have "pieces_of (tokens @ ts) (c @ d)" using pieces_append [OF r1(5) r'(4)] .
  moreover have "read_passes fi (p # ps) r = Some (tokens @ ts, r')" by (simp add: p r1(1) r'(1))
  ultimately show ?case by blast
qed

text \<open>
  C16: a file is never read twice by its reader.  Whatever the configured splitting (newlines, patterns,
  no splitting) and flushing, a new reader can pass over a growing file any number of times.  Every
  pass returns, its offset ends at most at the end of the file, and the tokens of all passes together
  are non-empty pieces of the file in front of the offset, one after the other without overlap.
\<close>

theorem reader_never_repeats:
  assumes build: "SplitterConfig_Build compile now multiline period enc flushAtEOF maxLogSize = Inr sp" "0 < maxLogSize"
    and regexp: "\<And>p re. compile p = Inr re \<Longrightarrow> locates re"
    and fi: "fingerprintSize fi \<le> 16384"
    and grows: "\<forall>p \<in> set ps. \<exists>m. fst p = take m final"
  shows "\<exists>tokens r'. read_passes fi ps (NewReader fa fp sp) = Some (tokens, r')
    \<and> Offset r' \<le> length final \<and> pieces_of tokens (take (Offset r') final)"
proof -
  have "good_split (sp_split sp)"
  proof -
    obtain f b where "getSplitFunc compile multiline enc flushAtEOF True maxLogSize = Inr (f, b)" "sp_split sp = f"
      using build(1) by (auto simp: SplitterConfig_Build_def map_sum_eq_Inr)
    with good_getSplitFunc [OF this(1) build(2) regexp] show ?thesis by simp
  qed
  then have "reader_ok fi (NewReader fa fp sp)" using fi by (simp add: reader_ok_def NewReader_def)
  from read_passes_spec [OF this grows] obtain tokens r' c rest where
    r: "read_passes fi ps (NewReader fa fp sp) = Some (tokens, r')" "final = c @ rest" "Offset r' = length c"
    "pieces_of tokens c" by (auto simp: NewReader_def)
  then show ?thesis by simp
qed

theorem reader_never_repeats_witness:
  "\<exists>tokens r'. read_passes
      \<lparr>OperatorID = ''f'', OperatorType = ''file_input'', OutputIDs = [], OutputOperators = [], in_attributes = [],
       in_resource = [], FilePathField = NilField, FileNameField = AttributeField [''log.file.name''],
       FilePathResolvedField = NilField, FileNameResolvedField = NilField, MaxLogSize = 1048576,
       fingerprintSize = 1000, startAtBeginning = True, encoding_nop = False\<rparr>
      [(''ab'' @ [LF] @ ''c'', \<lambda>_. 0), (''ab'' @ [LF] @ ''cd'', \<lambda>_. 900000000)]
      (NewReader \<lparr>fa_Name = ''x'', fa_Path = ''/x'', fa_ResolvedName = ''x'', fa_ResolvedPath = ''/x''\<rparr> (NewFingerprint 1000 ''ab'')
        \<lparr>sp_split = newline_split [LF] [CR] False, sp_forced = True,
       sp_flusher = \<lparr>forcePeriod = 500000000, lastDataChange = 0, previousDataLength = 0\<rparr>\<rparr>)
      = Some (tokens, r') \<and> Offset r' \<le> length (''ab'' @ [LF] @ ''cd'') \<and> pieces_of tokens (take (Offset r') (''ab'' @ [LF] @ ''cd''))"
proof -
  let ?final = "''ab'' @ [LF] @ ''cd''"
  let ?fi = "\<lparr>OperatorID = ''f'', OperatorType = ''file_input'', OutputIDs = [], OutputOperators = [], in_attributes = [],
       in_resource = [], FilePathField = NilField, FileNameField = AttributeField [''log.file.name''],
       FilePathResolvedField = NilField, FileNameResolvedField = NilField, MaxLogSize = 1048576,
       fingerprintSize = 1000, startAtBeginning = True, encoding_nop = False\<rparr>"
  let ?sp = "\<lparr>sp_split = newline_split [LF] [CR] False, sp_forced = True,
       sp_flusher = \<lparr>forcePeriod = 500000000, lastDataChange = 0, previousDataLength = 0\<rparr>\<rparr>"
  have build: "SplitterConfig_Build (\<lambda>_. Inl []) 0 NewMultilineConfig 500000000 \<lparr>is_nop = False, encode = Inr\<rparr> False 1048576 = Inr ?sp"
    by (simp add: SplitterConfig_Build_def getSplitFunc_def NewMultilineConfig_def NewNewlineSplitFunc_def
        encodedNewline_def encodedCarriageReturn_def FlusherConfig_Build_def)
  let ?ps = "[(''ab'' @ [LF] @ ''c'', \<lambda>_. 0), (?final, \<lambda>_. 900000000)]"
  have "\<exists>m. fst p = take m ?final" if "p \<in> set ?ps" for p
    using that by (auto intro: exI [of _ 4] exI [of _ 5])
  then have grows: "\<forall>p \<in> set ?ps. \<exists>m. fst p = take m ?final" by blast
  show ?thesis
    using reader_never_repeats [OF build _ _ _ grows, of ?fi "\<lparr>fa_Name = ''x'', fa_Path = ''/x'', fa_ResolvedName = ''x'', fa_ResolvedPath = ''/x''\<rparr>" "NewFingerprint 1000 ''ab''"]
    by (simp del: read_passes.simps pieces_of.simps)
qed

section \<open>Whole lines come out whole\<close>

text \<open>No call of a pass forces a flush.\<close>

definition quiet :: "(nat \<Rightarrow> int) \<Rightarrow> Splitter \<Rightarrow> bool" where
  "quiet clock sp \<longleftrightarrow> \<not> sp_forced sp \<or> forcePeriod (sp_flusher sp) \<le> 0
     \<or> (\<forall>k. clock k - lastDataChange (sp_flusher sp) \<le> forcePeriod (sp_flusher sp))
       \<and> (\<forall>j k. clock k - clock j \<le> forcePeriod (sp_flusher sp))"

definition newline_splitter :: "(nat \<Rightarrow> int) \<Rightarrow> Splitter \<times> nat \<Rightarrow> bool" where
  "newline_splitter clock sk \<longleftrightarrow> sp_split (fst sk) = newline_split [LF] [CR] False \<and> quiet clock (fst sk)"

lemma newline_splitter_ok: "newline_splitter clock sk \<Longrightarrow> splitter_ok sk"
  by (simp add: newline_splitter_def splitter_ok_def good_newline)

definition line_token :: "string \<Rightarrow> string option" where
  "line_token l = trimWhitespaces (trim_suffix l [CR])"

lemma newline_split_line:
  "LF \<notin> set l \<Longrightarrow> newline_split [LF] [CR] False (l @ LF # w) e = (Suc (length l), line_token l, None)"
proof -
  assume l: "LF \<notin> set l"
  have "str_index (l @ LF # w) [LF] = Some (length l)" using l
    by (induction l) (auto simp: has_prefix_def)
  then show ?thesis by (simp add: newline_split_def line_token_def)
qed

lemma newline_split_tail: "LF \<notin> set w \<Longrightarrow> newline_split [LF] [CR] False w e = (0, None, None)"
proof -
  assume w: "LF \<notin> set w"
  then have "str_index w [LF] = None" using str_index_char_append [of LF w "[]"] by simp
  then show ?thesis by (simp add: newline_split_def)
qed

lemma quiet_update:
  "quiet clock sp \<Longrightarrow> quiet clock (sp\<lparr>sp_flusher := UpdateDataChangeTime (clock k) n (sp_flusher sp)\<rparr>)"
  by (auto simp: quiet_def UpdateDataChangeTime_def)

lemma quiet_no_flush: "quiet clock sp \<Longrightarrow> sp_forced sp \<Longrightarrow> \<not> ShouldFlush (clock k) (sp_flusher sp)"
  by (auto simp: quiet_def ShouldFlush_def not_less)

lemma clocked_line:
  assumes "newline_splitter clock sk" "LF \<notin> set l"
  obtains sk' where "clocked_split clock sk (l @ LF # w) e = (sk', Suc (length l), line_token l, None)"
    "newline_splitter clock sk'"
proof -
  obtain sp k where sk: "sk = (sp, k)" by (cases sk)
  show ?thesis
  proof (cases "sp_forced sp")
    case False
    with assms show ?thesis
      by (intro that [of "(sp, Suc k)"])
        (auto simp: clocked_split_def Splitter_Split_def sk newline_splitter_def newline_split_line)
  next
    case True
    with assms quiet_no_flush [of clock sp k] show ?thesis
      by (intro that [of "(sp\<lparr>sp_flusher := UpdateDataChangeTime (clock k)
            (if line_token l = None then length (l @ LF # w) else 0) (sp_flusher sp)\<rparr>, Suc k)"])
        (auto simp: clocked_split_def Splitter_Split_def sk newline_splitter_def newline_split_line
          Flusher_SplitFunc_def Flushed_def quiet_update split: option.splits)
  qed
qed

lemma clocked_tail:
  assumes "newline_splitter clock sk" "LF \<notin> set w"
  obtains sk' where "clocked_split clock sk w e = (sk', 0, None, None)" "newline_splitter clock sk'"
proof -
  obtain sp k where sk: "sk = (sp, k)" by (cases sk)
  show ?thesis
  proof (cases "sp_forced sp")
    case False
    with assms show ?thesis
      by (intro that [of "(sp, Suc k)"])
        (auto simp: clocked_split_def Splitter_Split_def sk newline_splitter_def newline_split_tail)
  next
    case True
    with assms quiet_no_flush [of clock sp k] show ?thesis
      by (intro that [of "(sp\<lparr>sp_flusher := UpdateDataChangeTime (clock k) (length w) (sp_flusher sp)\<rparr>, Suc k)"])
        (auto simp: clocked_split_def Splitter_Split_def sk newline_splitter_def newline_split_tail
          Flusher_SplitFunc_def quiet_update)
  qed
qed

definition roomy :: "scanner \<Rightarrow> source \<Rightarrow> bool" where
  "roomy s src \<longleftrightarrow> w_start s + length (window s) \<le> buf_size s \<and> 16384 \<le> buf_size s
     \<and> (at_end s \<longrightarrow> remaining src = [])"

lemma make_room_roomy:
  assumes "roomy s src" "length (window s) < max 16384 (max_token s)"
  obtains s' where "make_room s = Some s'" "w_start s' + length (window s') < buf_size s'" "window s' = window s"
    "scan_pos s' = scan_pos s" "at_end s' = at_end s" "max_token s' = max_token s" "roomy s' src"
proof -
  define s1 where "s1 = (if w_start s > 0 \<and> (w_start s + length (window s) = buf_size s \<or> w_start s > buf_size s div 2)
      then s\<lparr>w_start := 0\<rparr> else s)"
  have s1: "window s1 = window s" "scan_pos s1 = scan_pos s" "at_end s1 = at_end s" "max_token s1 = max_token s"
    "buf_size s1 = buf_size s" "w_start s1 + length (window s) \<le> buf_size s"
    "w_start s1 + length (window s) = buf_size s \<Longrightarrow> w_start s1 = 0"
    using assms(1) by (auto simp: s1_def roomy_def)
  show ?thesis
  proof (cases "w_start s1 + length (window s) = buf_size s")
    case False
    then have "make_room s = Some s1" using s1(1,5) by (simp add: make_room_def Let_def s1_def)
    then show ?thesis using False s1 assms(1) by (intro that [of s1]) (auto simp: roomy_def)
  next
    case True
    have small: "buf_size s < max_token s"
    proof (rule ccontr)
      assume "\<not> ?thesis"
      then show False using True s1(7) [OF True] assms by (auto simp: roomy_def)
    qed
    let ?s = "s1\<lparr>buf_size := min (2 * buf_size s1) (max_token s1)\<rparr>"
    have "make_room s = Some ?s" using True small s1(1,4,5) by (simp add: make_room_def Let_def s1_def)
    moreover have "w_start ?s + length (window ?s) < buf_size ?s" using True small s1 assms(1) by (auto simp: roomy_def)
    ultimately show ?thesis using s1 assms(1) small True by (intro that [of ?s]) (auto simp: roomy_def)
  qed
qed

lemma fill_roomy:
  assumes "roomy s src" "\<not> at_end s" "w_start s + length (window s) < buf_size s" "fill s src = Some (s', src')"
  shows "roomy s' src' \<and> max_token s' = max_token s
    \<and> length (remaining src') + (if at_end s' then 0 else 1) < length (remaining src) + (1::nat)"
  using assms(3,4) by (cases rule: fill_progress) (use assms(1,2) in \<open>auto simp: roomy_def neq_Nil_conv\<close>)

text \<open>A window without a newline asks for more input, or ends the scan.\<close>

lemma round_tail:
  assumes "newline_splitter clock sk" "LF \<notin> set (window s)"
  obtains sk' where "scan_round (clocked_split clock) sk s =
      (if at_end s then Fail None sk' (s\<lparr>window := [], w_start := 0\<rparr>) else More sk' s)"
    "newline_splitter clock sk'"
proof (cases "window s = [] \<and> \<not> at_end s")
  case True
  then show ?thesis using assms(1) by (intro that [of sk]) (auto simp: scan_round_def)
next
  case False
  obtain sk' where "clocked_split clock sk (window s) (at_end s) = (sk', 0, None, None)" "newline_splitter clock sk'"
    using clocked_tail [OF assms] by metis
  with False show ?thesis by (intro that [of sk']) (auto simp: scan_round_def)
qed

lemma first_split: "a @ x # b = c @ x # d \<Longrightarrow> x \<notin> set a \<Longrightarrow> x \<notin> set c \<Longrightarrow> a = c \<and> b = d"
proof (induction a arbitrary: c)
  case Nil
  then show ?case by (cases c) auto
next
  case (Cons y a)
  then show ?case by (cases c) auto
qed

text \<open>
  Scanning works like this for every split function that takes off the line in front of a newline, and
  asks for more without one.
\<close>

locale line_scanner =
  fixes split :: "'f split_state" and P :: "'f \<Rightarrow> bool"
  assumes line: "P f \<Longrightarrow> LF \<notin> set l \<Longrightarrow> \<exists>f'. split f (l @ LF # w) e = (f', Suc (length l), line_token l, None) \<and> P f'"
    and tail: "P f \<Longrightarrow> LF \<notin> set w \<Longrightarrow> \<exists>f'. split f w False = (f', 0, None, None) \<and> P f'"
begin

lemma round_asks:
  assumes "P f" "LF \<notin> set (window s)" "\<not> at_end s"
  obtains f' where "scan_round split f s = More f' s" "P f'"
proof (cases "window s = []")
  case True
  then show ?thesis using assms by (intro that [of f]) (auto simp: scan_round_def)
next
  case False
  obtain f' where "split f (window s) False = (f', 0, None, None)" "P f'" using tail [OF assms(1,2)] by blast
  with False assms(3) show ?thesis by (intro that [of f']) (auto simp: scan_round_def)
qed

lemma scan_more_tail:
  assumes "P sk" "LF \<notin> set (window s)" "\<not> at_end s" "roomy s src"
    "length (window s) < max 16384 (max_token s)" "scan split sk s src \<noteq> Scan_Panic"
  obtains sk1 s3 src3 where "scan split sk s src = scan split sk1 s3 src3"
    "P sk1" "unread s3 src3 = unread s src" "scan_pos s3 = scan_pos s" "roomy s3 src3"
    "max_token s3 = max_token s" "read_offset src3 = read_offset src"
    "length (remaining src3) + (if at_end s3 then 0 else 1) < length (remaining src) + (1::nat)"
    "at_end s3 \<Longrightarrow> remaining src = []"
proof -
  obtain sk1 where r: "scan_round split sk s = More sk1 s" "P sk1"
    using round_asks [OF assms(1-3)] by metis
  obtain s2 where s2: "make_room s = Some s2" "w_start s2 + length (window s2) < buf_size s2" "window s2 = window s"
    "scan_pos s2 = scan_pos s" "at_end s2 = at_end s" "max_token s2 = max_token s" "roomy s2 src"
    using make_room_roomy [OF assms(4,5)] by metis
  have eq: "scan split sk s src = (case fill s2 src of
      None \<Rightarrow> Scan_Panic | Some (s, src) \<Rightarrow> scan split sk1 s src)"
    using r(1) s2(1,2) by (simp add: scan.simps [of _ sk s])
  then obtain s3 src3 where f: "fill s2 src = Some (s3, src3)" using assms(6) by (auto split: option.splits)
  have "unread s3 src3 = unread s src" using fill_same(1) [OF s2(2) f] s2(3) by (simp add: unread_def)
  moreover have "roomy s3 src3 \<and> max_token s3 = max_token s
    \<and> length (remaining src3) + (if at_end s3 then 0 else 1) < length (remaining src) + (1::nat)"
    using fill_roomy [OF s2(7) _ s2(2) f] s2(5,6) assms(3) by simp
  moreover have "remaining src = []" if "at_end s3"
    using s2(2) f by (cases rule: fill_progress) (use that s2(5) assms(3) in auto)
  ultimately show ?thesis
    using eq f r(2) fill_same(2,4) [OF s2(2) f] s2(4) by (intro that [of sk1 s3 src3]) simp_all
qed

lemma scan_line:
  "P sk \<Longrightarrow> unread s src = l @ LF # rst \<Longrightarrow> LF \<notin> set l \<Longrightarrow>
   length l < max 16384 (max_token s) \<Longrightarrow> roomy s src \<Longrightarrow>
   scan split sk s src \<noteq> Scan_Panic \<Longrightarrow> line_token l = Some t \<Longrightarrow>
   \<exists>sk' s' src'. scan split sk s src = Scanned t sk' s' src' \<and> unread s' src' = rst
     \<and> P sk' \<and> roomy s' src' \<and> max_token s' = max_token s
     \<and> scan_pos s' = scan_pos s + Suc (length l) \<and> at_end s' = at_end s"
proof (induction "length (remaining src) + (if at_end s then 0 else 1 :: nat)" arbitrary: sk s src rule: less_induct)
  case less
  show ?case
  proof (cases "LF \<in> set (window s)")
    case True
    then obtain w1 w2 where w: "window s = w1 @ LF # w2" "LF \<notin> set w1" using split_list_first by fastforce
    then have "w1 @ LF # (w2 @ remaining src) = l @ LF # rst" using less.prems(2) by (simp add: unread_def)
    then have l: "w1 = l" "w2 @ remaining src = rst" using first_split [OF _ w(2) less.prems(3)] by blast+
    obtain sk' where c: "split sk (l @ LF # w2) (at_end s) = (sk', Suc (length l), line_token l, None)"
      "P sk'"
      using line [OF less.prems(1,3)] by metis
    let ?s = "s\<lparr>scan_pos := scan_pos s + Suc (length l), window := w2, w_start := w_start s + Suc (length l), empties := 0\<rparr>"
    have "scan_round split sk s = Done t sk' ?s"
      using c(1) w(1) l(1) less.prems(7) by (simp add: scan_round_def)
    then have "scan split sk s src = Scanned t sk' ?s src" by (simp add: scan.simps [of _ sk s])
    then show ?thesis using c(2) l less.prems(5) w(1) by (auto simp: unread_def roomy_def)
  next
    case False
    have pre: "length (window s) \<le> length l \<and> \<not> at_end s \<and> remaining src \<noteq> []"
    proof -
      have "LF \<in> set (window s @ remaining src)" using less.prems(2) by (simp add: unread_def)
      then obtain r1 r2 where r: "remaining src = r1 @ LF # r2" "LF \<notin> set r1"
        using False split_list_first [of LF "remaining src"] by auto
      have "(window s @ r1) @ LF # r2 = l @ LF # rst" using less.prems(2) r(1) by (simp add: unread_def)
      from first_split [OF this _ less.prems(3)] have "l = window s @ r1" using False r(2) by auto
      then show ?thesis using less.prems(5) r(1) by (auto simp: roomy_def)
    qed
    then have short: "length (window s) < max 16384 (max_token s)" using less.prems(4) by linarith
    obtain sk1 s3 src3 where more: "scan split sk s src = scan split sk1 s3 src3"
      "P sk1" "unread s3 src3 = unread s src" "scan_pos s3 = scan_pos s" "roomy s3 src3"
      "max_token s3 = max_token s"
      "length (remaining src3) + (if at_end s3 then 0 else 1) < length (remaining src) + (1::nat)"
      "at_end s3 \<Longrightarrow> remaining src = []"
      using scan_more_tail [OF less.prems(1) False _ less.prems(5) short less.prems(6)] pre by metis
    have "at_end s3 = at_end s" using more(8) pre by auto
    then show ?thesis
      using less.hyps [of src3 s3 sk1] more(1-7) pre less.prems by simp
  qed
qed

end

interpretation clocked_lines: line_scanner "clocked_split clock" "newline_splitter clock" for clock
proof unfold_locales
  fix f l w e
  assume "newline_splitter clock f" "LF \<notin> set l"
  then show "\<exists>f'. clocked_split clock f (l @ LF # w) e = (f', Suc (length l), line_token l, None) \<and> newline_splitter clock f'"
    by (metis clocked_line)
next
  fix f w
  assume "newline_splitter clock f" "LF \<notin> set w"
  then show "\<exists>f'. clocked_split clock f w False = (f', 0, None, None) \<and> newline_splitter clock f'" by (metis clocked_tail)
qed

lemma scan_tail:
  "newline_splitter clock sk \<Longrightarrow> LF \<notin> set (unread s src) \<Longrightarrow> length (unread s src) < max 16384 (max_token s) \<Longrightarrow>
   roomy s src \<Longrightarrow> scan (clocked_split clock) sk s src \<noteq> Scan_Panic \<Longrightarrow>
   \<exists>sk' s' src'. scan (clocked_split clock) sk s src = Stopped None sk' s' src'
     \<and> newline_splitter clock sk' \<and> read_offset src' = read_offset src"
proof (induction "length (remaining src) + (if at_end s then 0 else 1 :: nat)" arbitrary: sk s src rule: less_induct)
  case less
  have w: "LF \<notin> set (window s)" "length (window s) < max 16384 (max_token s)" using less.prems(2,3) by (auto simp: unread_def)
  show ?case
  proof (cases "at_end s")
    case True
    obtain sk' where "scan_round (clocked_split clock) sk s = Fail None sk' (s\<lparr>window := [], w_start := 0\<rparr>)"
      "newline_splitter clock sk'"
      using round_tail [OF less.prems(1) w(1)] True by (metis (no_types, lifting))
    then show ?thesis by (simp add: scan.simps [of _ sk s])
  next
    case False
    obtain sk1 s3 src3 where more: "scan (clocked_split clock) sk s src = scan (clocked_split clock) sk1 s3 src3"
      "newline_splitter clock sk1" "unread s3 src3 = unread s src" "scan_pos s3 = scan_pos s" "roomy s3 src3"
      "max_token s3 = max_token s" "read_offset src3 = read_offset src"
      "length (remaining src3) + (if at_end s3 then 0 else 1) < length (remaining src) + (1::nat)"
      using clocked_lines.scan_more_tail [OF less.prems(1) w(1) False less.prems(4) w(2) less.prems(5)] by metis
    show ?thesis using less.hyps [of src3 s3 sk1] more False less.prems by simp
  qed
qed

definition text_of :: "string list \<Rightarrow> string" where
  "text_of ls = concat (map (\<lambda>l. l @ [LF]) ls)"

lemma text_of_simps [simp]: "text_of [] = []" "text_of (l # ls) = l @ LF # text_of ls"
  "text_of (ls @ ks) = text_of ls @ text_of ks"
  by (simp_all add: text_of_def)

text \<open>A line that fits into the scanner's buffer and is not blank.\<close>

definition plain_line :: "nat \<Rightarrow> string \<Rightarrow> bool" where
  "plain_line m l \<longleftrightarrow> LF \<notin> set l \<and> length l < max 16384 m \<and> line_token l \<noteq> None"

lemma read_loop_lines:
  "newline_splitter clock sk \<Longrightarrow> unread s src = text_of ls @ rst \<Longrightarrow> \<forall>l \<in> set ls. plain_line (max_token s) l \<Longrightarrow>
   LF \<notin> set rst \<Longrightarrow> length rst < max 16384 (max_token s) \<Longrightarrow> roomy s src \<Longrightarrow> settled s src \<or> fresh s src \<Longrightarrow>
   scan_pos s = read_offset src \<Longrightarrow>
   \<exists>sk' src' err. read_loop (clocked_split clock) sk s src toks = Some (toks @ map (the \<circ> line_token) ls, sk', src', err)
     \<and> newline_splitter clock sk' \<and> read_offset src' = read_offset src + length (text_of ls)"
proof (induction ls arbitrary: sk s src toks)
  case Nil
  have "scan (clocked_split clock) sk s src \<noteq> Scan_Panic"
    using file_split.scan_settled [OF newline_splitter_ok [OF Nil.prems(1)] Nil.prems(7), of clock] by auto
  then obtain sk' s' src' where "scan (clocked_split clock) sk s src = Stopped None sk' s' src'"
    "newline_splitter clock sk'" "read_offset src' = read_offset src"
    using scan_tail [of clock sk s src] Nil.prems by auto
  then show ?case by (simp add: read_loop.simps [of _ sk s])
next
  case (Cons l ls)
  note settled = file_split.scan_settled [OF newline_splitter_ok [OF Cons.prems(1)] Cons.prems(7), of clock]
  have l: "LF \<notin> set l" "length l < max 16384 (max_token s)" "line_token l \<noteq> None"
    using Cons.prems(3) by (auto simp: plain_line_def)
  then obtain t where t: "line_token l = Some t" by blast
  have un: "unread s src = l @ LF # (text_of ls @ rst)" using Cons.prems(2) by simp
  have np: "scan (clocked_split clock) sk s src \<noteq> Scan_Panic" using settled by auto
  obtain sk' s' src' where n: "scan (clocked_split clock) sk s src = Scanned t sk' s' src'"
    "unread s' src' = text_of ls @ rst" "newline_splitter clock sk'" "roomy s' src'" "max_token s' = max_token s"
    "scan_pos s' = scan_pos s + Suc (length l)"
    using clocked_lines.scan_line [OF Cons.prems(1) un l(1,2) Cons.prems(6) np t] by auto
  let ?src = "src'\<lparr>read_offset := scan_pos s'\<rparr>"
  have "settled s' ?src" using settled n(1) by simp
  then obtain sk2 src2 err where
    "read_loop (clocked_split clock) sk' s' ?src (toks @ [t]) =
       Some ((toks @ [t]) @ map (the \<circ> line_token) ls, sk2, src2, err)"
    "newline_splitter clock sk2" "read_offset src2 = read_offset ?src + length (text_of ls)"
    using Cons.IH [of sk' s' ?src "toks @ [t]"] n Cons.prems by (auto simp: unread_def roomy_def)
  then show ?case using n(1,6) t Cons.prems(8) by (simp add: read_loop.simps [of _ sk s])
qed

lemma read_tokens_lines:
  assumes "reader_ok fi r" "sp_split (reader_splitter r) = newline_split [LF] [CR] False" "quiet clock (reader_splitter r)"
    and "drop (Offset r) content = text_of ls @ rst" "\<forall>l \<in> set ls. plain_line (MaxLogSize fi) l"
    and "LF \<notin> set rst" "length rst < max 16384 (MaxLogSize fi)"
  obtains r' where "read_tokens clock [] fi content r = Some (map (the \<circ> line_token) ls, r')" "reader_ok fi r'"
    "Offset r' = Offset r + length (text_of ls)" "newline_splitter clock (reader_splitter r', 0)"
proof -
  let ?s = "NewPositionalScanner (MaxLogSize fi) (Offset r)"
  let ?src = "\<lparr>remaining = drop (Offset r) content, limits = [], src_fp = Fingerprint r,
           fp_size = fingerprintSize fi, read_offset = Offset r\<rparr>"
  have sf: "settled ?s ?src \<or> fresh ?s ?src"
    using assms(1) by (auto simp: settled_def fresh_def reader_ok_def NewPositionalScanner_def)
  obtain sk' src' err where l: "read_loop (clocked_split clock) (reader_splitter r, 0) ?s ?src [] =
      Some (map (the \<circ> line_token) ls, sk', src', err)" "newline_splitter clock sk'"
    "read_offset src' = Offset r + length (text_of ls)"
    using read_loop_lines [of clock "(reader_splitter r, 0)" ?s ?src ls rst "[]"] assms sf
    by (auto simp: newline_splitter_def NewPositionalScanner_def unread_def roomy_def)
  obtain sp k where sk: "sk' = (sp, k)" by (cases sk')
  let ?r = "r\<lparr>Fingerprint := src_fp src', Offset := read_offset src', reader_splitter := sp\<rparr>"
  have t: "read_tokens clock [] fi content r = Some (map (the \<circ> line_token) ls, ?r)"
    by (simp add: read_tokens_def l(1) sk)
  obtain ts r2 where "read_tokens clock [] fi content r = Some (ts, r2)" "reader_ok fi r2"
    using read_tokens_spec [OF assms(1), of clock content] by metis
  with t have "reader_ok fi ?r" by simp
  with t l(2,3) sk show ?thesis by (intro that) (auto simp: newline_splitter_def)
qed

lemma prefix_of_lines:
  assumes "\<forall>l \<in> set ls. plain_line m l" "LF \<notin> set rst" "length rst < max 16384 m"
  obtains j tl' where "take n (text_of ls @ rst) = text_of (take j ls) @ tl'" "j \<le> length ls" "LF \<notin> set tl'"
    "length tl' < max 16384 m" "n \<ge> length (text_of ls @ rst) \<Longrightarrow> j = length ls"
  using assms(1)
proof (induction ls arbitrary: n thesis)
  case Nil
  then show ?case using assms(2,3) by (intro Nil.prems(1) [of 0 "take n rst"]) (auto dest: in_set_takeD)
next
  case (Cons l ls)
  have l: "LF \<notin> set l" "length l < max 16384 m" using Cons.prems(2) by (auto simp: plain_line_def)
  show ?case
  proof (cases "n \<le> length l")
    case True
    then have "take n (text_of (l # ls) @ rst) = take n l" by simp
    then show ?thesis using l True by (intro Cons.prems(1) [of 0 "take n l"]) (auto dest: in_set_takeD)
  next
    case False
    then obtain k where n: "n = Suc (length l + k)" by (metis add_Suc_right less_iff_Suc_add not_less)
    obtain j tl' where j: "take k (text_of ls @ rst) = text_of (take j ls) @ tl'" "j \<le> length ls" "LF \<notin> set tl'"
      "length tl' < max 16384 m" "k \<ge> length (text_of ls @ rst) \<Longrightarrow> j = length ls"
      using Cons.IH [of k] Cons.prems(2) by auto
    then show ?thesis by (intro Cons.prems(1) [of "Suc j" tl']) (auto simp: n)
  qed
qed

text \<open>Without a force-flush period the flusher does nothing, and stays so.\<close>

definition never_forces :: "Splitter \<Rightarrow> bool" where
  "never_forces sp \<longleftrightarrow> \<not> sp_forced sp \<or> forcePeriod (sp_flusher sp) \<le> 0"

lemma never_forces_quiet: "never_forces sp \<Longrightarrow> quiet clock sp"
  by (auto simp: never_forces_def quiet_def)

lemma clocked_never_forces:
  "never_forces (fst sk) \<Longrightarrow> clocked_split clock sk d e = (sk', r) \<Longrightarrow> never_forces (fst sk')"
  by (auto simp: clocked_split_def Splitter_Split_def Flusher_SplitFunc_def Flushed_def UpdateDataChangeTime_def
      never_forces_def split: prod.splits if_splits option.splits)

interpretation unforced_split: token_splitter "clocked_split clock" "\<lambda>sk. splitter_ok sk \<and> never_forces (fst sk)" for clock
  by unfold_locales (use clocked_good clocked_never_forces in blast)+

lemma read_tokens_never_forces:
  assumes "read_tokens clock lims fi content r = Some (ts, r')" "good_split (sp_split (reader_splitter r))"
    "never_forces (reader_splitter r)"
  shows "never_forces (reader_splitter r')"
proof -
  let ?s = "NewPositionalScanner (MaxLogSize fi) (Offset r)"
  let ?src = "\<lparr>remaining = drop (Offset r) content, limits = lims, src_fp = Fingerprint r,
           fp_size = fingerprintSize fi, read_offset = Offset r\<rparr>"
  obtain sp k src' err where l: "read_loop (clocked_split clock) (reader_splitter r, 0) ?s ?src [] = Some (ts, (sp, k), src', err)"
    "reader_splitter r' = sp" using assms(1) by (auto simp: read_tokens_def)
  have "scan_pos ?s = read_offset ?src" by (simp add: NewPositionalScanner_def)
  from unforced_split.read_loop_pieces [OF l(1) _ this] assms(2,3) show ?thesis
    by (auto simp: splitter_ok_def l(2))
qed

lemma read_passes_lines:
  "reader_ok fi r \<Longrightarrow> sp_split (reader_splitter r) = newline_split [LF] [CR] False \<Longrightarrow>
   never_forces (reader_splitter r) \<Longrightarrow> k \<le> length ls \<Longrightarrow> Offset r = length (text_of (take k ls)) \<Longrightarrow>
   \<forall>l \<in> set ls. plain_line (MaxLogSize fi) l \<Longrightarrow> LF \<notin> set rst \<Longrightarrow> length rst < max 16384 (MaxLogSize fi) \<Longrightarrow>
   ps \<noteq> [] \<Longrightarrow> fst (last ps) = text_of ls @ rst \<Longrightarrow> \<forall>p \<in> set ps. \<exists>m. fst p = take m (text_of ls @ rst) \<Longrightarrow>
   \<exists>r'. read_passes fi ps r = Some (map (the \<circ> line_token) (drop k ls), r') \<and> Offset r' = length (text_of ls)"
proof (induction ps arbitrary: r k)
  case (Cons p ps)
  obtain content clock where p: "p = (content, clock)" by (cases p)
  obtain m where m: "content = take m (text_of ls @ rst)" using Cons.prems(11) p by auto
  have split: "text_of ls = text_of (take k ls) @ text_of (drop k ls)" by (metis append_take_drop_id text_of_simps(3))
  have "drop (Offset r) (text_of ls @ rst) = text_of (drop k ls) @ rst"
    using Cons.prems(5) split by (metis append.assoc append_eq_conv_conj)
  then have "drop (Offset r) content = take (m - Offset r) (text_of (drop k ls) @ rst)" by (simp only: m drop_take)
  moreover obtain j tl' where j: "take (m - Offset r) (text_of (drop k ls) @ rst) = text_of (take j (drop k ls)) @ tl'"
    "j \<le> length (drop k ls)" "LF \<notin> set tl'" "length tl' < max 16384 (MaxLogSize fi)"
    "m - Offset r \<ge> length (text_of (drop k ls) @ rst) \<Longrightarrow> j = length (drop k ls)"
    using prefix_of_lines [of "drop k ls" "MaxLogSize fi" rst "m - Offset r"] Cons.prems(6-8)
    by (metis in_set_dropD)
  ultimately have d: "drop (Offset r) content = text_of (take j (drop k ls)) @ tl'" by simp
  have "\<forall>l \<in> set (take j (drop k ls)). plain_line (MaxLogSize fi) l"
    using Cons.prems(6) by (meson in_set_dropD in_set_takeD)
  from read_tokens_lines [OF Cons.prems(1,2) never_forces_quiet [OF Cons.prems(3)] d this j(3,4)]
  obtain r1 where r1: "read_tokens clock [] fi content r = Some (map (the \<circ> line_token) (take j (drop k ls)), r1)"
    "reader_ok fi r1" "Offset r1 = Offset r + length (text_of (take j (drop k ls)))"
    "newline_splitter clock (reader_splitter r1, 0)" .
  have take: "take (k + j) ls = take k ls @ take j (drop k ls)" by (simp add: take_add)
  then have off: "Offset r1 = length (text_of (take (k + j) ls))" using r1(3) Cons.prems(5) by simp
  have split1: "sp_split (reader_splitter r1) = newline_split [LF] [CR] False"
    using r1(4) by (simp add: newline_splitter_def)
  have never: "never_forces (reader_splitter r1)"
    using read_tokens_never_forces [OF r1(1)] Cons.prems(1,3) by (simp add: reader_ok_def)
  show ?case
  proof (cases ps)
    case Nil
    then have "m \<ge> length (text_of ls @ rst)"
      using Cons.prems(10) m p by (metis fst_conv last_ConsL length_take min.absorb_iff1)
    then have "j = length (drop k ls)" using j(5) split Cons.prems(5) by simp
    then show ?thesis using off r1(1) Cons.prems(4) by (simp add: p Nil)
  next
    case (Cons p' ps')
    have kj: "k + j \<le> length ls" using j(2) Cons.prems(4) by simp
    have ps: "ps \<noteq> []" "fst (last ps) = text_of ls @ rst" "\<forall>p \<in> set ps. \<exists>m. fst p = take m (text_of ls @ rst)"
      using Cons.prems(10,11) Cons by simp_all
    obtain r2 where r2: "read_passes fi ps r1 = Some (map (the \<circ> line_token) (drop (k + j) ls), r2)"
      "Offset r2 = length (text_of ls)"
      using Cons.IH [OF r1(2) split1 never kj off Cons.prems(6-8) ps] by blast
    have "drop k ls = take j (drop k ls) @ drop (k + j) ls" by (metis add.commute append_take_drop_id drop_drop)
    then have "map (the \<circ> line_token) (drop k ls) =
        map (the \<circ> line_token) (take j (drop k ls)) @ map (the \<circ> line_token) (drop (k + j) ls)"
      by (metis map_append)
    then show ?thesis using r2(2) by (simp add: p r1(1) r2(1) o_def)
  qed
qed simp

text \<open>
  C17: whole lines come out whole.  With the default splitting at newlines and no forced flush, let a
  file hold lines that fit into the scanner's buffer and are not blank, and possibly the start of a
  last line.  However often the file was passed over while it was written, at whatever lengths it
  was seen, the tokens of all passes together are exactly the lines, trimmed, in their order, and
  the offset ends behind the last whole line.
\<close>

theorem reader_whole_lines:
  assumes build: "SplitterConfig_Build compile now NewMultilineConfig 0 enc False (MaxLogSize fi) = Inr sp"
    and utf8: "\<not> is_nop enc" "encode enc [LF] = Inr [LF]" "encode enc [CR] = Inr [CR]"
    and fi: "fingerprintSize fi \<le> 16384"
    and final: "final = text_of ls @ rst" "\<forall>l \<in> set ls. plain_line (MaxLogSize fi) l"
      "LF \<notin> set rst" "length rst < max 16384 (MaxLogSize fi)"
    and ps: "ps \<noteq> []" "fst (last ps) = final" "\<forall>p \<in> set ps. \<exists>m. fst p = take m final"
  shows "\<exists>r'. read_passes fi ps (NewReader fa fp sp) = Some (map (the \<circ> line_token) ls, r')
    \<and> Offset r' = length (text_of ls)"
proof -
  have sp: "sp_split sp = newline_split [LF] [CR] False" "forcePeriod (sp_flusher sp) = 0"
    using build utf8 by (auto simp: SplitterConfig_Build_def getSplitFunc_def NewMultilineConfig_def Let_def
        NewNewlineSplitFunc_def encodedNewline_def encodedCarriageReturn_def FlusherConfig_Build_def)
  have "reader_ok fi (NewReader fa fp sp)" using fi by (simp add: reader_ok_def NewReader_def sp(1) good_newline)
  then show ?thesis
    using read_passes_lines [of fi "NewReader fa fp sp" 0 ls rst ps] sp final ps
    by (simp add: NewReader_def never_forces_def)
qed

theorem reader_whole_lines_witness:
  "\<exists>r'. read_passes
      \<lparr>OperatorID = ''f'', OperatorType = ''file_input'', OutputIDs = [], OutputOperators = [], in_attributes = [],
       in_resource = [], FilePathField = NilField, FileNameField = AttributeField [''log.file.name''],
       FilePathResolvedField = NilField, FileNameResolvedField = NilField, MaxLogSize = 1048576,
       fingerprintSize = 1000, startAtBeginning = True, encoding_nop = False\<rparr>
      [(''ab'' @ [LF] @ ''c'', \<lambda>_. 0), (''ab'' @ [LF] @ ''cd'' @ [CR, LF] @ ''e'', \<lambda>_. 900000000)]
      (NewReader \<lparr>fa_Name = ''x'', fa_Path = ''/x'', fa_ResolvedName = ''x'', fa_ResolvedPath = ''/x''\<rparr> (NewFingerprint 1000 ''ab'')
        \<lparr>sp_split = newline_split [LF] [CR] False, sp_forced = True,
       sp_flusher = \<lparr>forcePeriod = 0, lastDataChange = 0, previousDataLength = 0\<rparr>\<rparr>)
      = Some ([''ab'', ''cd''], r') \<and> Offset r' = length (text_of [''ab'', ''cd'' @ [CR]])"
proof -
  let ?final = "''ab'' @ [LF] @ ''cd'' @ [CR, LF] @ ''e''"
  let ?ps = "[(''ab'' @ [LF] @ ''c'', \<lambda>_. 0), (?final, \<lambda>_. 900000000)]"
  let ?fi = "\<lparr>OperatorID = ''f'', OperatorType = ''file_input'', OutputIDs = [], OutputOperators = [], in_attributes = [],
       in_resource = [], FilePathField = NilField, FileNameField = AttributeField [''log.file.name''],
       FilePathResolvedField = NilField, FileNameResolvedField = NilField, MaxLogSize = 1048576,
       fingerprintSize = 1000, startAtBeginning = True, encoding_nop = False\<rparr>"
  let ?sp = "\<lparr>sp_split = newline_split [LF] [CR] False, sp_forced = True,
       sp_flusher = \<lparr>forcePeriod = 0, lastDataChange = 0, previousDataLength = 0\<rparr>\<rparr>"
  have build: "SplitterConfig_Build (\<lambda>_. Inl []) 0 NewMultilineConfig 0 \<lparr>is_nop = False, encode = Inr\<rparr> False (MaxLogSize ?fi) = Inr ?sp"
    by (simp add: SplitterConfig_Build_def getSplitFunc_def NewMultilineConfig_def NewNewlineSplitFunc_def
        encodedNewline_def encodedCarriageReturn_def FlusherConfig_Build_def)
  have t: "line_token ''ab'' = Some ''ab''" "line_token (''cd'' @ [CR]) = Some ''cd''"
    by (simp_all add: line_token_def trimWhitespaces_def trim_suffix_def has_suffix_def trim_right_def)
  have "\<exists>m. fst p = take m ?final" if "p \<in> set ?ps" for p
    using that by (auto intro: exI [of _ 4] exI [of _ 8])
  then have grows: "\<forall>p \<in> set ?ps. \<exists>m. fst p = take m ?final" by blast
  have final: "?final = text_of [''ab'', ''cd'' @ [CR]] @ ''e''" by simp
  have plain: "\<forall>l \<in> set [''ab'', ''cd'' @ [CR]]. plain_line (MaxLogSize ?fi) l" using t by (simp add: plain_line_def)
  show ?thesis
    using reader_whole_lines [OF build _ _ _ _ final plain _ _ _ _ grows, of "\<lparr>fa_Name = ''x'', fa_Path = ''/x'', fa_ResolvedName = ''x'', fa_ResolvedPath = ''/x''\<rparr>" "NewFingerprint 1000 ''ab''"] t
    by (simp del: read_passes.simps)
qed

section \<open>Lines that never come out\<close>

text \<open>What a split call without a token leaves in the splitter.\<close>

definition touch :: "int \<Rightarrow> nat \<Rightarrow> Splitter \<Rightarrow> Splitter" where
  "touch t n sp = (if sp_forced sp then sp\<lparr>sp_flusher := UpdateDataChangeTime t n (sp_flusher sp)\<rparr> else sp)"

definition calm :: "int \<Rightarrow> Splitter \<Rightarrow> bool" where
  "calm t sp \<longleftrightarrow> t - lastDataChange (sp_flusher sp) \<le> forcePeriod (sp_flusher sp)"

lemma clocked_blank:
  assumes "sp_split sp = newline_split [LF] [CR] False" "calm (clock k) sp"
  shows "clocked_split clock (sp, k) (LF # w) e = ((touch (clock k) (Suc (length w)) sp, Suc k), 1, None, None)"
proof -
  have "line_token [] = None" by (simp add: line_token_def trimWhitespaces_def trim_suffix_def has_suffix_def trim_right_def)
  then have "newline_split [LF] [CR] False (LF # w) e = (1, None, None)" using newline_split_line [of "[]" w e] by simp
  with assms show ?thesis
    by (simp add: clocked_split_def Splitter_Split_def Flusher_SplitFunc_def touch_def calm_def ShouldFlush_def)
qed

lemma scan_blank:
  assumes "sp_split sp = newline_split [LF] [CR] False" "calm (clock 0) sp" "calm (clock 1) (touch (clock 0) n sp)"
    and s: "s = NewPositionalScanner m off" "remaining src = LF # LF # w" "limits src = []"
      "n = Suc (Suc (length w))" "n \<le> 16384"
    and np: "scan (clocked_split clock) (sp, 0) s src \<noteq> Scan_Panic"
  obtains s' src' where "scan (clocked_split clock) (sp, 0) s src =
      Stopped None (touch (clock 1) (Suc (length w)) (touch (clock 0) n sp), 2) s' src'"
    "read_offset src' = read_offset src"
proof -
  let ?split = "clocked_split clock"
  let ?sp1 = "touch (clock 0) n sp" and ?data = "LF # LF # w"
  have sp1: "sp_split ?sp1 = newline_split [LF] [CR] False" using assms(1) by (simp add: touch_def)
  have "scan_round ?split (sp, 0) s = More (sp, 0) s" "make_room s = Some s" "w_start s + length (window s) < buf_size s"
    by (simp_all add: s(1) NewPositionalScanner_def scan_round_def make_room_def)
  then have e1: "scan ?split (sp, 0) s src = (case fill s src of None \<Rightarrow> Scan_Panic | Some (s, src) \<Rightarrow> scan ?split (sp, 0) s src)"
    by (simp add: scan.simps [of ?split "(sp, 0)" s src])
  with np obtain s1 src1 where f1: "fill s src = Some (s1, src1)" by (auto split: option.splits)
  obtain bytes where b: "Reader_Read 16384 src = Some (bytes, src1)"
    "s1 = (if bytes = [] then s\<lparr>at_end := True\<rparr> else s\<lparr>window := bytes, empties := 0\<rparr>)"
    using f1 by (auto simp: fill_def s(1) NewPositionalScanner_def)
  have "file_Read 16384 src = (?data, src\<lparr>remaining := [], limits := []\<rparr>)"
    using s(2-5) by (simp add: file_Read_def)
  with b(1) have b1: "bytes = ?data" "remaining src1 = []" "read_offset src1 = read_offset src"
    by (auto simp: Reader_Read_def Let_def split: if_splits)
  then have s1: "s1 = s\<lparr>window := ?data, empties := 0\<rparr>" using b(2) by simp
  let ?s2 = "s1\<lparr>scan_pos := scan_pos s1 + 1, window := LF # w, w_start := 1\<rparr>"
  have r2: "scan_round ?split (sp, 0) s1 = More (?sp1, Suc 0) ?s2"
    using clocked_blank [of sp clock 0 "LF # w" False] assms(1,2)
    by (simp add: scan_round_def s1 s(1,4) NewPositionalScanner_def)
  have room: "roomy ?s2 src1" "length (window ?s2) < max 16384 (max_token ?s2)"
    using s(4,5) by (auto simp: roomy_def s1 s(1) NewPositionalScanner_def b1(2))
  obtain s3 where s3: "make_room ?s2 = Some s3" "w_start s3 + length (window s3) < buf_size s3"
    "window s3 = window ?s2" "at_end s3 = at_end ?s2"
    using make_room_roomy [OF room] by metis
  note r3 = s3(1,2) s3(3) [simplified]
  have e2: "scan ?split (sp, 0) s1 src1 = (case fill s3 src1 of None \<Rightarrow> Scan_Panic | Some (s, src) \<Rightarrow> scan ?split (?sp1, Suc 0) s src)"
    using r2 r3(1,2) by (simp add: scan.simps [of ?split "(sp, 0)" s1 src1])
  have "scan ?split (sp, 0) s1 src1 \<noteq> Scan_Panic" using np e1 f1 by simp
  with e2 obtain s4 src4 where f4: "fill s3 src1 = Some (s4, src4)" by (auto split: option.splits)
  from r3(2) f4 have s4: "s4 = s3\<lparr>at_end := True\<rparr>" by (cases rule: fill_progress) (use b1(2) in auto)
  have "scan_round ?split (?sp1, Suc 0) s4 = Fail None (touch (clock 1) (Suc (length w)) ?sp1, 2)
      (s4\<lparr>scan_pos := scan_pos s4 + 1, window := [], w_start := 0\<rparr>)"
    using clocked_blank [of ?sp1 clock 1 w True] sp1 assms(3) by (simp add: scan_round_def s4 r3(3) numeral_2_eq_2)
  then have "scan ?split (?sp1, Suc 0) s4 src4 = Stopped None (touch (clock 1) (Suc (length w)) ?sp1, 2)
      (s4\<lparr>scan_pos := scan_pos s4 + 1, window := [], w_start := 0\<rparr>) src4"
    by (simp add: scan.simps [of ?split "(?sp1, Suc 0)" s4 src4])
  with e1 e2 f1 f4 fill_same(4) [OF r3(2) f4] b1(3) show ?thesis
    by (intro that [of "s4\<lparr>scan_pos := scan_pos s4 + 1, window := [], w_start := 0\<rparr>" src4]) simp_all
qed

fun paced :: "int \<Rightarrow> int \<Rightarrow> pass list \<Rightarrow> bool" where
  "paced period t [] = True"
| "paced period t ((_, clock) # ps) \<longleftrightarrow>
     clock 0 - t \<le> period \<and> clock 1 - t \<le> period \<and> clock 1 - clock 0 \<le> period \<and> paced period (clock 1) ps"

lemma read_passes_blank:
  "reader_ok fi r \<Longrightarrow> sp_split (reader_splitter r) = newline_split [LF] [CR] False \<Longrightarrow> sp_forced (reader_splitter r) \<Longrightarrow>
   paced (forcePeriod (sp_flusher (reader_splitter r))) (lastDataChange (sp_flusher (reader_splitter r))) ps \<Longrightarrow>
   \<forall>p \<in> set ps. \<exists>w. drop (Offset r) (fst p) = LF # LF # w \<and> length w + 2 \<le> 16384 \<Longrightarrow>
   \<exists>r'. read_passes fi ps r = Some ([], r') \<and> Offset r' = Offset r"
proof (induction ps arbitrary: r)
  case (Cons p ps)
  obtain content clock where p: "p = (content, clock)" by (cases p)
  obtain w where w: "drop (Offset r) content = LF # LF # w" "length w + 2 \<le> 16384" using Cons.prems(5) p by auto
  let ?sp = "reader_splitter r" and ?n = "Suc (Suc (length w))"
  let ?sp1 = "touch (clock 0) ?n ?sp"
  let ?sp2 = "touch (clock 1) (Suc (length w)) ?sp1"
  let ?s = "NewPositionalScanner (MaxLogSize fi) (Offset r)"
  let ?src = "\<lparr>remaining = drop (Offset r) content, limits = [], src_fp = Fingerprint r,
           fp_size = fingerprintSize fi, read_offset = Offset r\<rparr>"
  have calm: "calm (clock 0) ?sp" "calm (clock 1) ?sp1"
    using Cons.prems(4) p by (auto simp: calm_def touch_def UpdateDataChangeTime_def)
  have "settled ?s ?src \<or> fresh ?s ?src" "splitter_ok (?sp, 0)"
    using Cons.prems(1) by (auto simp: settled_def fresh_def reader_ok_def NewPositionalScanner_def splitter_ok_def)
  then have np: "scan (clocked_split clock) (?sp, 0) ?s ?src \<noteq> Scan_Panic"
    using file_split.scan_settled [of "(?sp, 0)" ?s ?src clock] by auto
  obtain s' src' where sc: "scan (clocked_split clock) (?sp, 0) ?s ?src = Stopped None (?sp2, 2) s' src'"
    "read_offset src' = Offset r"
    using scan_blank [OF Cons.prems(2) calm refl _ _ refl _ np] w by auto
  let ?r = "r\<lparr>Fingerprint := src_fp src', Offset := Offset r, reader_splitter := ?sp2\<rparr>"
  have t: "read_tokens clock [] fi content r = Some ([], ?r)"
    using sc by (simp add: read_tokens_def read_loop.simps [of _ "(?sp, 0)"])
  obtain ts r2 where "read_tokens clock [] fi content r = Some (ts, r2)" "reader_ok fi r2"
    using read_tokens_spec [OF Cons.prems(1), of clock content] by metis
  with t have ok: "reader_ok fi ?r" by simp
  have "sp_split ?sp2 = newline_split [LF] [CR] False" "sp_forced ?sp2" "forcePeriod (sp_flusher ?sp2) = forcePeriod (sp_flusher ?sp)"
    "lastDataChange (sp_flusher ?sp2) = clock 1"
    using Cons.prems(2,3) by (auto simp: touch_def UpdateDataChangeTime_def)
  then have "\<exists>r'. read_passes fi ps ?r = Some ([], r') \<and> Offset r' = Offset ?r"
    using Cons.prems(4,5) p by (intro Cons.IH [OF ok]) simp_all
  then show ?case by (auto simp: p t)
qed simp

text \<open>
  C18: two blank lines in a row stop a reader.  With the default splitting at newlines, let a reader
  stand in front of two newlines, and let what follows them in the file have any content, but end
  within the 16384 bytes of the scanner's buffer.  Then no pass delivers anything and the offset
  stays, however often and with whatever further lines the file is passed over, as long as the
  passes follow each other within the force-flush period (with the defaults, 200 and 500 ms).
\<close>

theorem blank_lines_stall:
  assumes r: "reader_ok fi r" "sp_split (reader_splitter r) = newline_split [LF] [CR] False" "sp_forced (reader_splitter r)"
    and ps: "paced (forcePeriod (sp_flusher (reader_splitter r))) (lastDataChange (sp_flusher (reader_splitter r))) ps"
      "\<forall>p \<in> set ps. \<exists>w. drop (Offset r) (fst p) = LF # LF # w \<and> length w + 2 \<le> 16384"
  shows "\<exists>r'. read_passes fi ps r = Some ([], r') \<and> Offset r' = Offset r"
  using read_passes_blank [OF r ps] .

theorem blank_lines_stall_witness:
  "\<exists>r'. read_passes
      \<lparr>OperatorID = ''f'', OperatorType = ''file_input'', OutputIDs = [], OutputOperators = [], in_attributes = [],
       in_resource = [], FilePathField = NilField, FileNameField = AttributeField [''log.file.name''],
       FilePathResolvedField = NilField, FileNameResolvedField = NilField, MaxLogSize = 1048576,
       fingerprintSize = 1000, startAtBeginning = True, encoding_nop = False\<rparr>
      [([LF, LF] @ ''ab'' @ [LF], \<lambda>_. 200000000), ([LF, LF] @ ''ab'' @ [LF] @ ''cd'' @ [LF], \<lambda>_. 400000000)]
      (NewReader \<lparr>fa_Name = ''x'', fa_Path = ''/x'', fa_ResolvedName = ''x'', fa_ResolvedPath = ''/x''\<rparr> (NewFingerprint 1000 [])
        \<lparr>sp_split = newline_split [LF] [CR] False, sp_forced = True,
       sp_flusher = \<lparr>forcePeriod = 500000000, lastDataChange = 0, previousDataLength = 0\<rparr>\<rparr>)
      = Some ([], r') \<and> Offset r' = 0"
proof -
  let ?fi = "\<lparr>OperatorID = ''f'', OperatorType = ''file_input'', OutputIDs = [], OutputOperators = [], in_attributes = [],
       in_resource = [], FilePathField = NilField, FileNameField = AttributeField [''log.file.name''],
       FilePathResolvedField = NilField, FileNameResolvedField = NilField, MaxLogSize = 1048576,
       fingerprintSize = 1000, startAtBeginning = True, encoding_nop = False\<rparr>"
  let ?r = "NewReader \<lparr>fa_Name = ''x'', fa_Path = ''/x'', fa_ResolvedName = ''x'', fa_ResolvedPath = ''/x''\<rparr> (NewFingerprint 1000 [])
        \<lparr>sp_split = newline_split [LF] [CR] False, sp_forced = True,
       sp_flusher = \<lparr>forcePeriod = 500000000, lastDataChange = 0, previousDataLength = 0\<rparr>\<rparr>"
  have "reader_ok ?fi ?r" by (simp add: reader_ok_def NewReader_def good_newline)
  from blank_lines_stall [OF this, of "[([LF, LF] @ ''ab'' @ [LF], \<lambda>_. 200000000),
      ([LF, LF] @ ''ab'' @ [LF] @ ''cd'' @ [LF], \<lambda>_. 400000000)]"]
  show ?thesis by (simp add: NewReader_def del: read_passes.simps)
qed

end
