(* ===== verification/File_Tracking.thy ===== *)
theory File_Tracking
  imports File_Input File_Reader_Laws
begin

text \<open>
  What a reader knows of its file after a pass, and how \<open>file.go\<close> finds it again by that in the next
  poll: each line of a growing file is delivered exactly once, if its first line is complete when it is
  first seen, and twice if it is not.
\<close>

section \<open>The fingerprint over a pass\<close>

text \<open>
  Before the first read of a pass, once the file was read, and after the end was seen: then the
  fingerprint is complete or was cut at the offset.
\<close>

definition start_fp :: "string \<Rightarrow> scanner \<Rightarrow> source \<Rightarrow> bool" where
  "start_fp content s src \<longleftrightarrow> fresh s src \<and> remaining src = drop (read_offset src) content
     \<and> read_offset src \<le> length content
     \<and> (if length (FirstBytes (src_fp src)) = fp_size src then FirstBytes (src_fp src) = take (fp_size src) content
        else take (read_offset src) (FirstBytes (src_fp src) @ spare (src_fp src)) = take (read_offset src) content)"

definition whole_fp :: "string \<Rightarrow> source \<Rightarrow> bool" where
  "whole_fp content src \<longleftrightarrow> FirstBytes (src_fp src) = take (fp_size src) content
     \<and> (length (FirstBytes (src_fp src)) = fp_size src \<or> remaining src = [] \<and> length content \<le> fp_size src)
     \<and> read_offset src \<le> length content"

definition cut_fp :: "string \<Rightarrow> source \<Rightarrow> bool" where
  "cut_fp content src \<longleftrightarrow> FirstBytes (src_fp src) =
     take (if fp_size src \<le> length content then fp_size src else read_offset src) content"

lemma Reader_Read_fp:
  assumes "length (FirstBytes (src_fp src)) \<noteq> fp_size src" "Reader_Read room src = Some (bytes, src')"
  shows "FirstBytes (src_fp src') = take (read_offset src) (FirstBytes (src_fp src) @ spare (src_fp src))
      @ take (fp_size src - read_offset src) bytes"
proof -
  have "take (min (length bytes) (fp_size src - read_offset src)) bytes = take (fp_size src - read_offset src) bytes"
    by (simp add: min_def)
  with assms show ?thesis
    by (auto simp: Reader_Read_def min0_nat append_at_def Let_def split: prod.splits if_splits)
qed

lemma fill_tracked:
  assumes "start_fp content s src \<or> whole_fp content src" "w_start s + length (window s) < buf_size s"
    and f: "fill s src = Some (s', src')"
  shows "whole_fp content src' \<and> at_end s' = at_end s \<or> at_end s' \<and> cut_fp content src'"
proof -
  let ?room = "buf_size s - (w_start s + length (window s))"
  obtain bytes where b: "Reader_Read ?room src = Some (bytes, src')"
    "s' = (if bytes = [] then s\<lparr>at_end := True\<rparr> else s\<lparr>window := window s @ bytes, empties := 0\<rparr>)"
    using f by (auto simp: fill_def)
  note same = fill_same(3,4) [OF assms(2) f]
  have off: "read_offset src \<le> length content" using assms(1) by (auto simp: start_fp_def whole_fp_def)
  show ?thesis
  proof (cases "length (FirstBytes (src_fp src)) = fp_size src")
    case True
    then have "src_fp src' = src_fp src" using b(1)
      by (auto simp: Reader_Read_full file_Read_def Let_def split: prod.splits)
    moreover have "FirstBytes (src_fp src) = take (fp_size src) content"
      using assms(1) True by (auto simp: start_fp_def whole_fp_def)
    ultimately show ?thesis using True off by (auto simp: whole_fp_def cut_fp_def b(2) same)
  next
    case False
    note fp = Reader_Read_fp [OF False b(1)]
    show ?thesis
    proof (cases "start_fp content s src")
      case True
      then have start: "fresh s src" "remaining src = drop (read_offset src) content"
        "take (read_offset src) (FirstBytes (src_fp src) @ spare (src_fp src)) = take (read_offset src) content"
        using False by (simp_all add: start_fp_def)
      then have fresh: "fp_size src \<le> buf_size s" "?room = buf_size s" "limits src = []" "read_offset src \<le> fp_size src"
        "buf_size s \<noteq> 0" by (auto simp: fresh_def room_for_def)
      then have bytes: "bytes = take (buf_size s) (drop (read_offset src) content)"
        "remaining src' = drop (buf_size s) (drop (read_offset src) content)"
        using b(1) False start(2) by (auto simp: Reader_Read_def file_Read_def Let_def split: prod.splits)
      have fb: "FirstBytes (src_fp src') = take (fp_size src) content"
      proof -
        have "take (fp_size src - read_offset src) bytes = take (fp_size src - read_offset src) (drop (read_offset src) content)"
          using fresh(1) by (simp add: bytes(1) min_def)
        then show ?thesis
          using fp take_add [of "read_offset src" "fp_size src - read_offset src" content] fresh(4)
          unfolding start(3) by simp
      qed
      have "length content \<le> fp_size src \<Longrightarrow> remaining src' = []" using fresh(1,4) bytes(2) by simp
      with fb off fresh(5) show ?thesis
        by (cases "bytes = []") (auto simp: whole_fp_def cut_fp_def b(2) same bytes(1) min_def)
    next
      case False
      with assms(1) \<open>length (FirstBytes (src_fp src)) \<noteq> fp_size src\<close> have w: "remaining src = []"
        "FirstBytes (src_fp src) = content" "length content < fp_size src"
        by (auto simp: whole_fp_def)
      have "?room > 0" using assms(2) by simp
      from Reader_Read_take [OF this b(1)] have "bytes = []" by (metis w(1) take_Nil)
      with fp w off show ?thesis by (simp add: b(2) cut_fp_def same)
    qed
  qed
qed


context token_splitter
begin

lemma scan_tracked:
  "ok f \<Longrightarrow> start_fp content s src \<or> whole_fp content src \<Longrightarrow> \<not> at_end s \<Longrightarrow>
   (case scan split f s src of
      Scan_Panic \<Rightarrow> True
    | Stopped err f' s' src' \<Rightarrow> err = None \<longrightarrow> cut_fp content src'
    | Scanned t f' s' src' \<Rightarrow> \<not> at_end s' \<longrightarrow> whole_fp content src')"
proof (induction "length (remaining src) + (if at_end s then 0 else 1 :: nat)" arbitrary: f s src rule: less_induct)
  case less
  from less.prems(1) show ?case
  proof (cases rule: scan_cases [of f s src])
    case (found t f1 s1)
    then have "\<not> start_fp content s src" by (auto simp: scan_round_def start_fp_def fresh_def)
    then show ?thesis using found less.prems(2) by simp
  next
    case (failed err f1 s1)
    then have "err \<noteq> None" using less.prems(3)
      by (auto simp: scan_round_def Let_def split: if_splits prod.splits option.splits)
    with failed show ?thesis by auto
  next
    case (more f1 s1 s2 s3 src3)
    have ok: "ok f1" using less.prems(1) more(1) by (cases rule: round_More) auto
    have "start_fp content s2 src \<or> whole_fp content src"
    proof (cases "start_fp content s src")
      case True
      then have f: "fresh s src" by (simp add: start_fp_def)
      then have "s1 = s" using more(1) by (simp add: scan_round_def fresh_def)
      then have "s2 = s" using more(2) f by (auto simp: make_room_def fresh_def Let_def)
      with True show ?thesis by simp
    qed (use less.prems(2) in simp)
    from fill_tracked [OF this more(3,4)] show ?thesis
    proof
      assume w: "whole_fp content src3 \<and> at_end s3 = at_end s2"
      then have "\<not> at_end s3" using scan_round_More [OF more(1)] make_room_at_end [OF more(2)] by simp
      with less.hyps [OF more(6) ok] w show ?thesis unfolding more(5) by simp
    next
      assume c: "at_end s3 \<and> cut_fp content src3"
      from ok show ?thesis unfolding more(5)
      proof (cases rule: scan_cases [of f1 s3 src3])
        case (found t f2 s4)
        from ok found(1) have "at_end s4 = at_end s3" by (cases rule: round_Done) auto
        then show "case scan split f1 s3 src3 of Scan_Panic \<Rightarrow> True | Stopped err f' s' src' \<Rightarrow> err = None \<longrightarrow> cut_fp content src'
          | Scanned t f' s' src' \<Rightarrow> \<not> at_end s' \<longrightarrow> whole_fp content src'" using found c by simp
      next
        case (more f2 s4 s5 s6 src6)
        then show "case scan split f1 s3 src3 of Scan_Panic \<Rightarrow> True | Stopped err f' s' src' \<Rightarrow> err = None \<longrightarrow> cut_fp content src'
          | Scanned t f' s' src' \<Rightarrow> \<not> at_end s' \<longrightarrow> whole_fp content src'" using scan_round_More [OF more(1)] c by simp
      qed (use c in simp_all)
    qed
  qed simp_all
qed

end


lemma read_loop_tracked:
  "newline_splitter clock sk \<Longrightarrow> unread s src = text_of ls @ rst \<Longrightarrow> \<forall>l \<in> set ls. plain_line (max_token s) l \<Longrightarrow>
   LF \<notin> set rst \<Longrightarrow> length rst < max 16384 (max_token s) \<Longrightarrow> roomy s src \<Longrightarrow> settled s src \<or> fresh s src \<Longrightarrow>
   scan_pos s = read_offset src \<Longrightarrow> start_fp content s src \<or> whole_fp content src \<Longrightarrow> \<not> at_end s \<Longrightarrow>
   scan_pos s + length (unread s src) = length content \<Longrightarrow>
   read_loop (clocked_split clock) sk s src toks = Some (toks', sk', src', err) \<Longrightarrow>
   cut_fp content src' \<and> fp_size src' = fp_size src"
proof (induction ls arbitrary: sk s src toks)
  case Nil
  note settled = file_split.scan_settled [OF newline_splitter_ok [OF Nil.prems(1)] Nil.prems(7), of clock]
  have "scan (clocked_split clock) sk s src \<noteq> Scan_Panic" using settled by auto
  then obtain sk1 s1 src1 where st: "scan (clocked_split clock) sk s src = Stopped None sk1 s1 src1"
    using scan_tail [of clock sk s src] Nil.prems by auto
  then have "src' = src1" using Nil.prems(12) by (simp add: read_loop.simps [of _ sk s])
  with st settled file_split.scan_tracked [OF newline_splitter_ok [OF Nil.prems(1)] Nil.prems(9,10), of clock]
  show ?case by simp
next
  case (Cons l ls)
  note settled = file_split.scan_settled [OF newline_splitter_ok [OF Cons.prems(1)] Cons.prems(7), of clock]
  have l: "LF \<notin> set l" "length l < max 16384 (max_token s)" "line_token l \<noteq> None"
    using Cons.prems(3) by (auto simp: plain_line_def)
  then obtain t where t: "line_token l = Some t" by blast
  have un: "unread s src = l @ LF # (text_of ls @ rst)" using Cons.prems(2) by simp
  have np: "scan (clocked_split clock) sk s src \<noteq> Scan_Panic" using settled by auto
  obtain sk1 s1 src1 where n: "scan (clocked_split clock) sk s src = Scanned t sk1 s1 src1"
    "unread s1 src1 = text_of ls @ rst" "newline_splitter clock sk1" "roomy s1 src1" "max_token s1 = max_token s"
    "scan_pos s1 = scan_pos s + Suc (length l)" "at_end s1 = at_end s"
    using clocked_lines.scan_line [OF Cons.prems(1) un l(1,2) Cons.prems(6) np t] by auto
  let ?src = "src1\<lparr>read_offset := scan_pos s1\<rparr>"
  have s1: "settled s1 ?src" "fp_size src1 = fp_size src" using settled n(1) by simp_all
  have "unread s1 ?src = text_of ls @ rst" using n(2) by (simp add: unread_def)
  then have len: "scan_pos s1 + length (unread s1 ?src) = length content"
    using Cons.prems(11) n(6) unfolding un by simp
  then have "whole_fp content ?src"
    using file_split.scan_tracked [OF newline_splitter_ok [OF Cons.prems(1)] Cons.prems(9,10), of clock] n(1,7) Cons.prems(10)
    by (auto simp: whole_fp_def)
  moreover have "read_loop (clocked_split clock) sk1 s1 ?src (toks @ [t]) = Some (toks', sk', src', err)"
    using Cons.prems(12) n(1) by (simp add: read_loop.simps [of _ sk s])
  ultimately show ?case
    using Cons.IH [of sk1 s1 ?src "toks @ [t]"] n s1 Cons.prems len by (auto simp: unread_def roomy_def)
qed

text \<open>
  What the fingerprint of a reader is after a pass over a file with this content, and what it may be
  before one.
\<close>

definition tracks :: "nat \<Rightarrow> string \<Rightarrow> Reader \<Rightarrow> bool" where
  "tracks n content r \<longleftrightarrow> FirstBytes (Fingerprint r) = take (if n \<le> length content then n else Offset r) content"

definition knows :: "nat \<Rightarrow> string \<Rightarrow> Reader \<Rightarrow> bool" where
  "knows n content r \<longleftrightarrow> FirstBytes (Fingerprint r) = take (Offset r) content
     \<or> n \<le> length content \<and> FirstBytes (Fingerprint r) = take n content
     \<or> Offset r = 0 \<and> FirstBytes (Fingerprint r) = take n content"

lemma tracks_knows:
  assumes "tracks n old r" "Offset r \<le> length old" "old = take m content"
  shows "knows n content r"
proof (cases "n \<le> length old")
  case True
  then have "n \<le> m \<and> n \<le> length content" using assms(3) by simp
  with assms(1,3) True show ?thesis by (simp add: tracks_def knows_def)
next
  case False
  moreover have "take (Offset r) old = take (Offset r) content" using assms(2,3) by simp
  ultimately have "FirstBytes (Fingerprint r) = take (Offset r) content" using assms(1) by (simp add: tracks_def)
  then show ?thesis by (simp add: knows_def)
qed

lemma read_tokens_tracks:
  assumes r: "reader_ok fi r" "sp_split (reader_splitter r) = newline_split [LF] [CR] False" "quiet clock (reader_splitter r)"
    and content: "drop (Offset r) content = text_of ls @ rst" "\<forall>l \<in> set ls. plain_line (MaxLogSize fi) l"
      "LF \<notin> set rst" "length rst < max 16384 (MaxLogSize fi)" "Offset r \<le> length content"
    and start: "knows (fingerprintSize fi) content r"
    and t: "read_tokens clock [] fi content r = Some (ts, r')"
  shows "tracks (fingerprintSize fi) content r'"
proof -
  let ?s = "NewPositionalScanner (MaxLogSize fi) (Offset r)"
  let ?src = "\<lparr>remaining = drop (Offset r) content, limits = [], src_fp = Fingerprint r,
           fp_size = fingerprintSize fi, read_offset = Offset r\<rparr>"
  have sf: "settled ?s ?src \<or> fresh ?s ?src"
    using r(1) by (auto simp: settled_def fresh_def reader_ok_def NewPositionalScanner_def)
  obtain sp k src' err where l: "read_loop (clocked_split clock) (reader_splitter r, 0) ?s ?src [] = Some (ts, (sp, k), src', err)"
    "r' = r\<lparr>Fingerprint := src_fp src', Offset := read_offset src', reader_splitter := sp\<rparr>"
    using t by (auto simp: read_tokens_def)
  have "start_fp content ?s ?src \<or> whole_fp content ?src"
  proof (cases "length (FirstBytes (Fingerprint r)) = fingerprintSize fi")
    case True
    then have "FirstBytes (Fingerprint r) = take (fingerprintSize fi) content"
      using start content(5) by (auto simp: knows_def)
    with True content(5) show ?thesis by (simp add: whole_fp_def)
  next
    case False
    then have "Offset r \<le> room_for (fingerprintSize fi) (Fingerprint r)" "fingerprintSize fi \<le> 16384"
      using r(1) by (simp_all add: reader_ok_def)
    moreover have "take (Offset r) (FirstBytes (Fingerprint r) @ spare (Fingerprint r)) = take (Offset r) content"
      using start False content(5) by (auto simp: knows_def)
    ultimately show ?thesis
      using False content(5) by (simp add: start_fp_def fresh_def NewPositionalScanner_def)
  qed
  moreover have "Offset r + length (text_of ls @ rst) = length content"
    using content(1,5) by (metis add.commute diff_add length_drop)
  ultimately have "cut_fp content src' \<and> fp_size src' = fp_size ?src"
    using read_loop_tracked [OF _ _ _ _ _ _ sf _ _ _ _ l(1), of ls rst content] r(2,3) content
    by (auto simp: newline_splitter_def NewPositionalScanner_def unread_def roomy_def)
  then show ?thesis by (auto simp: l(2) cut_fp_def tracks_def)
qed

end
