(* ===== verification/File_Input_Laws.thy ===== *)
theory File_Input_Laws
  imports File_Tracking "HOL-Library.Sublist"
begin

text \<open>
  The laws of polling: which files become readers, where a reader begins, what a series of polls
  delivers, and what survives a restart.
\<close>

section \<open>What does not depend on the readers\<close>

lemma emit_heap [simp]:
  "emit dec now (op\<lparr>heap := h\<rparr>) fa m = emit dec now op fa m"
  "emit dec now (op\<lparr>next_address := n\<rparr>) fa m = emit dec now op fa m"
  "emit dec now (op\<lparr>queuedMatches := q\<rparr>) fa m = emit dec now op fa m"
  "emit dec now (op\<lparr>firstCheck := b\<rparr>) fa m = emit dec now op fa m"
  "emit dec now (op\<lparr>knownFiles := ks\<rparr>) fa m = emit dec now op fa m"
  "emit dec now (op\<lparr>oldReaders := os\<rparr>) fa m = emit dec now op fa m"
  by (simp_all add: emit_def NewEntry_def Write_def cong: option.case_cong sum.case_cong prod.case_cong if_cong)

lemma emit_all_heap [simp]:
  "emit_all dec now (op\<lparr>heap := h\<rparr>) fa ts = emit_all dec now op fa ts"
  "emit_all dec now (op\<lparr>next_address := n\<rparr>) fa ts = emit_all dec now op fa ts"
  "emit_all dec now (op\<lparr>queuedMatches := q\<rparr>) fa ts = emit_all dec now op fa ts"
  "emit_all dec now (op\<lparr>firstCheck := b\<rparr>) fa ts = emit_all dec now op fa ts"
  "emit_all dec now (op\<lparr>knownFiles := ks\<rparr>) fa ts = emit_all dec now op fa ts"
  "emit_all dec now (op\<lparr>oldReaders := os\<rparr>) fa ts = emit_all dec now op fa ts"
  by (induction ts) (simp_all cong: option.case_cong prod.case_cong)

section \<open>One file, one poll\<close>

text \<open>
  The poll sees one file only, under whatever path, with the given bytes.
\<close>

definition sees :: "'a FileOperator_scheme \<Rightarrow> poll_env \<times> string \<times> string \<Rightarrow> bool" where
  "sees op v \<longleftrightarrow> (case v of (env, p, content) \<Rightarrow> FindFiles env (op_finder op) = [p]
     \<and> (\<exists>i. path_file env p = Some i \<and> \<not> unreadable env i \<and> file_data env i = content))"

text \<open>Splitting at newlines in UTF-8 without a force-flush period, from the beginning of each file.\<close>

definition lines_config :: "'a FileOperator_scheme \<Rightarrow> bool" where
  "lines_config op \<longleftrightarrow> op_multiline op = NewMultilineConfig \<and> op_flush_period op = 0
     \<and> op_encoding op = text_encoding_of UTF8 \<and> 2 \<le> MaxConcurrentFiles op \<and> startAtBeginning op
     \<and> 0 < fingerprintSize op \<and> fingerprintSize op \<le> 16384 \<and> 0 < MaxLogSize op"

lemma lines_config_update [simp]:
  "lines_config (op\<lparr>heap := h\<rparr>) = lines_config op" "lines_config (op\<lparr>next_address := n\<rparr>) = lines_config op"
  "lines_config (op\<lparr>queuedMatches := q\<rparr>) = lines_config op" "lines_config (op\<lparr>firstCheck := b\<rparr>) = lines_config op"
  "lines_config (op\<lparr>knownFiles := ks\<rparr>) = lines_config op" "lines_config (op\<lparr>oldReaders := os\<rparr>) = lines_config op"
  by (simp_all add: lines_config_def)

definition newline_splitter_at :: "int \<Rightarrow> Splitter" where
  "newline_splitter_at now = \<lparr>sp_split = newline_split [LF] [CR] False, sp_forced = True,
     sp_flusher = \<lparr>forcePeriod = 0, lastDataChange = now, previousDataLength = 0\<rparr>\<rparr>"

lemma getMultiline_lines: "lines_config op \<Longrightarrow> getMultiline env op = Inr (newline_splitter_at (poll_instant env))"
  by (simp add: getMultiline_def lines_config_def SplitterConfig_Build_def getSplitFunc_def NewMultilineConfig_def
      NewNewlineSplitFunc_def encodedNewline_def encodedCarriageReturn_def FlusherConfig_Build_def newline_splitter_at_def)

text \<open>A reader that is fit for a pass over lines.\<close>

definition line_reader :: "'a FileOperator_scheme \<Rightarrow> Reader \<Rightarrow> bool" where
  "line_reader op r \<longleftrightarrow> reader_ok op r \<and> sp_split (reader_splitter r) = newline_split [LF] [CR] False
     \<and> never_forces (reader_splitter r)"

lemma line_reader_new:
  "lines_config op \<Longrightarrow> line_reader op (NewReader fa fp (newline_splitter_at now))"
  by (simp add: line_reader_def lines_config_def reader_ok_def NewReader_def newline_splitter_at_def good_newline never_forces_def)

lemma room_for_Copy [simp]: "room_for n (Fingerprint_Copy f) = room_for n f"
  by (simp add: room_for_def Fingerprint_Copy_def zeros_def)

lemma FirstBytes_Copy [simp]: "FirstBytes (Fingerprint_Copy f) = FirstBytes f"
  by (simp add: Fingerprint_Copy_def)

lemma Reader_Copy_same [simp]:
  "FirstBytes (Fingerprint (Reader_Copy r)) = FirstBytes (Fingerprint r)" "Offset (Reader_Copy r) = Offset r"
  "reader_splitter (Reader_Copy r) = reader_splitter r"
  "room_for n (Fingerprint (Reader_Copy r)) = room_for n (Fingerprint r)"
  by (simp_all add: Reader_Copy_def NewReader_def)


text \<open>A pass of such a reader, which stands at a line of the file.\<close>

lemma line_pass:
  assumes r: "line_reader op r" and content: "drop (Offset r) content = text_of ls @ rst" "Offset r \<le> length content"
    "\<forall>l \<in> set ls. plain_line (MaxLogSize op) l" "LF \<notin> set rst" "length rst < max 16384 (MaxLogSize op)"
    and start: "knows (fingerprintSize op) content r"
  obtains r' where "\<And>dec now. ReadToEnd dec now clock [] op content r =
      map_option (\<lambda>sent. (sent, r')) (emit_all dec now op (reader_attributes r) (map (the \<circ> line_token) ls))"
    "line_reader op r'" "Offset r' = Offset r + length (text_of ls)" "tracks (fingerprintSize op) content r'"
    "generation r' = generation r" "reader_attributes r' = reader_attributes r"
proof -
  have r': "reader_ok op r" "sp_split (reader_splitter r) = newline_split [LF] [CR] False"
    "never_forces (reader_splitter r)" "quiet clock (reader_splitter r)"
    using r never_forces_quiet by (auto simp: line_reader_def)
  obtain r1 where r1: "read_tokens clock [] op content r = Some (map (the \<circ> line_token) ls, r1)" "reader_ok op r1"
    "Offset r1 = Offset r + length (text_of ls)" "newline_splitter clock (reader_splitter r1, 0)"
    using read_tokens_lines [OF r'(1,2,4) content(1,3-5)] .
  have same: "reader_attributes r1 = reader_attributes r" "generation r1 = generation r"
    using r1(1) by (auto simp: read_tokens_def)
  have "ReadToEnd dec now clock [] op content r =
      map_option (\<lambda>sent. (sent, r1)) (emit_all dec now op (reader_attributes r) (map (the \<circ> line_token) ls))" for dec now
    by (simp add: ReadToEnd_def r1(1) same(1))
  moreover have "never_forces (reader_splitter r1)"
    using read_tokens_never_forces [OF r1(1)] r'(1,3) by (simp add: reader_ok_def)
  moreover have "tracks (fingerprintSize op) content r1"
    by (rule read_tokens_tracks [OF r'(1,2,4) content(1,3-5,2) start r1(1)])
  ultimately show ?thesis using r1 using same
    by (intro that [of r1]) (auto simp: line_reader_def newline_splitter_def)
qed

text \<open>The state between two polls.\<close>

definition ready :: "'a FileOperator_scheme \<Rightarrow> bool" where
  "ready op \<longleftrightarrow> lines_config op \<and> queuedMatches op = [] \<and> (\<forall>a. fmlookup (heap op) a \<noteq> None \<longrightarrow> a < next_address op)"

definition idle :: "'a FileOperator_scheme \<Rightarrow> bool" where
  "idle op \<longleftrightarrow> knownFiles op = [] \<and> oldReaders op = []"



definition same_emission :: "'a FileOperator_scheme \<Rightarrow> 'a FileOperator_scheme \<Rightarrow> bool" where
  "same_emission op op' \<longleftrightarrow> (\<forall>dec now fa ts. emit_all dec now op' fa ts = emit_all dec now op fa ts)
     \<and> MaxLogSize op' = MaxLogSize op \<and> op_finder op' = op_finder op"

lemma bump_fold:
  "\<exists>g. fmlookup (foldl (\<lambda>h a. case fmlookup h a of None \<Rightarrow> h | Some r \<Rightarrow> fmupd a (bump r) h) h as) a
     = map_option (apsnd (\<lambda>r. r\<lparr>generation := g r\<rparr>)) (fmlookup h a)"
proof (induction as arbitrary: h)
  case Nil
  show ?case by (intro exI [of _ generation]) (cases "fmlookup h a", auto)
next
  case (Cons b as)
  show ?case
  proof (cases "fmlookup h b")
    case (Some r)
    obtain g where g: "fmlookup (foldl (\<lambda>h a. case fmlookup h a of None \<Rightarrow> h | Some r \<Rightarrow> fmupd a (bump r) h) (fmupd b (bump r) h) as) a
        = map_option (apsnd (\<lambda>r. r\<lparr>generation := g r\<rparr>)) (fmlookup (fmupd b (bump r) h) a)"
      using Cons.IH [of "fmupd b (bump r) h"] by blast
    show ?thesis
    proof (cases "a = b")
      case True
      with g Some show ?thesis
        by (intro exI [of _ "\<lambda>r. g (r\<lparr>generation := Suc (generation r)\<rparr>)"]) (cases r, simp add: bump_def)
    qed (use g Some in auto)
  qed (use Cons.IH in simp)
qed

lemma bump_known_lookup:
  obtains g where "fmlookup (heap (bump_known op)) a = map_option (apsnd (\<lambda>r. r\<lparr>generation := g r\<rparr>)) (fmlookup (heap op) a)"
  using bump_fold [of "heap op" "knownFiles op" a] by (auto simp: bump_known_def)



lemma last_dropWhile_snoc: "\<not> P a \<Longrightarrow> last (dropWhile P (xs @ [a])) = a"
  by (induction xs) auto

lemma map_filter_single: "List.map_filter f [x] = (case f x of None \<Rightarrow> [] | Some y \<Rightarrow> [y])"
  by (simp add: List.map_filter_def split: option.split)

text \<open>The batch of a poll that sees one file, and the reader that is made for it.\<close>

lemma next_batch_one:
  "ready op \<Longrightarrow> FindFiles env (op_finder op) = [p] \<Longrightarrow> next_batch env op = ([p], bump_known op)"
  by (simp add: ready_def lines_config_def next_batch_def bump_known_def Let_def)

lemma makeReaders_one:
  assumes "sees op (env, p, content)"
  obtains i where "path_file env p = Some i" "file_data env i = content"
    "makeReaders env op [p] = (if content = [] \<or> fingerprintSize op = 0 then ([], op) else
      (case newReader env op (NewFingerprint (fingerprintSize op) content, p, i) of
         Inl err \<Rightarrow> ([], op) | Inr r \<Rightarrow> (case allocate r op of (a, op) \<Rightarrow> ([a], op))))"
proof -
  obtain i where i: "path_file env p = Some i" "\<not> unreadable env i" "file_data env i = content"
    using assms by (auto simp: sees_def)
  have "open_files env [p] = [(p, i)]" by (simp add: open_files_def map_filter_single i(1))
  moreover have "fingerprints env n [(p, i)] = [NewFingerprint n content]" for n
    by (simp add: fingerprints_def map_filter_single i)
  ultimately show ?thesis
    by (intro that [OF i(1,3)]) (auto simp: makeReaders_def Let_def NewFingerprint_def split: sum.splits prod.splits)
qed

text \<open>
  The rest of a poll with one new reader: its pass, the roller, which finds nothing lost when the
  reader of the last poll is a prefix, and the new list of known files.
\<close>

lemma poll_one_reader:
  assumes batch: "next_batch env op = ([p], op1)" "makeReaders env op1 [p] = ([a], op2)"
    and a: "fmlookup (heap op2) a = Some (Some i, r)" "generation r' \<le> 3"
    and pass: "\<And>dec now. ReadToEnd dec now (pass_clock env 0) [] (op2\<lparr>firstCheck := False\<rparr>) (file_data env i) r =
        map_option (\<lambda>sent. (sent, r')) (emit_all dec now op fa ts)"
    and old: "oldReaders op2 = [] \<or> (\<exists>b j rb. oldReaders op2 = [b] \<and> b \<noteq> a \<and> fmlookup (heap op2) b = Some (j, rb)
        \<and> StartsWith (Fingerprint r') (Fingerprint rb))"
  obtains known s' where "poll d env op s = map_option (\<lambda>sent. (sent,
      op2\<lparr>firstCheck := False, heap := fmupd a (Some i, r') (heap op2), oldReaders := [a], knownFiles := known\<rparr>, s'))
      (emit_all (poll_decode env) (poll_now env) op fa ts)" "known \<noteq> []" "last known = a" "knownFiles op2 = [] \<Longrightarrow> known = [a]"
proof -
  let ?op3 = "op2\<lparr>firstCheck := False, heap := fmupd a (Some i, r') (heap op2)\<rparr>"
  let ?op4 = "?op3\<lparr>oldReaders := [a]\<rparr>"
  define known where "known = knownFiles (saveCurrent [a] ?op4)"
  have read: "read_files env 0 (op2\<lparr>firstCheck := False\<rparr>) [a] =
      map_option (\<lambda>sent. (sent, ?op3)) (emit_all (poll_decode env) (poll_now env) op fa ts)"
    by (simp add: a(1) pass split: option.split)
  have "fingerprint_at ?op3 a = Fingerprint r'" by (simp add: fingerprint_at_def reader_at_def)
  then have "lost_readers ?op3 [a] = []"
    using old by (auto simp: lost_readers_def fingerprint_at_def reader_at_def)
  then have roll: "roll env (Suc 0) ?op3 [a] = Some ([], ?op4)" by (simp add: roll_def)
  have young: "young ?op4 a" using a(2) by (simp add: young_def reader_at_def)
  then have kept: "dropWhile (\<lambda>b. \<not> young ?op4 b) (knownFiles ?op4 @ [a]) \<noteq> []" by simp
  then have k: "known = dropWhile (\<lambda>b. \<not> young ?op4 b) (knownFiles ?op4 @ [a])"
    by (simp add: known_def saveCurrent_def Let_def)
  have "saveCurrent [a] ?op4 = ?op4\<lparr>knownFiles := known\<rparr>" by (simp add: known_def saveCurrent_def Let_def)
  moreover have "last known = a" unfolding k by (rule last_dropWhile_snoc) (simp add: young)
  moreover have "poll d env op s = map_option (\<lambda>sent. (sent, ?op4\<lparr>knownFiles := known\<rparr>,
      syncLastPollFiles d (?op4\<lparr>knownFiles := known\<rparr>) s)) (emit_all (poll_decode env) (poll_now env) op fa ts)"
    unfolding poll_def batch prod.case read Let_def
    by (cases "emit_all (poll_decode env) (poll_now env) op fa ts")
      (simp_all del: read_files.simps add: roll calculation)
  moreover have "knownFiles op2 = [] \<Longrightarrow> known = [a]" using young by (simp add: k)
  ultimately show ?thesis using kept unfolding k [symmetric] by (intro that)
qed

lemma lines_config_bump [simp]: "lines_config (bump_known op) = lines_config op"
  by (simp add: bump_known_def)

lemma bump_known_same [simp]:
  "knownFiles (bump_known op) = knownFiles op" "oldReaders (bump_known op) = oldReaders op"
  "queuedMatches (bump_known op) = queuedMatches op" "next_address (bump_known op) = next_address op"
  "fingerprintSize (bump_known op) = fingerprintSize op" "MaxLogSize (bump_known op) = MaxLogSize op"
  "op_finder (bump_known op) = op_finder op" "emit_all dec now (bump_known op) fa ts = emit_all dec now op fa ts"
  "startAtBeginning (bump_known op) = startAtBeginning op"
  by (simp_all add: bump_known_def)







section \<open>A series of polls\<close>

fun polls :: "('s, 'b) disk_scheme \<Rightarrow> poll_env list \<Rightarrow> 'a FileOperator_scheme \<Rightarrow> 's
    \<Rightarrow> ((opref \<times> entry) list \<times> 'a FileOperator_scheme \<times> 's) option" where
  "polls d [] op s = Some ([], op, s)"
| "polls d (env # envs) op s =
     (case poll d env op s of
        None \<Rightarrow> None
      | Some (sent, op, s) \<Rightarrow> map_option (apfst ((@) sent)) (polls d envs op s))"



lemma same_config:
  assumes "same_emission op op'"
  shows "sees op' v = sees op v" "MaxLogSize op' = MaxLogSize op"
  using assms by (simp_all add: sees_def same_emission_def)




text \<open>An operator as built and started for the first time, for splitting at newlines.\<close>

definition plain_config :: "'a InputConfig_file_scheme \<Rightarrow> bool" where
  "plain_config c \<longleftrightarrow> cfgMultiline c = NewMultilineConfig \<and> cfgFlushPeriod c = 0 \<and> cfgEncoding c = ''utf-8''
     \<and> cfgStartAt c = ''beginning'' \<and> cfgFingerprintSize c \<le> 16384"

lemma to_lower_utf8: "to_lower ''utf-8'' = ''utf-8''"
  by (simp add: to_lower_def to_lower_char_def)

lemma built_ready:
  assumes "FileInputConfig_Build benv compile lg now c = Inr op0" "plain_config c"
    and "FileInput_Start d env s op0 = Inr op" "disk_get d s knownFilesKey = Inr None"
  shows "ready op \<and> idle op \<and> knownFiles op = [] \<and> heap op = fmempty"
proof -
  have "lookupEncoding (env_iana benv) ''utf-8'' = Inr UTF8"
    by (simp add: lookupEncoding_def to_lower_utf8 encodingOverrides_def)
  then have op0: "queuedMatches op0 = []" "oldReaders op0 = []" "heap op0 = fmempty" "lines_config op0"
    using assms(1,2)
    by (auto simp: FileInputConfig_Build_def plain_config_def EncodingConfig_Build_def lines_config_def
        FileInput.defs FileOperator.defs InputOperator.defs minFingerprintSize_def defaultFingerprintSize_def Let_def
        split: sum.splits option.splits if_splits)
  have "op = op0\<lparr>firstCheck := True, knownFiles := []\<rparr>"
    using assms(3,4) by (simp add: FileInput_Start_def loadLastPollFiles_def)
  with op0 show ?thesis by (simp add: ready_def idle_def)
qed


text \<open>Concrete configurations and polls for the witnesses.\<close>

definition sample_config :: InputConfig_file where
  "sample_config = (NewInputConfig_file ''f'')\<lparr>cfgFinder := \<lparr>Include = [''*''], Exclude = []\<rparr>,
     cfgFlushPeriod := 0, cfgStartAt := ''beginning''\<rparr>"

definition sample_env :: build_env where
  "sample_env = \<lparr>glob_error = \<lambda>_. None, env_regexp = \<lambda>_. Inl [], env_iana = \<lambda>_. Inr None\<rparr>"

definition sample_poll :: "string \<Rightarrow> string \<Rightarrow> poll_env" where
  "sample_poll p content = \<lparr>path_file = \<lambda>q. if q = p then Some 0 else None, file_data = \<lambda>_. content,
     unreadable = \<lambda>_. False, Glob = \<lambda>_. [p], PathMatch = \<lambda>_ _. False,
     attributes_of = \<lambda>p. \<lparr>fa_Name = p, fa_Path = p, fa_ResolvedName = p, fa_ResolvedPath = p\<rparr>,
     poll_regexp = \<lambda>_. Inl [], poll_now = GTime 0 0 ''UTC'', poll_instant = 0, pass_clock = \<lambda>_ _. 0, poll_decode = Inr\<rparr>"

definition no_disk :: "unit disk" where
  "no_disk = \<lparr>disk_get = \<lambda>_ _. Inr None, disk_put = \<lambda>_ _ _. ((), None), json_encode = \<lambda>_. [],
     json_decode = \<lambda>_. Inr []\<rparr>"

lemmas config_records = BasicConfig.defs WriterConfig.defs InputConfig.defs InputConfig_file.defs
  NewBasicConfig_def NewWriterConfig_def NewInputConfig_def NewInputConfig_file_def NewFlusherConfig_def

lemma sample_config_eq:
  "sample_config = \<lparr>cfgOperatorID = ''f'', cfgOperatorType = ''file_input'', cfgOutputIDs = [], cfgAttributes = [],
     cfgResource = [], cfgFinder = \<lparr>Include = [''*''], Exclude = []\<rparr>, cfgPollInterval = 200000000,
     cfgIncludeFileName = True, cfgIncludeFilePath = False, cfgIncludeFileNameResolved = False,
     cfgIncludeFilePathResolved = False, cfgStartAt = ''beginning'', cfgFingerprintSize = 1000, cfgMaxLogSize = 1048576,
     cfgMaxConcurrentFiles = 1024, cfgEncoding = ''utf-8'', cfgMultiline = NewMultilineConfig, cfgFlushPeriod = 0\<rparr>"
  by (simp add: sample_config_def config_records)

lemma sample_plain: "plain_config sample_config"
  by (simp add: sample_config_eq plain_config_def)

lemma sample_input:
  obtains b where "InputConfig_Build compile True sample_config = Inr b"
  by (simp add: sample_config_eq InputConfig_Build_def WriterConfig_Build_def BasicConfig_Build_def
      AttributerConfig_Build_def IdentifierConfig_Build_def Let_def)

lemma sample_build:
  obtains op where "FileInputConfig_Build sample_env compile True 0 sample_config = Inr op"
    "op_finder op = \<lparr>Include = [''*''], Exclude = []\<rparr>" "fingerprintSize op = 1000"
proof -
  obtain b where b: "InputConfig_Build compile True sample_config = Inr b" by (rule sample_input)
  have "lookupEncoding (env_iana sample_env) ''utf-8'' = Inr UTF8"
    by (simp add: lookupEncoding_def to_lower_utf8 encodingOverrides_def)
  then have enc: "EncodingConfig_Build (env_iana sample_env) ''utf-8'' = Inr (text_encoding_of UTF8)"
    by (simp add: EncodingConfig_Build_def)
  have globs: "glob_errors sample_env gs = None" for gs
    by (simp add: glob_errors_def sample_env_def List.map_filter_def)
  obtain sp where "SplitterConfig_Build (env_regexp sample_env) 0 NewMultilineConfig 0 (text_encoding_of UTF8) False 1048576 = Inr sp"
    by (simp add: SplitterConfig_Build_def getSplitFunc_def NewMultilineConfig_def
      NewNewlineSplitFunc_def encodedNewline_def encodedCarriageReturn_def FlusherConfig_Build_def)
  with b enc globs that show ?thesis
    by (simp add: FileInputConfig_Build_def sample_config_eq minFingerprintSize_def FileInput.defs FileOperator.defs
        InputOperator.defs Let_def)
qed

lemma sample_sees:
  "op_finder op = \<lparr>Include = [''*''], Exclude = []\<rparr> \<Longrightarrow> sees op (sample_poll p content, p, content)"
  by (simp add: sees_def FindFiles_def add_matches_def sample_poll_def)

lemma sample_poll_simps:
  "poll_decode (sample_poll p content) = Inr" "poll_now (sample_poll p content) = GTime 0 0 ''UTC''"
  "attributes_of (sample_poll p content) q = \<lparr>fa_Name = q, fa_Path = q, fa_ResolvedName = q, fa_ResolvedPath = q\<rparr>"
  by (simp_all add: sample_poll_def)

lemma no_disk_Start: "FileInput_Start no_disk env s op = Inr (op\<lparr>firstCheck := True, knownFiles := []\<rparr>)"
  by (simp add: FileInput_Start_def loadLastPollFiles_def no_disk_def)


section \<open>A first line that was not complete\<close>

text \<open>A reader at the beginning of a file without a complete line cuts its fingerprint to nothing.\<close>

lemma fresh_pass:
  assumes "lines_config op" "content = text_of ls @ rst" "\<forall>l \<in> set ls. plain_line (MaxLogSize op) l" "LF \<notin> set rst"
    "length rst < max 16384 (MaxLogSize op)" "line_reader op r" "Offset r = 0"
    "FirstBytes (Fingerprint r) = take (fingerprintSize op) content \<or> FirstBytes (Fingerprint r) = []"
  obtains r' where "\<And>dec now. ReadToEnd dec now clock [] op content r =
      map_option (\<lambda>sent. (sent, r')) (emit_all dec now op (reader_attributes r) (map (the \<circ> line_token) ls))"
    "line_reader op r'" "Offset r' = length (text_of ls)" "tracks (fingerprintSize op) content r'"
    "generation r' = generation r" "reader_attributes r' = reader_attributes r"
proof -
  have k: "knows (fingerprintSize op) content r" using assms(7,8) by (auto simp: knows_def)
  have d: "drop (Offset r) content = text_of ls @ rst" "Offset r \<le> length content" using assms(2,7) by simp_all
  show ?thesis
  proof (rule line_pass [OF assms(6) d assms(3-5) k, of clock])
    fix r'
    assume "\<And>dec now. ReadToEnd dec now clock [] op content r =
      map_option (\<lambda>sent. (sent, r')) (emit_all dec now op (reader_attributes r) (map (the \<circ> line_token) ls))"
    "line_reader op r'" "Offset r' = Offset r + length (text_of ls)" "tracks (fingerprintSize op) content r'"
    "generation r' = generation r" "reader_attributes r' = reader_attributes r"
    then show ?thesis using assms(7) by (intro that [of r']) simp_all
  qed
qed

lemma line_reader_update [simp]:
  "line_reader (op\<lparr>heap := h\<rparr>) r = line_reader op r" "line_reader (op\<lparr>next_address := n\<rparr>) r = line_reader op r"
  "line_reader (op\<lparr>firstCheck := b\<rparr>) r = line_reader op r" "line_reader (op\<lparr>knownFiles := ks\<rparr>) r = line_reader op r"
  "line_reader (op\<lparr>oldReaders := os\<rparr>) r = line_reader op r" "line_reader (bump_known op) r = line_reader op r"
  "line_reader op (r\<lparr>generation := g\<rparr>) = line_reader op r"
  by (simp_all add: line_reader_def reader_ok_def)

text \<open>A file that no known reader matches gets a reader of its own.\<close>

lemma makeReaders_new:
  assumes op: "lines_config op" "sees op (env, p, content)" "content \<noteq> []" "path_file env p = Some i"
    and unknown: "\<And>a r. a \<in> set (knownFiles op) \<Longrightarrow> reader_at op a = Some r \<Longrightarrow> FirstBytes (Fingerprint r) = []"
  shows "makeReaders env op [p] = ([next_address op], op\<lparr>heap := fmupd (next_address op) (Some i, NewReader (attributes_of env p)
    (NewFingerprint (fingerprintSize op) content) (newline_splitter_at (poll_instant env))) (heap op),
    next_address := Suc (next_address op)\<rparr>)"
proof -
  let ?fp = "NewFingerprint (fingerprintSize op) content"
  have "findFingerprintMatch op ?fp = None"
    using unknown by (auto simp: findFingerprintMatch_def find_None_iff StartsWith_def List.map_filter_def)
  then have "newReader env op (?fp, p, i) =
      Inr (Some i, NewReader (attributes_of env p) ?fp (newline_splitter_at (poll_instant env)))"
    using op(1) by (simp add: newReader_def getMultiline_lines InitializeOffset_def lines_config_def)
  then show ?thesis
    using op by (elim makeReaders_one) (auto simp: allocate_def lines_config_def)
qed

lemma poll_first_incomplete:
  assumes op: "ready op" "idle op" "sees op (env, p, content)" "content \<noteq> []" "path_file env p = Some i"
    and content: "LF \<notin> set content" "length content < fingerprintSize op" "length content < max 16384 (MaxLogSize op)"
  shows "\<exists>op' s' a r. poll d env op s = Some ([], op', s') \<and> ready op' \<and> same_emission op op'
    \<and> fingerprintSize op' = fingerprintSize op \<and> knownFiles op' = [a] \<and> oldReaders op' = [a]
    \<and> fmlookup (heap op') a = Some (Some i, r) \<and> line_reader op' r
    \<and> Offset r = 0 \<and> FirstBytes (Fingerprint r) = [] \<and> reader_attributes r = attributes_of env p"
proof -
  let ?r = "NewReader (attributes_of env p) (NewFingerprint (fingerprintSize op) content) (newline_splitter_at (poll_instant env))"
  have config: "lines_config op" using op(1) by (simp add: ready_def)
  have bump: "bump_known op = op" using op(2) by (simp add: bump_known_def idle_def)
  then have batch: "next_batch env op = ([p], op)" using next_batch_one [OF op(1)] op(3) by (simp add: sees_def)
  define op2 where "op2 = op\<lparr>heap := fmupd (next_address op) (Some i, ?r) (heap op), next_address := Suc (next_address op)\<rparr>"
  let ?op2 = "op2\<lparr>firstCheck := False\<rparr>" and ?a = "next_address op"
  have readers: "makeReaders env op [p] = ([?a], op2)"
    using makeReaders_new [OF config op(3-5)] op(2) by (simp add: op2_def idle_def)
  have data: "file_data env i = content" using op(3,5) by (simp add: sees_def)
  have same2: "lines_config ?op2" "fingerprintSize ?op2 = fingerprintSize op" "MaxLogSize ?op2 = MaxLogSize op"
    "line_reader ?op2 ?r" "oldReaders op2 = []" "knownFiles op2 = []"
    using config op(2) line_reader_new [OF config] by (simp_all add: op2_def idle_def)
  have r: "Offset ?r = 0" "FirstBytes (Fingerprint ?r) = take (fingerprintSize ?op2) content \<or> FirstBytes (Fingerprint ?r) = []"
    "generation ?r = 0" "reader_attributes ?r = attributes_of env p"
    by (simp_all add: NewReader_def NewFingerprint_def same2(2))
  obtain r' where r': "\<And>dec now. ReadToEnd dec now (pass_clock env 0) [] ?op2 content ?r =
      map_option (\<lambda>sent. (sent, r')) (emit_all dec now ?op2 (reader_attributes ?r) (map (the \<circ> line_token) []))"
    "line_reader ?op2 r'" "Offset r' = length (text_of [])" "tracks (fingerprintSize ?op2) content r'"
    "generation r' = generation ?r" "reader_attributes r' = reader_attributes ?r"
    by (rule fresh_pass [OF same2(1) _ _ content(1) _ same2(4) r(1,2), of "[]" "pass_clock env 0"])
      (use content(3) same2(3) in simp_all)
  have pass: "ReadToEnd dec now (pass_clock env 0) [] ?op2 (file_data env i) ?r =
      map_option (\<lambda>sent. (sent, r')) (emit_all dec now op (attributes_of env p) [])" for dec now
    unfolding data r'(1) by simp
  have a: "fmlookup (heap op2) ?a = Some (Some i, ?r)" "generation r' \<le> 3" using r'(5) r(3) by (simp_all add: op2_def)
  obtain known s' where poll: "poll d env op s = map_option (\<lambda>sent. (sent,
      op2\<lparr>firstCheck := False, heap := fmupd ?a (Some i, r') (heap op2), oldReaders := [?a], knownFiles := known\<rparr>, s'))
      (emit_all (poll_decode env) (poll_now env) op (attributes_of env p) [])" "known = [?a]"
    by (rule poll_one_reader [OF batch readers a pass, of d s]) (use same2(5,6) in auto)
  let ?op' = "op2\<lparr>firstCheck := False, heap := fmupd ?a (Some i, r') (heap op2), oldReaders := [?a], knownFiles := known\<rparr>"
  have "poll d env op s = Some ([], ?op', s')" using poll(1) by simp
  moreover have "ready ?op'" using op(1) by (auto simp: ready_def op2_def less_Suc_eq)
  moreover have "same_emission op ?op'" by (simp add: same_emission_def op2_def)
  moreover have "fmlookup (heap ?op') ?a = Some (Some i, r')" "oldReaders ?op' = [?a]" by simp_all
  moreover have "fingerprintSize ?op' = fingerprintSize op" "line_reader ?op' r'" using same2(2) r'(2) by simp_all
  moreover have "FirstBytes (Fingerprint r') = []" "Offset r' = 0" using r'(3,4) content(2) same2(2) by (simp_all add: tracks_def)
  moreover have "reader_attributes r' = attributes_of env p" using r'(6) r(4) by simp
  moreover have "knownFiles ?op' = [?a]" using poll(2) by simp
  ultimately show ?thesis by blast
qed

text \<open>The next poll makes a second reader for the file, and the roller takes the first one for lost.\<close>

lemma poll_lost:
  assumes op: "ready op" "knownFiles op = [b]" "oldReaders op = [b]" "fmlookup (heap op) b = Some (Some i, rb)"
      "line_reader op rb" "Offset rb = 0" "FirstBytes (Fingerprint rb) = []"
    and view: "sees op (env, p, content)" "content \<noteq> []" "path_file env p = Some i"
    and content: "content = text_of ls @ rst" "\<forall>l \<in> set ls. plain_line (MaxLogSize op) l" "LF \<notin> set rst"
      "length rst < max 16384 (MaxLogSize op)"
  shows "map_option fst (poll d env op s) =
    (case emit_all (poll_decode env) (poll_now env) op (attributes_of env p) (map (the \<circ> line_token) ls) of
       None \<Rightarrow> None
     | Some sent \<Rightarrow> map_option ((@) sent)
         (emit_all (poll_decode env) (poll_now env) op (reader_attributes rb) (map (the \<circ> line_token) ls)))"
proof -
  let ?op1 = "bump_known op" and ?a = "next_address op" and ?ts = "map (the \<circ> line_token) ls"
  let ?r = "NewReader (attributes_of env p) (NewFingerprint (fingerprintSize op) content) (newline_splitter_at (poll_instant env))"
  have config: "lines_config op" "b < ?a" using op(1,4) by (auto simp: ready_def)
  have batch: "next_batch env op = ([p], ?op1)" using next_batch_one [OF op(1)] view(1) by (simp add: sees_def)
  obtain g where "fmlookup (heap ?op1) b = map_option (apsnd (\<lambda>r. r\<lparr>generation := g r\<rparr>)) (fmlookup (heap op) b)"
    using bump_known_lookup [of op b] by metis
  then have b: "fmlookup (heap ?op1) b = Some (Some i, rb\<lparr>generation := g rb\<rparr>)" using op(4) by simp
  define op2 where "op2 = ?op1\<lparr>heap := fmupd ?a (Some i, ?r) (heap ?op1), next_address := Suc ?a\<rparr>"
  let ?op2 = "op2\<lparr>firstCheck := False\<rparr>" and ?rb = "rb\<lparr>generation := g rb\<rparr>"
  have "sees ?op1 (env, p, content)" using view(1) by (simp add: sees_def)
  moreover have "FirstBytes (Fingerprint r) = []" if "a \<in> set (knownFiles ?op1)" "reader_at ?op1 a = Some r" for a r
    using that op(2,7) b by (auto simp: reader_at_def)
  ultimately have "makeReaders env ?op1 [p] = ([?a], ?op1\<lparr>heap := fmupd (next_address ?op1) (Some i, NewReader (attributes_of env p)
    (NewFingerprint (fingerprintSize ?op1) content) (newline_splitter_at (poll_instant env))) (heap ?op1), next_address := Suc ?a\<rparr>)"
    using makeReaders_new [of ?op1 env p content i] config view(2,3) by simp
  then have readers: "makeReaders env ?op1 [p] = ([?a], op2)" by (simp add: op2_def)
  have data: "file_data env i = content" using view by (simp add: sees_def)
  have same2: "lines_config ?op2" "fingerprintSize ?op2 = fingerprintSize op" "MaxLogSize ?op2 = MaxLogSize op"
    "oldReaders op2 = [b]"
    using config op(3) by (simp_all add: op2_def)
  have emit2: "emit_all dec now op2 fa ts = emit_all dec now op fa ts" for dec now fa ts by (simp add: op2_def)
  have plain: "\<forall>l \<in> set ls. plain_line (MaxLogSize ?op2) l" "length rst < max 16384 (MaxLogSize ?op2)"
    using content(2,4) same2(3) by simp_all
  have new: "line_reader ?op2 ?r" using line_reader_new [OF config(1)] by (simp add: op2_def)
  have new0: "Offset ?r = 0" "FirstBytes (Fingerprint ?r) = take (fingerprintSize ?op2) content \<or> FirstBytes (Fingerprint ?r) = []"
    by (simp_all add: NewReader_def NewFingerprint_def op2_def)
  obtain r' where r': "\<And>dec now. ReadToEnd dec now (pass_clock env 0) [] ?op2 content ?r =
      map_option (\<lambda>sent. (sent, r')) (emit_all dec now ?op2 (reader_attributes ?r) ?ts)"
    "line_reader ?op2 r'" "Offset r' = length (text_of ls)" "tracks (fingerprintSize ?op2) content r'"
    "generation r' = generation ?r" "reader_attributes r' = reader_attributes ?r"
    by (rule fresh_pass [OF same2(1) content(1) plain(1) content(3) plain(2) new new0, of "pass_clock env 0"]) simp_all
  define op3 where "op3 = ?op2\<lparr>heap := fmupd ?a (Some i, r') (heap ?op2)\<rparr>"
  have old: "line_reader op3 ?rb" using op(5) by (simp add: op3_def op2_def)
  have same3: "lines_config op3" "fingerprintSize op3 = fingerprintSize op" "MaxLogSize op3 = MaxLogSize op" "oldReaders op3 = [b]"
    using same2 by (simp_all add: op3_def)
  have plain3: "\<forall>l \<in> set ls. plain_line (MaxLogSize op3) l" "length rst < max 16384 (MaxLogSize op3)"
    using content(2,4) same3(3) by simp_all
  have old0: "Offset ?rb = 0" "FirstBytes (Fingerprint ?rb) = take (fingerprintSize op3) content \<or> FirstBytes (Fingerprint ?rb) = []"
    using op(6,7) by simp_all
  obtain rb' where rb': "\<And>dec now. ReadToEnd dec now (pass_clock env 1) [] op3 content ?rb =
      map_option (\<lambda>sent. (sent, rb')) (emit_all dec now op3 (reader_attributes ?rb) ?ts)"
    "line_reader op3 rb'" "Offset rb' = length (text_of ls)" "tracks (fingerprintSize op3) content rb'"
    "generation rb' = generation ?rb" "reader_attributes rb' = reader_attributes ?rb"
    by (rule fresh_pass [OF same3(1) content(1) plain3(1) content(3) plain3(2) old old0, of "pass_clock env 1"]) simp_all
  have emit3: "emit_all dec now op3 fa ts = emit_all dec now op fa ts" for dec now fa ts by (simp add: op3_def op2_def)
  have read: "read_files env 0 ?op2 [?a] =
      map_option (\<lambda>sent. (sent, op3)) (emit_all (poll_decode env) (poll_now env) op (attributes_of env p) ?ts)"
    using r'(1) by (simp add: op2_def op3_def data NewReader_def split: option.split)
  have b3: "fmlookup (heap op3) b = Some (Some i, ?rb)" using b config(2) by (simp add: op3_def op2_def)
  then have lost: "lost_readers op3 [?a] = [b]"
    using op(7) same3(4) by (simp add: lost_readers_def fingerprint_at_def reader_at_def StartsWith_def)
  have "\<exists>op4. roll env (Suc 0) op3 [?a] =
      map_option (\<lambda>sent. (sent, op4)) (emit_all (poll_decode env) (poll_now env) op (reader_attributes rb) ?ts)"
    using rb'(1) by (auto simp: roll_def lost b3 data emit3 option.map_comp o_def split: option.split)
  then obtain op4 where roll: "roll env (Suc 0) op3 [?a] =
      map_option (\<lambda>sent. (sent, op4)) (emit_all (poll_decode env) (poll_now env) op (reader_attributes rb) ?ts)" by blast
  show ?thesis unfolding poll_def batch prod.case readers read Let_def
    by (cases "emit_all (poll_decode env) (poll_now env) op (attributes_of env p) ?ts")
      (simp_all del: read_files.simps add: roll option.map_comp o_def split: option.split)
qed

text \<open>
  C5: a file whose first line is incomplete when it is first seen has its first lines delivered twice,
  with the configuration of C4.
  Let the first poll of a file input that splits at newlines see the non-empty beginning of a line, and
  the second poll the same file with the line complete, and let the file be shorter than the
  fingerprint.  The pass of the first poll ends with a read of nothing, which cuts the fingerprint at
  the offset, that is to nothing.  So the second poll does not know the file again and reads it with a
  new reader, and the roller takes the first reader for one whose file was moved away and reads it to
  its end: the same lines come out of both.
\<close>

theorem incomplete_line_twice:
  assumes build: "FileInputConfig_Build benv compile lg now c = Inr op0" "plain_config c"
      "FileInput_Start d env s op0 = Inr op" "disk_get d s knownFilesKey = Inr None"
    and views: "sees op (env1, p, part)" "sees op (env2, p, text_of ls @ rst)"
      "path_file env1 p = Some i" "path_file env2 p = Some i"
    and part: "part \<noteq> []" "LF \<notin> set part" "length part < fingerprintSize op" "length part < max 16384 (MaxLogSize op)"
    and lines: "ls \<noteq> []" "\<forall>l \<in> set ls. plain_line (MaxLogSize op) l" "LF \<notin> set rst" "length rst < max 16384 (MaxLogSize op)"
  shows "map_option fst (polls d [env1, env2] op s) =
    (case emit_all (poll_decode env2) (poll_now env2) op (attributes_of env2 p) (map (the \<circ> line_token) ls) of
       None \<Rightarrow> None
     | Some sent \<Rightarrow> map_option ((@) sent)
         (emit_all (poll_decode env2) (poll_now env2) op (attributes_of env1 p) (map (the \<circ> line_token) ls)))"
proof -
  have op: "ready op" "idle op" using built_ready [OF build] by blast+
  from poll_first_incomplete [OF op views(1) part(1) views(3) part(2-4), of d s]
  obtain op1 s1 b rb where one: "poll d env1 op s = Some ([], op1, s1)" "ready op1" "same_emission op op1"
    "fingerprintSize op1 = fingerprintSize op" "knownFiles op1 = [b]" "oldReaders op1 = [b]"
    "fmlookup (heap op1) b = Some (Some i, rb)" "line_reader op1 rb" "Offset rb = 0"
    "FirstBytes (Fingerprint rb) = []" "reader_attributes rb = attributes_of env1 p" by (elim exE conjE)
  have sees: "sees op1 (env2, p, text_of ls @ rst)" using views(2) same_config(1) [OF one(3)] by simp
  have ne: "text_of ls @ rst \<noteq> []" using lines(1) by (cases ls) simp_all
  have plain: "\<forall>l \<in> set ls. plain_line (MaxLogSize op1) l" "length rst < max 16384 (MaxLogSize op1)"
    using lines(2,4) same_config(2) [OF one(3)] by simp_all
  have emit: "emit_all dec now op1 fa ts = emit_all dec now op fa ts" for dec now fa ts
    using one(3) by (simp add: same_emission_def)
  have "map_option fst (polls d [env1, env2] op s) = map_option fst (poll d env2 op1 s1)"
    by (auto simp: one(1) option.map_comp o_def split: option.split)
  then show ?thesis
    using poll_lost [OF one(2,5-10) sees ne views(4) refl plain(1) lines(3) plain(2), of d s1] by (simp add: emit one(11) del: polls.simps cong: option.case_cong)
qed

theorem incomplete_line_twice_witness:
  "\<exists>op0 op. FileInputConfig_Build sample_env (\<lambda>_. Inl (StdError [])) True 0 sample_config = Inr op0
    \<and> FileInput_Start no_disk (sample_poll ''/x'' []) () op0 = Inr op
    \<and> map_option fst (polls no_disk [sample_poll ''/x'' ''ab'', sample_poll ''/x'' (''abc'' @ [LF])] op ())
      = (case emit_all Inr (GTime 0 0 ''UTC'') op (attributes_of (sample_poll ''/x'' []) ''/x'') [''abc''] of
           None \<Rightarrow> None
         | Some sent \<Rightarrow> map_option ((@) sent)
             (emit_all Inr (GTime 0 0 ''UTC'') op (attributes_of (sample_poll ''/x'' []) ''/x'') [''abc'']))"
proof -
  obtain op0 where op0: "FileInputConfig_Build sample_env (\<lambda>_. Inl (StdError [])) True 0 sample_config = Inr op0"
    "op_finder op0 = \<lparr>Include = [''*''], Exclude = []\<rparr>" "fingerprintSize op0 = 1000" by (rule sample_build)
  let ?op = "op0\<lparr>firstCheck := True, knownFiles := []\<rparr>"
  have disk: "disk_get no_disk () knownFilesKey = Inr None" by (simp add: no_disk_def)
  have sees: "sees ?op (sample_poll p c, p, c)" for p c by (rule sample_sees) (simp add: op0(2))
  have t: "line_token ''abc'' = Some ''abc''"
    by (simp add: line_token_def trimWhitespaces_def trim_suffix_def has_suffix_def trim_right_def)
  have file2: "sees ?op (sample_poll ''/x'' (''abc'' @ [LF]), ''/x'', text_of [''abc''] @ [])" using sees by simp
  have "map_option fst (polls no_disk [sample_poll ''/x'' ''ab'', sample_poll ''/x'' (''abc'' @ [LF])] ?op ())
      = (case emit_all (poll_decode (sample_poll ''/x'' (''abc'' @ [LF]))) (poll_now (sample_poll ''/x'' (''abc'' @ [LF]))) ?op
           (attributes_of (sample_poll ''/x'' (''abc'' @ [LF])) ''/x'') (map (the \<circ> line_token) [''abc'']) of
           None \<Rightarrow> None
         | Some sent \<Rightarrow> map_option ((@) sent)
             (emit_all (poll_decode (sample_poll ''/x'' (''abc'' @ [LF]))) (poll_now (sample_poll ''/x'' (''abc'' @ [LF]))) ?op
               (attributes_of (sample_poll ''/x'' ''ab'') ''/x'') (map (the \<circ> line_token) [''abc''])))"
    by (rule incomplete_line_twice [OF op0(1) sample_plain no_disk_Start disk sees file2, where i = 0])
      (use t op0(3) in \<open>simp_all add: plain_line_def less_max_iff_disj sample_poll_def\<close>)
  then show ?thesis using op0(1) no_disk_Start t
    by (intro exI [of _ op0] exI [of _ ?op]) (simp add: sample_poll_simps del: polls.simps emit_all.simps emit_all_heap cong: option.case_cong)
qed

section \<open>A restart\<close>

text \<open>What JSON keeps of a reader.\<close>

definition memory :: "Reader \<Rightarrow> string \<times> nat" where
  "memory r = (FirstBytes (Fingerprint r), Offset r)"

definition remembered :: "'a FileOperator_scheme \<Rightarrow> (string \<times> nat) list" where
  "remembered op = map memory (List.map_filter (reader_at op) (knownFiles op))"

lemma find_map: "map_option f (List.find (\<lambda>x. P (f x)) xs) = List.find P (map f xs)"
  by (induction xs) simp_all

lemma map_filter_rev: "List.map_filter f (rev xs) = rev (List.map_filter f xs)"
  by (simp add: List.map_filter_def rev_map rev_filter)

lemma StartsWith_first: "StartsWith f old = StartsWith f \<lparr>FirstBytes = fst (memory r), spare = []\<rparr>" if "old = Fingerprint r"
  by (simp add: StartsWith_def memory_def that)

lemma findFingerprintMatch_remembered:
  "map_option memory (findFingerprintMatch op fp) =
     List.find (\<lambda>m. StartsWith fp \<lparr>FirstBytes = fst m, spare = []\<rparr>) (rev (remembered op))"
proof -
  have "(\<lambda>r. StartsWith fp (Fingerprint r)) = (\<lambda>r. StartsWith fp \<lparr>FirstBytes = fst (memory r), spare = []\<rparr>)"
    using StartsWith_first by blast
  then show ?thesis
    by (simp add: findFingerprintMatch_def remembered_def map_filter_rev rev_map find_map [symmetric])
qed

lemma getMultiline_known [simp]:
  "getMultiline env (op\<lparr>heap := h\<rparr>) = getMultiline env op" "getMultiline env (op\<lparr>next_address := n\<rparr>) = getMultiline env op"
  "getMultiline env (op\<lparr>knownFiles := ks\<rparr>) = getMultiline env op" "getMultiline env (op\<lparr>firstCheck := b\<rparr>) = getMultiline env op"
  by (simp_all add: getMultiline_def)

lemma load_each_remembered:
  fixes op :: "'a FileOperator_scheme"
  shows "getMultiline env op = Inr sp \<Longrightarrow> \<forall>a \<in> set (knownFiles op). a < next_address op \<Longrightarrow>
    \<exists>op'. load_each env op known = Inr op' \<and> remembered op' = remembered op @ known"
proof (induction known arbitrary: op)
  case (Cons k known)
  obtain fp off where k: "k = (fp, off)" by (cases k)
  let ?r = "(NewReader (attributes_of env []) (decoded_fingerprint fp) sp)\<lparr>Offset := off\<rparr>"
  let ?op = "op\<lparr>heap := fmupd (next_address op) (None, ?r) (heap op), next_address := Suc (next_address op),
    knownFiles := knownFiles op @ [next_address op]\<rparr>"
  have "reader_at ?op a = reader_at op a" if "a \<in> set (knownFiles op)" for a
    using that Cons.prems(2) by (auto simp: reader_at_def)
  then have "List.map_filter (reader_at ?op) (knownFiles op) = List.map_filter (reader_at op) (knownFiles op)"
    by (auto simp: List.map_filter_def intro!: map_cong filter_cong)
  moreover have "reader_at ?op (next_address op) = Some ?r" by (simp add: reader_at_def)
  ultimately have "remembered ?op = remembered op @ [k]"
    by (simp add: remembered_def k memory_def NewReader_def decoded_fingerprint_def List.map_filter_def)
  moreover have "\<exists>op'. load_each env ?op known = Inr op' \<and> remembered op' = remembered ?op @ known"
    using Cons.prems by (intro Cons.IH) auto
  moreover have "load_each env op (k # known) = load_each env ?op known"
    using Cons.prems(1) by (simp add: k allocate_def)
  ultimately show ?case by auto
qed simp

text \<open>Any persister will do.\<close>

context persister
begin

lemma sync_then_load:
  assumes "disk_get d = get" "disk_put d = put" "\<And>known. json_decode d (json_encode d known) = Inr known"
    and "\<And>s k v. snd (put s k v) = None" "getMultiline env op0 = Inr sp"
  shows "\<exists>op'. FileInput_Start d env (syncLastPollFiles d op s) op0 = Inr op' \<and> remembered op' = remembered op"
proof -
  let ?known = "map (\<lambda>r. (FirstBytes (Fingerprint r), Offset r)) (List.map_filter (reader_at op) (knownFiles op))"
  let ?op = "op0\<lparr>firstCheck := True, knownFiles := []\<rparr>"
  have "get (fst (put s knownFilesKey (json_encode d ?known))) knownFilesKey = Inr (Some (json_encode d ?known))"
    using assms(4) [of s knownFilesKey "json_encode d ?known"] by (intro get_put) (simp add: prod_eq_iff)
  then have start: "FileInput_Start d env (syncLastPollFiles d op s) op0 =
      map_sum (\<lambda>err. StdError (''read known files from database: '' @ error_text err)) id (load_each env ?op ?known)"
    by (simp add: FileInput_Start_def loadLastPollFiles_def syncLastPollFiles_def assms(1-3))
  have "remembered ?op = []" by (simp add: remembered_def List.map_filter_def)
  moreover have "?known = remembered op" by (simp add: remembered_def memory_def)
  ultimately show ?thesis using load_each_remembered [of env ?op sp ?known] assms(5) start by auto
qed

end

text \<open>
  C6: a restart loses no position.  When a file input has written its known files to its scope of the
  store, a new one that starts from the store finds for every fingerprint the reader that the old one
  would have found: the same known bytes and the same offset, or none where the old one found none.
  JSON is taken to decode what it encoded.
\<close>

theorem restart_resumes:
  assumes d: "disk_get d = scoped_Get mock_Get scope" "disk_put d = scoped_Set mock_Set scope"
      "\<And>known. json_decode d (json_encode d known) = Inr known"
    and splitter: "getMultiline env op0 = Inr sp"
  shows "\<exists>op'. FileInput_Start d env (syncLastPollFiles d op s) op0 = Inr op'
    \<and> (\<forall>fp. map_option (\<lambda>r. (FirstBytes (Fingerprint r), Offset r)) (findFingerprintMatch op' fp)
          = map_option (\<lambda>r. (FirstBytes (Fingerprint r), Offset r)) (findFingerprintMatch op fp))"
proof -
  have "snd (scoped_Set mock_Set scope s k v) = None" for s k v by (simp add: scoped_Set_def mock_Set_def)
  then obtain op' where op': "FileInput_Start d env (syncLastPollFiles d op s) op0 = Inr op'" "remembered op' = remembered op"
    using mock_scoped.sync_then_load [OF d _ splitter] by blast
  have "(\<lambda>r. (FirstBytes (Fingerprint r), Offset r)) = memory" by (simp add: memory_def fun_eq_iff)
  then show ?thesis using op' by (simp add: findFingerprintMatch_remembered)
qed

text \<open>An encoding of known files for the witness: each byte after a mark, the offset in unary.\<close>

definition sample_encode :: "(string \<times> nat) list \<Rightarrow> string" where
  "sample_encode known = concat (map (\<lambda>(fp, n). concat (map (\<lambda>c. [CHR ''c'', c]) fp) @ replicate n (CHR ''n'') @ '';'') known)"

fun sample_decode :: "string \<Rightarrow> nat \<Rightarrow> string \<Rightarrow> (string \<times> nat) list" where
  "sample_decode fp n (x # y # r) =
     (if x = CHR ''c'' then sample_decode (fp @ [y]) n r
      else if x = CHR ''n'' then sample_decode fp (Suc n) (y # r)
      else (fp, n) # sample_decode [] 0 (y # r))"
| "sample_decode fp n [x] = [(fp, n)]"
| "sample_decode fp n [] = []"

lemma sample_decode_bytes: "r \<noteq> [] \<Longrightarrow> sample_decode fp n (concat (map (\<lambda>c. [CHR ''c'', c]) bs) @ r) = sample_decode (fp @ bs) n r"
  by (induction bs arbitrary: fp) auto

lemma sample_decode_offset: "sample_decode fp n (replicate k (CHR ''n'') @ CHR '';'' # r) = sample_decode fp (n + k) (CHR '';'' # r)"
proof (induction k arbitrary: n)
  case (Suc k)
  obtain y z where yz: "replicate k (CHR ''n'') @ CHR '';'' # r = y # z" by (cases k) simp_all
  with Suc [of "Suc n"] show ?case by simp
qed simp

lemma sample_decode_encode: "sample_decode [] 0 (sample_encode known) = known"
proof (induction known)
  case (Cons k known)
  obtain fp n where k: "k = (fp, n)" by (cases k)
  have "sample_decode [] 0 (sample_encode (k # known)) = sample_decode fp n (CHR '';'' # sample_encode known)"
    by (simp add: sample_encode_def k sample_decode_bytes sample_decode_offset)
  also have "\<dots> = (fp, n) # sample_decode [] 0 (sample_encode known)" by (cases "sample_encode known") simp_all
  finally show ?case using Cons by (simp add: k)
qed (simp add: sample_encode_def)

theorem restart_resumes_witness:
  "\<exists>op0 op'. FileInputConfig_Build sample_env (\<lambda>_. Inl (StdError [])) True 0 sample_config = Inr op0
    \<and> FileInput_Start \<lparr>disk_get = scoped_Get mock_Get ''f'', disk_put = scoped_Set mock_Set ''f'',
        json_encode = sample_encode, json_decode = \<lambda>s. Inr (sample_decode [] 0 s)\<rparr> (sample_poll ''/x'' [])
        (syncLastPollFiles \<lparr>disk_get = scoped_Get mock_Get ''f'', disk_put = scoped_Set mock_Set ''f'',
           json_encode = sample_encode, json_decode = \<lambda>s. Inr (sample_decode [] 0 s)\<rparr>
           (op0\<lparr>heap := fmupd 0 (None, (NewReader \<lparr>fa_Name = [], fa_Path = [], fa_ResolvedName = [], fa_ResolvedPath = []\<rparr>
              (NewFingerprint 1000 ''abc'') (newline_splitter_at 0))\<lparr>Offset := 3\<rparr>) fmempty, knownFiles := [0]\<rparr>) fmempty) op0 = Inr op'
    \<and> map_option (\<lambda>r. (FirstBytes (Fingerprint r), Offset r)) (findFingerprintMatch op' (NewFingerprint 1000 ''abcd''))
      = Some (''abc'', 3)"
proof -
  let ?d = "\<lparr>disk_get = scoped_Get mock_Get ''f'', disk_put = scoped_Set mock_Set ''f'',
        json_encode = sample_encode, json_decode = \<lambda>s. Inr (sample_decode [] 0 s)\<rparr>"
  obtain op0 where op0: "FileInputConfig_Build sample_env (\<lambda>_. Inl (StdError [])) True 0 sample_config = Inr op0"
    by (rule sample_build)
  let ?r = "(NewReader \<lparr>fa_Name = [], fa_Path = [], fa_ResolvedName = [], fa_ResolvedPath = []\<rparr>
              (NewFingerprint 1000 ''abc'') (newline_splitter_at 0))\<lparr>Offset := 3\<rparr>"
  let ?op = "op0\<lparr>heap := fmupd 0 (None, ?r) fmempty, knownFiles := [0]\<rparr>"
  have "disk_get no_disk () knownFilesKey = Inr None" by (simp add: no_disk_def)
  from built_ready [OF op0 sample_plain no_disk_Start this]
  have "ready (op0\<lparr>firstCheck := True, knownFiles := []\<rparr>)" by blast
  then have splitter: "getMultiline (sample_poll ''/x'' []) op0 = Inr (newline_splitter_at 0)"
    using getMultiline_lines [of op0 "sample_poll ''/x'' []"] by (simp add: ready_def) (simp add: sample_poll_def)
  have "List.find (\<lambda>r. StartsWith (NewFingerprint 1000 ''abcd'') (Fingerprint r)) [?r] = Some ?r"
    by (simp add: StartsWith_def NewFingerprint_def NewReader_def)
  then have "findFingerprintMatch ?op (NewFingerprint 1000 ''abcd'') = Some ?r"
    by (simp add: findFingerprintMatch_def reader_at_def List.map_filter_def)
  moreover have "FirstBytes (Fingerprint ?r) = ''abc''" "Offset ?r = 3" by (simp_all add: NewReader_def NewFingerprint_def)
  moreover have d: "disk_get ?d = scoped_Get mock_Get ''f''" "disk_put ?d = scoped_Set mock_Set ''f''"
    "json_decode ?d (json_encode ?d known) = Inr known" for known by (simp_all add: sample_decode_encode)
  from restart_resumes [OF d splitter, of ?op fmempty] obtain op' where
    "FileInput_Start ?d (sample_poll ''/x'' []) (syncLastPollFiles ?d ?op fmempty) op0 = Inr op'"
    "map_option (\<lambda>r. (FirstBytes (Fingerprint r), Offset r)) (findFingerprintMatch op' (NewFingerprint 1000 ''abcd''))
       = map_option (\<lambda>r. (FirstBytes (Fingerprint r), Offset r)) (findFingerprintMatch ?op (NewFingerprint 1000 ''abcd''))"
    by blast
  ultimately show ?thesis using op0 by (intro exI [of _ op0] exI [of _ op']) simp
qed

section \<open>Batches\<close>

text \<open>The paths that the next polls take up, whatever happens to the readers in between.\<close>

fun batches :: "(nat \<Rightarrow> poll_env) \<Rightarrow> nat \<Rightarrow> nat \<Rightarrow> 'a FileOperator_scheme \<Rightarrow> string list list \<times> 'a FileOperator_scheme" where
  "batches envs k 0 op = ([], op)"
| "batches envs k (Suc n) op =
     (case next_batch (envs k) op of (b, op) \<Rightarrow> apfst (Cons b) (batches envs (Suc k) n op))"

definition batch_size :: "'a FileOperator_scheme \<Rightarrow> nat" where
  "batch_size op = MaxConcurrentFiles op div 2"

lemma batches_queue:
  fixes op :: "'a FileOperator_scheme"
  shows "0 < batch_size op \<Longrightarrow> queuedMatches op \<noteq> [] \<Longrightarrow>
    \<exists>n bs op'. n \<le> Suc ((length (queuedMatches op) - 1) div batch_size op) \<and> batches envs k n op = (bs, op')
      \<and> concat bs = queuedMatches op \<and> queuedMatches op' = [] \<and> (\<forall>b \<in> set bs. length b \<le> batch_size op)"
proof (induction "length (queuedMatches op)" arbitrary: op k rule: less_induct)
  case less
  let ?b = "batch_size op" and ?q = "queuedMatches op"
  show ?case
  proof (cases "length ?q > ?b")
    case True
    let ?op = "op\<lparr>queuedMatches := drop ?b ?q\<rparr>"
    have taken: "next_batch (envs k) op = (take ?b ?q, ?op)" using True by (simp add: next_batch_def Let_def batch_size_def)
    have "length (queuedMatches ?op) < length ?q" "queuedMatches ?op \<noteq> []" "batch_size ?op = ?b"
      using True less.prems(1) by (simp_all add: batch_size_def)
    then obtain n bs op' where n: "n \<le> Suc ((length ?q - ?b - 1) div ?b)" "batches envs (Suc k) n ?op = (bs, op')"
      "concat bs = drop ?b ?q" "queuedMatches op' = []" "\<forall>b \<in> set bs. length b \<le> ?b"
      using less.hyps [of ?op "Suc k"] less.prems(1) by auto
    have "Suc ((length ?q - ?b - 1) div ?b) = (length ?q - ?b - 1 + ?b) div ?b" using less.prems(1) by simp
    also have "length ?q - ?b - 1 + ?b = length ?q - 1" using True by simp
    finally have "Suc n \<le> Suc ((length ?q - 1) div ?b)" using n(1) by simp
    moreover have "batches envs k (Suc n) op = (take ?b ?q # bs, op')" by (simp add: taken n(2))
    ultimately show ?thesis using n(3-5)
      by (intro exI [of _ "Suc n"] exI [of _ "take ?b ?q # bs"] exI [of _ op']) simp
  next
    case False
    then have "batches envs k 1 op = ([?q], op\<lparr>queuedMatches := []\<rparr>)"
      using less.prems(2) by (simp add: next_batch_def Let_def batch_size_def)
    with False show ?thesis
      by (intro exI [of _ 1] exI [of _ "[?q]"] exI [of _ "op\<lparr>queuedMatches := []\<rparr>"]) simp
  qed
qed

lemma add_matches_distinct:
  "distinct found \<Longrightarrow> distinct (add_matches env f ms found)"
  "x \<in> set (add_matches env f ms found) \<longleftrightarrow>
     x \<in> set found \<or> x \<in> set ms \<and> \<not> (\<exists>e \<in> set (Exclude f). PathMatch env e x)"
  unfolding add_matches_def by (induction ms arbitrary: found) auto

lemma FindFiles_fold:
  "distinct found \<Longrightarrow> distinct (foldl (\<lambda>found inc. add_matches env f (Glob env inc) found) found incs)"
  "x \<in> set (foldl (\<lambda>found inc. add_matches env f (Glob env inc) found) found incs) \<longleftrightarrow>
     x \<in> set found \<or> (\<exists>inc \<in> set incs. x \<in> set (Glob env inc)) \<and> \<not> (\<exists>e \<in> set (Exclude f). PathMatch env e x)"
  by (induction incs arbitrary: found) (auto simp: add_matches_distinct)

text \<open>
  C19: every file that matches is taken up, once, and never more than half of \<open>max_concurrent_files\<close> at
  a time.  Let a poll of a built file input begin with an empty queue.  Then this poll and the next
  ones take, in batches of at most that size, exactly the paths that match an include pattern and no
  exclude pattern, each path once; the number of polls is the number of full batches, rounded up, and
  afterwards the queue is empty again.
\<close>

theorem batches_take_all:
  assumes build: "FileInputConfig_Build benv compile lg now c = Inr op0"
    and op: "MaxConcurrentFiles op = MaxConcurrentFiles op0" "queuedMatches op = []"
  shows "\<exists>n bs op'. batches envs 0 n op = (bs, op')
    \<and> n \<le> Suc ((length (FindFiles (envs 0) (op_finder op)) - 1) div (MaxConcurrentFiles op div 2))
    \<and> (\<forall>p. p \<in> set (concat bs) \<longleftrightarrow> (\<exists>inc \<in> set (Include (op_finder op)). p \<in> set (Glob (envs 0) inc))
          \<and> \<not> (\<exists>e \<in> set (Exclude (op_finder op)). PathMatch (envs 0) e p))
    \<and> distinct (concat bs) \<and> (\<forall>b \<in> set bs. length b \<le> MaxConcurrentFiles op div 2) \<and> queuedMatches op' = []"
proof -
  have "2 \<le> MaxConcurrentFiles op0" using build
    by (auto simp: FileInputConfig_Build_def FileInput.defs FileOperator.defs InputOperator.defs Let_def
        split: sum.splits option.splits if_splits)
  then have b: "0 < batch_size op" using op(1) by (simp add: batch_size_def)
  let ?ms = "FindFiles (envs 0) (op_finder op)"
  have "\<exists>n bs op'. batches envs 0 n op = (bs, op') \<and> n \<le> Suc ((length ?ms - 1) div batch_size op)
    \<and> concat bs = ?ms \<and> (\<forall>b \<in> set bs. length b \<le> batch_size op) \<and> queuedMatches op' = []"
  proof (cases "length ?ms > batch_size op")
    case False
    then have "batches envs 0 1 op = ([?ms], bump_known op)"
      using op(2) by (simp add: next_batch_def Let_def batch_size_def)
    with False op(2) show ?thesis by (intro exI [of _ 1] exI [of _ "[?ms]"]) simp
  next
    case True
    let ?op = "(bump_known op)\<lparr>queuedMatches := drop (batch_size op) ?ms\<rparr>"
    have same: "batch_size ?op = batch_size op" by (simp add: batch_size_def bump_known_def)
    have taken: "next_batch (envs 0) op = (take (batch_size op) ?ms, ?op)"
      using True op(2) same by (simp add: next_batch_def Let_def batch_size_def bump_known_def)
    obtain n bs op' where n: "n \<le> Suc ((length ?ms - batch_size op - 1) div batch_size op)"
      "batches envs (Suc 0) n ?op = (bs, op')" "concat bs = drop (batch_size op) ?ms" "queuedMatches op' = []"
      "\<forall>b \<in> set bs. length b \<le> batch_size op"
      using batches_queue [of ?op envs "Suc 0"] True b same by auto
    have "Suc ((length ?ms - batch_size op - 1) div batch_size op) =
        (length ?ms - batch_size op - 1 + batch_size op) div batch_size op" using b by simp
    also have "length ?ms - batch_size op - 1 + batch_size op = length ?ms - 1" using True by simp
    finally have "Suc n \<le> Suc ((length ?ms - 1) div batch_size op)" using n(1) by simp
    then show ?thesis using n(2-5)
      by (intro exI [of _ "Suc n"] exI [of _ "take (batch_size op) ?ms # bs"] exI [of _ op']) (simp add: taken)
  qed
  then obtain n bs op' where n: "batches envs 0 n op = (bs, op')" "n \<le> Suc ((length ?ms - 1) div batch_size op)"
    "concat bs = ?ms" "\<forall>b \<in> set bs. length b \<le> batch_size op" "queuedMatches op' = []" by blast
  have "p \<in> set ?ms \<longleftrightarrow> (\<exists>inc \<in> set (Include (op_finder op)). p \<in> set (Glob (envs 0) inc))
      \<and> \<not> (\<exists>e \<in> set (Exclude (op_finder op)). PathMatch (envs 0) e p)" for p
    unfolding FindFiles_def FindFiles_fold(2) by simp
  moreover have "distinct ?ms" unfolding FindFiles_def by (rule FindFiles_fold(1)) simp
  ultimately show ?thesis using n unfolding batch_size_def n(3) [symmetric] by blast
qed

theorem batches_take_all_witness:
  "\<exists>op0 n bs op'. FileInputConfig_Build sample_env (\<lambda>_. Inl (StdError [])) True 0 sample_config = Inr op0
    \<and> batches (\<lambda>_. sample_poll ''/x'' []) 0 n (op0\<lparr>MaxConcurrentFiles := MaxConcurrentFiles op0\<rparr>) = (bs, op')
    \<and> ''/x'' \<in> set (concat bs) \<and> ''/y'' \<notin> set (concat bs) \<and> distinct (concat bs)"
proof -
  obtain op0 where op0: "FileInputConfig_Build sample_env (\<lambda>_. Inl (StdError [])) True 0 sample_config = Inr op0"
    "op_finder op0 = \<lparr>Include = [''*''], Exclude = []\<rparr>" by (rule sample_build)
  have "disk_get no_disk () knownFilesKey = Inr None" by (simp add: no_disk_def)
  from built_ready [OF op0(1) sample_plain no_disk_Start this] have "queuedMatches op0 = []" by (simp add: ready_def)
  then have "queuedMatches (op0\<lparr>MaxConcurrentFiles := MaxConcurrentFiles op0\<rparr>) = []" by simp
  from batches_take_all [OF op0(1) _ this, of "\<lambda>_. sample_poll ''/x'' []"] obtain n bs op' where
    n: "batches (\<lambda>_. sample_poll ''/x'' []) 0 n (op0\<lparr>MaxConcurrentFiles := MaxConcurrentFiles op0\<rparr>) = (bs, op')"
    "distinct (concat bs)"
    "\<forall>p. p \<in> set (concat bs) \<longleftrightarrow> (\<exists>inc \<in> set (Include (op_finder op0)). p \<in> set (Glob (sample_poll ''/x'' []) inc))
          \<and> \<not> (\<exists>e \<in> set (Exclude (op_finder op0)). PathMatch (sample_poll ''/x'' []) e p)" by auto
  have "''/x'' \<in> set (concat bs)" "''/y'' \<notin> set (concat bs)"
    unfolding n(3) [rule_format] op0(2) by (simp_all add: sample_poll_def)
  with op0(1) n(1,2) show ?thesis by blast
qed

end
