(* ===== verification/Transformers.thy ===== *)
theory Transformers
  imports Parser_Operators "HOL-Library.Log_Nat"
begin

text \<open>
  The operators that change one entry: \<open>operator/transformer/{add,copy,move,remove,retain,flatten,
  filter}\<close>.  A configured field may be unset (the zero \<open>entry.Field{}\<close>, \<open>None\<close> here); the checks of
  the \<open>Build\<close> methods compare with \<open>NilField\<close> only, and using an unset field panics.

  Values are trees, so what the code shares between two places of an entry (the maps below a copied
  value, the value of an add operator) is separate here; a \<open>copy\<close> of a map into itself, which ties a
  knot in the code, gives the old map as the child of the new one.
\<close>

section \<open>Add\<close>

record AddOperatorConfig = TransformerConfig +
  cfgAddField :: "field option"
  cfgAddValue :: gval

record AddOperator = TransformerOperator +
  addField :: "field option"
  addValue :: gval
  addProgram :: "program option"

definition isExpr :: "string \<Rightarrow> bool" where
  "isExpr str \<longleftrightarrow> has_prefix str ''EXPR('' \<and> has_suffix str '')''"

definition AddOperatorConfig_Build ::
  "compiler \<Rightarrow> compiler \<Rightarrow> bool \<Rightarrow> 'a AddOperatorConfig_scheme \<Rightarrow> gerror + AddOperator" where
  "AddOperatorConfig_Build compileBool compile has_logger c =
     (case TransformerConfig_Build compileBool has_logger c of
        Inl err \<Rightarrow> Inl err
      | Inr t \<Rightarrow>
          (let plain = Inr (TransformerOperator.extend t
                 (AddOperator.fields (cfgAddField c) (cfgAddValue c) None)) in
           case cfgAddValue c of
             VString strVal \<Rightarrow>
               if \<not> isExpr strVal then plain
               else (case compile (trim_suffix (trim_prefix strVal ''EXPR('') '')'') of
                       Inl err \<Rightarrow> Inl (StdError (''failed to compile expression ''
                         @ quoted (cfgIfExpr c) @ '': '' @ error_text err))
                     | Inr compiled \<Rightarrow> Inr (TransformerOperator.extend t
                         (AddOperator.fields (cfgAddField c) VNil (Some compiled))))
           | _ \<Rightarrow> plain))"

definition set_or_panic :: "field option \<Rightarrow> gval \<Rightarrow> transform" where
  "set_or_panic f v e = map_option (\<lambda>f. field_Set f v e) f"

definition Add_Transform :: "'a AddOperator_scheme \<Rightarrow> transform" where
  "Add_Transform p e =
     (if addValue p \<noteq> VNil then set_or_panic (addField p) (addValue p) e
      else case addProgram p of
             Some program \<Rightarrow>
               (case program (GetExprEnv fmempty e) of
                  Inl err \<Rightarrow> Some (e, Some (StdError (''evaluate value_expr: '' @ error_text err)))
                | Inr result \<Rightarrow> set_or_panic (addField p) result e)
           | None \<Rightarrow> Some (e, Some (StdError (''add: missing required field '' @ quoted ''value''))))"

definition Add_Process :: "'a AddOperator_scheme \<Rightarrow> entry \<Rightarrow> outcome option" where
  "Add_Process p e = ProcessWith p e (Add_Transform p)"

section \<open>Copy and move\<close>

record FromToConfig = TransformerConfig +
  cfgFrom :: "field option"
  cfgTo :: "field option"

record FromToOperator = TransformerOperator +
  From :: "field option"
  To :: "field option"

definition CopyOperatorConfig_Build ::
  "compiler \<Rightarrow> bool \<Rightarrow> 'a FromToConfig_scheme \<Rightarrow> gerror + FromToOperator" where
  "CopyOperatorConfig_Build compile has_logger c =
     (case TransformerConfig_Build compile has_logger c of
        Inl err \<Rightarrow> Inl err
      | Inr t \<Rightarrow>
          if cfgFrom c = Some NilField then Inl (StdError ''copy: missing from field'')
          else if cfgTo c = Some NilField then Inl (StdError ''copy: missing to field'')
          else Inr (TransformerOperator.extend t (FromToOperator.fields (cfgFrom c) (cfgTo c))))"

definition Copy_Transform :: "'a FromToOperator_scheme \<Rightarrow> transform" where
  "Copy_Transform p e =
     (case From p of
        None \<Rightarrow> None
      | Some src \<Rightarrow>
          (case field_Get src e of
             None \<Rightarrow> Some (e, Some (StdError (''copy: from field does not exist in this entry: '' @ field_string src)))
           | Some val \<Rightarrow> set_or_panic (To p) val e))"

definition Copy_Process :: "'a FromToOperator_scheme \<Rightarrow> entry \<Rightarrow> outcome option" where
  "Copy_Process p e = ProcessWith p e (Copy_Transform p)"

definition MoveOperatorConfig_Build ::
  "compiler \<Rightarrow> bool \<Rightarrow> 'a FromToConfig_scheme \<Rightarrow> gerror + FromToOperator" where
  "MoveOperatorConfig_Build compile has_logger c =
     (case TransformerConfig_Build compile has_logger c of
        Inl err \<Rightarrow> Inl err
      | Inr t \<Rightarrow>
          if cfgTo c = Some NilField \<or> cfgFrom c = Some NilField
          then Inl (StdError ''move: missing to or from field'')
          else Inr (TransformerOperator.extend t (FromToOperator.fields (cfgFrom c) (cfgTo c))))"

definition Move_Transform :: "'a FromToOperator_scheme \<Rightarrow> transform" where
  "Move_Transform p e =
     (case From p of
        None \<Rightarrow> None
      | Some src \<Rightarrow>
          (case field_Delete src e of
             (e, None) \<Rightarrow> Some (e, Some (StdError ''move: field does not exist''))
           | (e, Some val) \<Rightarrow> set_or_panic (To p) val e))"

definition Move_Process :: "'a FromToOperator_scheme \<Rightarrow> entry \<Rightarrow> outcome option" where
  "Move_Process p e = ProcessWith p e (Move_Transform p)"

section \<open>Remove\<close>

record rootableField =
  rField :: "field option"
  allResource :: bool
  allAttributes :: bool

definition rootableField_unmarshal ::
  "('raw \<Rightarrow> gerror + string) \<Rightarrow> 'raw \<Rightarrow> gerror + rootableField" where
  "rootableField_unmarshal unmarshal raw =
     (case unmarshal raw of
        Inl err \<Rightarrow> Inl err
      | Inr s \<Rightarrow>
          if s = ResourcePrefix then Inr \<lparr>rField = None, allResource = True, allAttributes = False\<rparr>
          else if s = AttributesPrefix then Inr \<lparr>rField = None, allResource = False, allAttributes = True\<rparr>
          else map_sum id (\<lambda>f. \<lparr>rField = Some f, allResource = False, allAttributes = False\<rparr>) (NewField s))"

definition rootableField_Get :: "rootableField \<Rightarrow> entry \<Rightarrow> gval option option" where
  "rootableField_Get f e =
     (if allAttributes f \<or> allResource f then Some None
      else map_option (\<lambda>g. field_Get g e) (rField f))"

record RemoveOperatorConfig = TransformerConfig +
  cfgRemoveField :: rootableField

record RemoveOperator = TransformerOperator +
  removeField :: rootableField

definition RemoveOperatorConfig_Build ::
  "compiler \<Rightarrow> bool \<Rightarrow> 'a RemoveOperatorConfig_scheme \<Rightarrow> gerror + RemoveOperator" where
  "RemoveOperatorConfig_Build compile has_logger c =
     (case TransformerConfig_Build compile has_logger c of
        Inl err \<Rightarrow> Inl err
      | Inr t \<Rightarrow>
          if rField (cfgRemoveField c) = Some NilField then Inl (StdError ''remove: field is empty'')
          else Inr (TransformerOperator.extend t (RemoveOperator.fields (cfgRemoveField c))))"

definition Remove_Transform :: "'a RemoveOperator_scheme \<Rightarrow> transform" where
  "Remove_Transform p e =
     (if allAttributes (removeField p) then Some (e\<lparr>Attributes := None\<rparr>, None)
      else if allResource (removeField p) then Some (e\<lparr>Resource := None\<rparr>, None)
      else case rField (removeField p) of
             None \<Rightarrow> None
           | Some f \<Rightarrow>
               (case field_Delete f e of
                  (e, None) \<Rightarrow> Some (e, Some (StdError ''remove: field does not exist''))
                | (e, Some _) \<Rightarrow> Some (e, None)))"

definition Remove_Process :: "'a RemoveOperator_scheme \<Rightarrow> entry \<Rightarrow> outcome option" where
  "Remove_Process p e = ProcessWith p e (Remove_Transform p)"

section \<open>Retain\<close>

record RetainOperatorConfig = TransformerConfig +
  cfgRetainFields :: "field list"

record RetainOperator = TransformerOperator +
  Fields :: "field list"
  AllBodyFields :: bool
  AllAttributeFields :: bool
  AllResourceFields :: bool

fun retain_groups :: "field list \<Rightarrow> bool \<times> bool \<times> bool \<Rightarrow> bool \<times> bool \<times> bool" where
  "retain_groups [] groups = groups"
| "retain_groups (f # fs) (body, attributes, resource) =
     (if has_prefix (field_string f) ''resource'' then retain_groups fs (body, attributes, True)
      else if has_prefix (field_string f) ''attributes'' then retain_groups fs (body, True, resource)
      else retain_groups fs (True, attributes, resource))"

definition RetainOperatorConfig_Build ::
  "compiler \<Rightarrow> bool \<Rightarrow> 'a RetainOperatorConfig_scheme \<Rightarrow> gerror + RetainOperator" where
  "RetainOperatorConfig_Build compile has_logger c =
     (case TransformerConfig_Build compile has_logger c of
        Inl err \<Rightarrow> Inl err
      | Inr t \<Rightarrow>
          if cfgRetainFields c = [] then Inl (StdError (''retain: '' @ quoted ''fields'' @ '' is empty''))
          else (case retain_groups (cfgRetainFields c) (False, False, False) of
                  (body, attributes, resource) \<Rightarrow>
                    Inr (TransformerOperator.extend t
                      (RetainOperator.fields (cfgRetainFields c) body attributes resource))))"

fun retain_loop :: "field list \<Rightarrow> entry \<Rightarrow> entry \<Rightarrow> gerror + entry" where
  "retain_loop [] e newEntry = Inr newEntry"
| "retain_loop (f # fs) e newEntry =
     (case field_Get f e of
        None \<Rightarrow> retain_loop fs e newEntry
      | Some val \<Rightarrow>
          (case field_Set f val newEntry of
             (newEntry, Some err) \<Rightarrow> Inl err
           | (newEntry, None) \<Rightarrow> retain_loop fs e newEntry))"

text \<open>The new entry has the two timestamps of the old one and the groups that no field is in.\<close>

definition Retain_Transform :: "gtime \<Rightarrow> 'a RetainOperator_scheme \<Rightarrow> transform" where
  "Retain_Transform now p e =
     (let newEntry = (New now)\<lparr>ObservedTimestamp := ObservedTimestamp e, Timestamp := Timestamp e\<rparr>;
          newEntry = (if AllResourceFields p then newEntry else newEntry\<lparr>Resource := Resource e\<rparr>);
          newEntry = (if AllAttributeFields p then newEntry else newEntry\<lparr>Attributes := Attributes e\<rparr>);
          newEntry = (if AllBodyFields p then newEntry else newEntry\<lparr>Body := Body e\<rparr>)
      in case retain_loop (Fields p) e newEntry of
           Inl err \<Rightarrow> Some (e, Some err)
         | Inr newEntry \<Rightarrow> Some (newEntry, None))"

definition Retain_Process :: "gtime \<Rightarrow> 'a RetainOperator_scheme \<Rightarrow> entry \<Rightarrow> outcome option" where
  "Retain_Process now p e = ProcessWith p e (Retain_Transform now p)"

section \<open>Flatten\<close>

record FlattenOperatorConfig = TransformerConfig +
  cfgFlattenField :: "string list"

record FlattenOperator = TransformerOperator +
  flattenField :: "string list"

definition FlattenOperatorConfig_Build ::
  "compiler \<Rightarrow> bool \<Rightarrow> 'a FlattenOperatorConfig_scheme \<Rightarrow> gerror + FlattenOperator" where
  "FlattenOperatorConfig_Build compile has_logger c =
     (case TransformerConfig_Build compile has_logger c of
        Inl err \<Rightarrow> Inl err
      | Inr t \<Rightarrow>
          (let s = field_string (BodyField (cfgFlattenField c)) in
           if str_contains s ''attributes'' \<or> str_contains s ''resource''
           then Inl (StdError ''flatten: field cannot be a resource or attribute'')
           else Inr (TransformerOperator.extend t (FlattenOperator.fields (cfgFlattenField c)))))"

text \<open>The loop over the members, in ascending order of the keys (any order gives the same entry).\<close>

fun flatten_loop :: "string list \<Rightarrow> (string \<times> gval) list \<Rightarrow> entry \<Rightarrow> entry \<times> gerror option" where
  "flatten_loop parent [] e = (e, None)"
| "flatten_loop parent ((k, v) # rest) e =
     (case BodyField_Set (Child parent k) v e of
        (e, Some err) \<Rightarrow> (e, Some err)
      | (e, None) \<Rightarrow> flatten_loop parent rest e)"

definition Flatten_Transform :: "'a FlattenOperator_scheme \<Rightarrow> transform" where
  "Flatten_Transform p e =
     (let parent = Parent (flattenField p); name = field_string (BodyField (flattenField p)) in
      case BodyField_Delete (flattenField p) e of
        (e, None) \<Rightarrow> Some (e, Some (StdError (''apply flatten: field '' @ name @ '' does not exist on body'')))
      | (e, Some (VMap valMap)) \<Rightarrow> Some (flatten_loop parent (sorted_list_of_fmap valMap) e)
      | (e, Some val) \<Rightarrow>
          (case BodyField_Set (flattenField p) val e of
             (e, Some err) \<Rightarrow> Some (e, Some (Agent (Wrap err ''reset non-map field'')))
           | (e, None) \<Rightarrow> Some (e, Some (StdError (''apply flatten: field '' @ name @ '' is not a map'')))))"

definition Flatten_Process :: "'a FlattenOperator_scheme \<Rightarrow> entry \<Rightarrow> outcome option" where
  "Flatten_Process p e = ProcessWith p e (Flatten_Transform p)"

section \<open>Filter\<close>

text \<open>Rounding to the nearest \<open>float64\<close> with an exponent in the normal range, ties to even.\<close>

definition f64_round :: "rat \<Rightarrow> rat" where
  "f64_round r =
     (if r = 0 then 0
      else (case quotient_of r of (n, d) \<Rightarrow>
        let e = bitlen \<bar>n\<bar> - bitlen d;
            e = (if \<bar>r\<bar> < 2 powi e then e - 1 else e);
            ulp = 2 powi (e - 52)
        in of_int (round_half_even (r / ulp)) * ulp))"

record FilterOperatorConfig = TransformerConfig +
  Expression :: string
  DropRatio :: rat

record FilterOperator = TransformerOperator +
  filterExpression :: program
  dropCutoff :: int

definition NewFilterOperatorConfig :: "string \<Rightarrow> FilterOperatorConfig" where
  "NewFilterOperatorConfig i = TransformerConfig.extend (NewTransformerConfig i ''filter'')
     (FilterOperatorConfig.fields [] 1)"

definition FilterOperatorConfig_Build ::
  "compiler \<Rightarrow> bool \<Rightarrow> 'a FilterOperatorConfig_scheme \<Rightarrow> gerror + FilterOperator" where
  "FilterOperatorConfig_Build compile has_logger c =
     (case TransformerConfig_Build compile has_logger c of
        Inl err \<Rightarrow> Inl err
      | Inr t \<Rightarrow>
          (case compile (Expression c) of
             Inl err \<Rightarrow> Inl (StdError (''failed to compile expression '' @ quoted (Expression c)
               @ '': '' @ error_text err))
           | Inr compiledExpression \<Rightarrow>
               if DropRatio c < 0 \<or> DropRatio c > 1
               then Inl (StdError ''drop_ratio must be a number between 0 and 1'')
               else Inr (TransformerOperator.extend t (FilterOperator.fields compiledExpression
                 (int_of_float (f64_round (DropRatio c * 1000)))))))"

text \<open>The random number, from 0 to 999 or an error of its source, is an argument.\<close>

definition Filter_Process :: "gerror + int \<Rightarrow> 'a FilterOperator_scheme \<Rightarrow> entry \<Rightarrow> outcome" where
  "Filter_Process drawn f e =
     (case filterExpression f (GetExprEnv fmempty e) of
        Inl err \<Rightarrow> ([], None)
      | Inr (VBool filtered) \<Rightarrow>
          if \<not> filtered then (Write f e, None)
          else (case drawn of
                  Inl err \<Rightarrow> ([], Some err)
                | Inr i \<Rightarrow> if i \<ge> dropCutoff f then (Write f e, None) else ([], None))
      | Inr _ \<Rightarrow> ([], None))"

end
