(* ===== verification/Transformer_Laws.thy ===== *)
theory Transformer_Laws
  imports Transformers
begin

text \<open>
  What the transformers of \<^verbatim>\<open>Transformers\<close> do to an entry, in terms of what its fields read
  before and after.  The proofs use the interface \<open>nested_field\<close> of \<^verbatim>\<open>Field_Laws\<close> only.
\<close>

text \<open>The value a field reads after a value was written over an old one: maps are merged.\<close>

definition written :: "gval \<Rightarrow> gval option \<Rightarrow> gval" where
  "written v old = (case v of VMap m \<Rightarrow> VMap (map_at old ++\<^sub>f m) | _ \<Rightarrow> v)"

lemma map_at_None [simp]: "map_at None = fmempty"
  by (simp add: map_at_def)

lemma written_None [simp]: "written v None = v"
  by (cases v) (simp_all add: written_def)

lemma field_Set_written:
  assumes "nested f"
  shows "field_Get f (fst (field_Set f v e)) = Some (written v (field_Get f e))"
proof -
  note law = field_nested_field [OF assms]
  show ?thesis
    using nested_field.get_set [OF law, of v] nested_field.get_set_map [OF law]
    by (cases v) (auto simp: is_map_def written_def)
qed

lemma field_Set_pair: "nested f \<Longrightarrow> field_Set f v e = (fst (field_Set f v e), None)"
  using field_Set_ok by (simp add: prod_eq_iff)

lemma field_Delete_missing: "nested f \<Longrightarrow> field_Get f e = None \<Longrightarrow> field_Delete f e = (e, None)"
  using nested_field.delete_miss [OF field_nested_field] by blast

lemma field_Delete_found:
  "nested f \<Longrightarrow> field_Get f e = Some v \<Longrightarrow> field_Delete f e = (fst (field_Delete f e), Some v)"
  using nested_field.delete_hit [OF field_nested_field] by (simp add: prod_eq_iff)

lemma field_Get_deleted: "nested f \<Longrightarrow> field_Get f (fst (field_Delete f e)) = None"
  by (rule nested_field.get_delete [OF field_nested_field])

lemma separate_sym: "separate f g \<longleftrightarrow> separate g f"
  by (cases f; cases g) (auto simp: independent_sym)

section \<open>Move and copy\<close>

text \<open>
  C36: moving a field.  When the source field is missing, \<open>move\<close> is an error and the entry is as it
  was.  Otherwise it succeeds: the source reads as missing, the target reads as the value (merged
  into the map that was there, if both are maps), and every field apart from both places reads as
  before.  This is for two places below a root that do not overlap.
\<close>

theorem Move_effect:
  assumes "From p = Some src" "To p = Some dst" "nested src" "nested dst" "separate src dst"
    and run: "Move_Transform p e = Some (e', err)"
  shows "(field_Get src e = None \<longrightarrow> e' = e \<and> err \<noteq> None)
    \<and> (\<forall>v. field_Get src e = Some v \<longrightarrow> err = None \<and> field_Get src e' = None
         \<and> field_Get dst e' = Some (written v (field_Get dst e))
         \<and> (\<forall>g. separate src g \<and> separate dst g \<longrightarrow> field_Get g e' = field_Get g e))"
proof (cases "field_Get src e")
  case None
  then show ?thesis using assms by (auto simp: Move_Transform_def field_Delete_missing)
next
  case (Some v)
  let ?d = "fst (field_Delete src e)"
  have e': "e' = fst (field_Set dst v ?d)" "err = None"
    using run assms field_Delete_found [OF assms(3) Some] field_Set_pair [OF assms(4), of v ?d]
    by (auto simp: Move_Transform_def set_or_panic_def split: prod.splits)
  have "field_Get dst ?d = field_Get dst e" using field_frame(2) [OF assms(5)] .
  moreover have "separate dst src" using assms(5) separate_sym by blast
  ultimately show ?thesis
    using Some e' field_Set_written [OF assms(4)] field_frame field_Get_deleted [OF assms(3)] by simp
qed

theorem Move_effect_witness:
  "field_Get (AttributeField [''k'']) (fst (the (Move_Transform \<lparr>OperatorID = ''m'', OperatorType = ''move'',
      OutputIDs = [], OutputOperators = [], OnError = ''send'', IfExpr = None,
      From = Some (BodyField [''a'']), To = Some (AttributeField [''k''])\<rparr>
      ((New zero_time)\<lparr>Body := VMap (fmupd ''a'' (VInt 7) fmempty)\<rparr>)))) = Some (VInt 7)"
proof -
  let ?p = "\<lparr>OperatorID = ''m'', OperatorType = ''move'', OutputIDs = [], OutputOperators = [],
      OnError = ''send'', IfExpr = None, From = Some (BodyField [''a'']), To = Some (AttributeField [''k''])\<rparr>"
  let ?e = "(New zero_time)\<lparr>Body := VMap (fmupd ''a'' (VInt 7) fmempty)\<rparr>"
  have n: "nested (BodyField [''a''])" "nested (AttributeField [''k''])" by (simp_all add: nested_def)
  have get: "field_Get (BodyField [''a'']) ?e = Some (VInt 7)" by (simp add: BodyField_Get_def)
  obtain e' err where r: "Move_Transform ?p ?e = Some (e', err)"
    using that by (simp add: Move_Transform_def set_or_panic_def BodyField_Delete_def
        AttributeField_Set_def Let_def)
  from Move_effect [OF _ _ n _ r] get have "field_Get (AttributeField [''k'']) e'
      = Some (written (VInt 7) (field_Get (AttributeField [''k'']) ?e))" by simp
  then show ?thesis unfolding r by (simp add: written_def)
qed

text \<open>
  Copying a field.  A missing source is an error that leaves the entry alone.  Otherwise the
  target reads as the source did (merged into the map that was there, if both are maps), the source
  still reads the same, and every field apart from the target reads as before.
\<close>

lemma Copy_effect:
  assumes "From p = Some src" "To p = Some dst" "nested dst"
    and run: "Copy_Transform p e = Some (e', err)"
  shows "(field_Get src e = None \<longrightarrow> e' = e \<and> err \<noteq> None)
    \<and> (\<forall>v. field_Get src e = Some v \<longrightarrow> err = None
         \<and> field_Get dst e' = Some (written v (field_Get dst e))
         \<and> (\<forall>g. separate dst g \<longrightarrow> field_Get g e' = field_Get g e))"
proof (cases "field_Get src e")
  case None
  then show ?thesis using assms by (auto simp: Copy_Transform_def)
next
  case (Some v)
  have "e' = fst (field_Set dst v e)" "err = None"
    using run assms Some field_Set_pair [OF assms(3), of v e]
    by (auto simp: Copy_Transform_def set_or_panic_def split: prod.splits)
  then show ?thesis using Some field_Set_written [OF assms(3)] field_frame by simp
qed

lemma Copy_effect_sample:
  "field_Get (BodyField [''b'']) (fst (the (Copy_Transform \<lparr>OperatorID = ''c'', OperatorType = ''copy'',
      OutputIDs = [], OutputOperators = [], OnError = ''send'', IfExpr = None,
      From = Some (BodyField [''a'']), To = Some (BodyField [''b''])\<rparr>
      ((New zero_time)\<lparr>Body := VMap (fmupd ''a'' (VInt 7) fmempty)\<rparr>)))) = Some (VInt 7)"
proof -
  let ?p = "\<lparr>OperatorID = ''c'', OperatorType = ''copy'', OutputIDs = [], OutputOperators = [],
      OnError = ''send'', IfExpr = None, From = Some (BodyField [''a'']), To = Some (BodyField [''b''])\<rparr>"
  let ?e = "(New zero_time)\<lparr>Body := VMap (fmupd ''a'' (VInt 7) fmempty)\<rparr>"
  have n: "nested (BodyField [''b''])" by (simp add: nested_def)
  have get: "field_Get (BodyField [''a'']) ?e = Some (VInt 7)" by (simp add: BodyField_Get_def)
  obtain e' err where r: "Copy_Transform ?p ?e = Some (e', err)"
    using that by (simp add: Copy_Transform_def set_or_panic_def BodyField_Get_def BodyField_Set_def)
  from Copy_effect [OF _ _ n r] get have "field_Get (BodyField [''b'']) e'
      = Some (written (VInt 7) (field_Get (BodyField [''b'']) ?e))" by simp
  then show ?thesis unfolding r by (simp add: written_def)
qed

section \<open>Flatten\<close>

lemma independent_siblings: "independent (ks @ [a]) (ks @ [b]) \<longleftrightarrow> a \<noteq> b"
  by (auto simp: independent_def)

lemma independent_child: "independent ks js \<Longrightarrow> independent (ks @ [k]) js"
  by (auto simp: independent_def prefix_append dest: append_prefixD)

lemma nested_child: "nested (BodyField (ks @ [k]))"
  by (simp add: nested_def)

lemma separate_child: "separate (BodyField ks) g \<Longrightarrow> separate (BodyField (ks @ [k])) g"
  by (cases g) (auto simp: independent_child)

lemma flatten_loop_Cons:
  "flatten_loop ks ((k, v) # rest) e = flatten_loop ks rest (fst (BodyField_Set (ks @ [k]) v e))"
proof -
  have "BodyField_Set (Child ks k) v e = (fst (BodyField_Set (ks @ [k]) v e), None)"
    by (simp add: Child_def prod_eq_iff)
  then show ?thesis by simp
qed

declare flatten_loop.simps(2) [simp del]
declare flatten_loop_Cons [simp]

lemma flatten_loop_ok [simp]: "snd (flatten_loop ks kvs e) = None"
  by (induction kvs arbitrary: e) auto

lemma flatten_loop_get:
  "distinct (map fst kvs) \<Longrightarrow>
   BodyField_Get (ks @ [j]) (fst (flatten_loop ks kvs e)) =
     (case map_of kvs j of
        Some v \<Rightarrow> Some (written v (BodyField_Get (ks @ [j]) e))
      | None \<Rightarrow> BodyField_Get (ks @ [j]) e)"
proof (induction kvs arbitrary: e)
  case (Cons kv kvs)
  obtain k v where kv: "kv = (k, v)" by (cases kv)
  let ?e = "fst (BodyField_Set (ks @ [k]) v e)"
  have IH: "BodyField_Get (ks @ [j]) (fst (flatten_loop ks kvs ?e)) =
     (case map_of kvs j of Some v \<Rightarrow> Some (written v (BodyField_Get (ks @ [j]) ?e))
      | None \<Rightarrow> BodyField_Get (ks @ [j]) ?e)"
    using Cons by simp
  show ?case
  proof (cases "j = k")
    case True
    then have "map_of kvs j = None" using Cons.prems kv by (simp add: map_of_eq_None_iff)
    then show ?thesis
      using IH True kv field_Set_written [OF nested_child, of ks k v e] by simp
  next
    case False
    then show ?thesis
      using IH kv BodyField_frame(1) [of "ks @ [k]" "ks @ [j]" v e]
      by (simp add: independent_siblings cong: option.case_cong)
  qed
qed simp

lemma flatten_loop_frame:
  "separate (BodyField ks) g \<Longrightarrow> field_Get g (fst (flatten_loop ks kvs e)) = field_Get g e"
proof (induction kvs arbitrary: e)
  case (Cons kv kvs)
  obtain k v where kv: "kv = (k, v)" by (cases kv)
  have "field_Get g (fst (field_Set (BodyField (ks @ [k])) v e)) = field_Get g e"
    by (rule field_frame) (rule separate_child [OF Cons.prems])
  then show ?case using Cons kv by simp
qed simp

text \<open>
  Flattening a field of the body.  A field that is missing or holds no map is an error and the
  entry is as it was (the value that was taken out is put back).  Otherwise the map's members
  become members of the parent: each of them reads there as its value, merged into a map that the
  parent had under that name; the field itself is gone, unless a member has its name; the other
  members of the parent, and every field apart from the parent, read as before.
\<close>

lemma Flatten_effect:
  assumes field: "flattenField p = ks @ [k]" and run: "Flatten_Transform p e = Some (e', err)"
  shows "((\<forall>m. BodyField_Get (ks @ [k]) e \<noteq> Some (VMap m)) \<longrightarrow> e' = e \<and> err \<noteq> None)
    \<and> (\<forall>m. BodyField_Get (ks @ [k]) e = Some (VMap m) \<longrightarrow> err = None
         \<and> (\<forall>j. BodyField_Get (ks @ [j]) e' =
              (let old = if j = k then None else BodyField_Get (ks @ [j]) e
               in case fmlookup m j of Some v \<Rightarrow> Some (written v old) | None \<Rightarrow> old))
         \<and> (\<forall>g. separate (BodyField ks) g \<longrightarrow> field_Get g e' = field_Get g e))"
proof -
  let ?f = "BodyField (ks @ [k])"
  let ?d = "fst (field_Delete ?f e)"
  have parent: "Parent (flattenField p) = ks" by (simp add: field Parent_def isRoot_def)
  show ?thesis
  proof (cases "field_Get ?f e")
    case None
    with field_Delete_missing [OF nested_child None] run field show ?thesis
      by (auto simp: Flatten_Transform_def Let_def)
  next
    case (Some v)
    have found: "BodyField_Delete (ks @ [k]) e = (d, Some v)" if "d = ?d" for d
      using field_Delete_found [OF nested_child Some] that by simp
    show ?thesis
    proof (cases "is_map v")
      case False
      have "fst (field_Set ?f v ?d) = e"
        by (rule nested_field.set_delete [OF field_nested_field [OF nested_child]]) (use Some False in simp_all)
      then have "BodyField_Set (ks @ [k]) v ?d = (e, None)" by (simp add: prod_eq_iff)
      with False run field have "e' = e \<and> err \<noteq> None"
        unfolding Flatten_Transform_def Let_def field found [OF refl]
        by (cases v) (auto simp: is_map_def)
      with Some False show ?thesis by (auto simp: is_map_def)
    next
      case True
      then obtain m where m: "v = VMap m" by (auto simp: is_map_def)
      let ?kvs = "sorted_list_of_fmap m"
      have e': "e' = fst (flatten_loop ks ?kvs ?d)" "err = None"
        using run parent unfolding Flatten_Transform_def Let_def field found [OF refl] m
        by (simp_all add: prod_eq_iff)
      have dist: "distinct (map fst ?kvs)" by (simp add: sorted_list_of_fmap_def comp_def sorted_list_of_fset.rep_eq)
      have old: "BodyField_Get (ks @ [j]) ?d = (if j = k then None else BodyField_Get (ks @ [j]) e)" for j
        using field_Get_deleted [OF nested_child, of ks k e] BodyField_frame(2) [of "ks @ [k]" "ks @ [j]" e]
        by (auto simp: independent_siblings)
      have "field_Get g e' = field_Get g e" if "separate (BodyField ks) g" for g
        unfolding e'(1) using flatten_loop_frame [OF that] field_frame(2) [OF separate_child [OF that]]
        by simp
      moreover have "BodyField_Get (ks @ [j]) e' =
          (let old = if j = k then None else BodyField_Get (ks @ [j]) e
           in case fmlookup m j of Some v \<Rightarrow> Some (written v old) | None \<Rightarrow> old)" for j
        unfolding e'(1) flatten_loop_get [OF dist] old by (simp add: Let_def)
      ultimately show ?thesis using Some m e'(2) by auto
    qed
  qed
qed

lemma Flatten_effect_witness:
  "BodyField_Get [''x''] (fst (the (Flatten_Transform \<lparr>OperatorID = ''f'', OperatorType = ''flatten'',
      OutputIDs = [], OutputOperators = [], OnError = ''send'', IfExpr = None, flattenField = [''a'']\<rparr>
      ((New zero_time)\<lparr>Body := VMap (fmupd ''a'' (VMap (fmupd ''x'' (VInt 7) fmempty)) fmempty)\<rparr>))))
   = Some (VInt 7)"
proof -
  let ?p = "\<lparr>OperatorID = ''f'', OperatorType = ''flatten'', OutputIDs = [], OutputOperators = [],
      OnError = ''send'', IfExpr = None, flattenField = [''a'']\<rparr>"
  let ?e = "(New zero_time)\<lparr>Body := VMap (fmupd ''a'' (VMap (fmupd ''x'' (VInt 7) fmempty)) fmempty)\<rparr>"
  obtain e' err where r: "Flatten_Transform ?p ?e = Some (e', err)"
    using that by (simp add: Flatten_Transform_def BodyField_Delete_def) (metis surj_pair)
  have get: "BodyField_Get ([] @ [''a'']) ?e = Some (VMap (fmupd ''x'' (VInt 7) fmempty))"
    by (simp add: BodyField_Get_def)
  have "\<forall>j. BodyField_Get ([] @ [j]) e' =
      (let old = if j = ''a'' then None else BodyField_Get ([] @ [j]) ?e
       in case fmlookup (fmupd ''x'' (VInt 7) fmempty) j of Some v \<Rightarrow> Some (written v old) | None \<Rightarrow> old)"
    using Flatten_effect [OF _ r, of "[]" "''a''"] get by simp
  then have "BodyField_Get [''x''] e' = Some (written (VInt 7) (BodyField_Get [''x''] ?e))" by simp
  then show ?thesis unfolding r by (simp add: written_def)
qed

section \<open>Retain\<close>

fun same_group :: "field \<Rightarrow> field \<Rightarrow> bool" where
  "same_group (BodyField _) (BodyField _) = True"
| "same_group (AttributeField _) (AttributeField _) = True"
| "same_group (ResourceField _) (ResourceField _) = True"
| "same_group _ _ = False"

lemma same_group_iff:
  "same_group f (BodyField ks) \<longleftrightarrow> (\<exists>js. f = BodyField js)"
  "same_group f (AttributeField ks) \<longleftrightarrow> (\<exists>js. f = AttributeField js)"
  "same_group f (ResourceField ks) \<longleftrightarrow> (\<exists>js. f = ResourceField js)"
  by (cases f; simp)+

lemma toJSONDot_prefix: "\<exists>x. toJSONDot pre ks = pre @ x"
  by (auto simp: toJSONDot_def)

lemma field_string_group:
  "has_prefix (field_string f) ''resource'' \<longleftrightarrow> same_group (ResourceField []) f"
  "has_prefix (field_string f) ''attributes'' \<longleftrightarrow> same_group (AttributeField []) f"
proof -
  obtain x y z where "toJSONDot ''body'' (field_keys f) = ''body'' @ x"
    "toJSONDot ''attributes'' (field_keys f) = ''attributes'' @ y"
    "toJSONDot ''resource'' (field_keys f) = ''resource'' @ z"
    using toJSONDot_prefix by metis
  then show "has_prefix (field_string f) ''resource'' \<longleftrightarrow> same_group (ResourceField []) f"
    "has_prefix (field_string f) ''attributes'' \<longleftrightarrow> same_group (AttributeField []) f"
    by (cases f; simp add: has_prefix_def BodyPrefix_def AttributesPrefix_def ResourcePrefix_def)+
qed

lemma retain_groups_eq:
  "\<forall>f \<in> set fs. nested f \<Longrightarrow> retain_groups fs (b, a, r) =
     (b \<or> (\<exists>f \<in> set fs. same_group f (BodyField [])), a \<or> (\<exists>f \<in> set fs. same_group f (AttributeField [])),
      r \<or> (\<exists>f \<in> set fs. same_group f (ResourceField [])))"
proof (induction fs arbitrary: b a r)
  case (Cons f fs)
  then show ?case by (cases f) (simp_all add: field_string_group nested_def del: field_string.simps)
qed simp

lemma retain_loop_reads:
  assumes "\<forall>f \<in> set fs. nested f \<and> field_Get f n = None" "sorted_wrt separate fs"
  shows "\<exists>n'. retain_loop fs e n = Inr n'
    \<and> (\<forall>f \<in> set fs. field_Get f n' = field_Get f e)
    \<and> (\<forall>g. (\<forall>f \<in> set fs. separate f g) \<longrightarrow> field_Get g n' = field_Get g n)"
  using assms
proof (induction fs arbitrary: n)
  case (Cons f fs)
  define n1 where "n1 = (case field_Get f e of None \<Rightarrow> n | Some v \<Rightarrow> fst (field_Set f v n))"
  have f: "nested f" "field_Get f n = None" and sep: "\<forall>g \<in> set fs. separate f g"
    using Cons.prems by auto
  have step: "retain_loop (f # fs) e n = retain_loop fs e n1"
  proof (cases "field_Get f e")
    case (Some v)
    then show ?thesis
      by (simp add: n1_def) (subst field_Set_pair [OF f(1)], simp)
  qed (simp add: n1_def)
  have frame: "separate f g \<Longrightarrow> field_Get g n1 = field_Get g n" for g
    using field_frame(1) by (auto simp: n1_def split: option.split)
  have own: "field_Get f n1 = field_Get f e"
    using field_Set_written [OF f(1), of _ n] f(2) by (auto simp: n1_def split: option.split)
  have "\<forall>g \<in> set fs. nested g \<and> field_Get g n1 = None"
    using Cons.prems(1) sep frame by simp
  then obtain n' where n': "retain_loop fs e n1 = Inr n'"
    "\<forall>g \<in> set fs. field_Get g n' = field_Get g e"
    "\<forall>g. (\<forall>h \<in> set fs. separate h g) \<longrightarrow> field_Get g n' = field_Get g n1"
    using Cons.IH [of n1] Cons.prems(2) by auto
  have "field_Get f n' = field_Get f e" using n'(3) sep separate_sym own by metis
  then show ?case using n' frame step by auto
qed simp

lemma field_Set_keeps:
  "Timestamp (fst (field_Set f v n)) = Timestamp n
   \<and> ObservedTimestamp (fst (field_Set f v n)) = ObservedTimestamp n
   \<and> Severity (fst (field_Set f v n)) = Severity n \<and> SeverityText (fst (field_Set f v n)) = SeverityText n
   \<and> ScopeName (fst (field_Set f v n)) = ScopeName n \<and> SpanId (fst (field_Set f v n)) = SpanId n
   \<and> TraceId (fst (field_Set f v n)) = TraceId n \<and> TraceFlags (fst (field_Set f v n)) = TraceFlags n"
proof (cases f)
  case (BodyField ks)
  then show ?thesis by (cases v) (simp_all add: BodyField_Set_def BodyField_Merge_def)
next
  case (AttributeField ks)
  then show ?thesis by (cases v) (simp_all add: AttributeField_Set_def AttributeField_Merge_def Let_def)
next
  case (ResourceField ks)
  then show ?thesis by (cases v) (simp_all add: ResourceField_Set_def ResourceField_Merge_def Let_def)
qed simp

lemma retain_loop_keeps:
  "retain_loop fs e n = Inr n' \<Longrightarrow>
   Timestamp n' = Timestamp n \<and> ObservedTimestamp n' = ObservedTimestamp n
   \<and> Severity n' = Severity n \<and> SeverityText n' = SeverityText n \<and> ScopeName n' = ScopeName n
   \<and> SpanId n' = SpanId n \<and> TraceId n' = TraceId n \<and> TraceFlags n' = TraceFlags n"
proof (induction fs arbitrary: n)
  case (Cons f fs)
  show ?case
  proof (cases "field_Get f e")
    case (Some v)
    obtain m r where m: "field_Set f v n = (m, r)" by (cases "field_Set f v n")
    with Cons.prems Some have "retain_loop fs e m = Inr n'" by (cases r) auto
    with Cons.IH [of m] field_Set_keeps [of f v n] m show ?thesis by simp
  qed (use Cons in simp)
qed simp

text \<open>
  Retaining fields.  For configured fields below a root that do not overlap, \<open>retain\<close> never
  fails: each configured field reads as before; a field that overlaps none of them is gone if a
  field of its group (body, attributes, resource) is configured and reads as before if none is,
  as the documentation says; the two timestamps are kept.  The severity, the scope name and the
  trace context, which are in none of the groups, are reset to their zero values.
\<close>

lemma Retain_effect:
  assumes build: "RetainOperatorConfig_Build compile has_logger c = Inr p"
    and fields: "\<forall>f \<in> set (cfgRetainFields c). nested f" "sorted_wrt separate (cfgRetainFields c)"
  shows "\<exists>e'. Retain_Transform now p e = Some (e', None)
    \<and> (\<forall>f \<in> set (cfgRetainFields c). field_Get f e' = field_Get f e)
    \<and> (\<forall>g. nested g \<and> (\<forall>f \<in> set (cfgRetainFields c). separate f g) \<longrightarrow>
         field_Get g e' = (if \<exists>f \<in> set (cfgRetainFields c). same_group f g then None else field_Get g e))
    \<and> Timestamp e' = Timestamp e \<and> ObservedTimestamp e' = ObservedTimestamp e
    \<and> Severity e' = 0 \<and> SeverityText e' = [] \<and> ScopeName e' = []
    \<and> SpanId e' = None \<and> TraceId e' = None \<and> TraceFlags e' = None"
proof -
  let ?fs = "cfgRetainFields c"
  have p: "Fields p = ?fs" "AllBodyFields p \<longleftrightarrow> (\<exists>f \<in> set ?fs. same_group f (BodyField []))"
    "AllAttributeFields p \<longleftrightarrow> (\<exists>f \<in> set ?fs. same_group f (AttributeField []))"
    "AllResourceFields p \<longleftrightarrow> (\<exists>f \<in> set ?fs. same_group f (ResourceField []))"
    using build retain_groups_eq [OF fields(1), of False False False]
    by (auto simp: RetainOperatorConfig_Build_def RetainOperator.defs TransformerOperator.defs
        split: sum.splits if_splits)
  define n where "n = (New now)\<lparr>ObservedTimestamp := ObservedTimestamp e, Timestamp := Timestamp e,
      Resource := (if AllResourceFields p then None else Resource e),
      Attributes := (if AllAttributeFields p then None else Attributes e),
      Body := (if AllBodyFields p then VNil else Body e)\<rparr>"
  have run: "Retain_Transform now p e =
      (case retain_loop ?fs e n of Inl err \<Rightarrow> Some (e, Some err) | Inr n' \<Rightarrow> Some (n', None))"
    by (simp add: Retain_Transform_def Let_def n_def p(1) New_def)
  have start: "field_Get g n = (if \<exists>f \<in> set ?fs. same_group f g then None else field_Get g e)"
    if ne: "nested g" for g
  proof (cases g)
    case (BodyField ks)
    then obtain k ks' where "ks = k # ks'" using ne BodyField by (cases ks) (auto simp: nested_def)
    then show ?thesis using BodyField p(2)
      by (auto simp: n_def BodyField_Get_def same_group_iff)
  next
    case (AttributeField ks)
    then show ?thesis using p(3) by (auto simp: n_def AttributeField_Get_def same_group_iff)
  next
    case (ResourceField ks)
    then show ?thesis using p(4) by (auto simp: n_def ResourceField_Get_def same_group_iff)
  qed (use ne in \<open>simp add: nested_def\<close>)
  have "same_group f f" if "nested f" for f using that by (cases f) (auto simp: nested_def)
  then have "\<forall>f \<in> set ?fs. nested f \<and> field_Get f n = None" using start fields(1) by auto
  from retain_loop_reads [OF this fields(2)] obtain n' where n': "retain_loop ?fs e n = Inr n'"
    "\<forall>f \<in> set ?fs. field_Get f n' = field_Get f e"
    "\<forall>g. (\<forall>f \<in> set ?fs. separate f g) \<longrightarrow> field_Get g n' = field_Get g n"
    by blast
  show ?thesis
    by (rule exI [of _ n']) (use run n' start retain_loop_keeps [OF n'(1)] in \<open>simp add: n_def New_def\<close>)
qed

lemma Retain_effect_witness:
  "field_Get (BodyField [''b'']) (fst (the (Retain_Transform zero_time \<lparr>OperatorID = ''r'',
      OperatorType = ''retain'', OutputIDs = [], OutputOperators = [], OnError = ''send'', IfExpr = None,
      Fields = [BodyField [''a'']], AllBodyFields = True, AllAttributeFields = False, AllResourceFields = False\<rparr>
      ((New zero_time)\<lparr>Body := VMap (fmupd ''a'' (VInt 1) (fmupd ''b'' (VInt 2) fmempty))\<rparr>)))) = None"
proof -
  let ?p = "\<lparr>OperatorID = ''r'', OperatorType = ''retain'', OutputIDs = [], OutputOperators = [],
      OnError = ''send'', IfExpr = None, Fields = [BodyField [''a'']], AllBodyFields = True,
      AllAttributeFields = False, AllResourceFields = False\<rparr>"
  let ?c = "\<lparr>cfgOperatorID = ''r'', cfgOperatorType = ''retain'', cfgOutputIDs = [], cfgOnError = ''send'',
      cfgIfExpr = [], cfgRetainFields = [BodyField [''a'']]\<rparr>"
  let ?e = "(New zero_time)\<lparr>Body := VMap (fmupd ''a'' (VInt 1) (fmupd ''b'' (VInt 2) fmempty))\<rparr>"
  have groups: "retain_groups [BodyField [''a'']] (False, False, False) = (True, False, False)" by code_simp
  have build: "RetainOperatorConfig_Build (\<lambda>_. Inr (\<lambda>_. Inr VNil)) True ?c = Inr ?p"
    by (simp add: RetainOperatorConfig_Build_def TransformerConfig_Build_def WriterConfig_Build_def
        BasicConfig_Build_def BasicConfig_ID_def groups del: retain_groups.simps
        add: BasicOperator.defs WriterOperator.defs TransformerOperator.defs RetainOperator.defs)
  have c: "\<forall>f \<in> set (cfgRetainFields ?c). nested f" "sorted_wrt separate (cfgRetainFields ?c)"
    by (simp_all add: nested_def)
  from Retain_effect [OF build c, of zero_time ?e] obtain e' where
    e': "Retain_Transform zero_time ?p ?e = Some (e', None)"
    and g: "\<forall>g. nested g \<and> (\<forall>f \<in> set (cfgRetainFields ?c). separate f g) \<longrightarrow>
      field_Get g e' = (if \<exists>f \<in> set (cfgRetainFields ?c). same_group f g then None else field_Get g ?e)"
    by blast
  have "field_Get (BodyField [''b'']) e' = None"
    using g [THEN spec, of "BodyField [''b'']"] by (simp add: nested_def independent_def)
  with e' show ?thesis by simp
qed

section \<open>Filter\<close>

lemma round_half_even_le: "r \<le> of_int n \<Longrightarrow> round_half_even r \<le> n"
proof -
  assume r: "r \<le> of_int n"
  have f: "\<lfloor>r\<rfloor> \<le> n" using r by linarith
  show ?thesis
  proof (cases "\<lfloor>r\<rfloor> = n")
    case True
    then have "r = of_int n" using r by linarith
    then show ?thesis by (simp add: round_half_even_def)
  next
    case False
    with f show ?thesis by (simp add: round_half_even_def Let_def)
  qed
qed

lemma round_half_even_ge: "0 \<le> r \<Longrightarrow> 0 \<le> round_half_even r"
  by (simp add: round_half_even_def Let_def)

lemma round_half_even_int [simp]: "round_half_even (of_int n) = n"
  by (simp add: round_half_even_def)

text \<open>Rounding to a float keeps a number between two integers of at most 53 bits.\<close>

lemma f64_round_bounds:
  assumes r: "0 \<le> r" "r \<le> 1000"
  shows "0 \<le> f64_round r" "f64_round r \<le> 1000"
proof -
  have "0 \<le> f64_round r \<and> f64_round r \<le> 1000"
  proof (cases "r = 0")
    case False
    obtain n d where nd: "quotient_of r = (n, d)" by (cases "quotient_of r")
    have d: "d > 0" using quotient_of_denom_pos [OF nd] .
    have rn: "r = of_int n / of_int d" using quotient_of_div [OF nd] .
    have n: "0 < n" using False r(1) d unfolding rn by (simp add: zero_le_divide_iff)
    have "of_int n \<le> 1000 * (of_int d :: rat)" using r(2) d unfolding rn by (simp add: divide_le_eq)
    then have "n \<le> 1000 * d" by (simp flip: of_int_le_iff [where 'a = rat])
    then have "n < d * 2 ^ 10" using d by simp
    then have "bitlen n \<le> bitlen (d * 2 ^ 10)" unfolding bitlen_def using n by (simp add: floorlog_mono)
    also have "\<dots> = bitlen d + 10" using d bitlen_pow2 [of d 10] by simp
    finally have bits: "bitlen \<bar>n\<bar> - bitlen d \<le> 10" using n by simp
    define e where "e = (if \<bar>r\<bar> < 2 powi (bitlen \<bar>n\<bar> - bitlen d) then bitlen \<bar>n\<bar> - bitlen d - 1
      else bitlen \<bar>n\<bar> - bitlen d)"
    have e: "e \<le> 10" using bits by (simp add: e_def)
    define ulp :: rat where "ulp = 2 powi (e - 52)"
    have pos: "ulp > 0" by (simp add: ulp_def zero_less_power_int)
    define k :: nat where "k = nat (52 - e)"
    have scale: "ulp * 2 ^ k = 1"
    proof -
      have "(2 :: rat) ^ k = 2 powi (52 - e)" using e by (simp add: k_def power_int_def)
      then show ?thesis by (simp add: ulp_def flip: power_int_add)
    qed
    have "r / ulp = r * 2 ^ k" using scale pos by (simp add: field_simps)
    also have "\<dots> \<le> 1000 * 2 ^ k" using r(2) by (intro mult_right_mono) simp_all
    finally have "r / ulp \<le> of_int (1000 * 2 ^ k)" by simp
    from round_half_even_le [OF this] have "(of_int (round_half_even (r / ulp)) :: rat) \<le> of_int (1000 * 2 ^ k)"
      by (simp only: of_int_le_iff)
    then have "of_int (round_half_even (r / ulp)) * ulp \<le> 1000 * 2 ^ k * ulp"
      using pos by (intro mult_right_mono) simp_all
    also have "\<dots> = 1000" using scale by (simp add: mult.commute)
    finally have "of_int (round_half_even (r / ulp)) * ulp \<le> 1000" .
    moreover have "0 \<le> of_int (round_half_even (r / ulp)) * ulp"
      using round_half_even_ge [of "r / ulp"] r(1) pos by simp
    moreover have "f64_round r = of_int (round_half_even (r / ulp)) * ulp"
      using False by (simp add: f64_round_def nd Let_def e_def ulp_def)
    ultimately show ?thesis by simp
  qed (simp add: f64_round_def)
  then show "0 \<le> f64_round r" "f64_round r \<le> 1000" by simp_all
qed

lemma int_of_float_bounds: "0 \<le> r \<Longrightarrow> r \<le> of_int n \<Longrightarrow> n < 2 ^ 63 \<Longrightarrow>
  0 \<le> int_of_float r \<and> int_of_float r \<le> n"
proof -
  assume r: "0 \<le> r" "r \<le> of_int n" "n < 2 ^ 63"
  have "\<lfloor>r\<rfloor> \<le> n" "0 \<le> \<lfloor>r\<rfloor>" using r(1,2) by linarith+
  moreover from this have "\<lfloor>r\<rfloor> < 2 ^ 63" using r(3) by linarith
  ultimately show ?thesis using r(1) by (simp add: int_of_float_def Let_def)
qed

text \<open>
  Sampling with a filter.  The cutoff that \<open>Build\<close> computes from an accepted \<open>drop_ratio\<close> is
  between 0 and 1000, 0 for the ratio 0 and 1000 for the ratio 1.  An entry that does not match is
  always sent; of the thousand values the random number can have for an entry that matches,
  exactly as many as the cutoff drop it, the others send it.
\<close>

lemma Filter_ratio:
  assumes build: "FilterOperatorConfig_Build compile has_logger c = Inr f0"
    and connect: "SetOutputs operators f0 = (f, None)" and outs: "OutputIDs f \<noteq> []"
    and matches: "filterExpression f (GetExprEnv fmempty e) = Inr (VBool b)"
  shows "0 \<le> dropCutoff f \<and> dropCutoff f \<le> 1000
    \<and> (DropRatio c = 0 \<longrightarrow> dropCutoff f = 0) \<and> (DropRatio c = 1 \<longrightarrow> dropCutoff f = 1000)
    \<and> (\<not> b \<longrightarrow> (\<forall>drawn. Filter_Process drawn f e = (Write f e, None)))
    \<and> (b \<longrightarrow> card {i \<in> {0..<1000}. Filter_Process (Inr i) f e = ([], None)} = nat (dropCutoff f)
          \<and> (\<forall>i \<in> {0..<1000}. Filter_Process (Inr i) f e \<in> {([], None), (Write f e, None)}))"
proof -
  obtain ops where ops: "set_outputs_loop operators (OutputIDs f0) = Inr ops" "f = f0\<lparr>OutputOperators := ops\<rparr>"
    using connect by (auto simp: SetOutputs_def split: sum.splits)
  then have "ops \<noteq> []" using outs by (auto simp: set_outputs_loop_Inr)
  have ratio: "0 \<le> DropRatio c" "DropRatio c \<le> 1"
    and cut: "dropCutoff f = int_of_float (f64_round (DropRatio c * 1000))"
    using build ops by (auto simp: FilterOperatorConfig_Build_def FilterOperator.defs TransformerOperator.defs
        split: sum.splits if_splits)
  have "0 \<le> f64_round (DropRatio c * 1000)" "f64_round (DropRatio c * 1000) \<le> of_int 1000"
    using f64_round_bounds [of "DropRatio c * 1000"] ratio by simp_all
  then have bounds: "0 \<le> dropCutoff f \<and> dropCutoff f \<le> 1000"
    unfolding cut by (intro int_of_float_bounds) simp_all
  have "f64_round 0 = 0" "f64_round 1000 = 1000" "int_of_float 0 = 0" "int_of_float 1000 = 1000"
    by code_simp+
  then have ends: "DropRatio c = 0 \<longrightarrow> dropCutoff f = 0" "DropRatio c = 1 \<longrightarrow> dropCutoff f = 1000"
    by (simp_all add: cut)
  have w: "Write f e \<noteq> []"
    using \<open>ops \<noteq> []\<close> ops(2) write_loop_targets [of ops e] unfolding Write_def
    by (cases "write_loop ops e") auto
  have "{i \<in> {0..<1000}. Filter_Process (Inr i) f e = ([], None)} = {0..<dropCutoff f}" if b
    using that matches w bounds by (auto simp: Filter_Process_def)
  then have "card {i \<in> {0..<1000}. Filter_Process (Inr i) f e = ([], None)} = nat (dropCutoff f)" if b
    using that by simp
  then show ?thesis using bounds ends matches by (simp add: Filter_Process_def)
qed

lemma Filter_ratio_witness:
  "card {i \<in> {0..<1000}. Filter_Process (Inr i) \<lparr>OperatorID = ''f'', OperatorType = ''filter'',
      OutputIDs = [''x''], OutputOperators = [\<lparr>Op_ID = ''x'', Op_CanProcess = True\<rparr>], OnError = ''send'',
      IfExpr = None, filterExpression = \<lambda>_. Inr (VBool True), dropCutoff = 250\<rparr> (New zero_time) = ([], None)}
   = 250"
proof -
  let ?x = "\<lparr>Op_ID = ''x'', Op_CanProcess = True\<rparr>"
  let ?f0 = "\<lparr>OperatorID = ''f'', OperatorType = ''filter'', OutputIDs = [''x''], OutputOperators = [],
      OnError = ''send'', IfExpr = None, filterExpression = \<lambda>_. Inr (VBool True), dropCutoff = 250\<rparr>"
  let ?c = "\<lparr>cfgOperatorID = ''f'', cfgOperatorType = ''filter'', cfgOutputIDs = [''x''], cfgOnError = ''send'',
      cfgIfExpr = [], Expression = ''true'', DropRatio = 1/4\<rparr>"
  have "int_of_float (f64_round 250) = 250" by code_simp
  then have build: "FilterOperatorConfig_Build (\<lambda>_. Inr (\<lambda>_. Inr (VBool True))) True ?c = Inr ?f0"
    by (simp add: FilterOperatorConfig_Build_def TransformerConfig_Build_def WriterConfig_Build_def
        BasicConfig_Build_def BasicConfig_ID_def BasicOperator.defs WriterOperator.defs
        TransformerOperator.defs FilterOperator.defs)
  have connect: "SetOutputs [?x] ?f0 = (?f0\<lparr>OutputOperators := [?x]\<rparr>, None)"
    by (simp add: SetOutputs_def)
  from Filter_ratio [OF build connect, of "New zero_time" True] show ?thesis by simp
qed

end
