(* ===== verification/Router.thy ===== *)
theory Router
  imports Parser_Operators
begin

text \<open>
  The router: \<open>operator/transformer/router/router.go\<close>.

  The outputs of a route get the same entry one after the other, through one pointer.  What an
  output leaves of the entry it was given is therefore what the next one sees; it is the parameter
  \<open>downstream\<close> of the model.
\<close>

record RouterOperatorRouteConfig =
  rcAttributes :: "(string \<times> string) list"
  rcExpression :: string
  rcOutputIDs :: "string list"

record RouterOperatorConfig = BasicConfig +
  cfgRoutes :: "RouterOperatorRouteConfig list"
  cfgDefault :: "string list option"

record RouterOperatorRoute =
  rtAttributes :: "(string \<times> ExprString) list"
  rtExpression :: program
  rtOutputIDs :: "string list"
  rtOutputs :: "opref list"

record RouterOperator = BasicOperator +
  routes :: "RouterOperatorRoute list"

fun build_routes :: "compiler \<Rightarrow> compiler \<Rightarrow> RouterOperatorRouteConfig list \<Rightarrow> gerror + RouterOperatorRoute list" where
  "build_routes compileBool compile [] = Inr []"
| "build_routes compileBool compile (rc # rest) =
     (case compileBool (rcExpression rc) of
        Inl err \<Rightarrow> Inl (StdError (''failed to compile expression '' @ quoted (rcExpression rc)
          @ '': '' @ error_text err))
      | Inr compiled \<Rightarrow>
     (case AttributerConfig_Build compile (rcAttributes rc) of
        Inl err \<Rightarrow> Inl (StdError (''failed to build attributer for route '' @ quoted (rcExpression rc)
          @ '': '' @ error_text err))
      | Inr attributer \<Rightarrow>
          map_sum id ((#) \<lparr>rtAttributes = attributer, rtExpression = compiled,
              rtOutputIDs = rcOutputIDs rc, rtOutputs = []\<rparr>)
            (build_routes compileBool compile rest)))"

text \<open>The expressions of routes and of attributes are compiled with different options.\<close>

definition RouterOperatorConfig_Build ::
  "compiler \<Rightarrow> compiler \<Rightarrow> bool \<Rightarrow> 'a RouterOperatorConfig_scheme \<Rightarrow> gerror + RouterOperator" where
  "RouterOperatorConfig_Build compileBool compile has_logger c =
     (case BasicConfig_Build has_logger c of
        Inl err \<Rightarrow> Inl err
      | Inr basicOperator \<Rightarrow>
          (let all = (case cfgDefault c of
                None \<Rightarrow> cfgRoutes c
              | Some ids \<Rightarrow> cfgRoutes c @ [\<lparr>rcAttributes = [], rcExpression = ''true'', rcOutputIDs = ids\<rparr>])
           in map_sum id (\<lambda>rs. BasicOperator.extend basicOperator (RouterOperator.fields rs))
                (build_routes compileBool compile all)))"

section \<open>Processing\<close>

fun send_shared :: "(opref \<Rightarrow> entry \<Rightarrow> entry) \<Rightarrow> opref list \<Rightarrow> entry \<Rightarrow> (opref \<times> entry) list" where
  "send_shared downstream [] e = []"
| "send_shared downstream (output # outputs) e =
     (output, e) # send_shared downstream outputs (downstream output e)"

fun route_loop ::
  "(opref \<Rightarrow> entry \<Rightarrow> entry) \<Rightarrow> env \<Rightarrow> RouterOperatorRoute list \<Rightarrow> entry \<Rightarrow> outcome option" where
  "route_loop downstream env [] e = Some ([], None)"
| "route_loop downstream env (route # rest) e =
     (case rtExpression route env of
        Inl err \<Rightarrow> route_loop downstream env rest e
      | Inr (VBool matches) \<Rightarrow>
          if matches
          then (case Attribute (rtAttributes route) e of
                  None \<Rightarrow> None
                | Some (e, Some err) \<Rightarrow> Some ([], Some err)
                | Some (e, None) \<Rightarrow> Some (send_shared downstream (rtOutputs route) e, None))
          else route_loop downstream env rest e
      | Inr _ \<Rightarrow> None)"

definition Router_Process ::
  "(opref \<Rightarrow> entry \<Rightarrow> entry) \<Rightarrow> 'a RouterOperator_scheme \<Rightarrow> entry \<Rightarrow> outcome option" where
  "Router_Process downstream p e = route_loop downstream (GetExprEnv fmempty e) (routes p) e"

section \<open>Outputs\<close>

definition Router_Outputs :: "'a RouterOperator_scheme \<Rightarrow> opref list" where
  "Router_Outputs p = concat (map rtOutputs (routes p))"

definition Router_GetOutputIDs :: "'a RouterOperator_scheme \<Rightarrow> string list" where
  "Router_GetOutputIDs p = concat (map rtOutputIDs (routes p))"

definition Router_findOperator :: "opref list \<Rightarrow> string \<Rightarrow> gerror + opref" where
  "Router_findOperator operators operatorID =
     (case find (\<lambda>op. Op_ID op = operatorID) operators of
        Some op \<Rightarrow> Inr op
      | None \<Rightarrow> Inl (StdError (''operator '' @ operatorID @ '' does not exist'')))"

fun Router_findOperators :: "opref list \<Rightarrow> string list \<Rightarrow> gerror + opref list" where
  "Router_findOperators operators [] = Inr []"
| "Router_findOperators operators (operatorID # ids) =
     (case Router_findOperator operators operatorID of
        Inl err \<Rightarrow> Inl err
      | Inr operator \<Rightarrow> map_sum id ((#) operator) (Router_findOperators operators ids))"

text \<open>On an error the routes before the failing one keep their new outputs.\<close>

fun set_routes :: "opref list \<Rightarrow> RouterOperatorRoute list \<Rightarrow> RouterOperatorRoute list \<times> gerror option" where
  "set_routes operators [] = ([], None)"
| "set_routes operators (route # rest) =
     (case Router_findOperators operators (rtOutputIDs route) of
        Inl err \<Rightarrow> (route # rest, Some (StdError (''failed to set outputs on route: '' @ error_text err)))
      | Inr outputOperators \<Rightarrow>
          apfst ((#) (route\<lparr>rtOutputs := outputOperators\<rparr>)) (set_routes operators rest))"

definition Router_SetOutputs ::
  "opref list \<Rightarrow> 'a RouterOperator_scheme \<Rightarrow> 'a RouterOperator_scheme \<times> gerror option" where
  "Router_SetOutputs operators p = apfst (\<lambda>rs. p\<lparr>routes := rs\<rparr>) (set_routes operators (routes p))"

section \<open>The first match wins\<close>

lemma send_shared_targets [simp]: "map fst (send_shared d ops e) = ops"
  by (induction ops arbitrary: e) auto

lemma send_shared_readers:
  "(\<And>op e. op \<in> set ops \<Longrightarrow> d op e = e) \<Longrightarrow> send_shared d ops e = map (\<lambda>op. (op, e)) ops"
  by (induction ops arbitrary: e) auto

definition route_hit :: "env \<Rightarrow> RouterOperatorRoute \<Rightarrow> bool" where
  "route_hit env r \<longleftrightarrow> rtExpression r env = Inr (VBool True)"

lemma route_loop_skip:
  "route_loop d env (pre @ post) e = Some out \<Longrightarrow> \<forall>r \<in> set pre. \<not> route_hit env r \<Longrightarrow>
   route_loop d env post e = Some out"
  by (induction pre) (auto simp: route_hit_def split: sum.splits gval.splits if_splits)

text \<open>
  C25: the first matching route takes the entry.  When no route's expression gives true, the entry is
  sent nowhere, without an error.  Otherwise only the first such route counts, whatever later ones
  say and although earlier ones failed: if its attributes cannot be rendered the entry goes nowhere
  and the error is returned, and if they can, each output of that route gets the entry exactly
  once, in order.  The first output gets the labelled entry; each later output gets what the output
  before it left of that same entry, so all get the labelled one only if none of them changes it.
\<close>

theorem Router_first_match:
  assumes "Router_Process downstream p e = Some (sent, err)"
  shows "((\<forall>r \<in> set (routes p). \<not> route_hit (GetExprEnv fmempty e) r) \<longrightarrow> sent = [] \<and> err = None)
    \<and> (\<forall>pre r post. routes p = pre @ r # post \<and> route_hit (GetExprEnv fmempty e) r
         \<and> (\<forall>r' \<in> set pre. \<not> route_hit (GetExprEnv fmempty e) r') \<longrightarrow>
       (\<exists>e'. Attribute (rtAttributes r) e = Some (e', err)
         \<and> (err \<noteq> None \<longrightarrow> sent = [])
         \<and> (err = None \<longrightarrow> sent = send_shared downstream (rtOutputs r) e' \<and> map fst sent = rtOutputs r
              \<and> ((\<forall>op \<in> set (rtOutputs r). \<forall>x. downstream op x = x) \<longrightarrow>
                   sent = map (\<lambda>op. (op, e')) (rtOutputs r)))))"
proof (intro conjI allI impI)
  let ?env = "GetExprEnv fmempty e"
  note run = assms [unfolded Router_Process_def]
  {
    assume "\<forall>r \<in> set (routes p). \<not> route_hit ?env r"
    then have "route_loop downstream ?env [] e = Some (sent, err)"
      using route_loop_skip [of downstream ?env "routes p" "[]" e] run by simp
    then show "sent = []" "err = None" by auto
  }
  fix pre r post
  assume r: "routes p = pre @ r # post \<and> route_hit ?env r \<and> (\<forall>r' \<in> set pre. \<not> route_hit ?env r')"
  then have "route_loop downstream ?env (r # post) e = Some (sent, err)"
    using route_loop_skip [of downstream ?env pre "r # post" e] run by simp
  then show "\<exists>e'. Attribute (rtAttributes r) e = Some (e', err)
         \<and> (err \<noteq> None \<longrightarrow> sent = [])
         \<and> (err = None \<longrightarrow> sent = send_shared downstream (rtOutputs r) e' \<and> map fst sent = rtOutputs r
              \<and> ((\<forall>op \<in> set (rtOutputs r). \<forall>x. downstream op x = x) \<longrightarrow>
                   sent = map (\<lambda>op. (op, e')) (rtOutputs r)))"
    using r by (auto simp: route_hit_def send_shared_readers split: option.splits prod.splits)
qed

theorem Router_first_match_witness:
  "Router_Process (\<lambda>op e. e\<lparr>Body := VNil\<rparr>) \<lparr>OperatorID = ''r'', OperatorType = ''router'', routes =
      [\<lparr>rtAttributes = [], rtExpression = \<lambda>_. Inl (StdError ''bad''), rtOutputIDs = [], rtOutputs = []\<rparr>,
       \<lparr>rtAttributes = [], rtExpression = \<lambda>_. Inr (VBool True), rtOutputIDs = [''a'', ''b''],
        rtOutputs = [\<lparr>Op_ID = ''a'', Op_CanProcess = True\<rparr>, \<lparr>Op_ID = ''b'', Op_CanProcess = True\<rparr>]\<rparr>]\<rparr>
     ((New zero_time)\<lparr>Body := VInt 1\<rparr>)
   = Some ([(\<lparr>Op_ID = ''a'', Op_CanProcess = True\<rparr>, (New zero_time)\<lparr>Body := VInt 1\<rparr>),
       (\<lparr>Op_ID = ''b'', Op_CanProcess = True\<rparr>, New zero_time)], None)"
proof -
  let ?d = "\<lambda>op e. e\<lparr>Body := VNil\<rparr> :: entry"
  let ?r1 = "\<lparr>rtAttributes = [], rtExpression = \<lambda>_. Inl (StdError ''bad''), rtOutputIDs = [], rtOutputs = []\<rparr>"
  let ?r2 = "\<lparr>rtAttributes = [], rtExpression = \<lambda>_. Inr (VBool True), rtOutputIDs = [''a'', ''b''],
        rtOutputs = [\<lparr>Op_ID = ''a'', Op_CanProcess = True\<rparr>, \<lparr>Op_ID = ''b'', Op_CanProcess = True\<rparr>]\<rparr>"
  let ?p = "\<lparr>OperatorID = ''r'', OperatorType = ''router'', routes = [?r1, ?r2]\<rparr>"
  let ?e = "(New zero_time)\<lparr>Body := VInt 1\<rparr>"
  obtain sent err where r: "Router_Process ?d ?p ?e = Some (sent, err)"
    using that by (simp add: Router_Process_def Attribute_def)
  from Router_first_match [OF r] have "\<exists>e'. Attribute [] ?e = Some (e', err)
      \<and> (err = None \<longrightarrow> sent = send_shared ?d (rtOutputs ?r2) e')"
    by (elim conjE allE [of _ "[?r1]"] allE [of _ ?r2] allE [of _ "[]"]) (auto simp: route_hit_def)
  then show ?thesis unfolding r by (auto simp: Attribute_def New_def)
qed

end
