(* ===== verification/Recombine.thy ===== *)
theory Recombine
  imports Parser_Operators "HOL-Library.Multiset"
begin

text \<open>
  The recombine operator: \<open>operator/transformer/recombine/recombine.go\<close>.

  Its methods run under one lock, so each is one step on the state.  The batches are a map from
  sources to lists of entries; the order in which Go ranges over a map decides the order in which
  batches are sent, so it is the parameter \<open>perm\<close>: a listing of the keys of the map.
\<close>

type_synonym batches = "(string, entry list) fmap"
type_synonym map_order = "batches \<Rightarrow> string list"

record RecombineOperatorConfig = TransformerConfig +
  IsFirstEntry :: string
  IsLastEntry :: string
  MaxBatchSize :: int
  CombineField :: "field option"
  CombineWith :: string
  SourceIdentifier :: field
  OverwriteWith :: string
  ForceFlushTimeout :: int
  MaxSources :: int

record RecombineOperator = TransformerOperator +
  matchFirstLine :: bool
  prog :: program
  maxBatchSize :: int
  maxSources :: int
  overwriteWithOldest :: bool
  combineField :: field
  combineWith :: string
  forceFlushTimeout :: int
  sourceIdentifier :: field
  batchMap :: batches

definition NewRecombineOperatorConfig :: "string \<Rightarrow> RecombineOperatorConfig" where
  "NewRecombineOperatorConfig i = TransformerConfig.extend (NewTransformerConfig i ''recombine'')
     (RecombineOperatorConfig.fields [] [] 1000 None [CHR 0x0A] (AttributeField [''file.path''])
        ''oldest'' (5 * ns_per_s) 1000)"

text \<open>\<open>time.NewTicker\<close> panics on a period that is not positive.\<close>

definition RecombineOperatorConfig_Build ::
  "compiler \<Rightarrow> bool \<Rightarrow> 'a RecombineOperatorConfig_scheme \<Rightarrow> (gerror + RecombineOperator) option" where
  "RecombineOperatorConfig_Build compile has_logger c =
     (case TransformerConfig_Build compile has_logger c of
        Inl err \<Rightarrow> Some (Inl (StdError (''failed to build transformer config: '' @ error_text err)))
      | Inr transformer \<Rightarrow>
          if IsLastEntry c \<noteq> [] \<and> IsFirstEntry c \<noteq> []
          then Some (Inl (StdError ''only one of is_first_entry and is_last_entry can be set''))
          else if IsLastEntry c = [] \<and> IsFirstEntry c = []
          then Some (Inl (StdError ''one of is_first_entry and is_last_entry must be set''))
          else
     (let matchesFirst = (IsFirstEntry c \<noteq> []) in
      case compile (if matchesFirst then IsFirstEntry c else IsLastEntry c) of
        Inl err \<Rightarrow> Some (Inl (StdError ((if matchesFirst then ''failed to compile is_first_entry: ''
          else ''failed to compile is_last_entry: '') @ error_text err)))
      | Inr program \<Rightarrow>
     (case CombineField c of
        None \<Rightarrow> Some (Inl (StdError (''missing required argument '' @ quoted ''combine_field'')))
      | Some field \<Rightarrow>
          if OverwriteWith c \<notin> {''newest'', ''oldest'', []}
          then Some (Inl (StdError (''invalid value '' @ quoted (OverwriteWith c) @ '' for parameter ''
            @ quoted ''overwrite_with'')))
          else if ForceFlushTimeout c \<le> 0 then None
          else Some (Inr (TransformerOperator.extend transformer (RecombineOperator.fields
            matchesFirst program (MaxBatchSize c) (MaxSources c) (OverwriteWith c \<noteq> ''newest'')
            field (CombineWith c) (ForceFlushTimeout c) (SourceIdentifier c) fmempty))))))"

section \<open>Batches\<close>

definition batch :: "'a RecombineOperator_scheme \<Rightarrow> string \<Rightarrow> entry list" where
  "batch r source = (case fmlookup (batchMap r) source of Some es \<Rightarrow> es | None \<Rightarrow> [])"

text \<open>The loop of \<open>flushSource\<close>: an entry without the field is left out, its separator with it.\<close>

fun combine_loop :: "field \<Rightarrow> string \<Rightarrow> entry list \<Rightarrow> string" where
  "combine_loop f sep [] = []"
| "combine_loop f sep (e # es) =
     (case readToString f e [] of
        (s, Some err) \<Rightarrow> combine_loop f sep es
      | (s, None) \<Rightarrow> s @ (if es \<noteq> [] then sep else []) @ combine_loop f sep es)"

definition flushSource :: "string \<Rightarrow> 'a RecombineOperator_scheme \<Rightarrow> 'a RecombineOperator_scheme \<times> outcome" where
  "flushSource source r =
     (let entries = batch r source in
      if entries = [] then (r, [], None)
      else
        (let base = (if overwriteWithOldest r then entries ! 0 else last entries);
             recombined = combine_loop (combineField r) (combineWith r) entries
         in case field_Set (combineField r) (VString recombined) base of
              (base, Some err) \<Rightarrow>
                (r\<lparr>batchMap := fmupd source
                   (if overwriteWithOldest r then entries[0 := base] else butlast entries @ [base])
                   (batchMap r)\<rparr>, [], Some err)
            | (base, None) \<Rightarrow> (r\<lparr>batchMap := fmdrop source (batchMap r)\<rparr>, Write r base, None)))"

definition flushUncombined ::
  "map_order \<Rightarrow> 'a RecombineOperator_scheme \<Rightarrow> 'a RecombineOperator_scheme \<times> (opref \<times> entry) list" where
  "flushUncombined perm r =
     (r\<lparr>batchMap := fmempty\<rparr>,
      concat (map (\<lambda>source. concat (map (Write r) (batch r source))) (perm (batchMap r))))"

text \<open>The error of a flush that a full batch starts is only logged.\<close>

definition addToBatch ::
  "map_order \<Rightarrow> entry \<Rightarrow> string \<Rightarrow> 'a RecombineOperator_scheme \<Rightarrow> 'a RecombineOperator_scheme \<times> (opref \<times> entry) list" where
  "addToBatch perm e source r =
     (case fmlookup (batchMap r) source of
        None \<Rightarrow>
          (let r = r\<lparr>batchMap := fmupd source [e] (batchMap r)\<rparr>
           in if int (fcard (fmdom (batchMap r))) \<ge> maxSources r then flushUncombined perm r else (r, []))
      | Some es \<Rightarrow>
          (let r = r\<lparr>batchMap := fmupd source (es @ [e]) (batchMap r)\<rparr>
           in if int (length (es @ [e])) \<ge> maxBatchSize r
              then (case flushSource source r of (r, sent, err) \<Rightarrow> (r, sent))
              else (r, [])))"

section \<open>Steps\<close>

text \<open>
  \<open>source_of\<close> reads the source of an entry.  \<open>NewRecombineOperatorConfig\<close> sets \<open>source_identifier\<close>; a
  configuration made without it, whose field is nil and would panic here, is left out.
\<close>

definition DefaultSourceIdentifier :: string where
  "DefaultSourceIdentifier = ''DefaultSourceIdentifier''"

definition source_of :: "'a RecombineOperator_scheme \<Rightarrow> entry \<Rightarrow> string" where
  "source_of r e =
     (case readToString (sourceIdentifier r) e [] of
        (s, Some err) \<Rightarrow> DefaultSourceIdentifier
      | (s, None) \<Rightarrow> if s = [] then DefaultSourceIdentifier else s)"

definition Recombine_Process ::
  "map_order \<Rightarrow> 'a RecombineOperator_scheme \<Rightarrow> entry \<Rightarrow> ('a RecombineOperator_scheme \<times> outcome) option" where
  "Recombine_Process perm r e =
     (case prog r (GetExprEnv fmempty e) of
        Inl err \<Rightarrow> Some (r, HandleEntryError r e err)
      | Inr (VBool matches) \<Rightarrow>
          (let s = source_of r e in
           if matches \<and> matchFirstLine r then
             (case flushSource s r of
                (r, sent, Some err) \<Rightarrow> Some (r, sent, Some err)
              | (r, sent, None) \<Rightarrow>
                  (case addToBatch perm e s r of (r, sent') \<Rightarrow> Some (r, sent @ sent', None)))
           else if (matches \<and> \<not> matchFirstLine r) \<or> (\<not> matches \<and> matchFirstLine r \<and> batch r s = []) then
             (case addToBatch perm e s r of (r, sent) \<Rightarrow>
              case flushSource s r of (r, sent', err) \<Rightarrow> Some (r, sent @ sent', err))
           else (case addToBatch perm e s r of (r, sent) \<Rightarrow> Some (r, sent, None)))
      | Inr _ \<Rightarrow> None)"

text \<open>One tick of \<open>flushLoop\<close>; \<open>Time.Sub\<close> saturates at the 64-bit range.\<close>

definition saturate :: "int \<Rightarrow> int" where
  "saturate d = max (- (2 ^ 63)) (min (2 ^ 63 - 1) d)"

fun tick_loop ::
  "gtime \<Rightarrow> string list \<Rightarrow> 'a RecombineOperator_scheme \<Rightarrow> 'a RecombineOperator_scheme \<times> (opref \<times> entry) list" where
  "tick_loop timeNow [] r = (r, [])"
| "tick_loop timeNow (source # sources) r =
     (let lastEntryTs = Timestamp (last (batch r source));
          timeSinceLastEntry = saturate (UnixNano timeNow - UnixNano lastEntryTs)
      in if timeSinceLastEntry < forceFlushTimeout r then tick_loop timeNow sources r
         else (case flushSource source r of (r, sent, err) \<Rightarrow>
               case tick_loop timeNow sources r of (r, sent') \<Rightarrow> (r, sent @ sent')))"

definition flush_tick ::
  "map_order \<Rightarrow> gtime \<Rightarrow> 'a RecombineOperator_scheme \<Rightarrow> 'a RecombineOperator_scheme \<times> (opref \<times> entry) list" where
  "flush_tick perm timeNow r = tick_loop timeNow (perm (batchMap r)) r"

definition Recombine_Stop ::
  "map_order \<Rightarrow> 'a RecombineOperator_scheme \<Rightarrow> 'a RecombineOperator_scheme \<times> (opref \<times> entry) list" where
  "Recombine_Stop perm r = flushUncombined perm r"

end
