(* ===== verification/Recombine_Laws.thy ===== *)
theory Recombine_Laws
  imports Recombine Field_Laws
begin

text \<open>
  What the recombine operator promises, over any sequence of entries, ticks and a stop: every entry
  leaves it exactly once, in the order of its source, in groups that the expression delimits, and
  the batches it holds stay within the configured sizes.

  The specification is a list of groups: entries merged into one, or an entry sent alone.
\<close>

datatype group = Merged (group_source: string) (group_entries: "entry list")
  | Alone (group_source: string) (alone_entry: entry)

fun members :: "group \<Rightarrow> entry list" where
  "members (Merged s es) = es"
| "members (Alone s e) = [e]"

definition merged :: "'a RecombineOperator_scheme \<Rightarrow> entry list \<Rightarrow> entry" where
  "merged r es = fst (field_Set (combineField r)
     (VString (combine_loop (combineField r) (combineWith r) es))
     (if overwriteWithOldest r then es ! 0 else last es))"

fun emit :: "'a RecombineOperator_scheme \<Rightarrow> group \<Rightarrow> (opref \<times> entry) list" where
  "emit r (Merged s es) = Write r (merged r es)"
| "emit r (Alone s e) = Write r e"

definition is_match :: "'a RecombineOperator_scheme \<Rightarrow> entry \<Rightarrow> bool" where
  "is_match r e \<longleftrightarrow> prog r (GetExprEnv fmempty e) = Inr (VBool True)"

text \<open>Only the first entry of a group matches \<open>is_first_entry\<close>, only the last one \<open>is_last_entry\<close>.\<close>

definition delimited :: "'a RecombineOperator_scheme \<Rightarrow> entry list \<Rightarrow> bool" where
  "delimited r es \<longleftrightarrow>
     (if matchFirstLine r then \<forall>x \<in> set (tl es). \<not> is_match r x else \<forall>x \<in> set (butlast es). \<not> is_match r x)"

fun group_ok :: "'a RecombineOperator_scheme \<Rightarrow> group \<Rightarrow> bool" where
  "group_ok r (Merged s es) \<longleftrightarrow> es \<noteq> [] \<and> int (length es) \<le> max 2 (maxBatchSize r) \<and> delimited r es"
| "group_ok r (Alone s e) \<longleftrightarrow> True"

text \<open>The entries of one source in a list of groups.\<close>

definition consumed :: "group list \<Rightarrow> string \<Rightarrow> entry list" where
  "consumed gs t = concat (map members (filter (\<lambda>g. group_source g = t) gs))"

lemma consumed_simps [simp]:
  "consumed [] t = []"
  "consumed (g # gs) t = (if group_source g = t then members g else []) @ consumed gs t"
  "consumed (gs @ hs) t = consumed gs t @ consumed hs t"
  by (simp_all add: consumed_def)

section \<open>The invariant\<close>

definition batch_ok :: "'a RecombineOperator_scheme \<Rightarrow> entry list \<Rightarrow> bool" where
  "batch_ok r es \<longleftrightarrow> es \<noteq> [] \<and> (length es = 1 \<or> int (length es) < maxBatchSize r)
     \<and> (if matchFirstLine r then \<forall>x \<in> set (tl es). \<not> is_match r x else \<forall>x \<in> set es. \<not> is_match r x)"

definition recombine_inv :: "'a RecombineOperator_scheme \<Rightarrow> bool" where
  "recombine_inv r \<longleftrightarrow> nameable (combineField r)
     \<and> (\<forall>s es. fmlookup (batchMap r) s = Some es \<longrightarrow> batch_ok r es)
     \<and> (batchMap r = fmempty \<or> int (fcard (fmdom (batchMap r))) < maxSources r)"

definition orders :: "map_order \<Rightarrow> bool" where
  "orders perm \<longleftrightarrow> (\<forall>m. distinct (perm m) \<and> set (perm m) = fmdom' m)"

text \<open>
  A step: the configuration stays, what is sent is a list of groups, and in every source the groups
  followed by the new batch are the old batch followed by what was added.
\<close>

definition explains ::
  "'a RecombineOperator_scheme \<Rightarrow> (string \<Rightarrow> entry list) \<Rightarrow> 'a RecombineOperator_scheme \<Rightarrow> (opref \<times> entry) list \<Rightarrow> group list \<Rightarrow> bool" where
  "explains r added r' sent gs \<longleftrightarrow> r' = r\<lparr>batchMap := batchMap r'\<rparr>
     \<and> sent = concat (map (emit r) gs) \<and> (\<forall>g \<in> set gs. group_ok r g)
     \<and> (\<forall>t. consumed gs t @ batch r' t = batch r t @ added t)"

lemma config_update [simp]:
  "emit (r\<lparr>batchMap := m\<rparr>) = emit r" "group_ok (r\<lparr>batchMap := m\<rparr>) = group_ok r"
  "batch_ok (r\<lparr>batchMap := m\<rparr>) = batch_ok r" "is_match (r\<lparr>batchMap := m\<rparr>) = is_match r"
  "Write (r\<lparr>batchMap := m\<rparr>) = Write r" "source_of (r\<lparr>batchMap := m\<rparr>) = source_of r"
  "delimited (r\<lparr>batchMap := m\<rparr>) = delimited r"
proof -
  have w: "Write (r\<lparr>batchMap := m\<rparr>) e = Write r e" for e by (simp add: Write_def)
  show "emit (r\<lparr>batchMap := m\<rparr>) = emit r"
  proof
    fix g show "emit (r\<lparr>batchMap := m\<rparr>) g = emit r g" by (cases g) (simp_all add: w merged_def)
  qed
  have d: "delimited (r\<lparr>batchMap := m\<rparr>) es = delimited r es" for es
    by (simp add: delimited_def is_match_def)
  show "group_ok (r\<lparr>batchMap := m\<rparr>) = group_ok r"
  proof
    fix g show "group_ok (r\<lparr>batchMap := m\<rparr>) g = group_ok r g" by (cases g) (simp_all add: d)
  qed
qed (simp_all add: fun_eq_iff batch_ok_def is_match_def Write_def source_of_def delimited_def)

lemma explains_config: "explains r a r' sent gs \<Longrightarrow> \<exists>m. r' = r\<lparr>batchMap := m\<rparr>"
  unfolding explains_def by blast

lemma explains_trans:
  assumes "explains r a r1 s1 gs1" "explains r1 b r2 s2 gs2"
  shows "explains r (\<lambda>t. a t @ b t) r2 (s1 @ s2) (gs1 @ gs2)"
proof -
  obtain m where m: "r1 = r\<lparr>batchMap := m\<rparr>" using explains_config [OF assms(1)] by blast
  have config: "emit r1 = emit r" "group_ok r1 = group_ok r" unfolding m by simp_all
  have "r2 = r\<lparr>batchMap := batchMap r2\<rparr>" using assms(2) by (simp add: explains_def m)
  moreover have "consumed (gs1 @ gs2) t @ batch r2 t = batch r t @ a t @ b t" for t
    using assms by (simp add: explains_def)
  ultimately show ?thesis using assms by (auto simp: explains_def config)
qed

lemma batch_update [simp]:
  "batch (r\<lparr>batchMap := m\<rparr>) t = (case fmlookup m t of Some es \<Rightarrow> es | None \<Rightarrow> [])"
  by (simp add: batch_def)

section \<open>Flushing\<close>

lemma flushSource_explains:
  assumes "nameable (combineField r)" "batch r s \<noteq> [] \<Longrightarrow> group_ok r (Merged s (batch r s))"
    and "flushSource s r = (r', sent, err)"
  shows "err = None" "r' = r\<lparr>batchMap := fmdrop s (batchMap r)\<rparr> \<or> (batch r s = [] \<and> r' = r)"
    "\<exists>gs. explains r (\<lambda>_. []) r' sent gs"
proof -
  have "err = None \<and> (r' = r\<lparr>batchMap := fmdrop s (batchMap r)\<rparr> \<or> (batch r s = [] \<and> r' = r))
      \<and> (\<exists>gs. explains r (\<lambda>_. []) r' sent gs)"
  proof (cases "batch r s = []")
    case True
    have "explains r (\<lambda>_. []) r [] []" by (simp add: explains_def)
    then show ?thesis using True assms(3) by (auto simp: flushSource_def)
  next
    case False
    let ?es = "batch r s"
    let ?base = "if overwriteWithOldest r then ?es ! 0 else last ?es"
    let ?v = "VString (combine_loop (combineField r) (combineWith r) ?es)"
    have "field_Set (combineField r) ?v ?base = (merged r ?es, None)"
      using field_Set_nameable_ok [OF assms(1)] by (simp add: merged_def prod_eq_iff)
    then have r': "r' = r\<lparr>batchMap := fmdrop s (batchMap r)\<rparr>" "sent = Write r (merged r ?es)" "err = None"
      using assms(3) False by (auto simp: flushSource_def Let_def)
    have "explains r (\<lambda>_. []) r' sent [Merged s ?es]"
      using assms(2) [OF False] unfolding explains_def r' by (simp add: batch_def)
    then show ?thesis using r' by blast
  qed
  then show "err = None" "r' = r\<lparr>batchMap := fmdrop s (batchMap r)\<rparr> \<or> (batch r s = [] \<and> r' = r)"
    "\<exists>gs. explains r (\<lambda>_. []) r' sent gs" by blast+
qed

definition alone_groups :: "'a RecombineOperator_scheme \<Rightarrow> string list \<Rightarrow> group list" where
  "alone_groups r ks = concat (map (\<lambda>s. map (Alone s) (batch r s)) ks)"

lemma emit_alone: "concat (map (emit r) (alone_groups r ks)) = concat (map (\<lambda>s. concat (map (Write r) (batch r s))) ks)"
  by (induction ks) (auto simp: alone_groups_def comp_def)

lemma consumed_Alone: "consumed (map (Alone s) es) t = (if s = t then es else [])"
  by (induction es) auto

lemma consumed_alone:
  "distinct ks \<Longrightarrow> consumed (alone_groups r ks) t = (if t \<in> set ks then batch r t else [])"
  by (induction ks) (auto simp: alone_groups_def consumed_Alone)

lemma flushUncombined_explains:
  assumes "orders perm" "flushUncombined perm r = (r', sent)"
  shows "r' = r\<lparr>batchMap := fmempty\<rparr>" "\<exists>gs. explains r (\<lambda>_. []) r' sent gs"
proof -
  show r': "r' = r\<lparr>batchMap := fmempty\<rparr>" using assms(2) by (simp add: flushUncombined_def)
  let ?ks = "perm (batchMap r)"
  have ks: "distinct ?ks" "set ?ks = fmdom' (batchMap r)" using assms(1) by (auto simp: orders_def)
  have "consumed (alone_groups r ?ks) t = batch r t" for t
  proof (cases "t \<in> fmdom' (batchMap r)")
    case False
    then have "batch r t = []" by (simp add: batch_def fmdom'_notD)
    then show ?thesis using consumed_alone [OF ks(1), of r t] by simp
  qed (simp add: consumed_alone [OF ks(1)] ks(2))
  moreover have "sent = concat (map (emit r) (alone_groups r ?ks))"
    using assms(2) by (simp add: flushUncombined_def emit_alone)
  ultimately have "explains r (\<lambda>_. []) r' sent (alone_groups r ?ks)"
    unfolding explains_def r' by (auto simp: alone_groups_def)
  then show "\<exists>gs. explains r (\<lambda>_. []) r' sent gs" ..
qed

section \<open>Adding to a batch\<close>

lemma inv_batch: "recombine_inv r \<Longrightarrow> batch r s \<noteq> [] \<Longrightarrow> batch_ok r (batch r s)"
  by (auto simp: recombine_inv_def batch_def split: option.splits)

lemma batch_group_ok:
  assumes "batch_ok r es" shows "group_ok r (Merged s es)"
proof -
  have "x \<in> set es" if "x \<in> set (butlast es)" for x using that by (rule in_set_butlastD)
  then show ?thesis using assms by (auto simp: batch_ok_def delimited_def)
qed

lemma inv_drop: "recombine_inv r \<Longrightarrow> recombine_inv (r\<lparr>batchMap := fmdrop s (batchMap r)\<rparr>)"
proof -
  assume inv: "recombine_inv r"
  have "fcard (fmdom (fmdrop s (batchMap r))) \<le> fcard (fmdom (batchMap r))"
    by (rule fcard_mono) auto
  with inv show ?thesis by (auto simp: recombine_inv_def)
qed

lemma inv_empty: "recombine_inv r \<Longrightarrow> recombine_inv (r\<lparr>batchMap := fmempty\<rparr>)"
  by (simp add: recombine_inv_def)

lemma inv_flush:
  assumes "recombine_inv r" "flushSource s r = (r', sent, err)"
  shows "err = None" "recombine_inv r'" "batch r' s = []" "\<exists>gs. explains r (\<lambda>_. []) r' sent gs"
proof -
  have n: "nameable (combineField r)" using assms(1) by (simp add: recombine_inv_def)
  note fl = flushSource_explains [OF n batch_group_ok [OF inv_batch [OF assms(1)]] assms(2)]
  show "err = None" "\<exists>gs. explains r (\<lambda>_. []) r' sent gs" using fl by blast+
  show "recombine_inv r'" "batch r' s = []" using fl(2) assms(1) inv_drop by auto
qed

lemma addToBatch_explains:
  assumes inv: "recombine_inv r" and perm: "orders perm" and d: "delimited r (batch r s @ [e])"
    and add: "addToBatch perm e s r = (r', sent)"
  shows "\<exists>gs. explains r (\<lambda>t. if t = s then [e] else []) r' sent gs"
    "batchMap r' = fmempty \<or> batchMap r' = fmdrop s (batchMap r)
     \<or> batchMap r' = fmupd s (batch r s @ [e]) (batchMap r)
       \<and> (batch r s = [] \<or> int (length (batch r s @ [e])) < maxBatchSize r)
       \<and> int (fcard (fmdom (batchMap r'))) < maxSources r"
proof -
  let ?a = "\<lambda>t. if t = s then [e] else []"
  let ?r1 = "r\<lparr>batchMap := fmupd s (batch r s @ [e]) (batchMap r)\<rparr>"
  have e1: "explains r ?a ?r1 [] []" by (auto simp: explains_def batch_def)
  have "(\<exists>gs. explains r ?a r' sent gs) \<and> (batchMap r' = fmempty \<or> batchMap r' = fmdrop s (batchMap r)
     \<or> batchMap r' = fmupd s (batch r s @ [e]) (batchMap r)
       \<and> (batch r s = [] \<or> int (length (batch r s @ [e])) < maxBatchSize r)
       \<and> int (fcard (fmdom (batchMap r'))) < maxSources r)"
  proof (cases "fmlookup (batchMap r) s")
    case None
    then have b: "batch r s = []" by (simp add: batch_def)
    show ?thesis
    proof (cases "int (fcard (fmdom (batchMap ?r1))) \<ge> maxSources r")
      case True
      then have f: "flushUncombined perm ?r1 = (r', sent)"
        using add None b by (simp add: addToBatch_def Let_def)
      from flushUncombined_explains [OF perm this] explains_trans [OF e1]
      show ?thesis by fastforce
    next
      case False
      then have "r' = ?r1" "sent = []" using add None b by (simp_all add: addToBatch_def Let_def)
      then show ?thesis using e1 b False by auto
    qed
  next
    case (Some es)
    then have b: "batch r s = es" by (simp add: batch_def)
    have ok: "batch_ok r es" using inv Some by (auto simp: recombine_inv_def)
    show ?thesis
    proof (cases "int (length (es @ [e])) \<ge> maxBatchSize r")
      case True
      then obtain err where f: "flushSource s ?r1 = (r', sent, err)"
        using add Some b by (auto simp: addToBatch_def Let_def split: prod.splits)
      have "group_ok ?r1 (Merged s (batch ?r1 s))"
        using ok d b by (auto simp: batch_ok_def)
      moreover have "nameable (combineField ?r1)" using inv by (simp add: recombine_inv_def)
      ultimately have fl: "r' = ?r1\<lparr>batchMap := fmdrop s (batchMap ?r1)\<rparr>"
        "\<exists>gs. explains ?r1 (\<lambda>_. []) r' sent gs"
        using flushSource_explains [OF _ _ f] by (auto simp del: group_ok.simps)
      have "fmdrop s (fmupd s (batch r s @ [e]) (batchMap r)) = fmdrop s (batchMap r)"
        by (rule fmap_eqI) auto
      then have "batchMap r' = fmdrop s (batchMap r)" using fl(1) by simp
      then show ?thesis using explains_trans [OF e1] fl(2) by fastforce
    next
      case False
      then have "r' = ?r1" "sent = []" using add Some b by (simp_all add: addToBatch_def Let_def)
      moreover have "fmdom (fmupd s (es @ [e]) (batchMap r)) = fmdom (batchMap r)"
        using Some by (auto simp: fmlookup_dom_iff)
      moreover have "int (fcard (fmdom (batchMap r))) < maxSources r"
        using inv Some by (auto simp: recombine_inv_def)
      ultimately show ?thesis using e1 b False by auto
    qed
  qed
  then show "\<exists>gs. explains r ?a r' sent gs"
    "batchMap r' = fmempty \<or> batchMap r' = fmdrop s (batchMap r)
     \<or> batchMap r' = fmupd s (batch r s @ [e]) (batchMap r)
       \<and> (batch r s = [] \<or> int (length (batch r s @ [e])) < maxBatchSize r)
       \<and> int (fcard (fmdom (batchMap r'))) < maxSources r" by blast+
qed

lemma addToBatch_inv:
  assumes "recombine_inv r" "orders perm" "batch_ok r [e]" "batch r s \<noteq> [] \<Longrightarrow> \<not> is_match r e"
    and "addToBatch perm e s r = (r', sent)"
  shows "recombine_inv r'" "\<exists>gs. explains r (\<lambda>t. if t = s then [e] else []) r' sent gs"
proof -
  have shape: "batch r s \<noteq> [] \<Longrightarrow> batch_ok r (batch r s)" using inv_batch [OF assms(1)] .
  have tl: "tl (batch r s @ [e]) = (if batch r s = [] then [] else tl (batch r s) @ [e])"
    by (cases "batch r s") auto
  have d: "delimited r (batch r s @ [e])"
    using shape assms(4) by (auto simp: delimited_def batch_ok_def tl split: if_splits)
  note add = addToBatch_explains [OF assms(1,2) d assms(5)]
  show "\<exists>gs. explains r (\<lambda>t. if t = s then [e] else []) r' sent gs" using add(1) .
  obtain m where m: "r' = r\<lparr>batchMap := m\<rparr>" using add(1) explains_config by blast
  have ok: "batch_ok r (batch r s @ [e])"
    if "batch r s = [] \<or> int (length (batch r s @ [e])) < maxBatchSize r"
    using that shape assms(3,4) by (cases "batch r s = []") (auto simp: batch_ok_def tl)
  consider "m = fmempty" | "m = fmdrop s (batchMap r)"
    | "m = fmupd s (batch r s @ [e]) (batchMap r)" "batch_ok r (batch r s @ [e])" "int (fcard (fmdom m)) < maxSources r"
    using add(2) ok m by auto
  then show "recombine_inv r'"
  proof cases
    case 1
    then show ?thesis using inv_empty [OF assms(1)] m by simp
  next
    case 2
    then show ?thesis using inv_drop [OF assms(1)] m by simp
  next
    case 3
    then show ?thesis using assms(1) m by (auto simp: recombine_inv_def)
  qed
qed

lemma add_then_flush:
  assumes inv: "recombine_inv r" and perm: "orders perm" and d: "delimited r (batch r s @ [e])"
    and add: "addToBatch perm e s r = (r1, s1)" and fl: "flushSource s r1 = (r2, s2, err)"
  shows "err = None" "recombine_inv r2"
    "\<exists>gs. explains r (\<lambda>t. if t = s then [e] else []) r2 (s1 @ s2) gs"
proof -
  note a = addToBatch_explains [OF inv perm d add]
  obtain m where m: "r1 = r\<lparr>batchMap := m\<rparr>" using a(1) explains_config by blast
  have n: "nameable (combineField r1)" using inv m by (simp add: recombine_inv_def)
  have g: "group_ok r1 (Merged s (batch r1 s))" if "batch r1 s \<noteq> []"
    using a(2) that d by (auto simp: m)
  note f = flushSource_explains [OF n g fl]
  show "err = None" by (rule f(1))
  show "\<exists>gs. explains r (\<lambda>t. if t = s then [e] else []) r2 (s1 @ s2) gs"
    using a(1) f(3) explains_trans by fastforce
  have "fmdrop s (fmupd s (batch r s @ [e]) (batchMap r)) = fmdrop s (batchMap r)"
    by (rule fmap_eqI) auto
  moreover have "fmdrop s (fmdrop s (batchMap r)) = fmdrop s (batchMap r)"
    by (rule fmap_eqI) auto
  moreover have "fmdrop s (fmempty :: batches) = fmempty" by simp
  ultimately have drop: "fmdrop s m = fmempty \<or> fmdrop s m = fmdrop s (batchMap r)"
    using a(2) m by auto
  have idle: "m = fmempty \<or> m = fmdrop s (batchMap r)" if "batch r1 s = []"
    using a(2) that by (auto simp: m)
  have "r2 = r\<lparr>batchMap := fmdrop s m\<rparr> \<or> (batch r1 s = [] \<and> r2 = r\<lparr>batchMap := m\<rparr>)"
    using f(2) by (simp add: m)
  then have "r2 = r\<lparr>batchMap := fmempty\<rparr> \<or> r2 = r\<lparr>batchMap := fmdrop s (batchMap r)\<rparr>"
    using drop idle by metis
  then show "recombine_inv r2" using inv_empty [OF inv] inv_drop [OF inv] by auto
qed

section \<open>Steps\<close>

lemma Recombine_step:
  assumes inv: "recombine_inv r" and perm: "orders perm"
    and m: "prog r (GetExprEnv fmempty e) = Inr (VBool m)"
    and run: "Recombine_Process perm r e = Some (r', sent, err)"
  shows "err = None \<and> recombine_inv r'
    \<and> (\<exists>gs. explains r (\<lambda>t. if t = source_of r e then [e] else []) r' sent gs)"
proof -
  let ?s = "source_of r e"
  have match: "is_match r e \<longleftrightarrow> m" using m by (simp add: is_match_def)
  consider (first) "m" "matchFirstLine r" | (last) "m" "\<not> matchFirstLine r"
    | (emit) "\<not> m" "matchFirstLine r" "batch r ?s = []"
    | (add) "\<not> m" "\<not> (matchFirstLine r \<and> batch r ?s = [])" by blast
  then show ?thesis
  proof cases
    case first
    obtain r1 s1 x where f: "flushSource ?s r = (r1, s1, x)" by (metis surj_pair)
    note i = inv_flush [OF inv f]
    obtain r2 s2 where a: "addToBatch perm e ?s r1 = (r2, s2)" by (metis surj_pair)
    obtain mm where mm: "r1 = r\<lparr>batchMap := mm\<rparr>" using i(4) explains_config by blast
    have "batch_ok r1 [e]" using first by (simp add: mm) (simp add: batch_ok_def)
    with addToBatch_inv [OF i(2) perm _ _ a] i(3)
    have j: "recombine_inv r2" "\<exists>gs. explains r1 (\<lambda>t. if t = ?s then [e] else []) r2 s2 gs" by auto
    have "\<exists>gs. explains r (\<lambda>t. if t = ?s then [e] else []) r2 (s1 @ s2) gs"
      using explains_trans i(4) j(2) by fastforce
    moreover have "(r', sent, err) = (r2, s1 @ s2, None)"
      using run m first f i(1) a by (simp add: Recombine_Process_def Let_def)
    ultimately show ?thesis using j(1) by simp
  next
    case last
    have "delimited r (batch r ?s @ [e])"
      using inv_batch [OF inv, of ?s] last(2)
      by (cases "batch r ?s = []") (auto simp: delimited_def batch_ok_def)
    moreover obtain r1 s1 where a: "addToBatch perm e ?s r = (r1, s1)" by (metis surj_pair)
    moreover obtain r2 s2 x where f: "flushSource ?s r1 = (r2, s2, x)" by (metis surj_pair)
    ultimately show ?thesis
      using add_then_flush [OF inv perm, of ?s e r1 s1 r2 s2 x] run m last
      by (simp add: Recombine_Process_def Let_def)
  next
    case emit
    have "delimited r (batch r ?s @ [e])" using emit by (simp add: delimited_def)
    moreover obtain r1 s1 where a: "addToBatch perm e ?s r = (r1, s1)" by (metis surj_pair)
    moreover obtain r2 s2 x where f: "flushSource ?s r1 = (r2, s2, x)" by (metis surj_pair)
    ultimately show ?thesis
      using add_then_flush [OF inv perm, of ?s e r1 s1 r2 s2 x] run m emit
      by (simp add: Recombine_Process_def Let_def)
  next
    case add
    obtain r1 s1 where a: "addToBatch perm e ?s r = (r1, s1)" by (metis surj_pair)
    have "batch_ok r [e]" using add(1) match by (simp add: batch_ok_def)
    with addToBatch_inv [OF inv perm _ _ a] add(1) match
    have "recombine_inv r1 \<and> (\<exists>gs. explains r (\<lambda>t. if t = ?s then [e] else []) r1 s1 gs)" by auto
    moreover have "(r', sent, err) = (r1, s1, None)"
      using run m add a by (auto simp: Recombine_Process_def Let_def)
    ultimately show ?thesis by simp
  qed
qed

lemma tick_loop_step:
  "recombine_inv r \<Longrightarrow> tick_loop now ks r = (r', sent) \<Longrightarrow>
   recombine_inv r' \<and> (\<exists>gs. explains r (\<lambda>_. []) r' sent gs)"
proof (induction ks arbitrary: r r' sent)
  case Nil
  have "explains r (\<lambda>_. []) r [] []" by (simp add: explains_def)
  with Nil show ?case by auto
next
  case (Cons k ks)
  let ?skip = "saturate (UnixNano now - UnixNano (Timestamp (last (batch r k)))) < forceFlushTimeout r"
  show ?case
  proof (cases ?skip)
    case True
    then show ?thesis using Cons by (simp add: Let_def)
  next
    case False
    obtain r1 s1 x where f: "flushSource k r = (r1, s1, x)" by (metis surj_pair)
    obtain r2 s2 where t: "tick_loop now ks r1 = (r2, s2)" by (metis surj_pair)
    note i = inv_flush [OF Cons.prems(1) f]
    have "r' = r2" "sent = s1 @ s2" using Cons.prems(2) False f t by (auto simp: Let_def)
    then show ?thesis using Cons.IH [OF i(2) t] i(4) explains_trans by fastforce
  qed
qed

section \<open>Whole runs\<close>

datatype event = Arrive map_order entry | Tick map_order gtime | Halt map_order

fun event_order :: "event \<Rightarrow> map_order" where
  "event_order (Arrive perm e) = perm"
| "event_order (Tick perm t) = perm"
| "event_order (Halt perm) = perm"

fun step :: "event \<Rightarrow> 'a RecombineOperator_scheme \<Rightarrow> ('a RecombineOperator_scheme \<times> (opref \<times> entry) list) option" where
  "step (Arrive perm e) r = map_option (\<lambda>(r, sent, err). (r, sent)) (Recombine_Process perm r e)"
| "step (Tick perm t) r = Some (flush_tick perm t r)"
| "step (Halt perm) r = Some (Recombine_Stop perm r)"

fun run :: "event list \<Rightarrow> 'a RecombineOperator_scheme \<Rightarrow> ('a RecombineOperator_scheme \<times> (opref \<times> entry) list) option" where
  "run [] r = Some (r, [])"
| "run (ev # evs) r =
     (case step ev r of
        None \<Rightarrow> None
      | Some (r, sent) \<Rightarrow> map_option (apsnd ((@) sent)) (run evs r))"

fun arrivals :: "event list \<Rightarrow> entry list" where
  "arrivals [] = []"
| "arrivals (Arrive perm e # evs) = e # arrivals evs"
| "arrivals (_ # evs) = arrivals evs"

text \<open>the program gives a truth value on every entry, as \<open>expr.AsBool\<close> makes it, without an error\<close>

definition decides :: "'a RecombineOperator_scheme \<Rightarrow> entry \<Rightarrow> bool" where
  "decides r e \<longleftrightarrow> (\<exists>m. prog r (GetExprEnv fmempty e) = Inr (VBool m))"

lemma step_explains:
  assumes inv: "recombine_inv r" and perm: "orders (event_order ev)"
    and d: "\<forall>e \<in> set (arrivals [ev]). decides r e"
  shows "\<exists>r' sent gs. step ev r = Some (r', sent) \<and> recombine_inv r'
    \<and> explains r (\<lambda>t. filter (\<lambda>e. source_of r e = t) (arrivals [ev])) r' sent gs"
proof (cases ev)
  case (Arrive p e)
  then obtain m where m: "prog r (GetExprEnv fmempty e) = Inr (VBool m)" using d by (auto simp: decides_def)
  obtain r' sent err where p: "Recombine_Process p r e = Some (r', sent, err)"
  proof -
    have "Recombine_Process p r e \<noteq> None"
      by (auto simp: Recombine_Process_def m Let_def split: prod.split option.split)
    then show ?thesis using that by (metis not_Some_eq surj_pair)
  qed
  have "(\<lambda>t. if t = source_of r e then [e] else []) = (\<lambda>t. filter (\<lambda>e. source_of r e = t) [e])" by auto
  then show ?thesis using Recombine_step [OF inv _ m p] perm Arrive p by auto
next
  case (Tick p t)
  obtain r' sent where f: "flush_tick p t r = (r', sent)" by (metis surj_pair)
  then show ?thesis using tick_loop_step [OF inv, of t "p (batchMap r)"] Tick by (auto simp: flush_tick_def)
next
  case (Halt p)
  obtain r' sent where f: "flushUncombined p r = (r', sent)" by (metis surj_pair)
  then show ?thesis
    using flushUncombined_explains [OF _ f] perm Halt inv_empty [OF inv] by (auto simp: Recombine_Stop_def)
qed

lemma run_explains:
  assumes "recombine_inv r" "\<forall>ev \<in> set evs. orders (event_order ev)"
    "\<forall>e \<in> set (arrivals evs). decides r e"
  shows "\<exists>r' sent gs. run evs r = Some (r', sent) \<and> recombine_inv r'
    \<and> explains r (\<lambda>t. filter (\<lambda>e. source_of r e = t) (arrivals evs)) r' sent gs"
  using assms
proof (induction evs arbitrary: r)
  case Nil
  have "explains r (\<lambda>_. []) r [] []" by (simp add: explains_def)
  with Nil show ?case by auto
next
  case (Cons ev evs)
  have split: "arrivals (ev # evs) = arrivals [ev] @ arrivals evs" by (cases ev) auto
  obtain r1 s1 gs1 where s: "step ev r = Some (r1, s1)" "recombine_inv r1"
    "explains r (\<lambda>t. filter (\<lambda>e. source_of r e = t) (arrivals [ev])) r1 s1 gs1"
    using step_explains [OF Cons.prems(1), of ev] Cons.prems(2,3) split by auto
  obtain m where m: "r1 = r\<lparr>batchMap := m\<rparr>" using explains_config [OF s(3)] by blast
  have config: "source_of r1 = source_of r" "decides r1 = decides r"
    by (simp_all add: m decides_def fun_eq_iff)
  obtain r2 s2 gs2 where t: "run evs r1 = Some (r2, s2)" "recombine_inv r2"
    "explains r1 (\<lambda>t. filter (\<lambda>e. source_of r e = t) (arrivals evs)) r2 s2 gs2"
    using Cons.IH [OF s(2)] Cons.prems(2,3) split by (auto simp: config)
  have "explains r (\<lambda>t. filter (\<lambda>e. source_of r e = t) (arrivals (ev # evs))) r2 (s1 @ s2) (gs1 @ gs2)"
    using explains_trans [OF s(3) t(3)] by (simp add: split)
  then show ?case using s(1) t(1,2) by auto
qed

lemma built_inv:
  assumes "RecombineOperatorConfig_Build compile has_logger c = Some (Inr r0)" "CombineField c = Some f"
    "nameable f"
  shows "recombine_inv (r0\<lparr>OutputOperators := outs\<rparr>)" "batchMap (r0\<lparr>OutputOperators := outs\<rparr>) = fmempty"
    "maxBatchSize r0 = MaxBatchSize c" "maxSources r0 = MaxSources c" "combineField r0 = f"
  using assms
  by (auto simp: RecombineOperatorConfig_Build_def RecombineOperator.defs TransformerOperator.defs
      recombine_inv_def Let_def split: sum.splits if_splits)

lemma sorted_order: "orders (\<lambda>m. map fst (sorted_list_of_fmap m))"
  by (simp add: orders_def sorted_list_of_fmap_def comp_def sorted_list_of_fset.rep_eq fmdom'_alt_def)

section \<open>What a merged entry holds\<close>

lemma get_set_text: "nameable f \<Longrightarrow> field_Get f (fst (field_Set f (VString v) e)) = Some (VString v)"
proof (cases "nested f")
  case True
  then show ?thesis using nested_field.get_set [OF field_nested_field, of f "VString v" e] by (simp add: is_map_def)
next
  case False
  assume "nameable f"
  then have "f = BodyField []" using False by (cases f) (auto simp: nested_def)
  then show ?thesis by (simp add: BodyField_Set_def BodyField_Get_def)
qed

text \<open>
  What the \<open>i\<close>th entry of a batch adds to the text: its own text, and the separator unless it is the
  last one; nothing at all where the field cannot be read as text.
\<close>

definition piece :: "'a RecombineOperator_scheme \<Rightarrow> entry list \<Rightarrow> nat \<Rightarrow> string" where
  "piece r es i =
     (case readToString (combineField r) (es ! i) [] of
        (t, None) \<Rightarrow> t @ (if Suc i < length es then combineWith r else [])
      | (t, Some err) \<Rightarrow> [])"

lemma pieces_Cons:
  "concat (map (piece r (e # es)) [0..<Suc (length es)]) =
     (case readToString (combineField r) e [] of (t, None) \<Rightarrow> t @ (if es \<noteq> [] then combineWith r else []) | _ \<Rightarrow> [])
     @ concat (map (piece r es) [0..<length es])"
proof -
  have "map (piece r (e # es)) [0..<Suc (length es)] = piece r (e # es) 0 # map (piece r es) [0..<length es]"
    by (simp add: upt_conv_Cons map_Suc_upt [symmetric] piece_def comp_def del: upt_Suc)
  then show ?thesis by (simp add: piece_def split: prod.split option.split)
qed

lemma combine_loop_pieces:
  "combine_loop (combineField r) (combineWith r) es = concat (map (piece r es) [0..<length es])"
proof (induction es)
  case (Cons e es)
  then show ?case unfolding length_Cons pieces_Cons by (simp split: prod.split option.split)
qed simp

lemma combine_loop_join:
  "(\<And>e. e \<in> set es \<Longrightarrow> readToString f e [] = (t e, None)) \<Longrightarrow>
   combine_loop f sep es = str_join (map t es) sep"
proof (induction es)
  case (Cons e es)
  then show ?case by (cases es) auto
qed simp

lemma combine_loop_holds:
  "\<lbrakk>e \<in> set es; readToString f e [] = (t, None)\<rbrakk> \<Longrightarrow> \<exists>pre post. combine_loop f sep es = pre @ t @ post"
proof (induction es)
  case (Cons a es)
  show ?case
  proof (cases "e = a")
    case True
    then show ?thesis using Cons.prems(2)
      by (intro exI [of _ "[]"] exI [of _ "(if es \<noteq> [] then sep else []) @ combine_loop f sep es"]) simp
  next
    case False
    then obtain pre post where "combine_loop f sep es = pre @ t @ post" using Cons by auto
    moreover have "\<exists>p. combine_loop f sep (a # es) = p @ combine_loop f sep es"
      by (simp split: prod.split option.split)
    ultimately show ?thesis by (metis append.assoc)
  qed
qed simp

lemma merged_reads:
  "nameable (combineField r) \<Longrightarrow>
   field_Get (combineField r) (merged r es) = Some (VString (combine_loop (combineField r) (combineWith r) es))"
  by (simp add: merged_def get_set_text)

text \<open>
  C2: what recombine receives it sends, once.  Start from a built operator with a usable \<open>combine_field\<close>
  and let entries arrive, on each of which the expression gives a truth value, and the timer tick in any
  order, with any iteration order of the map, then stop.  No step fails, nothing stays behind, and what
  was sent is a list of groups: for every source the groups, one after the other, hold exactly the
  entries that arrived from it, in their order.  Each merged group has at most \<open>max_batch_size\<close> entries
  (two where the limit is below two) and only its first entry matches \<open>is_first_entry\<close>, or only its last
  one \<open>is_last_entry\<close>.  A group goes out as one entry, an entry alone as it is; the text of every entry
  that has the \<open>combine_field\<close> as text stands in the \<open>combine_field\<close> of the entry its group is sent as.
  An entry without it leaves no text there (\<open>recombine.go:315\<close>).
\<close>

theorem Recombine_conserves:
  assumes build: "RecombineOperatorConfig_Build compile has_logger c = Some (Inr r0)"
    "CombineField c = Some f" "nameable f" and r: "r = r0\<lparr>OutputOperators := outs\<rparr>"
    and orders: "\<forall>ev \<in> set evs. orders (event_order ev)" "orders perm"
    and decides: "\<forall>e \<in> set (arrivals evs). decides r e"
  shows "\<exists>r' sent gs. run (evs @ [Halt perm]) r = Some (r', sent) \<and> batchMap r' = fmempty
    \<and> sent = concat (map (emit r) gs)
    \<and> (\<forall>t. consumed gs t = filter (\<lambda>e. source_of r e = t) (arrivals evs))
    \<and> (\<forall>g \<in> set gs. group_ok r g)
    \<and> (\<forall>g \<in> set gs. \<exists>m. emit r g = Write r m \<and>
        (case g of
           Alone s e \<Rightarrow> m = e
         | Merged s es \<Rightarrow> \<forall>e \<in> set es. \<forall>t. readToString f e [] = (t, None) \<longrightarrow>
             (\<exists>pre post. field_Get f m = Some (VString (pre @ t @ post)))))"
proof -
  have arr: "arrivals (evs @ [Halt perm]) = arrivals evs" by (induction evs rule: arrivals.induct) auto
  have inv: "recombine_inv r" and empty: "batchMap r = fmempty" using built_inv [OF build] r by auto
  obtain r' sent gs where run: "run (evs @ [Halt perm]) r = Some (r', sent)"
    and ex: "explains r (\<lambda>t. filter (\<lambda>e. source_of r e = t) (arrivals (evs @ [Halt perm]))) r' sent gs"
    using run_explains [OF inv, of "evs @ [Halt perm]"] orders decides arr by auto
  have halted: "run (evs @ [Halt perm]) r = Some (r', sent) \<Longrightarrow> batchMap r' = fmempty" for r r' sent
    by (induction evs arbitrary: r r' sent)
      (auto simp: Recombine_Stop_def flushUncombined_def split: option.splits prod.splits)
  have stopped: "batchMap r' = fmempty" using halted [OF run] .
  have f: "combineField r = f" using built_inv(5) [OF build] by (simp add: r)
  have held: "\<exists>m. emit r g = Write r m \<and>
        (case g of
           Alone s e \<Rightarrow> m = e
         | Merged s es \<Rightarrow> \<forall>e \<in> set es. \<forall>t. readToString f e [] = (t, None) \<longrightarrow>
             (\<exists>pre post. field_Get f m = Some (VString (pre @ t @ post))))" for g
  proof (cases g)
    case (Merged s es)
    then show ?thesis using merged_reads [of r es] build(3) combine_loop_holds [of _ es f _ "combineWith r"]
      by (intro exI [of _ "merged r es"]) (auto simp: f)
  next
    case (Alone s e)
    then show ?thesis by auto
  qed
  have "sent = concat (map (emit r) gs)" "\<forall>g \<in> set gs. group_ok r g"
    "\<forall>t. consumed gs t = filter (\<lambda>e. source_of r e = t) (arrivals evs)"
    using ex stopped empty by (simp_all add: explains_def arr batch_def)
  then show ?thesis using run stopped held by blast
qed

theorem Recombine_conserves_witness:
  "\<exists>r' sent. run [Arrive (\<lambda>m. map fst (sorted_list_of_fmap m)) (New zero_time), Halt (\<lambda>m. map fst (sorted_list_of_fmap m))]
      \<lparr>OperatorID = ''r'', OperatorType = ''recombine'', OutputIDs = [], OutputOperators = [],
       OnError = ''send'', IfExpr = None, matchFirstLine = False, prog = \<lambda>_. Inr (VBool False),
       maxBatchSize = 10, maxSources = 10, overwriteWithOldest = True, combineField = BodyField [],
       combineWith = [], forceFlushTimeout = 1, sourceIdentifier = AttributeField [''file.path''],
       batchMap = fmempty\<rparr> = Some (r', sent) \<and> batchMap r' = fmempty"
proof -
  let ?r = "\<lparr>OperatorID = ''r'', OperatorType = ''recombine'', OutputIDs = [], OutputOperators = [],
       OnError = ''send'', IfExpr = None, matchFirstLine = False, prog = \<lambda>_. Inr (VBool False),
       maxBatchSize = 10, maxSources = 10, overwriteWithOldest = True, combineField = BodyField [],
       combineWith = [], forceFlushTimeout = 1, sourceIdentifier = AttributeField [''file.path''],
       batchMap = fmempty\<rparr>"
  let ?c = "\<lparr>cfgOperatorID = ''r'', cfgOperatorType = ''recombine'', cfgOutputIDs = [], cfgOnError = ''send'',
       cfgIfExpr = [], IsFirstEntry = [], IsLastEntry = ''false'', MaxBatchSize = 10,
       CombineField = Some (BodyField []), CombineWith = [], SourceIdentifier = AttributeField [''file.path''],
       OverwriteWith = ''oldest'', ForceFlushTimeout = 1, MaxSources = 10\<rparr>"
  have build: "RecombineOperatorConfig_Build (\<lambda>_. Inr (\<lambda>_. Inr (VBool False))) True ?c = Some (Inr ?r)"
    by (simp add: RecombineOperatorConfig_Build_def TransformerConfig_Build_def WriterConfig_Build_def
        BasicConfig_Build_def BasicConfig_ID_def BasicOperator.defs WriterOperator.defs
        TransformerOperator.defs RecombineOperator.defs)
  have d: "decides ?r e" for e by (auto simp: decides_def intro: exI [of _ False])
  show ?thesis
    using Recombine_conserves [OF build, of "BodyField []" ?r "[]"
        "[Arrive (\<lambda>m. map fst (sorted_list_of_fmap m)) (New zero_time)]" "\<lambda>m. map fst (sorted_list_of_fmap m)"]
    by (auto simp: sorted_order d)
qed

text \<open>
  C23: the memory of recombine is bounded.  No run fails, and after every run each batch is non-empty and
  has fewer than \<open>max_batch_size\<close> entries, or is a single entry, and there are fewer than
  \<open>max_sources\<close> batches, or none.
\<close>

theorem Recombine_bounded:
  assumes build: "RecombineOperatorConfig_Build compile has_logger c = Some (Inr r0)"
    "CombineField c = Some f" "nameable f"
    and orders: "\<forall>ev \<in> set evs. orders (event_order ev)"
    and decides: "\<forall>e \<in> set (arrivals evs). decides r0 e"
  shows "\<exists>r' sent. run evs (r0\<lparr>OutputOperators := outs\<rparr>) = Some (r', sent)
    \<and> (\<forall>s es. fmlookup (batchMap r') s = Some es \<longrightarrow>
        es \<noteq> [] \<and> (length es = 1 \<or> int (length es) < MaxBatchSize c))
    \<and> (batchMap r' = fmempty \<or> int (fcard (fmdom (batchMap r'))) < MaxSources c)"
proof -
  have "decides (r0\<lparr>OutputOperators := outs\<rparr>) = decides r0" by (simp add: decides_def fun_eq_iff)
  then obtain r' sent gs where run: "run evs (r0\<lparr>OutputOperators := outs\<rparr>) = Some (r', sent)"
    and "recombine_inv r'" "explains (r0\<lparr>OutputOperators := outs\<rparr>)
      (\<lambda>t. filter (\<lambda>e. source_of (r0\<lparr>OutputOperators := outs\<rparr>) e = t) (arrivals evs)) r' sent gs"
    using run_explains [OF built_inv(1) [OF build, of outs] orders] decides by auto
  moreover from this have "maxBatchSize r' = MaxBatchSize c" "maxSources r' = MaxSources c"
    using built_inv(3,4) [OF build] by (auto dest!: explains_config)
  ultimately have "(\<forall>s es. fmlookup (batchMap r') s = Some es \<longrightarrow>
        es \<noteq> [] \<and> (length es = 1 \<or> int (length es) < MaxBatchSize c))
    \<and> (batchMap r' = fmempty \<or> int (fcard (fmdom (batchMap r'))) < MaxSources c)"
    by (fastforce simp: recombine_inv_def batch_ok_def)
  with run show ?thesis by blast
qed

theorem Recombine_bounded_witness:
  "\<exists>r' sent. run [Arrive (\<lambda>m. map fst (sorted_list_of_fmap m)) (New zero_time),
        Arrive (\<lambda>m. map fst (sorted_list_of_fmap m)) (New zero_time)]
      \<lparr>OperatorID = ''r'', OperatorType = ''recombine'', OutputIDs = [], OutputOperators = [],
       OnError = ''send'', IfExpr = None, matchFirstLine = False, prog = \<lambda>_. Inr (VBool False),
       maxBatchSize = 2, maxSources = 10, overwriteWithOldest = True, combineField = BodyField [],
       combineWith = [], forceFlushTimeout = 1, sourceIdentifier = AttributeField [''file.path''],
       batchMap = fmempty\<rparr> = Some (r', sent)
     \<and> (batchMap r' = fmempty \<or> int (fcard (fmdom (batchMap r'))) < 10)"
proof -
  let ?r = "\<lparr>OperatorID = ''r'', OperatorType = ''recombine'', OutputIDs = [], OutputOperators = [],
       OnError = ''send'', IfExpr = None, matchFirstLine = False, prog = \<lambda>_. Inr (VBool False),
       maxBatchSize = 2, maxSources = 10, overwriteWithOldest = True, combineField = BodyField [],
       combineWith = [], forceFlushTimeout = 1, sourceIdentifier = AttributeField [''file.path''],
       batchMap = fmempty\<rparr>"
  let ?c = "\<lparr>cfgOperatorID = ''r'', cfgOperatorType = ''recombine'', cfgOutputIDs = [], cfgOnError = ''send'',
       cfgIfExpr = [], IsFirstEntry = [], IsLastEntry = ''false'', MaxBatchSize = 2,
       CombineField = Some (BodyField []), CombineWith = [], SourceIdentifier = AttributeField [''file.path''],
       OverwriteWith = ''oldest'', ForceFlushTimeout = 1, MaxSources = 10\<rparr>"
  have build: "RecombineOperatorConfig_Build (\<lambda>_. Inr (\<lambda>_. Inr (VBool False))) True ?c = Some (Inr ?r)"
    by (simp add: RecombineOperatorConfig_Build_def TransformerConfig_Build_def WriterConfig_Build_def
        BasicConfig_Build_def BasicConfig_ID_def BasicOperator.defs WriterOperator.defs
        TransformerOperator.defs RecombineOperator.defs)
  have d: "decides ?r e" for e by (auto simp: decides_def intro: exI [of _ False])
  show ?thesis
    using Recombine_bounded [OF build, of "BodyField []" "[Arrive (\<lambda>m. map fst (sorted_list_of_fmap m)) (New zero_time),
        Arrive (\<lambda>m. map fst (sorted_list_of_fmap m)) (New zero_time)]" "[]"]
    by (simp add: sorted_order d del: run.simps) blast
qed

text \<open>
  C32: what flushing a source sends.  A batch goes out as one entry and is forgotten.  The entry reads in
  the \<open>combine_field\<close> the texts of the batch, one after the other, each but the last one of the batch
  followed by \<open>combine_with\<close>; an entry without text there adds neither text nor separator.  If all have
  it, these are the texts joined by \<open>combine_with\<close>.  Everything else it reads is from the oldest, or the
  newest, entry of the batch.
\<close>

theorem Recombine_merged:
  assumes "nameable (combineField r)" "batch r s \<noteq> []"
  shows "\<exists>m. flushSource s r = (r\<lparr>batchMap := fmdrop s (batchMap r)\<rparr>, Write r m, None)
    \<and> field_Get (combineField r) m =
        Some (VString (concat (map (piece r (batch r s)) [0..<length (batch r s)])))
    \<and> ((\<forall>e \<in> set (batch r s). snd (readToString (combineField r) e []) = None) \<longrightarrow>
        field_Get (combineField r) m = Some (VString
          (str_join (map (\<lambda>e. fst (readToString (combineField r) e [])) (batch r s)) (combineWith r))))
    \<and> (\<forall>g. separate (combineField r) g \<longrightarrow>
         field_Get g m = field_Get g (if overwriteWithOldest r then hd (batch r s) else last (batch r s)))"
proof -
  let ?es = "batch r s"
  have "flushSource s r = (r\<lparr>batchMap := fmdrop s (batchMap r)\<rparr>, Write r (merged r ?es), None)"
    using assms(2) field_Set_nameable_ok [OF assms(1)]
    by (simp add: flushSource_def Let_def merged_def split: prod.split option.split) (metis fst_conv snd_conv option.distinct(1))
  moreover have "combine_loop (combineField r) (combineWith r) ?es =
      str_join (map (\<lambda>e. fst (readToString (combineField r) e [])) ?es) (combineWith r)"
    if "\<forall>e \<in> set ?es. snd (readToString (combineField r) e []) = None"
    using that by (intro combine_loop_join) (simp add: prod_eq_iff)
  moreover have "field_Get g (merged r ?es) = field_Get g (if overwriteWithOldest r then hd ?es else last ?es)"
    if "separate (combineField r) g" for g
    using field_frame(1) [OF that] assms(2) by (simp add: merged_def hd_conv_nth)
  ultimately show ?thesis using merged_reads [OF assms(1), of ?es]
    by (intro exI [of _ "merged r ?es"]) (auto simp: combine_loop_pieces)
qed

definition sample_batch :: RecombineOperator where
  "sample_batch =
     \<lparr>OperatorID = ''r'', OperatorType = ''recombine'', OutputIDs = [], OutputOperators = [],
      OnError = ''send'', IfExpr = None, matchFirstLine = False, prog = \<lambda>_. Inr (VBool False),
      maxBatchSize = 10, maxSources = 10, overwriteWithOldest = False, combineField = BodyField [''m''],
      combineWith = ''+'', forceFlushTimeout = 1, sourceIdentifier = AttributeField [''file.path''],
      batchMap = fmupd ''s''
        [(New zero_time)\<lparr>Body := VMap (fmupd ''m'' (VString ''a'') fmempty)\<rparr>,
         (New zero_time)\<lparr>Body := VMap (fmupd ''m'' (VBool True) fmempty)\<rparr>,
         (New zero_time)\<lparr>Body := VMap (fmupd ''m'' (VString ''b'') (fmupd ''k'' (VString ''last'') fmempty))\<rparr>] fmempty\<rparr>"

theorem Recombine_merged_witness:
  "\<exists>m. flushSource ''s'' sample_batch = (sample_batch\<lparr>batchMap := fmdrop ''s'' (batchMap sample_batch)\<rparr>, Write sample_batch m, None)
    \<and> field_Get (BodyField [''m'']) m = Some (VString ''a+b'')
    \<and> field_Get (BodyField [''k'']) m = Some (VString ''last'')"
proof -
  have c: "combineField sample_batch = BodyField [''m'']" "\<not> overwriteWithOldest sample_batch"
    by (simp_all add: sample_batch_def)
  have n: "nameable (combineField sample_batch)" by (simp add: c)
  have e: "batch sample_batch ''s'' \<noteq> []" by (simp add: sample_batch_def batch_def)
  have joined: "concat (map (piece sample_batch (batch sample_batch ''s'')) [0..<length (batch sample_batch ''s'')]) = ''a+b''"
    by (simp add: piece_def sample_batch_def batch_def upt_rec readToString_def BodyField_Get_def)
  have last: "field_Get (BodyField [''k'']) (last (batch sample_batch ''s'')) = Some (VString ''last'')"
    by (simp add: sample_batch_def batch_def BodyField_Get_def)
  have sep: "separate (combineField sample_batch) (BodyField [''k''])" by (simp add: c independent_def)
  obtain m where m: "flushSource ''s'' sample_batch = (sample_batch\<lparr>batchMap := fmdrop ''s'' (batchMap sample_batch)\<rparr>, Write sample_batch m, None)"
    "field_Get (combineField sample_batch) m =
       Some (VString (concat (map (piece sample_batch (batch sample_batch ''s'')) [0..<length (batch sample_batch ''s'')])))"
    "\<forall>g. separate (combineField sample_batch) g \<longrightarrow> field_Get g m =
       field_Get g (if overwriteWithOldest sample_batch then hd (batch sample_batch ''s'') else last (batch sample_batch ''s''))"
    using Recombine_merged [OF n e] by blast
  moreover have "field_Get (BodyField [''k'']) m = Some (VString ''last'')"
    using spec [OF m(3), of "BodyField [''k'']"] sep last c(2) by (simp only: if_False simp_thms)
  ultimately show ?thesis using c(1) joined by auto
qed

end
