(* ===== verification/Csv_Parsing.thy ===== *)
theory Csv_Parsing
  imports Parser_Operators
begin

text \<open>
  The csv parser: \<open>operator/parser/csv/csv.go\<close>, with what it uses of the standard library's
  \<open>encoding/csv\<close> (\<open>Reader.Read\<close> without comments and without trimming).

  A rune is given by the bytes of its UTF-8 encoding.
\<close>

section \<open>Runes\<close>

text \<open>The length of the encoding that a string starts with, or \<open>None\<close> if it is not valid.\<close>

definition cont :: "nat \<Rightarrow> nat \<Rightarrow> string \<Rightarrow> bool" where
  "cont lo hi s = (case s of [] \<Rightarrow> False | c # _ \<Rightarrow> lo \<le> (of_char c :: nat) \<and> of_char c \<le> hi)"

definition rune_len :: "string \<Rightarrow> nat option" where
  "rune_len s =
     (case s of [] \<Rightarrow> None
      | c # t \<Rightarrow>
          let n = of_char c :: nat; t' = tl t; t'' = tl t' in
          if n < 128 then Some 1
          else if 194 \<le> n \<and> n \<le> 223 \<and> cont 128 191 t then Some 2
          else if 224 \<le> n \<and> n \<le> 239 \<and> cont (if n = 224 then 160 else 128) (if n = 237 then 159 else 191) t
               \<and> cont 128 191 t' then Some 3
          else if 240 \<le> n \<and> n \<le> 244 \<and> cont (if n = 240 then 144 else 128) (if n = 244 then 143 else 191) t
               \<and> cont 128 191 t' \<and> cont 128 191 t'' then Some 4
          else None)"

definition rune_error :: string where
  "rune_error = [CHR 0xEF, CHR 0xBF, CHR 0xBD]"

text \<open>\<open>[]rune(s)\<close>: a byte that is not part of a valid encoding is the replacement character.\<close>

function runes :: "string \<Rightarrow> string list" where
  "runes s =
     (if s = [] then []
      else case rune_len s of
             None \<Rightarrow> rune_error # runes (tl s)
           | Some n \<Rightarrow> take n s # runes (drop (max 1 n) s))"
  by pat_completeness auto
termination
  by (relation "measure length") (auto simp flip: length_greater_0_conv)

declare runes.simps [simp del]

section \<open>Reading records\<close>


record csv_reader =
  Comma :: string
  FieldsPerRecord :: nat
  LazyQuotes :: bool

definition validDelim :: "string \<Rightarrow> bool" where
  "validDelim r \<longleftrightarrow> r \<notin> {[CHR 0x00], [CHR 0x22], [CR], [LF], rune_error}"

text \<open>
  \<open>readLine\<close>: the line with its line feed, and what follows; \<open>\r\n\<close> becomes \<open>\n\<close>, and a carriage
  return before the end of the input is dropped.  \<open>None\<close> is the end of the input.
\<close>

definition readLine :: "string \<Rightarrow> (string \<times> string) option" where
  "readLine s =
     (if s = [] then None
      else case str_index s [LF] of
             Some i \<Rightarrow>
               Some (if 0 < i \<and> s ! (i - 1) = CR then take (i - 1) s @ [LF] else take (Suc i) s,
                     drop (Suc i) s)
           | None \<Rightarrow> Some (if last s = CR then butlast s else s, []))"

lemma readLine_shorter: "readLine s = Some (line, rest) \<Longrightarrow> length rest < length s"
  by (auto simp: readLine_def split: if_splits option.splits dest: str_index_bound)

lemma readLine_length: "readLine s = Some (line, rest) \<Longrightarrow> length line + length rest \<le> length s"
  by (auto simp: readLine_def split: if_splits option.splits dest: str_index_bound)

definition lengthNL :: "string \<Rightarrow> nat" where
  "lengthNL line = (if line \<noteq> [] \<and> last line = LF then 1 else 0)"

text \<open>The first line that is not empty.\<close>

function skip_lines :: "string \<Rightarrow> (string \<times> string) option" where
  "skip_lines s =
     (case readLine s of
        None \<Rightarrow> None
      | Some (line, rest) \<Rightarrow> if length line = lengthNL line then skip_lines rest else Some (line, rest))"
  by pat_completeness auto
termination
  by (relation "measure length") (auto simp: readLine_shorter)

declare skip_lines.simps [simp del]

text \<open>
  \<open>parse_fields\<close> is the loop \<open>parseField\<close> of \<open>readRecord\<close>: it gives the fields, whether there was a
  quoting error, and the input after the record.  The state is the current field (\<open>Some\<close> inside
  quotes), the rest of the line and the rest of the input.
\<close>

definition comma_index :: "csv_reader \<Rightarrow> string \<Rightarrow> nat option" where
  "comma_index r line = (if Comma r = [] then None else str_index line (Comma r))"

lemma comma_index_bound:
  "comma_index r line = Some n \<Longrightarrow> n + length (Comma r) \<le> length line \<and> 0 < length (Comma r)"
  by (auto simp: comma_index_def dest: str_index_bound split: if_splits)

function parse_fields ::
  "csv_reader \<Rightarrow> string option \<Rightarrow> string \<Rightarrow> string \<Rightarrow> string list \<Rightarrow> string list \<times> bool \<times> string" where
  "parse_fields r None line rest fs =
     (if line = [] \<or> hd line \<noteq> CHR 0x22 then
        (let i = comma_index r line;
             field = (case i of Some n \<Rightarrow> take n line | None \<Rightarrow> take (length line - lengthNL line) line)
         in if \<not> LazyQuotes r \<and> CHR 0x22 \<in> set field then (fs, True, rest)
            else case i of
                   Some n \<Rightarrow> parse_fields r None (drop (n + length (Comma r)) line) rest (fs @ [field])
                 | None \<Rightarrow> (fs @ [field], False, rest))
      else parse_fields r (Some []) (tl line) rest fs)"
| "parse_fields r (Some buffer) line rest fs =
     (case str_index line [CHR 0x22] of
        Some i \<Rightarrow>
          (let buffer = buffer @ take i line; line = drop (Suc i) line in
           if has_prefix line [CHR 0x22] then parse_fields r (Some (buffer @ [CHR 0x22])) (tl line) rest fs
           else if Comma r \<noteq> [] \<and> has_prefix line (Comma r)
           then parse_fields r None (drop (length (Comma r)) line) rest (fs @ [buffer])
           else if lengthNL line = length line then (fs @ [buffer], False, rest)
           else if LazyQuotes r then parse_fields r (Some (buffer @ [CHR 0x22])) line rest fs
           else (fs, True, rest))
      | None \<Rightarrow>
          if line \<noteq> [] then
            (case readLine rest of
               Some (line', rest') \<Rightarrow> parse_fields r (Some (buffer @ line)) line' rest' fs
             | None \<Rightarrow> parse_fields r (Some (buffer @ line)) [] [] fs)
          else if \<not> LazyQuotes r then (fs, True, rest)
          else (fs @ [buffer], False, rest))"
  by pat_completeness auto
termination
  by (relation "measures [\<lambda>(r, buffer, line, rest, fs). length line + length rest]")
    (auto dest!: str_index_bound readLine_length comma_index_bound [OF sym] simp: has_prefix_iff simp flip: length_greater_0_conv)

declare parse_fields.simps [simp del]

lemma parse_fields_rest:
  "parse_fields r b line rest fs = (fs', err, rest') \<Longrightarrow> length rest' \<le> length rest"
proof (induction r b line rest fs rule: parse_fields.induct)
  case (1 r line rest fs)
  show ?case
  proof (cases "line = [] \<or> hd line \<noteq> CHR 0x22")
    case True
    then show ?thesis using "1.prems" "1.IH"(1) [OF True refl refl]
      by (auto simp: Let_def parse_fields.simps(1) [of r line] split: if_splits option.splits)
  next
    case False
    then show ?thesis using "1.prems" "1.IH"(2) [OF False] by (simp add: parse_fields.simps(1) [of r line])
  qed
next
  case (2 r buffer line rest fs)
  note step = parse_fields.simps(2) [of r buffer line rest fs]
  show ?case
  proof (cases "str_index line [CHR 0x22]")
    case (Some i)
    then show ?thesis using "2.prems" "2.IH"(3-5) [OF Some refl refl]
      by (auto simp: Let_def step split: if_splits)
  next
    case None
    show ?thesis
    proof (cases "line = []")
      case True
      then show ?thesis using "2.prems" None unfolding step by (auto split: if_splits)
    next
      case False
      note IH = "2.IH"(1,2) [OF None False]
      show ?thesis
      proof (cases "readLine rest")
        case rd: None
        then show ?thesis using "2.prems" None False IH(1) [OF rd] by (simp add: step)
      next
        case rd: (Some lr)
        then obtain l t where "lr = (l, t)" by (cases lr)
        then show ?thesis using "2.prems" None False IH(2) [OF rd] readLine_shorter [of rest l t] rd
          by (simp add: step)
      qed
    qed
  qed
qed

text \<open>
  \<open>Read\<close>: the record, whether there is an error (an invalid delimiter, a quote, or the number of
  fields), and the rest of the input; \<open>None\<close> is the end.  Where \<open>FieldsPerRecord\<close> is 0 the library
  would take the number from the first record; the caller looks at an error of a non-empty record in
  no case.
\<close>

definition csv_Read :: "csv_reader \<Rightarrow> string \<Rightarrow> (string list \<times> bool \<times> string) option" where
  "csv_Read r s =
     (if \<not> validDelim (Comma r) then Some ([], True, s)
      else case skip_lines s of
             None \<Rightarrow> None
           | Some (line, rest) \<Rightarrow>
               (case parse_fields r None line rest [] of
                  (fs, err, rest) \<Rightarrow>
                    Some (fs, err \<or> (FieldsPerRecord r > 0 \<and> length fs \<noteq> FieldsPerRecord r), rest)))"

lemma skip_lines_shorter: "skip_lines s = Some (line, rest) \<Longrightarrow> length rest < length s"
proof (induction s rule: skip_lines.induct)
  case (1 s)
  obtain l t where l: "readLine s = Some (l, t)"
    using "1.prems" by (auto simp: skip_lines.simps [of s] split: option.splits)
  then show ?case
    using "1.prems" "1.IH" [OF l refl] readLine_shorter [OF l]
    by (auto simp: skip_lines.simps [of s] split: if_splits)
qed

text \<open>The loop over \<open>Read\<close>; \<open>None\<close> is the error \<open>failed to parse entry\<close>.\<close>

function read_all :: "csv_reader \<Rightarrow> string \<Rightarrow> string list list option" where
  "read_all r s =
     (case csv_Read r s of
        None \<Rightarrow> Some []
      | Some (line, err, rest) \<Rightarrow>
          if err \<and> line = [] then None else map_option ((#) line) (read_all r rest))"
  by pat_completeness auto
termination
  by (relation "measure (\<lambda>(r, s). length s)")
    (auto simp: csv_Read_def split: if_splits option.splits prod.splits
      dest!: skip_lines_shorter parse_fields_rest)

declare read_all.simps [simp del]

section \<open>The parser\<close>

text \<open>An empty line would be indexed out of range (\<open>None\<close>).\<close>

fun join_lines :: "string list \<Rightarrow> string list list \<Rightarrow> string list option" where
  "join_lines joinedLine [] = Some joinedLine"
| "join_lines joinedLine (nextLine # rest) =
     (if joinedLine = [] \<or> nextLine = [] then None
      else join_lines (butlast joinedLine @ [last joinedLine @ [LF] @ hd nextLine] @ tl nextLine) rest)"

definition zip_values :: "string list \<Rightarrow> string list \<Rightarrow> gval gomap" where
  "zip_values headers values = foldl (\<lambda>m (h, v). fmupd h (VString v) m) fmempty (zip headers values)"

definition generateParseFunc :: "string list \<Rightarrow> string \<Rightarrow> bool \<Rightarrow> parse_function" where
  "generateParseFunc headers fieldDelimiter lazyQuotes value =
     (case (case value of VString t \<Rightarrow> Some t | VBytes t \<Rightarrow> Some t | _ \<Rightarrow> None) of
        None \<Rightarrow> Some (Inl (StdError (''type '' @ quoted (go_type value) @ '' cannot be parsed as csv'')))
      | Some csvLine \<Rightarrow>
          (case read_all \<lparr>Comma = fieldDelimiter, FieldsPerRecord = length headers, LazyQuotes = lazyQuotes\<rparr> csvLine of
             None \<Rightarrow> Some (Inl (StdError ''failed to parse entry''))
           | Some [] \<Rightarrow> None
           | Some (line # rest) \<Rightarrow>
               (case join_lines line rest of
                  None \<Rightarrow> None
                | Some joinedLine \<Rightarrow>
                    if length joinedLine \<noteq> length headers
                    then Some (Inl (StdError ''wrong number of fields''))
                    else Some (Inr (VMap (zip_values headers joinedLine))))))"

record 'loc CSVParserConfig = "'loc ParserConfig" +
  cfgHeader :: string
  cfgHeaderAttribute :: string
  cfgFieldDelimiter :: string
  cfgLazyQuotes :: bool

record 'loc CSVParser = "'loc ParserOperator" +
  fieldDelimiter :: string
  header :: "string list"
  headerAttribute :: string
  lazyQuotes :: bool

definition CSVParserConfig_Build ::
  "'loc time_env \<Rightarrow> compiler \<Rightarrow> bool \<Rightarrow> ('loc, 'a) CSVParserConfig_scheme \<Rightarrow> (gerror + 'loc CSVParser) option" where
  "CSVParserConfig_Build te compile has_logger c =
     (case ParserConfig_Build te compile has_logger c of
        None \<Rightarrow> None
      | Some (Inl err) \<Rightarrow> Some (Inl err)
      | Some (Inr p) \<Rightarrow>
          (let delimiter = (if cfgFieldDelimiter c = [] then '','' else cfgFieldDelimiter c);
               fail = (\<lambda>msg. Some (Inl (StdError msg)));
               done = (\<lambda>headers. Some (Inr (ParserOperator.extend p
                 (CSVParser.fields (hd (runes delimiter)) headers (cfgHeaderAttribute c) (cfgLazyQuotes c)))))
           in if length (runes delimiter) \<noteq> 1
              then fail (''invalid '' @ quoted ''delimiter'' @ '': '' @ quoted delimiter)
              else if cfgHeader c = [] \<and> cfgHeaderAttribute c = []
              then fail (''missing required field '' @ quoted ''header'' @ '' or '' @ quoted ''header_attribute'')
              else if cfgHeader c \<noteq> [] \<and> cfgHeaderAttribute c \<noteq> []
              then fail (''only one header parameter can be set: '' @ quoted ''header'' @ '' or ''
                @ quoted ''header_attribute'')
              else if cfgHeader c \<noteq> [] \<and> \<not> str_contains (cfgHeader c) delimiter
              then fail ''missing field delimiter in header''
              else if cfgHeader c \<noteq> [] then done (str_split (cfgHeader c) delimiter)
              else done []))"

definition CSVParser_Process ::
  "('loc, 'b) run_env_scheme \<Rightarrow> ('loc, 'a) CSVParser_scheme \<Rightarrow> entry \<Rightarrow> outcome option" where
  "CSVParser_Process re r e =
     (if headerAttribute r \<noteq> [] then
        (case fmlookup (nonnil (Attributes e)) (headerAttribute r) of
           None \<Rightarrow> Some ([], Some (StdError (''failed to read dynamic header attribute '' @ headerAttribute r)))
         | Some (VString headerString) \<Rightarrow>
             Parser_ProcessWith re r e (generateParseFunc (str_split headerString (fieldDelimiter r))
               (fieldDelimiter r) (lazyQuotes r))
         | Some h \<Rightarrow> Some ([], Some (StdError (''header is expected to be a string but is '' @ go_type h))))
      else Parser_ProcessWith re r e (generateParseFunc (header r) (fieldDelimiter r) (lazyQuotes r)))"

end
