(* ===== verification/Csv_Laws.thy ===== *)
theory Csv_Laws
  imports Csv_Parsing
begin

text \<open>
  What the csv parser makes of text without quotes and carriage returns, line breaks included.
\<close>

section \<open>Records of unquoted text\<close>

lemma parse_fields_unquoted:
  assumes "Comma r = [c]" "c \<noteq> LF" "CHR 0x22 \<notin> set l" "LF \<notin> set l" "nl = [] \<or> nl = [LF]"
  shows "parse_fields r None (l @ nl) rest fs = (fs @ split_at c l, False, rest)"
  using assms(3,4)
proof (induction l arbitrary: fs rule: length_induct)
  case (1 l)
  have quote: "l @ nl = [] \<or> hd (l @ nl) \<noteq> CHR 0x22"
    using 1 assms(5) by (cases l) auto
  have idx: "comma_index r (l @ nl) = str_index l [c]"
    using assms(1,2,5) by (auto simp: comma_index_def str_index_char_append)
  show ?case
  proof (cases "str_index l [c]")
    case None
    have "take (length (l @ nl) - lengthNL (l @ nl)) (l @ nl) = l"
      using assms(5) 1 by (cases l rule: rev_cases) (auto simp: lengthNL_def)
    moreover have "split_at c l = [l]"
      using None str_split.simps [of l "[c]"] by (simp flip: str_split_char)
    ultimately show ?thesis
      using quote 1 by (simp add: parse_fields.simps(1) [of r "l @ nl"] idx None Let_def)
  next
    case (Some n)
    note n = str_index_char_bound [OF Some]
    have sub: "set (take n l) \<subseteq> set l" "set (drop (Suc n) l) \<subseteq> set l"
      by (simp_all add: set_take_subset set_drop_subset)
    have "split_at c l = take n l # split_at c (drop (Suc n) l)"
      using Some str_split.simps [of l "[c]"] by (simp flip: str_split_char)
    moreover have "parse_fields r None (l @ nl) rest fs
        = parse_fields r None (drop (Suc n) l @ nl) rest (fs @ [take n l])"
      using quote 1 n sub assms(1) by (auto simp: parse_fields.simps(1) [of r "l @ nl"] idx Some Let_def)
    moreover have "length (drop (Suc n) l) < length l" "CHR 0x22 \<notin> set (drop (Suc n) l)" "LF \<notin> set (drop (Suc n) l)"
      using n sub 1 by auto
    ultimately show ?thesis using "1.IH" by simp
  qed
qed

lemma read_all_skip: "skip_lines s = skip_lines t \<Longrightarrow> read_all r s = read_all r t \<or> \<not> validDelim (Comma r)"
  by (simp add: read_all.simps [of r s] read_all.simps [of r t] csv_Read_def)

lemma readLine_plain:
  assumes "CR \<notin> set s" "s \<noteq> []"
  shows "readLine s = (case str_index s [LF] of
      Some i \<Rightarrow> Some (take i s @ [LF], drop (Suc i) s) | None \<Rightarrow> Some (s, []))"
proof (cases "str_index s [LF]")
  case None
  have "last s \<noteq> CR" using assms last_in_set by metis
  with None show ?thesis using assms by (simp add: readLine_def)
next
  case (Some i)
  have i: "i < length s" using str_index_char_bound [OF Some] .
  have "has_prefix (drop i s) [LF]" using str_index_prefix [OF Some] .
  then have "s ! i = LF" using i by (auto simp: has_prefix_iff) (metis nth_via_drop)
  then have "take (Suc i) s = take i s @ [LF]" using i by (simp add: take_Suc_conv_app_nth)
  moreover have "\<not> (0 < i \<and> s ! (i - 1) = CR)" using assms i by (metis nth_mem less_imp_diff_less)
  ultimately show ?thesis using assms(2) Some unfolding readLine_def by auto
qed

lemma read_all_unquoted:
  assumes "Comma r = [c]" "c \<noteq> LF" "validDelim [c]" "CHR 0x22 \<notin> set s" "CR \<notin> set s"
  shows "read_all r s = Some (map (split_at c) (filter (\<lambda>l. l \<noteq> []) (split_at LF s)))"
  using assms(4,5)
proof (induction s rule: length_induct)
  case (1 s)
  note delim = assms(1,3)
  show ?case
  proof (cases "s = []")
    case True
    then show ?thesis
      by (simp add: read_all.simps [of r] csv_Read_def skip_lines.simps [of "[]"] readLine_def delim)
  next
    case False
    define l where "l = (case str_index s [LF] of Some i \<Rightarrow> take i s | None \<Rightarrow> s)"
    define nl where "nl = (case str_index s [LF] of Some i \<Rightarrow> [LF] | None \<Rightarrow> [])"
    define t where "t = (case str_index s [LF] of Some i \<Rightarrow> drop (Suc i) s | None \<Rightarrow> [])"
    have line: "readLine s = Some (l @ nl, t)"
      using readLine_plain [OF "1.prems"(2) False] by (auto simp: l_def nl_def t_def split: option.split)
    have split: "split_at LF s = l # (if nl = [] then [] else split_at LF t)"
      using str_split.simps [of s "[LF]"]
      by (auto simp: l_def nl_def t_def str_split_char split: option.split)
    have t: "length t < length s" using readLine_shorter [OF line] .
    have sets: "set l \<subseteq> set s" "set t \<subseteq> set s"
      by (auto simp: l_def t_def dest: in_set_takeD in_set_dropD split: option.splits)
    have nolf: "LF \<notin> set l"
    proof (cases "str_index s [LF]")
      case None
      then show ?thesis using str_contains_char [of s LF] by (simp add: l_def str_contains_def)
    next
      case (Some i)
      show ?thesis
      proof
        assume "LF \<in> set l"
        then obtain j where j: "j < i" "s ! j = LF" "j < length s"
          using Some str_index_char_bound [OF Some] by (auto simp: l_def in_set_conv_nth)
        have "has_prefix (drop j s) [LF]" using j by (simp add: has_prefix_def take_Suc hd_drop_conv_nth)
        then show False using str_index_first [OF Some j(1)] by blast
      qed
    qed
    have nl: "nl = [] \<or> nl = [LF]" by (auto simp: nl_def split: option.split)
    have empty: "length (l @ nl) = lengthNL (l @ nl) \<longleftrightarrow> l = []"
      using nl nolf by (cases l rule: rev_cases) (auto simp: lengthNL_def)
    have rest: "read_all r t = Some (map (split_at c) (filter (\<lambda>l. l \<noteq> []) (split_at LF t)))"
      using "1.IH" t sets "1.prems" by blast
    have nil: "nl = [] \<Longrightarrow> t = []" by (auto simp: nl_def t_def split: option.splits)
    show ?thesis
    proof (cases "l = []")
      case True
      then have "skip_lines s = skip_lines t"
        using line empty by (simp add: skip_lines.simps [of s])
      then have "read_all r s = read_all r t" using read_all_skip delim by metis
      then show ?thesis using rest split True nil by auto
    next
      case l: False
      then have "skip_lines s = Some (l @ nl, t)" using line empty by (simp add: skip_lines.simps [of s])
      moreover have "parse_fields r None (l @ nl) t [] = (split_at c l, False, t)"
        using parse_fields_unquoted [OF assms(1,2) _ nolf nl, of t "[]"] sets "1.prems" by auto
      ultimately have "read_all r s = map_option ((#) (split_at c l)) (read_all r t)"
        by (simp add: read_all.simps [of r s] csv_Read_def delim)
      then show ?thesis using rest split l nil by auto
    qed
  qed
qed

lemma join_lines_split:
  "c \<noteq> LF \<Longrightarrow> join_lines (split_at c a) (map (split_at c) ls) = Some (split_at c (str_join (a # ls) [LF]))"
proof (induction ls arbitrary: a)
  case (Cons b ls)
  have "join_lines (split_at c a) (map (split_at c) (b # ls))
      = join_lines (split_at c (a @ LF # b)) (map (split_at c) ls)"
    using Cons.prems by (simp add: split_at_append del: append.simps)
  also have "\<dots> = Some (split_at c (str_join ((a @ LF # b) # ls) [LF]))"
    using Cons by blast
  also have "str_join ((a @ LF # b) # ls) [LF] = str_join (a # b # ls) [LF]"
    by (cases ls) auto
  finally show ?case .
qed simp

text \<open>
  C34: parsing unquoted text.  Without quotes and carriage returns the fields are those of the text
  with its blank lines left out, split at the delimiter alone, so a line break stays inside its
  field; they are paired with the headers when there are as many of each and are an error
  otherwise.  Text that has no line with a character in it, such as the empty string, makes the
  parser index a list out of range and panic.
\<close>

theorem csv_parse_unquoted:
  assumes "validDelim [c]" "CHR 0x22 \<notin> set s" "CR \<notin> set s" "v = VString s \<or> v = VBytes s"
  shows "generateParseFunc headers [c] lazy v =
    (let lines = filter (\<lambda>l. l \<noteq> []) (str_split s [LF]);
         values = str_split (str_join lines [LF]) [c]
     in if lines = [] then None
        else if length values \<noteq> length headers then Some (Inl (StdError ''wrong number of fields''))
        else Some (Inr (VMap (zip_values headers values))))"
proof -
  let ?r = "\<lparr>Comma = [c], FieldsPerRecord = length headers, LazyQuotes = lazy\<rparr>"
  have c: "c \<noteq> LF" using assms(1) by (auto simp: validDelim_def)
  have all: "read_all ?r s = Some (map (split_at c) (filter (\<lambda>l. l \<noteq> []) (split_at LF s)))"
    using read_all_unquoted [of ?r c s] c assms by simp
  show ?thesis
  proof (cases "filter (\<lambda>l. l \<noteq> []) (split_at LF s)")
    case Nil
    then show ?thesis using all assms(4) by (auto simp: generateParseFunc_def str_split_char)
  next
    case (Cons a ls)
    then show ?thesis using all assms(4) join_lines_split [OF c, of a ls]
      by (auto simp: generateParseFunc_def str_split_char Let_def)
  qed
qed

theorem csv_parse_unquoted_witness:
  "generateParseFunc [''a'', ''b''] '','' False (VString ''1,2'') =
     Some (Inr (VMap (zip_values [''a'', ''b''] [''1'', ''2''])))
   \<and> generateParseFunc [''a'', ''b''] '','' False (VString []) = None"
proof -
  have d: "validDelim '',''" by (simp add: validDelim_def rune_error_def)
  show ?thesis
    using csv_parse_unquoted [OF d, of "''1,2''" "VString ''1,2''" "[''a'', ''b'']" False]
      csv_parse_unquoted [OF d, of "[]" "VString []" "[''a'', ''b'']" False]
    by (simp add: str_split_char)
qed

end
