(* ===== verification/Simple_Parsers.thy ===== *)
theory Simple_Parsers
  imports Parser_Operators
begin

text \<open>
  Parsers without a state of their own: \<open>operator/parser/keyvalue/keyvalue.go\<close>,
  \<open>operator/parser/json/json.go\<close> and \<open>operator/parser/uri/uri.go\<close>.

  Parameters are the JSON decoder (json-iterator), the text of a multierror, and the functions of
  \<open>net/url\<close>, which are given by what the code reads of a parsed URL.
\<close>

section \<open>Key-value pairs\<close>

record 'loc KVParserConfig = "'loc ParserConfig" +
  cfgDelimiter :: string
  cfgPairDelimiter :: string

record 'loc KVParser = "'loc ParserOperator" +
  delimiter :: string
  pairDelimiter :: string

definition NewKVParserConfig :: "string \<Rightarrow> 'loc KVParserConfig" where
  "NewKVParserConfig i = ParserConfig.extend (NewParserConfig i ''key_value_parser'')
     (KVParserConfig.fields ''='' [])"

definition KVParserConfig_Build ::
  "'loc time_env \<Rightarrow> compiler \<Rightarrow> bool \<Rightarrow> ('loc, 'a) KVParserConfig_scheme \<Rightarrow> (gerror + 'loc KVParser) option" where
  "KVParserConfig_Build te compile has_logger c =
     (case ParserConfig_Build te compile has_logger c of
        None \<Rightarrow> None
      | Some (Inl err) \<Rightarrow> Some (Inl err)
      | Some (Inr p) \<Rightarrow>
          if cfgDelimiter c = cfgPairDelimiter c
          then Some (Inl (StdError ''delimiter and pair_delimiter cannot be the same value''))
          else if cfgDelimiter c = [] then Some (Inl (StdError ''delimiter is a required parameter''))
          else Some (Inr (ParserOperator.extend p (KVParser.fields (cfgDelimiter c) (cfgPairDelimiter c)))))"

text \<open>
  \<open>splitStringByWhitespace\<close>: \<open>strings.FieldsFunc\<close> with a function that remembers whether it is
  inside quotes; runs of separators give no empty fields.
\<close>

definition is_quote :: "char \<Rightarrow> bool" where
  "is_quote c \<longleftrightarrow> c = CHR 0x22 \<or> c = CHR 0x27"

fun fields_loop :: "bool \<Rightarrow> string \<Rightarrow> string \<Rightarrow> string list" where
  "fields_loop inq field [] = (if field = [] then [] else [field])"
| "fields_loop inq field (c # cs) =
     (let inq = (if is_quote c then \<not> inq else inq)
      in if \<not> inq \<and> c = CHR '' ''
         then (if field = [] then fields_loop inq [] cs else field # fields_loop inq [] cs)
         else fields_loop inq (field @ [c]) cs)"

definition splitStringByWhitespace :: "string \<Rightarrow> string list" where
  "splitStringByWhitespace input = fields_loop False [] input"

definition pairSplitFunc :: "('loc, 'a) KVParser_scheme \<Rightarrow> string \<Rightarrow> string list" where
  "pairSplitFunc kv input =
     (if pairDelimiter kv \<noteq> [] then str_split input (pairDelimiter kv) else splitStringByWhitespace input)"

definition trim_item :: "string \<Rightarrow> string" where
  "trim_item s = trim_space (str_trim s [CHR 0x22, CHR 0x27])"

fun kv_loop :: "string \<Rightarrow> string list \<Rightarrow> gval gomap \<Rightarrow> gerror list \<Rightarrow> gval gomap \<times> gerror list" where
  "kv_loop delim [] parsed errs = (parsed, errs)"
| "kv_loop delim (raw # rest) parsed errs =
     (case str_split raw delim of
        [k, v] \<Rightarrow> kv_loop delim rest (fmupd (trim_item k) (VString (trim_item v)) parsed) errs
      | m \<Rightarrow> kv_loop delim rest parsed (errs @ [StdError (''expected '' @ quoted raw @ '' to split by ''
               @ quoted delim @ '' into two items, got '' @ itoa (int (length m)))]))"

definition kv_parser :: "(gerror list \<Rightarrow> gerror) \<Rightarrow> ('loc, 'a) KVParser_scheme \<Rightarrow> string \<Rightarrow> gerror + gval gomap" where
  "kv_parser multierror kv input =
     (if input = [] then Inl (StdError (''parse from field '' @ field_string (PFrom kv) @ '' is empty''))
      else case kv_loop (delimiter kv) (pairSplitFunc kv input) fmempty [] of
             (parsed, []) \<Rightarrow> Inr parsed
           | (parsed, errs) \<Rightarrow> Inl (multierror errs))"

definition kv_parse :: "(gerror list \<Rightarrow> gerror) \<Rightarrow> ('loc, 'a) KVParser_scheme \<Rightarrow> parse_function" where
  "kv_parse multierror kv value =
     (case value of
        VString m \<Rightarrow> Some (map_sum id VMap (kv_parser multierror kv m))
      | _ \<Rightarrow> Some (Inl (StdError (''type '' @ go_type value @ '' cannot be parsed as key value pairs''))))"

definition KVParser_Process ::
  "(gerror list \<Rightarrow> gerror) \<Rightarrow> ('loc, 'b) run_env_scheme \<Rightarrow> ('loc, 'a) KVParser_scheme \<Rightarrow> entry \<Rightarrow> outcome option" where
  "KVParser_Process multierror re kv e = Parser_ProcessWith re kv e (kv_parse multierror kv)"

section \<open>JSON\<close>

definition JSONParserConfig_Build ::
  "'loc time_env \<Rightarrow> compiler \<Rightarrow> bool \<Rightarrow> ('loc, 'a) ParserConfig_scheme \<Rightarrow> (gerror + 'loc ParserOperator) option" where
  "JSONParserConfig_Build te compile has_logger c = ParserConfig_Build te compile has_logger c"

definition json_parse :: "(string \<Rightarrow> gerror + gval gomap) \<Rightarrow> parse_function" where
  "json_parse unmarshal value =
     (case value of
        VString m \<Rightarrow> Some (map_sum id VMap (unmarshal m))
      | _ \<Rightarrow> Some (Inl (StdError (''type '' @ go_type value @ '' cannot be parsed as JSON''))))"

definition JSONParser_Process ::
  "(string \<Rightarrow> gerror + gval gomap) \<Rightarrow> ('loc, 'b) run_env_scheme \<Rightarrow> ('loc, 'a) ParserOperator_scheme \<Rightarrow> entry \<Rightarrow> outcome option" where
  "JSONParser_Process unmarshal re j e = Parser_ProcessWith re j e (json_parse unmarshal)"

section \<open>URIs\<close>

type_synonym url_values = "(string, string list) fmap"

record url =
  Scheme :: string
  Username :: string
  Hostname :: string
  Port :: string
  EscapedPath :: string
  Query :: url_values

record url_lib =
  ParseQuery :: "string \<Rightarrow> gerror + url_values"
  ParseRequestURI :: "string \<Rightarrow> gerror + url"

definition URIParserConfig_Build ::
  "'loc time_env \<Rightarrow> compiler \<Rightarrow> bool \<Rightarrow> ('loc, 'a) ParserConfig_scheme \<Rightarrow> (gerror + 'loc ParserOperator) option" where
  "URIParserConfig_Build te compile has_logger c = ParserConfig_Build te compile has_logger c"

definition queryParamValuesToMap :: "string list \<Rightarrow> gval" where
  "queryParamValuesToMap values = VArr (map VString values)"

definition queryToMap :: "url_values \<Rightarrow> gval gomap \<Rightarrow> gval gomap" where
  "queryToMap query m =
     (if query = fmempty then m else fmupd ''query'' (VMap (fmmap queryParamValuesToMap query)) m)"

definition set_unless_empty :: "string \<Rightarrow> string \<Rightarrow> gval gomap \<Rightarrow> gval gomap" where
  "set_unless_empty k v m = (if v \<noteq> [] then fmupd k (VString v) m else m)"

definition urlToMap :: "url \<Rightarrow> gval gomap \<Rightarrow> gval gomap" where
  "urlToMap p m =
     (let m = set_unless_empty ''scheme'' (Scheme p) m;
          m = set_unless_empty ''user'' (Username p) m;
          m = set_unless_empty ''host'' (Hostname p) m;
          m = set_unless_empty ''port'' (Port p) m;
          m = set_unless_empty ''path'' (EscapedPath p) m
      in queryToMap (Query p) m)"

definition parseURI :: "url_lib \<Rightarrow> string \<Rightarrow> gerror + gval gomap" where
  "parseURI lib value =
     (if has_prefix value ''?''
      then map_sum id (\<lambda>v. queryToMap v fmempty) (ParseQuery lib (tl value))
      else map_sum id (\<lambda>x. urlToMap x fmempty) (ParseRequestURI lib value))"

definition uri_parse :: "url_lib \<Rightarrow> parse_function" where
  "uri_parse lib value =
     (case value of
        VString m \<Rightarrow> Some (map_sum id VMap (parseURI lib m))
      | _ \<Rightarrow> Some (Inl (StdError (''type '' @ quoted (go_type value) @ '' cannot be parsed as URI''))))"

definition URIParser_Process ::
  "url_lib \<Rightarrow> ('loc, 'b) run_env_scheme \<Rightarrow> ('loc, 'a) ParserOperator_scheme \<Rightarrow> entry \<Rightarrow> outcome option" where
  "URIParser_Process lib re u e = Parser_ProcessWith re u e (uri_parse lib)"

section \<open>Pairs written out are read back\<close>

text \<open>An item without quotes, ASCII white space and the delimiter, and without Unicode white space at its ends.\<close>

definition plain_item :: "char \<Rightarrow> string \<Rightarrow> bool" where
  "plain_item d s \<longleftrightarrow> set s \<inter> ({d, CHR 0x22, CHR 0x27} \<union> set ascii_space) = {} \<and> begins_plain s \<and> ends_plain s"

definition write_pair :: "char \<Rightarrow> string \<times> string \<Rightarrow> string" where
  "write_pair d p = fst p @ d # snd p"

lemma trim_item_plain: "plain_item d s \<Longrightarrow> trim_item s = s"
proof -
  assume "plain_item d s"
  then have "set s \<inter> set [CHR 0x22, CHR 0x27] = {}" "trim_space s = s"
    by (auto simp: plain_item_def intro: trim_space_plain)
  then show ?thesis by (simp add: trim_item_def str_trim_idle)
qed

lemma str_split_pair: "plain_item d k \<Longrightarrow> plain_item d v \<Longrightarrow> str_split (write_pair d (k, v)) [d] = [k, v]"
  by (simp add: str_split_char write_pair_def plain_item_def split_at_join split_at_single)

lemma fields_loop_word:
  "set w \<inter> {CHR 0x22, CHR 0x27, CHR '' ''} = {} \<Longrightarrow>
   fields_loop False f (w @ rest) = fields_loop False (f @ w) rest"
  by (induction w arbitrary: f) (auto simp: is_quote_def Let_def)

lemma splitStringByWhitespace_join:
  assumes "\<And>w. w \<in> set ws \<Longrightarrow> w \<noteq> [] \<and> set w \<inter> {CHR 0x22, CHR 0x27, CHR '' ''} = {}"
  shows "splitStringByWhitespace (str_join ws '' '') = ws"
proof -
  have "fields_loop False [] (str_join ws '' '') = ws" using assms
  proof (induction ws)
    case (Cons w ws)
    note w = fields_loop_word [of w "[]"]
    show ?case
    proof (cases ws)
      case Nil
      then show ?thesis using Cons.prems [of w] w [of "[]"] by simp
    next
      case (Cons w' ws')
      then show ?thesis
        using Cons.prems [of w] Cons.IH Cons.prems w [of "CHR '' '' # str_join ws '' ''"]
        by (simp add: is_quote_def)
    qed
  qed simp
  then show ?thesis by (simp add: splitStringByWhitespace_def)
qed

lemma kv_loop_pairs:
  "\<forall>p \<in> set kvs. plain_item d (fst p) \<and> plain_item d (snd p) \<Longrightarrow>
   kv_loop [d] (map (write_pair d) kvs) m errs = (foldl (\<lambda>m (k, v). fmupd k (VString v) m) m kvs, errs)"
proof (induction kvs arbitrary: m)
  case (Cons kv kvs)
  obtain k v where kv: "kv = (k, v)" by (cases kv)
  then have "plain_item d k" "plain_item d v" using Cons.prems by auto
  then show ?case using Cons kv by (simp add: str_split_pair trim_item_plain)
qed simp

text \<open>
  C35: key-value pairs survive the round trip.  Pairs whose keys and values hold no quotes, ASCII
  white space or delimiter, and no Unicode white space at their ends, written out with the delimiter between key and value and a blank between the
  pairs, are parsed to exactly these pairs, a later pair replacing an earlier one of the same key.
\<close>

theorem kv_roundtrip:
  assumes "delimiter kv = [d]" "pairDelimiter kv = []" "d \<notin> {CHR 0x22, CHR 0x27, CHR '' ''}" "kvs \<noteq> []"
    and plain: "\<forall>p \<in> set kvs. plain_item d (fst p) \<and> plain_item d (snd p)"
  shows "kv_parse multierror kv (VString (str_join (map (write_pair d) kvs) '' '')) =
     Some (Inr (VMap (foldl (\<lambda>m (k, v). fmupd k (VString v) m) fmempty kvs)))"
proof -
  have words: "w \<noteq> [] \<and> set w \<inter> {CHR 0x22, CHR 0x27, CHR '' ''} = {}" if w: "w \<in> set (map (write_pair d) kvs)" for w
  proof -
    obtain p where "w = write_pair d p" "p \<in> set kvs" using w by auto
    then show ?thesis using plain assms(3)
      by (auto simp: write_pair_def plain_item_def ascii_space_def)
  qed
  have "str_join (map (write_pair d) kvs) '' '' \<noteq> []"
  proof (cases kvs)
    case (Cons p ps)
    then show ?thesis by (cases ps) (auto simp: write_pair_def)
  qed (use assms in simp)
  then show ?thesis
    using assms(1,2) kv_loop_pairs [OF plain] splitStringByWhitespace_join [of "map (write_pair d) kvs", OF words]
    by (simp add: kv_parse_def kv_parser_def pairSplitFunc_def)
qed

theorem kv_roundtrip_witness:
  "kv_parse hd \<lparr>OperatorID = ''p'', OperatorType = ''key_value_parser'', OutputIDs = [], OutputOperators = [],
      OnError = ''send'', IfExpr = None, PFrom = BodyField [], PTo = AttributeField [],
      POTime = (None :: unit TimeParser option), POSeverity = None, POTrace = None, POScopeName = None,
      delimiter = ''='', pairDelimiter = []\<rparr> (VString ''a=1 b='')
   = Some (Inr (VMap (fmupd ''b'' (VString []) (fmupd ''a'' (VString ''1'') fmempty))))"
proof -
  let ?kv = "\<lparr>OperatorID = ''p'', OperatorType = ''key_value_parser'', OutputIDs = [], OutputOperators = [],
      OnError = ''send'', IfExpr = None, PFrom = BodyField [], PTo = AttributeField [],
      POTime = (None :: unit TimeParser option), POSeverity = None, POTrace = None, POScopeName = None,
      delimiter = ''='', pairDelimiter = []\<rparr>"
  have plain: "\<forall>p \<in> set [(''a'', ''1''), (''b'', [])]. plain_item (CHR ''='') (fst p) \<and> plain_item (CHR ''='') (snd p)"
    by code_simp
  show ?thesis
    using kv_roundtrip [OF _ _ _ _ plain, of ?kv hd] by (simp add: write_pair_def)
qed

end
