(* ===== verification/Syslog_Parsing.thy ===== *)
theory Syslog_Parsing
  imports Parser_Operators
begin

text \<open>
  The syslog parser: \<open>operator/parser/syslog/syslog.go\<close>.  The two state machines that read a
  message are a third-party package and are parameters; what they give is a record of optional
  fields (pointers in Go).
\<close>

record rfc_message =
  msgTimestamp :: "gtime option"
  msgPriority :: "8 word option"
  msgFacility :: "8 word option"
  msgSeverity :: "8 word option"
  msgHostname :: "string option"
  msgAppname :: "string option"
  msgProcID :: "string option"
  msgMsgID :: "string option"
  msgMessage :: "string option"

datatype slog =
    RFC3164_Message rfc_message
  | RFC5424_Message rfc_message "string gomap gomap option" "16 word"
  | Other_Message

record 'loc machines =
  parse_rfc3164 :: "'loc \<Rightarrow> string \<Rightarrow> gerror + slog"
  parse_rfc5424 :: "string \<Rightarrow> gerror + slog"

abbreviation RFC3164 :: string where "RFC3164 \<equiv> ''rfc3164''"
abbreviation RFC5424 :: string where "RFC5424 \<equiv> ''rfc5424''"

section \<open>Configuration\<close>

record 'loc SyslogParserConfig = "'loc ParserConfig" +
  cfgProtocol :: string
  cfgLocation :: string

record 'loc SyslogParser = "'loc ParserOperator" +
  protocol :: string
  slLocation :: 'loc

definition default_time_parser :: "'loc TimeParser" where
  "default_time_parser = \<lparr>tmParseFrom = Some (AttributeField [''timestamp'']), Layout = [],
     LayoutType = ''native'', Location = [], location = None\<rparr>"

definition SyslogParserConfig_Build ::
  "'loc time_env \<Rightarrow> compiler \<Rightarrow> bool \<Rightarrow> ('loc, 'a) SyslogParserConfig_scheme \<Rightarrow> (gerror + 'loc SyslogParser) option" where
  "SyslogParserConfig_Build te compile has_logger c =
     (let c = (if cfgTimeParser c = None then c\<lparr>cfgTimeParser := Some default_time_parser\<rparr> else c) in
      case ParserConfig_Build te compile has_logger c of
        None \<Rightarrow> None
      | Some (Inl err) \<Rightarrow> Some (Inl err)
      | Some (Inr p) \<Rightarrow>
          if cfgProtocol c = [] then Some (Inl (StdError (''missing field '' @ quoted ''protocol'')))
          else
            (let loc = (if cfgLocation c = [] then ''UTC'' else cfgLocation c) in
             case loadLocation te loc of
               Inl err \<Rightarrow> Some (Inl (StdError (''failed to load location '' @ loc @ '': '' @ error_text err)))
             | Inr l \<Rightarrow> Some (Inr (ParserOperator.extend p (SyslogParser.fields (cfgProtocol c) l)))))"

section \<open>Parsing a message\<close>

text \<open>The pointers and numbers that \<open>toSafeMap\<close> switches on, and any other type by its name.\<close>

datatype raw_field =
    PString "string option"
  | PUint8 "8 word option"
  | Uint16 "16 word"
  | PTime "gtime option"
  | PMaps "string gomap gomap option"
  | OtherField string

definition safe_value :: "raw_field \<Rightarrow> gval option" where
  "safe_value v =
     (case v of
        PString s \<Rightarrow> map_option VString s
      | PUint8 n \<Rightarrow> map_option (\<lambda>w. VInt (ucast w)) n
      | Uint16 n \<Rightarrow> Some (VInt (ucast n))
      | PTime t \<Rightarrow> map_option VTime t
      | PMaps d \<Rightarrow> map_option VStrMaps d
      | OtherField t \<Rightarrow> None)"

fun toSafeMap :: "(string \<times> raw_field) list \<Rightarrow> gerror + gval gomap" where
  "toSafeMap [] = Inr fmempty"
| "toSafeMap ((key, OtherField t) # rest) = Inl (StdError (''key '' @ key @ '' has unknown field of type '' @ t))"
| "toSafeMap ((key, v) # rest) =
     map_sum id (\<lambda>m. case safe_value v of None \<Rightarrow> m | Some x \<Rightarrow> fmupd key x m) (toSafeMap rest)"

lemma toSafeMap_lookup:
  "distinct (map fst kvs) \<Longrightarrow> \<forall>(k, v) \<in> set kvs. \<forall>t. v \<noteq> OtherField t \<Longrightarrow>
   \<exists>m. toSafeMap kvs = Inr m \<and> (\<forall>(k, v) \<in> set kvs. fmlookup m k = safe_value v)
     \<and> (\<forall>k. k \<notin> fst ` set kvs \<longrightarrow> fmlookup m k = None)"
proof (induction kvs)
  case (Cons kv kvs)
  obtain k v where kv: "kv = (k, v)" by (cases kv)
  obtain m where m: "toSafeMap kvs = Inr m" "\<forall>(k, v) \<in> set kvs. fmlookup m k = safe_value v"
    "\<forall>k. k \<notin> fst ` set kvs \<longrightarrow> fmlookup m k = None" using Cons by auto
  have step: "toSafeMap (kv # kvs) = Inr (case safe_value v of None \<Rightarrow> m | Some x \<Rightarrow> fmupd k x m)"
    using Cons.prems(2) m(1) by (cases v) (auto simp: kv)
  have k: "fmlookup m k = None" "\<And>x. (k, x) \<notin> set kvs"
    using Cons.prems(1) m(3) by (auto simp: kv image_iff split_beta)
  show ?case unfolding step using m(2,3) k by (auto simp: kv split: option.split)
qed simp

definition parseRFC3164 :: "rfc_message \<Rightarrow> gerror + gval gomap" where
  "parseRFC3164 m = toSafeMap
     [(''timestamp'', PTime (msgTimestamp m)), (''priority'', PUint8 (msgPriority m)),
      (''facility'', PUint8 (msgFacility m)), (''severity'', PUint8 (msgSeverity m)),
      (''hostname'', PString (msgHostname m)), (''appname'', PString (msgAppname m)),
      (''proc_id'', PString (msgProcID m)), (''msg_id'', PString (msgMsgID m)),
      (''message'', PString (msgMessage m))]"

definition parseRFC5424 :: "rfc_message \<Rightarrow> string gomap gomap option \<Rightarrow> 16 word \<Rightarrow> gerror + gval gomap" where
  "parseRFC5424 m structured_data version = toSafeMap
     [(''timestamp'', PTime (msgTimestamp m)), (''priority'', PUint8 (msgPriority m)),
      (''facility'', PUint8 (msgFacility m)), (''severity'', PUint8 (msgSeverity m)),
      (''hostname'', PString (msgHostname m)), (''appname'', PString (msgAppname m)),
      (''proc_id'', PString (msgProcID m)), (''msg_id'', PString (msgMsgID m)),
      (''message'', PString (msgMessage m)), (''structured_data'', PMaps structured_data),
      (''version'', Uint16 version)]"

definition toBytes :: "gval \<Rightarrow> gerror + string" where
  "toBytes value =
     (case value of
        VString v \<Rightarrow> Inr v
      | _ \<Rightarrow> Inl (StdError (''unable to convert type '' @ quoted (go_type value) @ '' to bytes'')))"

definition buildMachine :: "'loc machines \<Rightarrow> string \<Rightarrow> 'loc \<Rightarrow> gerror + (string \<Rightarrow> gerror + slog)" where
  "buildMachine ms proto loc =
     (if proto = RFC3164 then Inr (parse_rfc3164 ms loc)
      else if proto = RFC5424 then Inr (parse_rfc5424 ms)
      else Inl (StdError (''invalid protocol '' @ proto)))"

definition syslog_parse :: "'loc machines \<Rightarrow> ('loc, 'a) SyslogParser_scheme \<Rightarrow> parse_function" where
  "syslog_parse ms s value =
     (case toBytes value of
        Inl err \<Rightarrow> Some (Inl err)
      | Inr bytes \<Rightarrow>
     (case buildMachine ms (protocol s) (slLocation s) of
        Inl err \<Rightarrow> Some (Inl err)
      | Inr machine \<Rightarrow>
     (case machine bytes of
        Inl err \<Rightarrow> Some (Inl err)
      | Inr (RFC3164_Message m) \<Rightarrow> Some (map_sum id VMap (parseRFC3164 m))
      | Inr (RFC5424_Message m sd v) \<Rightarrow> Some (map_sum id VMap (parseRFC5424 m sd v))
      | Inr Other_Message \<Rightarrow> Some (Inl (StdError ''parsed value was not rfc3164 or rfc5424 compliant'')))))"

section \<open>Severities\<close>

definition severityMapping :: "severity list" where
  "severityMapping = [Fatal, Error3, Error2, Error, Warn, Info2, Info, Debug]"

definition severityText :: "string list" where
  "severityText = [''emerg'', ''alert'', ''crit'', ''err'', ''warning'', ''notice'', ''info'', ''debug'']"

definition severityField :: "string list" where "severityField = [''severity'']"

definition postprocess :: transform where
  "postprocess e =
     (case AttributeField_Delete severityField e of
        (e, None) \<Rightarrow> Some (e, Some (StdError ''severity field does not exist''))
      | (e, Some (VInt sev)) \<Rightarrow>
          (let sevInt = sint sev in
           if sevInt < 0 \<or> sevInt > 7
           then Some (e, Some (StdError (''invalid severity '' @ quoted (itoa sevInt))))
           else
             (let e = e\<lparr>Severity := severityMapping ! nat sevInt, SeverityText := severityText ! nat sevInt\<rparr>
              in case AttributeField_Delete [''timestamp''] e of
                   (e, None) \<Rightarrow> Some (e, Some (StdError ''failed to cleanup timestamp''))
                 | (e, Some _) \<Rightarrow> Some (e, None)))
      | (e, Some _) \<Rightarrow> Some (e, Some (StdError ''severity field is not an int'')))"

definition SyslogParser_Process ::
  "'loc machines \<Rightarrow> ('loc, 'b) run_env_scheme \<Rightarrow> ('loc, 'a) SyslogParser_scheme \<Rightarrow> entry \<Rightarrow> outcome option" where
  "SyslogParser_Process ms re s e = ProcessWithCallback re s e (syslog_parse ms s) (Some postprocess)"

section \<open>From a message to an entry\<close>

lemma sint_ucast8: "sint (ucast (w :: 8 word) :: i64) = uint w"
proof -
  define n where "n = uint w"
  have "0 \<le> n" "n < 2 ^ 8" using uint_bounded [of w] by (simp_all add: n_def)
  then have "signed_take_bit 63 n = n" by (intro signed_take_bit_int_eq_self) simp_all
  then show ?thesis by (simp add: n_def sint_uint uint_up_ucast is_up)
qed

lemma AttributeField_Set_root:
  "AttributeField_Set [] (VMap m) e = (e\<lparr>Attributes := Some (nonnil (Attributes e) ++\<^sub>f m)\<rparr>, None)"
  by (simp add: AttributeField_Set_def AttributeField_Merge_def Let_def)

lemma AttributeField_Delete_top:
  "Attributes e = Some m \<Longrightarrow> fmlookup m k = Some v \<Longrightarrow>
   AttributeField_Delete [k] e = (e\<lparr>Attributes := Some (fmdrop k m)\<rparr>, Some v)"
  by (simp add: AttributeField_Delete_def)

lemma postprocess_ok:
  assumes "Attributes e = Some m" "fmlookup m ''severity'' = Some (VInt (ucast (sv :: 8 word)))"
    "fmlookup m ''timestamp'' = Some t" "sv < 8"
  shows "postprocess e = Some (e\<lparr>Severity := severityMapping ! unat sv, SeverityText := severityText ! unat sv,
     Attributes := Some (fmdrop ''timestamp'' (fmdrop ''severity'' m))\<rparr>, None)"
proof -
  have sv: "uint sv < 8" using assms(4) by (simp add: word_less_def)
  have "nat (uint sv) = unat sv" by simp
  with assms sv show ?thesis
    by (simp add: postprocess_def severityField_def AttributeField_Delete_top sint_ucast8 Let_def)
qed

lemma built_syslog:
  assumes "SyslogParserConfig_Build te compile has_logger c = Some (Inr s)"
    "cfgTimeParser c = None" "cfgSeverityParser c = None" "cfgTraceParser c = None"
    "cfgScopeNameParser c = None" "cfgIfExpr c = []"
  shows "POTime s = Some default_time_parser" "POSeverity s = None" "POTrace s = None"
    "POScopeName s = None" "IfExpr s = None" "PTo s = cfgPTo c" "PFrom s = cfgPFrom c"
    "protocol s = cfgProtocol c" "OnError s = cfgOnError c"
proof -
  have valid: "TimeParser_Validate te default_time_parser = Inr default_time_parser"
    by (simp add: TimeParser_Validate_def default_time_parser_def check_location_def)
  have t': "TransformerConfig_Build compile has_logger (c\<lparr>cfgTimeParser := x\<rparr>)
      = TransformerConfig_Build compile has_logger c" for x
    by (simp add: TransformerConfig_Build_def WriterConfig_Build_def BasicConfig_Build_def BasicConfig_ID_def
        split: sum.split)
  obtain t where t: "TransformerConfig_Build compile has_logger c = Inr t"
    using assms(1) by (cases "TransformerConfig_Build compile has_logger c")
      (auto simp: SyslogParserConfig_Build_def ParserConfig_Build_def t' Let_def split: if_splits)
  note facts = TransformerConfig_Build_facts [OF t]
  show "POTime s = Some default_time_parser" "POSeverity s = None" "POTrace s = None"
    "POScopeName s = None" "IfExpr s = None" "PTo s = cfgPTo c" "PFrom s = cfgPFrom c"
    "protocol s = cfgProtocol c" "OnError s = cfgOnError c"
    using assms t facts
    by (auto simp: SyslogParserConfig_Build_def ParserConfig_Build_def t' valid Let_def
        ParserOperator.defs TransformerOperator.defs SyslogParser.defs split: sum.splits if_splits)
qed

text \<open>A parsed message with a timestamp and a severity below 8 becomes the entry one expects.\<close>

definition syslog_entry :: "gtime \<Rightarrow> gval gomap \<Rightarrow> gtime \<Rightarrow> 8 word \<Rightarrow> entry \<Rightarrow> entry" where
  "syslog_entry now mm t sv e =
     e\<lparr>Attributes := Some (fmdrop ''timestamp'' (fmdrop ''severity'' (nonnil (Attributes e) ++\<^sub>f mm))),
       Timestamp := setTimestampYear now t, Severity := severityMapping ! unat sv,
       SeverityText := severityText ! unat sv\<rparr>"

lemma syslog_process_map:
  assumes s: "POTime s = Some default_time_parser" "POSeverity s = None" "POTrace s = None"
    "POScopeName s = None" "IfExpr s = None" "PTo s = AttributeField []"
    and get: "field_Get (PFrom s) e = Some v" "syslog_parse ms s v = Some (Inr (VMap mm))"
    and mm: "fmlookup mm ''severity'' = Some (VInt (ucast sv))" "sv < 8"
  shows "fmlookup mm ''timestamp'' = Some (VTime t) \<Longrightarrow>
      SyslogParser_Process ms re s e = Some (Write s (syslog_entry (clock_now re) mm t sv e), None)"
    and "fmlookup mm ''timestamp'' = None \<Longrightarrow> fmlookup (nonnil (Attributes e)) ''timestamp'' = None \<Longrightarrow>
      \<exists>err. SyslogParser_Process ms re s e = Some (HandleEntryError s
        (e\<lparr>Attributes := Some (nonnil (Attributes e) ++\<^sub>f mm)\<rparr>) err)"
proof -
  let ?m = "nonnil (Attributes e) ++\<^sub>f mm"
  let ?e1 = "e\<lparr>Attributes := Some ?m\<rparr>"
  have skip: "Skip s e = Some (Inr False)" using s by (simp add: Skip_def)
  have set: "field_Set (PTo s) (VMap mm) e = (?e1, None)" using s by (simp add: AttributeField_Set_root)
  have sev: "fmlookup ?m ''severity'' = Some (VInt (ucast sv))" using mm(1) by (rule fmlookup_fmadd_Some)
  {
    assume t: "fmlookup mm ''timestamp'' = Some (VTime t)"
    have ts: "fmlookup ?m ''timestamp'' = Some (VTime t)" using t by (rule fmlookup_fmadd_Some)
    have "TimeParser_Parse te shw now default_time_parser ?e1 = Some (?e1\<lparr>Timestamp := setTimestampYear now t\<rparr>, None)"
      for te :: "'a time_env" and shw now
      using ts by (simp add: TimeParser_Parse_def default_time_parser_def AttributeField_Get_def)
    then have "ParseWith re s e (syslog_parse ms s)
        = Some (?e1\<lparr>Timestamp := setTimestampYear (clock_now re) t\<rparr>, [], None)"
      using s get set by (simp add: ParseWith_def run_sub_def)
    moreover have "postprocess (?e1\<lparr>Timestamp := setTimestampYear (clock_now re) t\<rparr>)
        = Some (syslog_entry (clock_now re) mm t sv e, None)"
      using postprocess_ok [of "?e1\<lparr>Timestamp := setTimestampYear (clock_now re) t\<rparr>" ?m sv "VTime t"] sev ts mm(2)
      by (simp add: syslog_entry_def)
    ultimately show "SyslogParser_Process ms re s e = Some (Write s (syslog_entry (clock_now re) mm t sv e), None)"
      using skip by (simp add: SyslogParser_Process_def ProcessWithCallback_def)
  }
  assume "fmlookup mm ''timestamp'' = None" "fmlookup (nonnil (Attributes e)) ''timestamp'' = None"
  then have ts: "fmlookup ?m ''timestamp'' = None" by (simp add: fmlookup_fmadd_None)
  have "\<exists>err. TimeParser_Parse te shw now default_time_parser ?e1 = Some (?e1, Some err)"
    for te :: "'a time_env" and shw now
    using ts by (simp add: TimeParser_Parse_def default_time_parser_def AttributeField_Get_def)
  then obtain err where "TimeParser_Parse (time_env.truncate re) (show_other re) (clock_now re) default_time_parser ?e1
      = Some (?e1, Some err)" by blast
  then have "ParseWith re s e (syslog_parse ms s)
      = Some (?e1, HandleEntryError s ?e1 (Agent (Wrap err ''time parser'')))"
    using s get set by (simp add: ParseWith_def run_sub_def)
  then show "\<exists>err. SyslogParser_Process ms re s e = Some (HandleEntryError s ?e1 err)"
    using skip by (auto simp: SyslogParser_Process_def ProcessWithCallback_def HandleEntryError_def)
qed

lemma rfc_maps:
  "\<exists>mm. parseRFC3164 m = Inr mm \<and> fmlookup mm ''timestamp'' = map_option VTime (msgTimestamp m)
     \<and> fmlookup mm ''severity'' = map_option (\<lambda>w. VInt (ucast w)) (msgSeverity m)"
  "\<exists>mm. parseRFC5424 m sd v = Inr mm \<and> fmlookup mm ''timestamp'' = map_option VTime (msgTimestamp m)
     \<and> fmlookup mm ''severity'' = map_option (\<lambda>w. VInt (ucast w)) (msgSeverity m)"
proof -
  obtain k where k: "parseRFC3164 m = toSafeMap k" "k = [(''timestamp'', PTime (msgTimestamp m)), (''priority'', PUint8 (msgPriority m)),
      (''facility'', PUint8 (msgFacility m)), (''severity'', PUint8 (msgSeverity m)),
      (''hostname'', PString (msgHostname m)), (''appname'', PString (msgAppname m)),
      (''proc_id'', PString (msgProcID m)), (''msg_id'', PString (msgMsgID m)),
      (''message'', PString (msgMessage m))]" by (metis parseRFC3164_def)
  then obtain mm where "toSafeMap k = Inr mm" "\<forall>(k, v) \<in> set k. fmlookup mm k = safe_value v"
    using toSafeMap_lookup [of k] by (auto simp del: toSafeMap.simps)
  then show "\<exists>mm. parseRFC3164 m = Inr mm \<and> fmlookup mm ''timestamp'' = map_option VTime (msgTimestamp m)
     \<and> fmlookup mm ''severity'' = map_option (\<lambda>w. VInt (ucast w)) (msgSeverity m)"
    using k by (simp add: safe_value_def)
next
  obtain k where k: "parseRFC5424 m sd v = toSafeMap k" "k = [(''timestamp'', PTime (msgTimestamp m)), (''priority'', PUint8 (msgPriority m)),
      (''facility'', PUint8 (msgFacility m)), (''severity'', PUint8 (msgSeverity m)),
      (''hostname'', PString (msgHostname m)), (''appname'', PString (msgAppname m)),
      (''proc_id'', PString (msgProcID m)), (''msg_id'', PString (msgMsgID m)),
      (''message'', PString (msgMessage m)), (''structured_data'', PMaps sd),
      (''version'', Uint16 v)]" by (metis parseRFC5424_def)
  then obtain mm where "toSafeMap k = Inr mm" "\<forall>(k, v) \<in> set k. fmlookup mm k = safe_value v"
    using toSafeMap_lookup [of k] by (auto simp del: toSafeMap.simps)
  then show "\<exists>mm. parseRFC5424 m sd v = Inr mm \<and> fmlookup mm ''timestamp'' = map_option VTime (msgTimestamp m)
     \<and> fmlookup mm ''severity'' = map_option (\<lambda>w. VInt (ucast w)) (msgSeverity m)"
    using k by (simp add: safe_value_def)
qed

text \<open>
  C27: a syslog message becomes an entry.  With the default configuration (parse to the attributes,
  no further parsers, no condition), a message that the state machine of the protocol accepts with a
  timestamp and one of the eight severities is written exactly once: with that timestamp, with the
  severity and its name from the tables, without the attributes \<open>severity\<close> and \<open>timestamp\<close>, with
  the rest of the message added to the attributes and with the body as it was.  A message without
  a timestamp, which RFC 5424 allows, is an error unless the entry comes with an attribute \<open>timestamp\<close>
  of its own; it is handled by \<open>on_error\<close> with its severity not interpreted.  What is added are the
  parts of the message, as \<open>parseRFC3164\<close> or \<open>parseRFC5424\<close> of the configured protocol lists them.
\<close>

theorem Syslog_Process_entry:
  assumes build: "SyslogParserConfig_Build te compile has_logger c = Some (Inr s0)"
    "cfgTimeParser c = None" "cfgSeverityParser c = None" "cfgTraceParser c = None"
    "cfgScopeNameParser c = None" "cfgIfExpr c = []" "cfgPTo c = AttributeField []"
    and s: "s = s0\<lparr>OutputOperators := outs\<rparr>"
    and raw: "field_Get (cfgPFrom c) e = Some (VString raw)"
    and msg: "cfgProtocol c = RFC3164 \<and> parse_rfc3164 ms (slLocation s) raw = Inr (RFC3164_Message m)
      \<or> cfgProtocol c = RFC5424 \<and> parse_rfc5424 ms raw = Inr (RFC5424_Message m sd v)"
    and sev: "msgSeverity m = Some sv" "sv < 8"
  shows "\<exists>mm. (if cfgProtocol c = RFC3164 then parseRFC3164 m = Inr mm else parseRFC5424 m sd v = Inr mm)
    \<and> (\<forall>t. msgTimestamp m = Some t \<longrightarrow>
         SyslogParser_Process ms re s e = Some (Write s (syslog_entry (clock_now re) mm t sv e), None))
    \<and> (msgTimestamp m = None \<and> fmlookup (nonnil (Attributes e)) ''timestamp'' = None \<longrightarrow>
         (\<exists>err. SyslogParser_Process ms re s e = Some (HandleEntryError s
            (e\<lparr>Attributes := Some (nonnil (Attributes e) ++\<^sub>f mm)\<rparr>) err)))"
proof -
  note b0 = built_syslog [OF build(1-6)]
  have b: "POTime s = Some default_time_parser" "POSeverity s = None" "POTrace s = None"
    "POScopeName s = None" "IfExpr s = None" "PTo s = AttributeField []" "PFrom s = cfgPFrom c"
    "protocol s = cfgProtocol c"
    using b0 build(7) by (simp_all add: s)
  have protocols: "RFC5424 \<noteq> RFC3164" by simp
  obtain mm where mm: "if cfgProtocol c = RFC3164 then parseRFC3164 m = Inr mm else parseRFC5424 m sd v = Inr mm"
    "fmlookup mm ''timestamp'' = map_option VTime (msgTimestamp m)"
    "fmlookup mm ''severity'' = Some (VInt (ucast sv))"
    "syslog_parse ms s (VString raw) = Some (Inr (VMap mm))"
    using msg protocols rfc_maps(1) [of m] rfc_maps(2) [of m sd v] sev(1) b(8)
    by (auto simp: syslog_parse_def toBytes_def buildMachine_def)
  have get: "field_Get (PFrom s) e = Some (VString raw)" using raw b(7) by simp
  note process = syslog_process_map [OF b(1-6) get mm(4) mm(3) sev(2)]
  have "SyslogParser_Process ms re s e = Some (Write s (syslog_entry (clock_now re) mm t sv e), None)"
    if "msgTimestamp m = Some t" for t by (rule process(1)) (use mm(2) that in simp)
  moreover have "\<exists>err. SyslogParser_Process ms re s e = Some (HandleEntryError s
      (e\<lparr>Attributes := Some (nonnil (Attributes e) ++\<^sub>f mm)\<rparr>) err)"
    if "msgTimestamp m = None" "fmlookup (nonnil (Attributes e)) ''timestamp'' = None"
    by (rule process(2)) (use mm(2) that in simp_all)
  ultimately show ?thesis using mm(1) by (intro exI [of _ mm] conjI allI impI) simp_all
qed

theorem Syslog_Process_entry_witness:
  "\<exists>e'. SyslogParser_Process \<lparr>parse_rfc3164 = \<lambda>_ _. Inr Other_Message, parse_rfc5424 = \<lambda>raw. Inr (RFC5424_Message
        \<lparr>msgTimestamp = Some (time_unix 0 0), msgPriority = None, msgFacility = None, msgSeverity = Some 3,
         msgHostname = None, msgAppname = None, msgProcID = None, msgMsgID = None, msgMessage = Some raw\<rparr> None 1)\<rparr>
      \<lparr>toNative = Inr, loadLocation = \<lambda>_. Inr (), utcLocation = (), localLocation = (),
       parseInLocation = \<lambda>_ _ _. (zero_time, None), clock_now = zero_time, show_other = \<lambda>_. []\<rparr>
      \<lparr>OperatorID = ''s'', OperatorType = ''syslog_parser'', OutputIDs = [], OutputOperators = [\<lparr>Op_ID = ''o'', Op_CanProcess = True\<rparr>],
       OnError = ''send'', IfExpr = None, PFrom = BodyField [], PTo = AttributeField [],
       POTime = Some default_time_parser, POSeverity = None, POTrace = None, POScopeName = None,
       protocol = ''rfc5424'', slLocation = ()\<rparr>
      ((New zero_time)\<lparr>Body := VString ''hi''\<rparr>)
    = Some ([(\<lparr>Op_ID = ''o'', Op_CanProcess = True\<rparr>, e')], None) \<and> Severity e' = Error"
proof -
  let ?m = "\<lambda>raw. \<lparr>msgTimestamp = Some (time_unix 0 0), msgPriority = None, msgFacility = None, msgSeverity = Some 3,
         msgHostname = None, msgAppname = None, msgProcID = None, msgMsgID = None, msgMessage = Some raw\<rparr>"
  let ?ms = "\<lparr>parse_rfc3164 = \<lambda>_ _. Inr Other_Message, parse_rfc5424 = \<lambda>raw. Inr (RFC5424_Message (?m raw) None 1)\<rparr>"
  let ?te = "\<lparr>toNative = Inr, loadLocation = \<lambda>_. Inr (), utcLocation = (), localLocation = (),
       parseInLocation = \<lambda>_ _ _. (zero_time, None)\<rparr>"
  let ?re = "\<lparr>toNative = Inr, loadLocation = \<lambda>_. Inr (), utcLocation = (), localLocation = (),
       parseInLocation = \<lambda>_ _ _. (zero_time, None), clock_now = zero_time, show_other = \<lambda>_. []\<rparr>"
  let ?c = "\<lparr>cfgOperatorID = ''s'', cfgOperatorType = ''syslog_parser'', cfgOutputIDs = [], cfgOnError = ''send'',
       cfgIfExpr = [], cfgPFrom = BodyField [], cfgPTo = AttributeField [], cfgTimeParser = None :: unit TimeParser option,
       cfgSeverityParser = None, cfgTraceParser = None, cfgScopeNameParser = None, cfgProtocol = ''rfc5424'',
       cfgLocation = []\<rparr>"
  let ?s0 = "\<lparr>OperatorID = ''s'', OperatorType = ''syslog_parser'', OutputIDs = [], OutputOperators = [],
       OnError = ''send'', IfExpr = None, PFrom = BodyField [], PTo = AttributeField [],
       POTime = Some (default_time_parser :: unit TimeParser), POSeverity = None, POTrace = None, POScopeName = None,
       protocol = ''rfc5424'', slLocation = ()\<rparr>"
  let ?o = "\<lparr>Op_ID = ''o'', Op_CanProcess = True\<rparr>"
  let ?e = "(New zero_time)\<lparr>Body := VString ''hi''\<rparr>"
  have valid: "TimeParser_Validate ?te default_time_parser = Inr default_time_parser"
    by (simp add: TimeParser_Validate_def default_time_parser_def check_location_def)
  have build: "SyslogParserConfig_Build ?te (\<lambda>_. Inr (\<lambda>_. Inr VNil)) True ?c = Some (Inr ?s0)"
    by (simp add: SyslogParserConfig_Build_def ParserConfig_Build_def valid TransformerConfig_Build_def
        WriterConfig_Build_def BasicConfig_Build_def BasicConfig_ID_def BasicOperator.defs WriterOperator.defs
        TransformerOperator.defs ParserOperator.defs SyslogParser.defs)
  have raw: "field_Get (cfgPFrom ?c) ?e = Some (VString ''hi'')" by (simp add: BodyField_Get_def)
  let ?s = "?s0\<lparr>OutputOperators := [?o]\<rparr>"
  have "\<exists>mm. SyslogParser_Process ?ms ?re ?s ?e = Some (Write ?s (syslog_entry zero_time mm (time_unix 0 0) 3 ?e), None)"
    using Syslog_Process_entry [OF build _ _ _ _ _ _ refl raw, of ?ms "[?o]" "?m ''hi''" None 1 3 ?re] by auto
  then show ?thesis by (auto simp: Write_def syslog_entry_def severityMapping_def)
qed

end
