(* ===== verification/Regex_Cache.thy ===== *)
theory Regex_Cache
  imports Parser_Operators
begin

text \<open>
  The regular expression parser with its cache: \<open>operator/parser/regex/regex.go\<close> and \<open>cache.go\<close>.

  The package \<open>regexp\<close> is a parameter, given by the three functions that the parser calls.  A lock
  that is never released, or a channel operation that blocks while the lock is held, is \<open>None\<close>.
  The conversion of a negative float to \<open>uint64\<close>, which the language leaves to the platform, is the
  parameter \<open>conv\<close>.
\<close>

section \<open>The limiter\<close>

record atomicLimiter =
  count :: u64
  max_count :: u64
  limiter_interval :: i64

definition second :: i64 where
  "second = 1000000000"

definition newStartedAtomicLimiter :: "u64 \<Rightarrow> u64 \<Rightarrow> atomicLimiter" where
  "newStartedAtomicLimiter m interval =
     \<lparr>count = 0, max_count = m, limiter_interval = second * (if interval = 0 then 5 else interval)\<rparr>"

text \<open>
  \<open>math.Round(-0.10 * float64(max))\<close>, which rounds halves away from zero.  The limits of a cache are at
  most 65536, where the rounding of the product does not change the result.
\<close>

definition tick_amount :: "u64 \<Rightarrow> int" where
  "tick_amount m = - ((uint m + 5) div 10)"

text \<open>On amd64 the conversion of a float that fits an \<open>int64\<close> keeps its two's complement bits.\<close>

definition uint64_amd64 :: "int \<Rightarrow> u64" where
  "uint64_amd64 i = word_of_int i"

definition limiter_tick :: "(int \<Rightarrow> u64) \<Rightarrow> atomicLimiter \<Rightarrow> atomicLimiter" where
  "limiter_tick conv l =
     (if count l > 0 then l\<lparr>count := count l + not (conv (tick_amount (max_count l)))\<rparr> else l)"

definition increment :: "atomicLimiter \<Rightarrow> atomicLimiter" where
  "increment l = (if count l = max_count l then l else l\<lparr>count := count l + 1\<rparr>)"

definition throttled :: "atomicLimiter \<Rightarrow> bool" where
  "throttled l \<longleftrightarrow> count l \<ge> max_count l"

section \<open>The cache\<close>

record memoryCache =
  cache_map :: "gval gomap"
  cache_keys :: "string list"
  keys_cap :: nat
  cache_limiter :: atomicLimiter

definition newMemoryCache :: "16 word \<Rightarrow> u64 \<Rightarrow> memoryCache" where
  "newMemoryCache sz interval =
     \<lparr>cache_map = fmempty, cache_keys = [], keys_cap = unat sz,
      cache_limiter = newStartedAtomicLimiter (ucast sz + 1) interval\<rparr>"

definition cache_get :: "memoryCache \<Rightarrow> string \<Rightarrow> gval option" where
  "cache_get m k = fmlookup (cache_map m) k"

text \<open>What \<open>add\<close> does under the lock: evict the oldest key when the channel is full, then insert.\<close>

definition evict :: "memoryCache \<Rightarrow> memoryCache option" where
  "evict m =
     (if length (cache_keys m) = keys_cap m
      then (case cache_keys m of
              [] \<Rightarrow> None
            | k # ks \<Rightarrow> Some (m\<lparr>cache_map := fmdrop k (cache_map m), cache_keys := ks,
                               cache_limiter := increment (cache_limiter m)\<rparr>))
      else Some m)"

definition add_locked :: "string \<Rightarrow> gval \<Rightarrow> memoryCache \<Rightarrow> memoryCache option" where
  "add_locked k data m =
     (case evict m of
        None \<Rightarrow> None
      | Some m \<Rightarrow>
          if length (cache_keys m) < keys_cap m
          then Some (m\<lparr>cache_map := fmupd k data (cache_map m), cache_keys := cache_keys m @ [k]\<rparr>)
          else None)"

definition cache_add :: "memoryCache \<Rightarrow> string \<Rightarrow> gval \<Rightarrow> (memoryCache \<times> bool) option" where
  "cache_add m k data =
     (if throttled (cache_limiter m) then Some (m, False)
      else map_option (\<lambda>m. (m, True)) (add_locked k data m))"

definition cache_copy :: "memoryCache \<Rightarrow> gval gomap" where
  "cache_copy m = cache_map m"

definition cache_maxSize :: "memoryCache \<Rightarrow> 16 word" where
  "cache_maxSize m = of_nat (keys_cap m)"

section \<open>The parser\<close>

record 'r regexp_lib =
  regexp_Compile :: "string \<Rightarrow> string + 'r"
  SubexpNames :: "'r \<Rightarrow> string list"
  FindStringSubmatch :: "'r \<Rightarrow> string \<Rightarrow> string list option"

record 'loc RegexParserConfig = "'loc ParserConfig" +
  cfgRegex :: string
  cfgCacheSize :: "16 word"

record ('loc, 'r) RegexParser = "'loc ParserOperator" +
  parser_regexp :: 'r
  parser_cache :: "memoryCache option"

definition NewRegexParserConfig :: "string \<Rightarrow> 'loc RegexParserConfig" where
  "NewRegexParserConfig i = ParserConfig.extend (NewParserConfig i ''regex_parser'')
     (RegexParserConfig.fields [] 0)"

definition RegexParserConfig_Build ::
  "'r regexp_lib \<Rightarrow> 'loc time_env \<Rightarrow> compiler \<Rightarrow> bool \<Rightarrow> ('loc, 'a) RegexParserConfig_scheme
    \<Rightarrow> (gerror + ('loc, 'r) RegexParser) option" where
  "RegexParserConfig_Build lib te compile has_logger c =
     (case ParserConfig_Build te compile has_logger c of
        None \<Rightarrow> None
      | Some (Inl err) \<Rightarrow> Some (Inl err)
      | Some (Inr p) \<Rightarrow>
          if cfgRegex c = [] then Some (Inl (StdError (''missing required field '' @ quoted ''regex'')))
          else case regexp_Compile lib (cfgRegex c) of
            Inl err \<Rightarrow> Some (Inl (StdError (''compiling regex: '' @ err)))
          | Inr r \<Rightarrow>
              if filter (\<lambda>n. n \<noteq> []) (SubexpNames lib r) = []
              then Some (Inl (Agent (NewError ''no named capture groups in regex pattern''
                (''use named capture groups like '' @ quoted ''^(?P<my_key>.*)$'' @
                 '' to specify the key name for the parsed field'') [])))
              else Some (Inr (ParserOperator.extend p (RegexParser.fields r
                (if cfgCacheSize c > 0 then Some (newMemoryCache (cfgCacheSize c) 0) else None)))))"

text \<open>The loop over the names of the groups; an index outside of the matches panics.\<close>

fun capture_loop :: "nat \<Rightarrow> string list \<Rightarrow> string list \<Rightarrow> gval gomap \<Rightarrow> gval gomap option" where
  "capture_loop i [] matches parsed = Some parsed"
| "capture_loop i (subexp # names) matches parsed =
     (if i = 0 \<or> subexp = [] then capture_loop (Suc i) names matches parsed
      else if i < length matches
      then capture_loop (Suc i) names matches (fmupd subexp (VString (matches ! i)) parsed)
      else None)"

text \<open>The part of \<open>match\<close> behind the cache.\<close>

definition match_uncached :: "'r regexp_lib \<Rightarrow> 'r \<Rightarrow> string \<Rightarrow> (gerror + gval) option" where
  "match_uncached lib r value =
     (case FindStringSubmatch lib r value of
        None \<Rightarrow> Some (Inl (StdError ''regex pattern does not match''))
      | Some matches \<Rightarrow> map_option (\<lambda>m. Inr (VMap m)) (capture_loop 0 (SubexpNames lib r) matches fmempty))"

definition RegexParser_match ::
  "'r regexp_lib \<Rightarrow> ('loc, 'r, 'a) RegexParser_scheme \<Rightarrow> string
    \<Rightarrow> ((gerror + gval) \<times> ('loc, 'r, 'a) RegexParser_scheme) option" where
  "RegexParser_match lib r value =
     (case (case parser_cache r of None \<Rightarrow> None | Some m \<Rightarrow> cache_get m value) of
        Some x \<Rightarrow> Some (Inr x, r)
      | None \<Rightarrow>
          (case match_uncached lib (parser_regexp r) value of
             None \<Rightarrow> None
           | Some (Inl err) \<Rightarrow> Some (Inl err, r)
           | Some (Inr parsedValues) \<Rightarrow>
               (case parser_cache r of
                  None \<Rightarrow> Some (Inr parsedValues, r)
                | Some m \<Rightarrow> map_option (\<lambda>(m, added). (Inr parsedValues, r\<lparr>parser_cache := Some m\<rparr>))
                    (cache_add m value parsedValues))))"

definition RegexParser_parse ::
  "'r regexp_lib \<Rightarrow> ('loc, 'r, 'a) RegexParser_scheme \<Rightarrow> gval
    \<Rightarrow> ((gerror + gval) \<times> ('loc, 'r, 'a) RegexParser_scheme) option" where
  "RegexParser_parse lib r value =
     (case value of
        VString raw \<Rightarrow> RegexParser_match lib r raw
      | _ \<Rightarrow> Some (Inl (StdError (''type '' @ quoted (go_type value) @ '' cannot be parsed as regex'')), r))"

text \<open>The outcome of an entry and the parser afterwards, whose cache \<open>parse\<close> may have changed.\<close>

definition RegexParser_Process ::
  "'r regexp_lib \<Rightarrow> ('loc, 'b) run_env_scheme \<Rightarrow> ('loc, 'r, 'a) RegexParser_scheme \<Rightarrow> entry
    \<Rightarrow> (outcome \<times> ('loc, 'r, 'a) RegexParser_scheme) option" where
  "RegexParser_Process lib re r e =
     (case Parser_ProcessWith re r e (\<lambda>v. map_option fst (RegexParser_parse lib r v)) of
        None \<Rightarrow> None
      | Some out \<Rightarrow>
          Some (out,
            case (Skip r e, field_Get (PFrom r) e) of
              (Some (Inr False), Some v) \<Rightarrow> (case RegexParser_parse lib r v of Some (_, r') \<Rightarrow> r' | None \<Rightarrow> r)
            | _ \<Rightarrow> r))"

section \<open>The contract of a cache\<close>

text \<open>
  What the parser relies on: in a well-formed cache \<open>add\<close> returns, and it never makes \<open>get\<close> answer
  something that was not added under that key.  A cache is coherent with a function when every
  answer is a value of the function.
\<close>

locale lookup_cache =
  fixes get :: "'s \<Rightarrow> string \<Rightarrow> 'v option"
    and add :: "'s \<Rightarrow> string \<Rightarrow> 'v \<Rightarrow> ('s \<times> bool) option"
    and wf :: "'s \<Rightarrow> bool"
  assumes add_returns: "wf s \<Longrightarrow> \<exists>s' b. add s k v = Some (s', b) \<and> wf s'"
    and get_after_add: "add s k v = Some (s', b) \<Longrightarrow> get s' k' = Some v' \<Longrightarrow> get s k' = Some v' \<or> k' = k \<and> v' = v"
begin

definition coherent :: "(string \<Rightarrow> 'v option) \<Rightarrow> 's \<Rightarrow> bool" where
  "coherent f s \<longleftrightarrow> (\<forall>k v. get s k = Some v \<longrightarrow> f k = Some v)"

lemma coherentD: "coherent f s \<Longrightarrow> get s k = Some v \<Longrightarrow> f k = Some v"
  by (simp add: coherent_def)

lemma add_coherent: "coherent f s \<Longrightarrow> f k = Some v \<Longrightarrow> add s k v = Some (s', b) \<Longrightarrow> coherent f s'"
  unfolding coherent_def using get_after_add by metis

lemma add_keeps: "wf s \<Longrightarrow> add s k v = Some (s', b) \<Longrightarrow> wf s'"
  using add_returns [of s k v] by auto

end

lemma cache_get_limiter [simp]: "cache_get (m\<lparr>cache_limiter := l\<rparr>) = cache_get m"
  by (simp add: cache_get_def fun_eq_iff)

text \<open>
  The invariant of the memory cache: the channel never holds more keys than its capacity, and every
  cached key is waiting in the channel to be evicted.
\<close>

definition cache_wf :: "memoryCache \<Rightarrow> bool" where
  "cache_wf m \<longleftrightarrow> 0 < keys_cap m \<and> length (cache_keys m) \<le> keys_cap m
     \<and> fset (fmdom (cache_map m)) \<subseteq> set (cache_keys m)"

lemma evict_wf:
  assumes "cache_wf m"
  obtains m' where "evict m = Some m'" "cache_wf m'" "length (cache_keys m') < keys_cap m'"
    "keys_cap m' = keys_cap m" "\<And>k v. cache_get m' k = Some v \<Longrightarrow> cache_get m k = Some v"
proof (cases "length (cache_keys m) = keys_cap m")
  case True
  then obtain k ks where "cache_keys m = k # ks" using assms by (cases "cache_keys m") (auto simp: cache_wf_def)
  with True assms show ?thesis
    by (intro that [of "m\<lparr>cache_map := fmdrop k (cache_map m), cache_keys := ks, cache_limiter := increment (cache_limiter m)\<rparr>"])
      (auto simp: evict_def cache_wf_def cache_get_def split: if_splits)
next
  case False
  with assms show ?thesis by (intro that [of m]) (simp_all add: evict_def cache_wf_def)
qed

lemma add_locked_wf:
  assumes "cache_wf m"
  obtains m' where "add_locked k data m = Some m'" "cache_wf m'" "keys_cap m' = keys_cap m"
    "\<And>k' v. cache_get m' k' = Some v \<Longrightarrow> cache_get m k' = Some v \<or> k' = k \<and> v = data"
proof -
  obtain m1 where m1: "evict m = Some m1" "cache_wf m1" "length (cache_keys m1) < keys_cap m1"
    "keys_cap m1 = keys_cap m" "\<And>k v. cache_get m1 k = Some v \<Longrightarrow> cache_get m k = Some v"
    using evict_wf [OF assms] by metis
  have "cache_get (m1\<lparr>cache_map := fmupd k data (cache_map m1), cache_keys := cache_keys m1 @ [k]\<rparr>) k' = Some v
      \<Longrightarrow> cache_get m k' = Some v \<or> k' = k \<and> v = data" for k' v
    using m1(5) [of k' v] by (auto simp: cache_get_def split: if_splits)
  then show ?thesis
    using m1(1-4) by (intro that [of "m1\<lparr>cache_map := fmupd k data (cache_map m1), cache_keys := cache_keys m1 @ [k]\<rparr>"])
      (auto simp: add_locked_def cache_wf_def)
qed

lemma evict_get: "evict m = Some m' \<Longrightarrow> cache_get m' k = Some v \<Longrightarrow> cache_get m k = Some v"
  by (auto simp: evict_def cache_get_def split: if_splits list.splits)

interpretation mem_cache: lookup_cache cache_get cache_add cache_wf
proof
  show "\<exists>s' b. cache_add s k v = Some (s', b) \<and> cache_wf s'" if "cache_wf s" for s k v
  proof (cases "throttled (cache_limiter s)")
    case True
    with that show ?thesis by (intro exI [of _ s] exI [of _ False]) (simp add: cache_add_def)
  next
    case False
    obtain m' where "add_locked k v s = Some m'" "cache_wf m'" using add_locked_wf [OF \<open>cache_wf s\<close>] by metis
    with False show ?thesis by (intro exI [of _ m'] exI [of _ True]) (simp add: cache_add_def)
  qed
  show "cache_get s k' = Some v' \<or> k' = k \<and> v' = v"
    if "cache_add s k v = Some (s', b)" "cache_get s' k' = Some v'" for s k v s' b k' v'
    using that evict_get [of s _ k' v']
    by (auto simp: cache_add_def add_locked_def cache_get_def split: if_splits option.splits)
qed

lemma cache_get_new [simp]: "cache_get (newMemoryCache sz i) k = None"
  by (simp add: cache_get_def newMemoryCache_def)

lemma cache_wf_new: "0 < sz \<Longrightarrow> cache_wf (newMemoryCache sz i)"
  by (simp add: cache_wf_def newMemoryCache_def word_gt_0 unat_gt_0)

section \<open>Concurrent use\<close>

text \<open>
  Several entries may be parsed at a time.  An \<open>add\<close> reads the limiter before it takes the lock, so a
  key and its value may wait between the two; the goroutine of the limiter may run at any moment.
  \<open>f\<close> gives what the expression yields for a value.
\<close>

record cache_state =
  shared :: memoryCache
  waiting :: "(string \<times> gval) list"

inductive cache_reach ::
  "(int \<Rightarrow> u64) \<Rightarrow> (string \<Rightarrow> gval option) \<Rightarrow> memoryCache \<Rightarrow> cache_state \<Rightarrow> bool"
  for conv f m0 where
  start: "cache_reach conv f m0 \<lparr>shared = m0, waiting = []\<rparr>"
| enter: "cache_reach conv f m0 s \<Longrightarrow> \<not> throttled (cache_limiter (shared s)) \<Longrightarrow> f k = Some v \<Longrightarrow>
    cache_reach conv f m0 (s\<lparr>waiting := waiting s @ [(k, v)]\<rparr>)"
| commit: "cache_reach conv f m0 s \<Longrightarrow> waiting s = ws @ (k, v) # ws' \<Longrightarrow> add_locked k v (shared s) = Some m \<Longrightarrow>
    cache_reach conv f m0 \<lparr>shared = m, waiting = ws @ ws'\<rparr>"
| tick: "cache_reach conv f m0 s \<Longrightarrow>
    cache_reach conv f m0 (s\<lparr>shared := (shared s)\<lparr>cache_limiter := limiter_tick conv (cache_limiter (shared s))\<rparr>\<rparr>)"

lemma cache_reach_inv:
  assumes "cache_reach conv f m0 s" "cache_wf m0" "\<And>k. cache_get m0 k = None"
  shows "cache_wf (shared s) \<and> keys_cap (shared s) = keys_cap m0 \<and> mem_cache.coherent f (shared s)
    \<and> (\<forall>(k, v) \<in> set (waiting s). f k = Some v)"
  using assms(1)
proof induction
  case start
  then show ?case using assms by (simp add: mem_cache.coherent_def)
next
  case (commit s ws k v ws' m)
  then obtain m' where "add_locked k v (shared s) = Some m'" "cache_wf m'" "keys_cap m' = keys_cap (shared s)"
    "\<And>k' v'. cache_get m' k' = Some v' \<Longrightarrow> cache_get (shared s) k' = Some v' \<or> k' = k \<and> v' = v"
    using add_locked_wf [of "shared s" k v] by metis
  with commit show ?case by (auto simp: mem_cache.coherent_def)
qed (auto simp: cache_wf_def mem_cache.coherent_def)

text \<open>
  C24: the cache keeps its promises under every interleaving of parsing goroutines and of the
  limiter's goroutine.  A cache of positive size never blocks an \<open>add\<close> that waits for the lock,
  never holds more entries than its size, and never answers anything but what the expression
  yields for that key.
\<close>

theorem cache_concurrent:
  assumes "0 < sz" and reach: "cache_reach conv f (newMemoryCache sz interval) s"
  shows "(\<forall>(k, v) \<in> set (waiting s). add_locked k v (shared s) \<noteq> None)
    \<and> fcard (fmdom (cache_map (shared s))) \<le> unat sz
    \<and> (\<forall>k v. cache_get (shared s) k = Some v \<longrightarrow> f k = Some v)"
proof -
  have inv: "cache_wf (shared s)" "keys_cap (shared s) = unat sz" "mem_cache.coherent f (shared s)"
    using cache_reach_inv [OF reach cache_wf_new [OF assms(1)] cache_get_new]
    by (simp_all add: newMemoryCache_def)
  then have sub: "fset (fmdom (cache_map (shared s))) \<subseteq> set (cache_keys (shared s))"
    and len: "length (cache_keys (shared s)) \<le> unat sz" by (auto simp: cache_wf_def)
  have "fcard (fmdom (cache_map (shared s))) \<le> card (set (cache_keys (shared s)))"
    using sub by (simp add: fcard.rep_eq card_mono)
  also have "\<dots> \<le> unat sz" using len card_length order_trans by blast
  finally show ?thesis
    using mem_cache.coherentD [OF inv(3)] add_locked_wf [OF inv(1)]
    by (auto simp: split_beta) (metis option.distinct(1))
qed

theorem cache_concurrent_witness:
  "(0 :: 16 word) < 1 \<and> (\<exists>s. cache_reach uint64_amd64 (\<lambda>k. Some (VString k)) (newMemoryCache 1 0) s
     \<and> cache_get (shared s) ''b'' = Some (VString ''b'') \<and> cache_get (shared s) ''a'' = None
     \<and> fcard (fmdom (cache_map (shared s))) \<le> 1)"
proof -
  let ?f = "\<lambda>k. Some (VString k)"
  let ?m = "newMemoryCache 1 0"
  let ?R = "cache_reach uint64_amd64 ?f ?m"
  have new: "?m = \<lparr>cache_map = fmempty, cache_keys = [], keys_cap = 1,
      cache_limiter = \<lparr>count = 0, max_count = 2, limiter_interval = 5000000000\<rparr>\<rparr>"
    by (simp add: newMemoryCache_def newStartedAtomicLimiter_def second_def)
  note R = cache_reach.intros(2-3)
  have drop: "fmdrop ''a'' (fmupd ''a'' x fmempty) = fmempty" for x :: gval by (rule fmap_eqI) simp
  have 1: "?R \<lparr>shared = ?m, waiting = []\<rparr>" by (rule cache_reach.start)
  have 2: "?R \<lparr>shared = ?m, waiting = [(''a'', VString ''a'')]\<rparr>"
    using R(1) [OF 1, of "''a''"] by (simp add: new throttled_def)
  have 3: "?R \<lparr>shared = ?m, waiting = [(''a'', VString ''a''), (''b'', VString ''b'')]\<rparr>"
    using R(1) [OF 2, of "''b''"] by (simp add: new throttled_def)
  let ?m1 = "?m\<lparr>cache_map := fmupd ''a'' (VString ''a'') fmempty, cache_keys := [''a'']\<rparr>"
  have 4: "?R \<lparr>shared = ?m1, waiting = [(''b'', VString ''b'')]\<rparr>"
    using R(2) [OF 3, of "[]" "''a''" "VString ''a''" _ ?m1] by (simp add: new add_locked_def evict_def)
  let ?m2 = "?m\<lparr>cache_map := fmupd ''b'' (VString ''b'') fmempty, cache_keys := [''b''],
     cache_limiter := \<lparr>count = 1, max_count = 2, limiter_interval = 5000000000\<rparr>\<rparr>"
  have 5: "?R \<lparr>shared = ?m2, waiting = []\<rparr>"
    using R(2) [OF 4, of "[]" "''b''" "VString ''b''" _ ?m2]
    by (simp add: new add_locked_def evict_def increment_def drop)
  have get: "cache_get ?m2 ''b'' = Some (VString ''b'')" "cache_get ?m2 ''a'' = None"
    by (simp_all add: cache_get_def)
  have "fcard (fmdom (cache_map ?m2)) \<le> 1" using cache_concurrent [OF _ 5] by simp
  with 5 get show ?thesis
    by (intro conjI exI [of _ "\<lparr>shared = ?m2, waiting = []\<rparr>"]) simp_all
qed

text \<open>The parser computes what it would compute without the cache.\<close>

definition regex_value :: "'r regexp_lib \<Rightarrow> 'r \<Rightarrow> string \<Rightarrow> gval option" where
  "regex_value lib r k = (case match_uncached lib r k of Some (Inr v) \<Rightarrow> Some v | _ \<Rightarrow> None)"

lemma match_without_cache: "RegexParser_match lib (r\<lparr>parser_cache := None\<rparr>) v =
    map_option (\<lambda>x. (x, r\<lparr>parser_cache := None\<rparr>)) (match_uncached lib (parser_regexp r) v)"
  by (auto simp: RegexParser_match_def split: option.splits sum.splits)

lemma match_hit:
  "parser_cache r = Some m \<Longrightarrow> cache_get m v = Some x \<Longrightarrow> RegexParser_match lib r v = Some (Inr x, r)"
  by (simp add: RegexParser_match_def)

lemma match_miss:
  assumes "parser_cache r = Some m" "cache_get m v = None"
  shows "match_uncached lib (parser_regexp r) v = None \<Longrightarrow> RegexParser_match lib r v = None"
    "match_uncached lib (parser_regexp r) v = Some (Inl err) \<Longrightarrow> RegexParser_match lib r v = Some (Inl err, r)"
    "match_uncached lib (parser_regexp r) v = Some (Inr y) \<Longrightarrow> cache_add m v y = Some (m', b) \<Longrightarrow>
      RegexParser_match lib r v = Some (Inr y, r\<lparr>parser_cache := Some m'\<rparr>)"
  using assms by (simp_all add: RegexParser_match_def)

lemma match_with_cache:
  assumes "parser_cache r = Some m" "cache_wf m" "mem_cache.coherent (regex_value lib (parser_regexp r)) m"
  shows "match_uncached lib (parser_regexp r) v = None \<and> RegexParser_match lib r v = None
    \<or> (\<exists>x m'. match_uncached lib (parser_regexp r) v = Some x
        \<and> RegexParser_match lib r v = Some (x, r\<lparr>parser_cache := Some m'\<rparr>)
        \<and> cache_wf m' \<and> mem_cache.coherent (regex_value lib (parser_regexp r)) m')"
proof -
  let ?f = "regex_value lib (parser_regexp r)"
  let ?u = "match_uncached lib (parser_regexp r) v"
  have same: "r\<lparr>parser_cache := Some m\<rparr> = r" using assms(1) by simp
  consider (hit) y where "cache_get m v = Some y" | (panic) "cache_get m v = None" "?u = None"
    | (err) err where "cache_get m v = None" "?u = Some (Inl err)"
    | (new) y where "cache_get m v = None" "?u = Some (Inr y)"
    by (metis not_Some_eq sum.exhaust)
  then show ?thesis
  proof cases
    case hit
    then have "?f v = Some y" by (rule mem_cache.coherentD [OF assms(3)])
    then have "?u = Some (Inr y)" by (auto simp: regex_value_def split: option.splits sum.splits)
    with match_hit [OF assms(1) hit] assms(2,3) same show ?thesis by metis
  next
    case panic
    then show ?thesis using match_miss(1) [OF assms(1)] by simp
  next
    case err
    with match_miss(2) [OF assms(1) err] assms(2,3) same show ?thesis by metis
  next
    case new
    then have f: "?f v = Some y" by (simp add: regex_value_def)
    obtain m' b where m': "cache_add m v y = Some (m', b)" "cache_wf m'"
      using mem_cache.add_returns [OF assms(2)] by blast
    from match_miss(3) [OF assms(1) new m'(1)] new(2) m'(2) mem_cache.add_coherent [OF assms(3) f m'(1)]
    show ?thesis by blast
  qed
qed

lemma Parser_ProcessWith_cache:
  fixes r :: "('loc, 'r, 'a) RegexParser_scheme"
  shows "Parser_ProcessWith re (r\<lparr>parser_cache := c\<rparr>) e parse = Parser_ProcessWith re r e parse"
proof -
  let ?r = "r\<lparr>parser_cache := c\<rparr>"
  have w: "Write ?r x = Write r x" "Skip ?r x = Skip r x" for x by (simp_all add: Write_def Skip_def)
  have h: "HandleEntryError ?r x err = HandleEntryError r x err" for x err by (simp add: HandleEntryError_def w)
  have sel: "PFrom ?r = PFrom r" "PTo ?r = PTo r" "POTime ?r = POTime r" "POSeverity ?r = POSeverity r"
    "POTrace ?r = POTrace r" "POScopeName ?r = POScopeName r" by simp_all
  have pw: "ParseWith re ?r e parse = ParseWith re r e parse" unfolding ParseWith_def h sel by (rule refl)
  show ?thesis unfolding Parser_ProcessWith_def ProcessWithCallback_def w h pw by (rule refl)
qed

fun RegexParser_run ::
  "'r regexp_lib \<Rightarrow> ('loc, 'b) run_env_scheme \<Rightarrow> ('loc, 'r, 'a) RegexParser_scheme \<Rightarrow> entry list \<Rightarrow> outcome list option" where
  "RegexParser_run lib re r [] = Some []"
| "RegexParser_run lib re r (e # es) =
     (case RegexParser_Process lib re r e of
        None \<Rightarrow> None
      | Some (out, r) \<Rightarrow> map_option (Cons out) (RegexParser_run lib re r es))"

definition cache_ok :: "'r regexp_lib \<Rightarrow> ('loc, 'r, 'a) RegexParser_scheme \<Rightarrow> bool" where
  "cache_ok lib r \<longleftrightarrow> (\<forall>m. parser_cache r = Some m \<longrightarrow>
     cache_wf m \<and> mem_cache.coherent (regex_value lib (parser_regexp r)) m)"

lemma parse_cache_ok:
  assumes "cache_ok lib r"
  shows "map_option fst (RegexParser_parse lib r v) = map_option fst (RegexParser_parse lib (r\<lparr>parser_cache := None\<rparr>) v)"
    and "RegexParser_parse lib r v = Some (x, r') \<Longrightarrow> \<exists>c. r' = r\<lparr>parser_cache := c\<rparr> \<and> cache_ok lib r'"
proof -
  have m: "map_option fst (RegexParser_match lib r w) = match_uncached lib (parser_regexp r) w
      \<and> (RegexParser_match lib r w = Some (x, r') \<longrightarrow> (\<exists>c. r' = r\<lparr>parser_cache := c\<rparr> \<and> cache_ok lib r'))" for w
  proof (cases "parser_cache r")
    case None
    then have "RegexParser_match lib r w = map_option (\<lambda>x. (x, r)) (match_uncached lib (parser_regexp r) w)"
      by (auto simp: RegexParser_match_def split: option.splits sum.splits)
    then show ?thesis using None
      by (auto simp: cache_ok_def option.map_comp o_def map_option.id [unfolded id_def] intro!: exI [of _ None])
  next
    case (Some m)
    with assms have "cache_wf m" "mem_cache.coherent (regex_value lib (parser_regexp r)) m"
      by (auto simp: cache_ok_def)
    from match_with_cache [OF Some this, of w] show ?thesis
    proof (elim disjE exE conjE)
      fix y m' assume m': "match_uncached lib (parser_regexp r) w = Some y" "cache_wf m'"
        "RegexParser_match lib r w = Some (y, r\<lparr>parser_cache := Some m'\<rparr>)"
        "mem_cache.coherent (regex_value lib (parser_regexp r)) m'"
      have "cache_ok lib (r\<lparr>parser_cache := Some m'\<rparr>)" using m'(2,4) by (simp add: cache_ok_def)
      then show ?thesis unfolding m'(1,3) option.map fst_conv option.inject prod.inject by blast
    qed simp
  qed
  show "map_option fst (RegexParser_parse lib r v) = map_option fst (RegexParser_parse lib (r\<lparr>parser_cache := None\<rparr>) v)"
    using m by (simp add: RegexParser_parse_def match_without_cache option.map_comp o_def option.map_ident split: gval.split)
  show "RegexParser_parse lib r v = Some (x, r') \<Longrightarrow> \<exists>c. r' = r\<lparr>parser_cache := c\<rparr> \<and> cache_ok lib r'"
    using m assms by (auto simp: RegexParser_parse_def intro!: exI [of _ "parser_cache r"] split: gval.splits)
qed

lemma map_option_fst_Some:
  assumes "map_option fst x = Some a"
  obtains b where "x = Some (a, b)"
  using assms by (cases x) auto

lemma RegexParser_Process_fst:
  "map_option fst (RegexParser_Process lib re r e)
     = Parser_ProcessWith re r e (\<lambda>v. map_option fst (RegexParser_parse lib r v))"
  by (simp add: RegexParser_Process_def split: option.split)

lemma RegexParser_Process_ok:
  assumes "cache_ok lib r"
  shows "map_option fst (RegexParser_Process lib re r e)
      = map_option fst (RegexParser_Process lib re (r\<lparr>parser_cache := None\<rparr>) e)"
    and "RegexParser_Process lib re r e = Some (out, r') \<Longrightarrow> \<exists>c. r' = r\<lparr>parser_cache := c\<rparr> \<and> cache_ok lib r'"
proof -
  note fst = RegexParser_Process_fst
  show "map_option fst (RegexParser_Process lib re r e)
      = map_option fst (RegexParser_Process lib re (r\<lparr>parser_cache := None\<rparr>) e)"
    unfolding fst Parser_ProcessWith_cache parse_cache_ok(1) [OF assms] by (rule refl)
  assume "RegexParser_Process lib re r e = Some (out, r')"
  then have "r' = r \<or> (\<exists>v x. RegexParser_parse lib r v = Some (x, r'))"
    unfolding RegexParser_Process_def by (auto split: option.splits sum.splits bool.splits)
  then show "\<exists>c. r' = r\<lparr>parser_cache := c\<rparr> \<and> cache_ok lib r'"
  proof
    assume "r' = r"
    then show ?thesis using assms by (intro exI [of _ "parser_cache r"]) simp
  qed (use parse_cache_ok(2) [OF assms] in blast)
qed

lemma RegexParser_run_ok:
  "cache_ok lib r \<Longrightarrow> RegexParser_run lib re r es = RegexParser_run lib re (r\<lparr>parser_cache := None\<rparr>) es"
proof (induction es arbitrary: r)
  case (Cons e es)
  let ?r0 = "r\<lparr>parser_cache := None\<rparr>"
  note ok = RegexParser_Process_ok [OF Cons.prems, of re e]
  have ok0: "cache_ok lib ?r0" by (simp add: cache_ok_def)
  show ?case
  proof (cases "RegexParser_Process lib re r e")
    case None
    with ok(1) show ?thesis by simp
  next
    case (Some p)
    then obtain out r' where p: "RegexParser_Process lib re r e = Some (out, r')" by (cases p) simp
    have "map_option fst (RegexParser_Process lib re ?r0 e) = Some out" unfolding ok(1) [symmetric] p by simp
    then obtain r0' where p0: "RegexParser_Process lib re ?r0 e = Some (out, r0')" by (rule map_option_fst_Some)
    obtain c c0 where c: "r' = r\<lparr>parser_cache := c\<rparr>" "cache_ok lib r'" "r0' = r\<lparr>parser_cache := c0\<rparr>" "cache_ok lib r0'"
      using ok(2) [OF p] RegexParser_Process_ok(2) [OF ok0 p0] by auto
    have r': "r'\<lparr>parser_cache := None\<rparr> = ?r0" "r0'\<lparr>parser_cache := None\<rparr> = ?r0" by (simp_all add: c(1,3))
    have run: "RegexParser_run lib re r' es = RegexParser_run lib re r0' es"
      unfolding Cons.IH [OF c(2)] Cons.IH [OF c(4)] r' by (rule refl)
    show ?thesis unfolding RegexParser_run.simps p p0 option.case prod.case run by (rule refl)
  qed
qed simp

lemma Build_cache_ok:
  assumes "RegexParserConfig_Build lib te compile has_logger c = Some (Inr r)"
  shows "cache_ok lib r"
  using assms by (auto simp: RegexParserConfig_Build_def cache_ok_def ParserOperator.defs RegexParser.defs cache_wf_new
      mem_cache.coherent_def split: option.splits sum.splits if_splits)

text \<open>
  C3: the cache is transparent.  A parser that was built with a cache of any size handles every
  sequence of entries exactly as the same parser without its cache: the same deliveries, the same
  errors, and it returns when the other does.
\<close>

theorem regex_cache_transparent:
  assumes build: "RegexParserConfig_Build lib te compile has_logger c = Some (Inr r0)"
    and r: "r = r0\<lparr>OutputOperators := outs\<rparr>"
  shows "RegexParser_run lib re r es = RegexParser_run lib re (r\<lparr>parser_cache := None\<rparr>) es"
proof (rule RegexParser_run_ok)
  show "cache_ok lib r" using Build_cache_ok [OF build] by (simp add: r cache_ok_def)
qed

theorem regex_cache_transparent_witness:
  "let lib = \<lparr>regexp_Compile = \<lambda>_. Inr (), SubexpNames = \<lambda>_. [[], ''x''], FindStringSubmatch = \<lambda>_ v. Some [v, v]\<rparr>;
       re = \<lparr>toNative = Inr, loadLocation = \<lambda>_. Inr (), utcLocation = (), localLocation = (),
         parseInLocation = \<lambda>_ _ _. (zero_time, None), clock_now = zero_time, show_other = \<lambda>_. []\<rparr>;
       r = \<lparr>OperatorID = ''r'', OperatorType = ''regex_parser'', OutputIDs = [], OutputOperators = [\<lparr>Op_ID = ''o'', Op_CanProcess = True\<rparr>],
         OnError = ''send'', IfExpr = None, PFrom = BodyField [], PTo = AttributeField [],
         POTime = (None :: unit TimeParser option), POSeverity = None, POTrace = None, POScopeName = None,
         parser_regexp = (), parser_cache = Some (newMemoryCache 2 0)\<rparr>;
       es = replicate 2 ((New zero_time)\<lparr>Body := VString ''hi''\<rparr>)
   in RegexParser_run lib re r es = RegexParser_run lib re (r\<lparr>parser_cache := None\<rparr>) es"
proof -
  let ?lib = "\<lparr>regexp_Compile = \<lambda>_. Inr (), SubexpNames = \<lambda>_. [[], ''x''], FindStringSubmatch = \<lambda>_ v. Some [v, v]\<rparr>"
  let ?te = "\<lparr>toNative = Inr, loadLocation = \<lambda>_. Inr (), utcLocation = (), localLocation = (),
         parseInLocation = \<lambda>_ _ _. (zero_time, None)\<rparr>"
  let ?r0 = "\<lparr>OperatorID = ''r'', OperatorType = ''regex_parser'', OutputIDs = [], OutputOperators = [],
         OnError = ''send'', IfExpr = None, PFrom = BodyField [], PTo = AttributeField [],
         POTime = (None :: unit TimeParser option), POSeverity = None, POTrace = None, POScopeName = None,
         parser_regexp = (), parser_cache = Some (newMemoryCache 2 0)\<rparr>"
  let ?c = "\<lparr>cfgOperatorID = ''r'', cfgOperatorType = ''regex_parser'', cfgOutputIDs = [], cfgOnError = ''send'',
       cfgIfExpr = [], cfgPFrom = BodyField [], cfgPTo = AttributeField [], cfgTimeParser = None :: unit TimeParser option,
       cfgSeverityParser = None, cfgTraceParser = None, cfgScopeNameParser = None, cfgRegex = ''.'', cfgCacheSize = 2\<rparr>"
  have build: "RegexParserConfig_Build ?lib ?te (\<lambda>_. Inr (\<lambda>_. Inr VNil)) True ?c = Some (Inr ?r0)"
    by (simp add: RegexParserConfig_Build_def ParserConfig_Build_def TransformerConfig_Build_def
        WriterConfig_Build_def BasicConfig_Build_def BasicConfig_ID_def BasicOperator.defs WriterOperator.defs
        TransformerOperator.defs ParserOperator.defs RegexParser.defs)
  show ?thesis unfolding Let_def
    using regex_cache_transparent [OF build refl, where outs = "[\<lparr>Op_ID = ''o'', Op_CanProcess = True\<rparr>]"] by simp
qed

section \<open>The limiter only counts up\<close>

text \<open>What happens to the counter: an eviction, or the end of an interval.\<close>

datatype limiter_event = Evicted | Interval

fun limiter_step :: "(int \<Rightarrow> u64) \<Rightarrow> limiter_event \<Rightarrow> atomicLimiter \<Rightarrow> atomicLimiter" where
  "limiter_step conv Evicted l = increment l"
| "limiter_step conv Interval l = limiter_tick conv l"

definition limiter_run :: "(int \<Rightarrow> u64) \<Rightarrow> limiter_event list \<Rightarrow> atomicLimiter \<Rightarrow> atomicLimiter" where
  "limiter_run conv evs l = foldl (\<lambda>l ev. limiter_step conv ev l) l evs"

lemma max_count_run [simp]: "max_count (limiter_run conv evs l) = max_count l"
proof (induction evs rule: rev_induct)
  case (snoc ev evs)
  then show ?case by (cases ev) (simp_all add: limiter_run_def increment_def limiter_tick_def)
qed (simp add: limiter_run_def)

lemma uint_tick:
  assumes "5 \<le> uint m" "uint m \<le> 2 ^ 16"
  shows "uint (not (uint64_amd64 (tick_amount m))) = (uint m + 5) div 10 - 1"
    "0 \<le> (uint m + 5) div 10 - 1" "(uint m + 5) div 10 - 1 < 2 ^ 13"
proof -
  let ?n = "(uint m + 5) div 10"
  have n: "1 \<le> ?n" "?n < 2 ^ 13" using assms by auto
  have eq: "not (uint64_amd64 (tick_amount m)) = (word_of_int (?n - 1) :: u64)"
    by (simp add: uint64_amd64_def tick_amount_def not_eq_complement)
  have "take_bit 64 (?n - 1) = ?n - 1" using n by (intro take_bit_int_eq_self) simp_all
  then show "uint (not (uint64_amd64 (tick_amount m))) = ?n - 1" unfolding eq uint_word_of_int_eq by simp
  show "0 \<le> ?n - 1" "?n - 1 < 2 ^ 13" using n by simp_all
qed

lemma limiter_run_bounds:
  assumes m: "5 \<le> uint (max_count l)" "uint (max_count l) \<le> 2 ^ 16" and full: "count l = max_count l"
  shows "length evs \<le> 2 ^ 50 \<Longrightarrow> uint (max_count l) \<le> uint (count (limiter_run uint64_amd64 evs l))
     \<and> uint (count (limiter_run uint64_amd64 evs l)) \<le> uint (max_count l) + int (length evs) * 2 ^ 13"
proof (induction evs rule: rev_induct)
  case (snoc ev evs)
  let ?l = "limiter_run uint64_amd64 evs l"
  let ?d = "(uint (max_count l) + 5) div 10 - 1"
  have IH: "uint (max_count l) \<le> uint (count ?l)" "uint (count ?l) \<le> uint (max_count l) + int (length evs) * 2 ^ 13"
    using snoc by simp_all
  have len: "int (length evs) + 1 \<le> 2 ^ 50" using snoc.prems by simp
  have add: "uint (count ?l + w) = uint (count ?l) + uint w" if "uint w < 2 ^ 13" for w
  proof -
    have "uint (count ?l) + uint w < 2 ^ 64" using IH(2) m(2) len that by simp
    then show ?thesis by (simp add: uint_plus_if_size word_size)
  qed
  have step: "limiter_run uint64_amd64 (evs @ [ev]) l = limiter_step uint64_amd64 ev ?l"
    by (simp add: limiter_run_def)
  show ?case
  proof (cases ev)
    case Evicted
    then show ?thesis unfolding step using IH add [of 1] by (simp add: increment_def)
  next
    case Interval
    define w where "w = not (uint64_amd64 (tick_amount (max_count l)))"
    define d where "d = uint w"
    have d: "0 \<le> d" "d < 2 ^ 13" using uint_tick [OF m] by (simp_all add: d_def w_def)
    have "uint (count ?l + w) = uint (count ?l) + d" using add [of w] d(2) by (simp add: d_def)
    with d IH show ?thesis unfolding step by (simp add: Interval limiter_tick_def flip: w_def)
  qed
qed (simp add: limiter_run_def full)

text \<open>
  C40: the limiter counts in the wrong direction.  On amd64 a cache of at least four entries that
  has become throttled stays throttled through any sequence of evictions and intervals shorter
  than \<open>2 ^ 50\<close>, so that \<open>add\<close> never inserts again, where the code means to take ten percent off the
  counter at the end of each interval.
\<close>

theorem limiter_never_recovers:
  assumes "4 \<le> unat sz" and l: "l = (newStartedAtomicLimiter (ucast (sz :: 16 word) + 1) interval)\<lparr>count := ucast sz + 1\<rparr>"
    and evs: "length evs \<le> 2 ^ 50" and m: "cache_limiter m = limiter_run uint64_amd64 evs l"
  shows "throttled (cache_limiter m) \<and> cache_add m k v = Some (m, False)"
proof -
  have "uint (ucast sz + 1 :: u64) = uint sz + 1"
  proof -
    have "uint sz < 2 ^ 16" using uint_lt2p [of sz] by simp
    then show ?thesis by (simp add: uint_plus_if_size word_size uint_up_ucast is_up)
  qed
  moreover have "4 \<le> uint sz" using assms(1) unfolding unat_eq_nat_uint by linarith
  moreover have "uint sz < 2 ^ 16" using uint_lt2p [of sz] by simp
  ultimately have lim: "5 \<le> uint (max_count l)" "uint (max_count l) \<le> 2 ^ 16" "count l = max_count l"
    by (simp_all add: l newStartedAtomicLimiter_def)
  have "throttled (cache_limiter m)"
    using limiter_run_bounds [OF lim evs] unfolding m throttled_def word_le_def max_count_run by blast
  then show ?thesis by (simp add: cache_add_def)
qed

theorem limiter_never_recovers_witness:
  "let l = (newStartedAtomicLimiter (ucast (100 :: 16 word) + 1) 0)\<lparr>count := ucast (100 :: 16 word) + 1\<rparr>;
       m = (newMemoryCache 100 0)\<lparr>cache_limiter := limiter_run uint64_amd64 [Interval, Interval] l\<rparr>
   in count (cache_limiter m) = 119 \<and> cache_add m ''k'' VNil = Some (m, False)"
  unfolding Let_def
  by (intro conjI limiter_never_recovers [of 100 _ 0 "[Interval, Interval]", THEN conjunct2, OF _ refl])
    (simp_all add: limiter_run_def limiter_tick_def newStartedAtomicLimiter_def uint64_amd64_def tick_amount_def
      newMemoryCache_def)

end
