(* ===== verification/Pipelines.thy ===== *)
theory Pipelines
  imports Router "HOL-Library.Word"
begin

text \<open>
  Pipelines: \<open>pipeline/config.go\<close>, \<open>node.go\<close> and \<open>directed.go\<close>, and the interface \<open>operator/operator.go\<close>.

  The operators of a pipeline are the writers (inputs, parsers and transformers), the routers, the
  outputs and the syslog input; what they do with entries is modelled in their own theories.  The graph and its sorting are
  those of \<open>gonum\<close> and a parameter, and so is the order in which Go ranges over a map.
\<close>

unbundle bit_operations_syntax

section \<open>Operators\<close>

text \<open>
  The syslog input has the IDs of its outputs and hands the outputs to its parser, another writer
  (\<open>syslog.go\<close>, \<open>SetOutputs\<close>); as an operator of the pipeline its own outputs stay empty.
\<close>

datatype pipe_operator =
    WriterOp bool WriterOperator
  | RouterOp RouterOperator
  | OutputOp BasicOperator
  | SyslogOp BasicOperator "string list" WriterOperator

fun op_ID :: "pipe_operator \<Rightarrow> string" where
  "op_ID (WriterOp process w) = BasicOperator_ID w"
| "op_ID (RouterOp p) = BasicOperator_ID p"
| "op_ID (OutputOp b) = BasicOperator_ID b"
| "op_ID (SyslogOp b ids parser) = BasicOperator_ID b"

fun op_CanProcess :: "pipe_operator \<Rightarrow> bool" where
  "op_CanProcess (WriterOp process w) = process"
| "op_CanProcess (RouterOp p) = True"
| "op_CanProcess (OutputOp b) = True"
| "op_CanProcess (SyslogOp b ids parser) = False"

fun op_CanOutput :: "pipe_operator \<Rightarrow> bool" where
  "op_CanOutput (WriterOp process w) = True"
| "op_CanOutput (RouterOp p) = True"
| "op_CanOutput (OutputOp b) = False"
| "op_CanOutput (SyslogOp b ids parser) = True"

fun op_Outputs :: "pipe_operator \<Rightarrow> opref list" where
  "op_Outputs (WriterOp process w) = OutputOperators w"
| "op_Outputs (RouterOp p) = Router_Outputs p"
| "op_Outputs (OutputOp b) = Output_Outputs b"
| "op_Outputs (SyslogOp b ids parser) = []"

fun op_GetOutputIDs :: "pipe_operator \<Rightarrow> string list" where
  "op_GetOutputIDs (WriterOp process w) = OutputIDs w"
| "op_GetOutputIDs (RouterOp p) = Router_GetOutputIDs p"
| "op_GetOutputIDs (OutputOp b) = []"
| "op_GetOutputIDs (SyslogOp b ids parser) = ids"

fun op_SetOutputIDs :: "string list \<Rightarrow> pipe_operator \<Rightarrow> pipe_operator" where
  "op_SetOutputIDs ids (WriterOp process w) = WriterOp process (SetOutputIDs ids w)"
| "op_SetOutputIDs ids (RouterOp p) = RouterOp p"
| "op_SetOutputIDs ids (OutputOp b) = OutputOp (Output_SetOutputIDs ids b)"
| "op_SetOutputIDs ids (SyslogOp b ids' parser) = SyslogOp b ids parser"

fun op_SetOutputs :: "opref list \<Rightarrow> pipe_operator \<Rightarrow> pipe_operator \<times> gerror option" where
  "op_SetOutputs operators (WriterOp process w) = apfst (WriterOp process) (SetOutputs operators w)"
| "op_SetOutputs operators (RouterOp p) = apfst RouterOp (Router_SetOutputs operators p)"
| "op_SetOutputs operators (OutputOp b) = apfst OutputOp (Output_SetOutputs operators b)"
| "op_SetOutputs operators (SyslogOp b ids parser) =
     apfst (SyslogOp b ids) (SetOutputs operators (SetOutputIDs ids parser))"

text \<open>The operators that what an operator makes is sent to.\<close>

fun op_targets :: "pipe_operator \<Rightarrow> opref list" where
  "op_targets (SyslogOp b ids parser) = OutputOperators parser"
| "op_targets op = op_Outputs op"

definition op_ref :: "pipe_operator \<Rightarrow> opref" where
  "op_ref op = \<lparr>Op_ID = op_ID op, Op_CanProcess = op_CanProcess op\<rparr>"

section \<open>Nodes\<close>

text \<open>FNV-1a over 64 bits.\<close>

definition createNodeID :: "string \<Rightarrow> 64 word" where
  "createNodeID operatorID =
     foldl (\<lambda>h c. (h XOR of_char c) * 1099511628211) 14695981039346656037 operatorID"

record OperatorNode =
  node_operator :: pipe_operator
  outputIDs :: "(string \<times> 64 word) list"
  node_id :: "64 word"

definition createOperatorNode :: "pipe_operator \<Rightarrow> OperatorNode" where
  "createOperatorNode op =
     \<lparr>node_operator = op,
      outputIDs = (if op_CanOutput op
        then map (\<lambda>name. (name, createNodeID name)) (remdups (map Op_ID (op_Outputs op))) else []),
      node_id = createNodeID (op_ID op)\<rparr>"

section \<open>The graph\<close>

text \<open>
  What the code uses of \<open>simple.DirectedGraph\<close> and \<open>topo.Sort\<close>.  Setting an edge may panic.  Sorting
  gives the sorted nodes, or the cycles in its way; a pipeline is only made of a graph that sorts.
\<close>

record 'g digraph =
  NewDirectedGraph :: 'g
  graph_Node :: "'g \<Rightarrow> 64 word \<Rightarrow> OperatorNode option"
  AddNode :: "'g \<Rightarrow> OperatorNode \<Rightarrow> 'g"
  graph_Nodes :: "'g \<Rightarrow> OperatorNode list"
  HasEdgeFromTo :: "'g \<Rightarrow> 64 word \<Rightarrow> 64 word \<Rightarrow> bool"
  SetEdge :: "'g \<Rightarrow> OperatorNode \<Rightarrow> OperatorNode \<Rightarrow> 'g option"
  topo_Sort :: "'g \<Rightarrow> OperatorNode list list + OperatorNode list"
  range_map :: "(string \<times> 64 word) list \<Rightarrow> (string \<times> 64 word) list"

fun addNodes :: "('g, 'b) digraph_scheme \<Rightarrow> 'g \<Rightarrow> pipe_operator list \<Rightarrow> gerror + 'g" where
  "addNodes G graph [] = Inr graph"
| "addNodes G graph (operator # operators) =
     (let operatorNode = createOperatorNode operator in
      if graph_Node G graph (node_id operatorNode) \<noteq> None
      then Inl (Agent (NewError (''operator with id '' @ quoted (op_ID operator) @ '' already exists in pipeline'')
        ''ensure that each operator has a unique `type` or `id`'' []))
      else addNodes G (AddNode G graph operatorNode) operators)"

definition connect_error :: "string \<Rightarrow> string \<Rightarrow> OperatorNode \<Rightarrow> string \<Rightarrow> gerror" where
  "connect_error what advice inputNode outputOperatorID = Agent (NewError
     (''operators cannot be connected, because '' @ what) advice
     [''input_operator'', op_ID (node_operator inputNode), ''output_operator'', outputOperatorID])"

text \<open>The edges of one node, over its outputs in the order of the map; \<open>None\<close> is a panic.\<close>

fun connectNode :: "('g, 'b) digraph_scheme \<Rightarrow> 'g \<Rightarrow> OperatorNode \<Rightarrow> (string \<times> 64 word) list \<Rightarrow> (gerror + 'g) option" where
  "connectNode G graph inputNode [] = Some (Inr graph)"
| "connectNode G graph inputNode ((outputOperatorID, outputNodeID) # rest) =
     (case graph_Node G graph outputNodeID of
        None \<Rightarrow> Some (Inl (connect_error ''the output does not exist in the pipeline''
          ''ensure that the output operator is defined'' inputNode outputOperatorID))
      | Some outputNode \<Rightarrow>
          if \<not> op_CanProcess (node_operator outputNode)
          then Some (Inl (connect_error ''the output operator can not process logs''
            ''ensure that the output operator can process logs (like a parser or destination)'' inputNode outputOperatorID))
          else if HasEdgeFromTo G graph (node_id inputNode) outputNodeID
          then Some (Inl (connect_error ''a connection already exists''
            ''ensure that only a single connection exists between the two operators'' inputNode outputOperatorID))
          else (case SetEdge G graph inputNode outputNode of
                  None \<Rightarrow> None
                | Some graph \<Rightarrow> connectNode G graph inputNode rest))"

fun connect_each :: "('g, 'b) digraph_scheme \<Rightarrow> 'g \<Rightarrow> OperatorNode list \<Rightarrow> (gerror + 'g) option" where
  "connect_each G graph [] = Some (Inr graph)"
| "connect_each G graph (node # nodes) =
     (case connectNode G graph node (range_map G (outputIDs node)) of
        None \<Rightarrow> None
      | Some (Inl err) \<Rightarrow> Some (Inl err)
      | Some (Inr graph) \<Rightarrow> connect_each G graph nodes)"

text \<open>Each cycle is printed with its first operator again at the end; an empty one would panic.\<close>

fun cycle_text :: "OperatorNode list \<Rightarrow> string option" where
  "cycle_text [] = None"
| "cycle_text (n # ns) = Some (''('' @ concat (map (\<lambda>m. op_ID (node_operator m) @ '' -> '') (n # ns))
     @ op_ID (node_operator n) @ '')'')"

fun cycles_text :: "OperatorNode list list \<Rightarrow> string option" where
  "cycles_text [] = Some []"
| "cycles_text [c] = cycle_text c"
| "cycles_text (c # cs) =
     (case cycle_text c of
        None \<Rightarrow> None
      | Some t \<Rightarrow> map_option (\<lambda>ts. t @ '','' @ ts) (cycles_text cs))"

definition connectNodes :: "('g, 'b) digraph_scheme \<Rightarrow> 'g \<Rightarrow> (gerror + 'g) option" where
  "connectNodes G graph =
     (case connect_each G graph (graph_Nodes G graph) of
        None \<Rightarrow> None
      | Some (Inl err) \<Rightarrow> Some (Inl err)
      | Some (Inr graph) \<Rightarrow>
          (case topo_Sort G graph of
             Inr _ \<Rightarrow> Some (Inr graph)
           | Inl cycles \<Rightarrow> map_option (\<lambda>t. Inl (Agent (NewError ''pipeline has a circular dependency''
               ''ensure that all operators are connected in a straight, acyclic line'' [''cycles'', t])))
               (cycles_text cycles)))"

text \<open>Outputs are set in place, one operator after the other.\<close>

fun setOperatorOutputs :: "opref list \<Rightarrow> pipe_operator list \<Rightarrow> gerror + pipe_operator list" where
  "setOperatorOutputs all [] = Inr []"
| "setOperatorOutputs all (operator # operators) =
     (if \<not> op_CanOutput operator then map_sum id (Cons operator) (setOperatorOutputs all operators)
      else case op_SetOutputs all operator of
        (operator, Some err) \<Rightarrow> Inl (Agent (WithDetails err [''operator_id'', op_ID operator]))
      | (operator, None) \<Rightarrow> map_sum id (Cons operator) (setOperatorOutputs all operators))"

record 'g DirectedPipeline =
  Graph :: 'g
  startOnce :: bool
  stopOnce :: bool

definition NewDirectedPipeline :: "('g, 'b) digraph_scheme \<Rightarrow> pipe_operator list \<Rightarrow> (gerror + 'g DirectedPipeline) option" where
  "NewDirectedPipeline G operators =
     (case setOperatorOutputs (map op_ref operators) operators of
        Inl err \<Rightarrow> Some (Inl err)
      | Inr operators \<Rightarrow>
     (case addNodes G (NewDirectedGraph G) operators of
        Inl err \<Rightarrow> Some (Inl err)
      | Inr graph \<Rightarrow>
          map_option (map_sum id (\<lambda>graph. \<lparr>Graph = graph, startOnce = False, stopOnce = False\<rparr>)) (connectNodes G graph)))"

section \<open>Starting and stopping\<close>

text \<open>
  \<open>starts\<close> and \<open>stops\<close> say what an operator's \<open>Start\<close>, with its scope of the persister, and \<open>Stop\<close> return.
  The result is the list of the operators that were called, in order, and the error.  A pipeline
  starts from the end of the sorted list, and ends at the first error; it stops from the beginning,
  and collects the errors.
\<close>

definition sorted_operators :: "('g, 'b) digraph_scheme \<Rightarrow> 'g \<Rightarrow> pipe_operator list" where
  "sorted_operators G graph = (case topo_Sort G graph of Inl _ \<Rightarrow> [] | Inr nodes \<Rightarrow> map node_operator nodes)"

fun start_each :: "(string \<Rightarrow> pipe_operator \<Rightarrow> gerror option) \<Rightarrow> pipe_operator list \<Rightarrow> pipe_operator list \<times> gerror option" where
  "start_each starts [] = ([], None)"
| "start_each starts (op # ops) =
     (case starts (op_ID op) op of
        Some err \<Rightarrow> ([op], Some err)
      | None \<Rightarrow> apfst (Cons op) (start_each starts ops))"

definition alreadyStarted :: gerror where "alreadyStarted = Agent (NewError ''pipeline already started'' [] [])"
definition alreadyStopped :: gerror where "alreadyStopped = Agent (NewError ''pipeline already stopped'' [] [])"

definition Pipeline_Start :: "('g, 'b) digraph_scheme \<Rightarrow> (string \<Rightarrow> pipe_operator \<Rightarrow> gerror option)
    \<Rightarrow> 'g DirectedPipeline \<Rightarrow> 'g DirectedPipeline \<times> pipe_operator list \<times> gerror option" where
  "Pipeline_Start G starts p =
     (if startOnce p then (p, [], Some alreadyStarted)
      else (p\<lparr>startOnce := True\<rparr>, start_each starts (rev (sorted_operators G (Graph p)))))"

definition stop_errors :: "(pipe_operator \<Rightarrow> gerror option) \<Rightarrow> pipe_operator list \<Rightarrow> gerror list" where
  "stop_errors stops ops = List.map_filter stops ops"

definition Pipeline_Stop :: "('g, 'b) digraph_scheme \<Rightarrow> (pipe_operator \<Rightarrow> gerror option)
    \<Rightarrow> 'g DirectedPipeline \<Rightarrow> 'g DirectedPipeline \<times> pipe_operator list \<times> gerror list" where
  "Pipeline_Stop G stops p =
     (if stopOnce p then (p, [], [alreadyStopped])
      else (p\<lparr>stopOnce := True\<rparr>, sorted_operators G (Graph p), stop_errors stops (sorted_operators G (Graph p))))"

definition Pipeline_Operators :: "('g, 'b) digraph_scheme \<Rightarrow> 'g DirectedPipeline \<Rightarrow> pipe_operator list" where
  "Pipeline_Operators G p = map node_operator (graph_Nodes G (Graph p))"

section \<open>Configuration\<close>

text \<open>A configuration of an operator, and what it builds, given the ID that it has then.\<close>

record op_config = BasicConfig +
  oc_build :: "string \<Rightarrow> gerror + pipe_operator"

text \<open>
  The search for a free number.  When a number is taken the counter of the loop becomes 0 and is then
  incremented, so that the search goes on with the second configuration.
\<close>

definition newID :: "string \<Rightarrow> nat \<Rightarrow> string" where
  "newID t n = t @ itoa (int n)"

definition taken_from :: "string list \<Rightarrow> string \<Rightarrow> nat \<Rightarrow> nat set" where
  "taken_from ids t n = {m. n \<le> m \<and> newID t m \<in> set ids}"

lemma newID_inj: "newID t m = newID t n \<longleftrightarrow> m = n"
  using itoa_inj by (fastforce simp: newID_def)

lemma finite_taken: "finite (taken_from ids t n)"
proof -
  have "taken_from ids t n \<subseteq> newID t -` set ids" by (auto simp: taken_from_def)
  moreover have "inj (newID t)" by (auto simp: inj_def newID_inj)
  ultimately show ?thesis using finite_vimageI [of "set ids" "newID t"] finite_subset by blast
qed

lemma taken_decreases: "newID t n \<in> set ids \<Longrightarrow> card (taken_from ids t (Suc n)) < card (taken_from ids t n)"
proof -
  assume "newID t n \<in> set ids"
  then have "n \<in> taken_from ids t n" by (simp add: taken_from_def)
  moreover have "n \<notin> taken_from ids t (Suc n)" by (simp add: taken_from_def)
  moreover have "taken_from ids t (Suc n) \<subseteq> taken_from ids t n" by (auto simp: taken_from_def)
  ultimately have "taken_from ids t (Suc n) \<subset> taken_from ids t n" by blast
  then show ?thesis by (rule psubset_card_mono [OF finite_taken])
qed

function free_number :: "string list \<Rightarrow> string \<Rightarrow> nat \<Rightarrow> nat \<Rightarrow> nat" where
  "free_number ids t j n =
     (if j < length ids
      then (if newID t n = ids ! j then free_number ids t 1 (Suc n) else free_number ids t (Suc j) n)
      else n)"
  by pat_completeness auto
termination
proof (relation "measures [\<lambda>(ids, t, j, n). card (taken_from ids t n), \<lambda>(ids, t, j, n). length ids - j]")
  fix ids t j n
  assume "j < length ids" "newID t n = ids ! j"
  then show "((ids, t, 1, Suc n), ids, t, j, n)
      \<in> measures [\<lambda>(ids, t, j, n). card (taken_from ids t n), \<lambda>(ids, t, j, n). length ids - j]"
    using taken_decreases [of t n ids] by simp
qed (auto simp: taken_from_def)

declare free_number.simps [simp del]

text \<open>The loop over the configurations; \<open>typeMap\<close> counts from 0 for a type that it does not hold.\<close>

fun dedup_from :: "nat \<Rightarrow> (string \<Rightarrow> nat) \<Rightarrow> 'a BasicConfig_scheme list \<Rightarrow> nat \<Rightarrow> 'a BasicConfig_scheme list" where
  "dedup_from i typeMap ops 0 = ops"
| "dedup_from i typeMap ops (Suc k) =
     (let op = ops ! i; t = cfgOperatorType op in
      if t \<noteq> BasicConfig_ID op then dedup_from (Suc i) typeMap ops k
      else if typeMap t = 0 then dedup_from (Suc i) (typeMap(t := 1)) ops k
      else
        let n = free_number (map BasicConfig_ID ops) t 0 (typeMap t)
        in dedup_from (Suc i) (typeMap(t := Suc n)) (ops[i := BasicConfig_SetID (newID t n) op]) k)"

definition dedeplucateIDs :: "'a BasicConfig_scheme list \<Rightarrow> 'a BasicConfig_scheme list" where
  "dedeplucateIDs ops = dedup_from 0 (\<lambda>_. 0) ops (length ops)"

fun build_operators :: "op_config list \<Rightarrow> gerror + pipe_operator list" where
  "build_operators [] = Inr []"
| "build_operators (c # cs) =
     (case oc_build c (BasicConfig_ID c) of
        Inl err \<Rightarrow> Inl err
      | Inr op \<Rightarrow> map_sum id (Cons op) (build_operators cs))"

text \<open>An operator without outputs writes to the next one, the last one to the default output.\<close>

fun link_operators :: "pipe_operator option \<Rightarrow> pipe_operator list \<Rightarrow> pipe_operator list" where
  "link_operators d [] = []"
| "link_operators d [op] =
     (if op_GetOutputIDs op \<noteq> [] then [op]
      else case d of
        Some out \<Rightarrow> if op_CanOutput op then [op_SetOutputIDs [op_ID out] op, out] else [op]
      | None \<Rightarrow> [op])"
| "link_operators d (op # op' # ops) =
     (if op_GetOutputIDs op \<noteq> [] then op else op_SetOutputIDs [op_ID op'] op) # link_operators d (op' # ops)"

definition PipelineConfig_Build :: "('g, 'b) digraph_scheme \<Rightarrow> bool \<Rightarrow> pipe_operator option \<Rightarrow> op_config list option
    \<Rightarrow> (gerror + 'g DirectedPipeline) option" where
  "PipelineConfig_Build G has_logger DefaultOutput Operators =
     (if \<not> has_logger then Some (Inl (Agent (NewError ''logger must be provided'' [] [])))
      else case Operators of
        None \<Rightarrow> Some (Inl (Agent (NewError ''operators must be specified'' [] [])))
      | Some cs \<Rightarrow>
          if cs = [] then Some (Inl (Agent (NewError ''empty pipeline not allowed'' [] [])))
          else case build_operators (dedeplucateIDs cs) of
            Inl err \<Rightarrow> Some (Inl err)
          | Inr ops \<Rightarrow> NewDirectedPipeline G (link_operators DefaultOutput ops))"

end
