(* ===== verification/Pipeline_Laws.thy ===== *)
theory Pipeline_Laws
  imports Pipelines "HOL-Library.Sublist" "HOL-Library.Multiset"
begin

text \<open>
  What pipelines promise: operators start after everything that they write to and stop before it, and
  the IDs that are given to operators without one are unique, but for the first operator of all.
\<close>

section \<open>What the code relies on of the graph\<close>

text \<open>
  The documented behaviour of \<open>simple.DirectedGraph\<close>, for the graphs in \<open>ok\<close>, which are those that its
  methods make: nodes are found by their IDs, an edge from a node to itself panics, and sorting gives all
  nodes with no edge backwards, whenever there is such an order.  Go ranges over a map in some order.
\<close>

definition is_directed_graph :: "('g, 'b) digraph_scheme \<Rightarrow> ('g \<Rightarrow> bool) \<Rightarrow> bool" where
  "is_directed_graph G ok \<longleftrightarrow>
     ok (NewDirectedGraph G) \<and>
     (\<forall>i j. graph_Node G (NewDirectedGraph G) i = None \<and> \<not> HasEdgeFromTo G (NewDirectedGraph G) i j) \<and>
     (\<forall>g n. ok g \<longrightarrow> graph_Node G g (node_id n) = None \<longrightarrow>
        ok (AddNode G g n) \<and> graph_Node G (AddNode G g n) = (graph_Node G g)(node_id n \<mapsto> n) \<and>
        HasEdgeFromTo G (AddNode G g n) = HasEdgeFromTo G g) \<and>
     (\<forall>g m n. ok g \<longrightarrow> graph_Node G g (node_id m) = Some m \<longrightarrow> graph_Node G g (node_id n) = Some n \<longrightarrow>
        (if node_id m = node_id n then SetEdge G g m n = None
         else \<exists>g'. SetEdge G g m n = Some g' \<and> ok g' \<and> graph_Node G g' = graph_Node G g \<and>
           (\<forall>i j. HasEdgeFromTo G g' i j \<longleftrightarrow> HasEdgeFromTo G g i j \<or> i = node_id m \<and> j = node_id n))) \<and>
     (\<forall>g. ok g \<longrightarrow> distinct (graph_Nodes G g) \<and>
        (\<forall>n. n \<in> set (graph_Nodes G g) \<longleftrightarrow> graph_Node G g (node_id n) = Some n)) \<and>
     (\<forall>g i n. ok g \<longrightarrow> graph_Node G g i = Some n \<longrightarrow> node_id n = i) \<and>
     (\<forall>g ns. ok g \<longrightarrow> topo_Sort G g = Inr ns \<longrightarrow>
        mset ns = mset (graph_Nodes G g) \<and> sorted_wrt (\<lambda>m n. \<not> HasEdgeFromTo G g (node_id n) (node_id m)) ns) \<and>
     (\<forall>g rank. ok g \<longrightarrow> (\<forall>i j. HasEdgeFromTo G g i j \<longrightarrow> rank i < (rank j :: nat)) \<longrightarrow>
        (\<exists>ns. topo_Sort G g = Inr ns)) \<and>
     (\<forall>xs. mset (range_map G xs) = mset xs)"

lemma graph_new:
  assumes "is_directed_graph G ok"
  shows "ok (NewDirectedGraph G)" "graph_Node G (NewDirectedGraph G) i = None"
    "HasEdgeFromTo G (NewDirectedGraph G) i j = False"
  using assms unfolding is_directed_graph_def by blast+

lemma graph_add:
  assumes "is_directed_graph G ok" "ok g" "graph_Node G g (node_id n) = None"
  shows "ok (AddNode G g n)" "graph_Node G (AddNode G g n) = (graph_Node G g)(node_id n \<mapsto> n)"
    "HasEdgeFromTo G (AddNode G g n) = HasEdgeFromTo G g"
  using assms unfolding is_directed_graph_def by blast+

lemma graph_set:
  assumes "is_directed_graph G ok" "ok g" "graph_Node G g (node_id m) = Some m" "graph_Node G g (node_id n) = Some n"
  shows "if node_id m = node_id n then SetEdge G g m n = None
    else \<exists>g'. SetEdge G g m n = Some g' \<and> ok g' \<and> graph_Node G g' = graph_Node G g \<and>
      (\<forall>i j. HasEdgeFromTo G g' i j \<longleftrightarrow> HasEdgeFromTo G g i j \<or> i = node_id m \<and> j = node_id n)"
  using assms unfolding is_directed_graph_def by blast

lemma graph_nodes:
  assumes "is_directed_graph G ok" "ok g"
  shows "distinct (graph_Nodes G g)" "n \<in> set (graph_Nodes G g) \<longleftrightarrow> graph_Node G g (node_id n) = Some n"
  using assms unfolding is_directed_graph_def by blast+

lemma graph_key: "is_directed_graph G ok \<Longrightarrow> ok g \<Longrightarrow> graph_Node G g i = Some n \<Longrightarrow> node_id n = i"
  unfolding is_directed_graph_def by blast

lemma graph_sort:
  assumes "is_directed_graph G ok" "ok g" "topo_Sort G g = Inr ns"
  shows "mset ns = mset (graph_Nodes G g)" "sorted_wrt (\<lambda>m n. \<not> HasEdgeFromTo G g (node_id n) (node_id m)) ns"
  using assms unfolding is_directed_graph_def by blast+

lemma graph_sorts:
  assumes "is_directed_graph G ok" "ok g" "\<And>i j. HasEdgeFromTo G g i j \<Longrightarrow> rank i < (rank j :: nat)"
  obtains ns where "topo_Sort G g = Inr ns"
  using assms unfolding is_directed_graph_def by blast

lemma graph_range: "is_directed_graph G ok \<Longrightarrow> set (range_map G xs) = set xs"
  unfolding is_directed_graph_def by (metis mset_eq_setD)

text \<open>A graph of lists behaves like that.\<close>

fun kahn :: "(64 word \<times> 64 word) list \<Rightarrow> nat \<Rightarrow> OperatorNode list \<Rightarrow> OperatorNode list option" where
  "kahn es 0 ns = (if ns = [] then Some [] else None)"
| "kahn es (Suc k) ns =
     (case find (\<lambda>n. \<forall>m \<in> set ns. (node_id m, node_id n) \<notin> set es) ns of
        None \<Rightarrow> if ns = [] then Some [] else None
      | Some n \<Rightarrow> map_option (Cons n) (kahn es k (remove1 n ns)))"

definition list_graph :: "(OperatorNode list \<times> (64 word \<times> 64 word) list) digraph" where
  "list_graph =
     \<lparr>NewDirectedGraph = ([], []),
      graph_Node = (\<lambda>(ns, es) i. find (\<lambda>n. node_id n = i) ns),
      AddNode = (\<lambda>(ns, es) n. (ns @ [n], es)),
      graph_Nodes = fst,
      HasEdgeFromTo = (\<lambda>(ns, es) i j. (i, j) \<in> set es),
      SetEdge = (\<lambda>(ns, es) m n. if node_id m = node_id n then None else Some (ns, (node_id m, node_id n) # es)),
      topo_Sort = (\<lambda>(ns, es). case kahn es (length ns) ns of None \<Rightarrow> Inl [ns] | Some ns' \<Rightarrow> Inr ns'),
      range_map = (\<lambda>xs. xs)\<rparr>"

definition list_graph_ok :: "OperatorNode list \<times> (64 word \<times> 64 word) list \<Rightarrow> bool" where
  "list_graph_ok g \<longleftrightarrow> distinct (map node_id (fst g))"

lemma find_node: "distinct (map node_id ns) \<Longrightarrow> find (\<lambda>n. node_id n = i) ns = Some n \<longleftrightarrow> n \<in> set ns \<and> node_id n = i"
  by (induction ns) (auto simp: image_iff)

lemma find_append: "find P (xs @ ys) = (case find P xs of None \<Rightarrow> find P ys | Some x \<Rightarrow> Some x)"
  by (induction xs) auto

lemma kahn_sorts:
  "kahn es k ns = Some ns' \<Longrightarrow>
   mset ns' = mset ns \<and> sorted_wrt (\<lambda>m n. (node_id n, node_id m) \<notin> set es) ns'"
proof (induction es k ns arbitrary: ns' rule: kahn.induct)
  case (2 es k ns)
  show ?case
  proof (cases "find (\<lambda>n. \<forall>m \<in> set ns. (node_id m, node_id n) \<notin> set es) ns")
    case None
    then show ?thesis using "2.prems" by (auto split: if_splits)
  next
    case (Some n)
    then have n: "n \<in> set ns" "\<forall>m \<in> set ns. (node_id m, node_id n) \<notin> set es"
      by (auto simp: find_Some_iff)
    obtain ns2 where ns2: "kahn es k (remove1 n ns) = Some ns2" "ns' = n # ns2"
      using "2.prems" Some by auto
    have IH: "mset ns2 = mset (remove1 n ns)" "sorted_wrt (\<lambda>m n. (node_id n, node_id m) \<notin> set es) ns2"
      using "2.IH" [OF Some ns2(1)] by auto
    have "set ns2 \<subseteq> set ns" using IH(1) by (metis mset_eq_setD set_remove1_subset)
    then show ?thesis using IH n ns2(2) by (auto simp: insert_DiffM)
  qed
qed (auto split: if_splits)

lemma kahn_complete:
  assumes rank: "\<And>i j. (i, j) \<in> set es \<Longrightarrow> rank i < (rank j :: nat)"
  shows "length ns \<le> k \<Longrightarrow> \<exists>ns'. kahn es k ns = Some ns'"
proof (induction k arbitrary: ns)
  case (Suc k)
  show ?case
  proof (cases "ns = []")
    case False
    then obtain x where "x \<in> set ns" by (cases ns) auto
    then obtain n where n: "n \<in> set ns" "\<forall>m. m \<in> set ns \<longrightarrow> rank (node_id n) \<le> rank (node_id m)"
      using ex_has_least_nat [of "\<lambda>m. m \<in> set ns" x "\<lambda>m. rank (node_id m)"] by auto
    then have "\<forall>m \<in> set ns. (node_id m, node_id n) \<notin> set es" using rank by (metis linorder_not_less)
    then obtain m where m: "find (\<lambda>n. \<forall>m \<in> set ns. (node_id m, node_id n) \<notin> set es) ns = Some m"
      using n(1) by (cases "find (\<lambda>n. \<forall>m \<in> set ns. (node_id m, node_id n) \<notin> set es) ns") (auto simp: find_None_iff)
    then have "m \<in> set ns" by (auto simp: find_Some_iff)
    then have "length (remove1 m ns) \<le> k" using Suc.prems by (simp add: length_remove1)
    then show ?thesis using Suc.IH [of "remove1 m ns"] m by auto
  qed auto
qed auto

lemma list_graph_laws: "is_directed_graph list_graph list_graph_ok"
proof -
  have inj: "m = n" if "distinct (map node_id ns)" "m \<in> set ns" "n \<in> set ns" "node_id m = node_id n" for m n ns
    using that by (metis distinct_map inj_onD)
  show ?thesis
    unfolding is_directed_graph_def
  proof (intro conjI allI impI, goal_cases)
    case 5
    then show ?case by (auto simp: list_graph_def find_append fun_eq_iff split: prod.splits option.splits)
  next
    case 10
    then show ?case by (auto simp: list_graph_def list_graph_ok_def find_Some_iff split: prod.splits)
  next
    case (11 g ns)
    then show ?case by (auto simp: list_graph_def list_graph_ok_def split: prod.splits option.splits dest: kahn_sorts)
  next
    case (12 g ns)
    then show ?case by (auto simp: list_graph_def list_graph_ok_def split: prod.splits option.splits dest: kahn_sorts)
  next
    case (13 g rank)
    obtain ns es where g: "g = (ns, es)" by (cases g)
    then have "\<exists>ns'. kahn es (length ns) ns = Some ns'"
      using kahn_complete [of es rank ns "length ns"] 13(2) by (auto simp: list_graph_def)
    then show ?case by (auto simp: list_graph_def g)
  qed (auto simp: list_graph_def list_graph_ok_def find_None_iff find_node fun_eq_iff find_append distinct_map
      split: prod.splits option.splits if_splits dest: inj)
qed

section \<open>Setting outputs\<close>

lemma found_all_in: "map (findOperator all) ids = map Some outs \<Longrightarrow> set outs \<subseteq> set all"
  by (induction ids arbitrary: outs) (auto dest: findOperator_Some)

lemma findOperators_subset: "Router_findOperators all ids = Inr outs \<Longrightarrow> set outs \<subseteq> set all \<and> map Op_ID outs = ids"
proof (induction ids arbitrary: outs)
  case (Cons i ids)
  then obtain o1 os where "Router_findOperator all i = Inr o1" "Router_findOperators all ids = Inr os" "outs = o1 # os"
    by (cases "Router_findOperators all ids") (auto split: sum.splits)
  then show ?case using Cons.IH [of os] by (auto simp: Router_findOperator_def find_Some_iff split: option.splits)
qed simp

lemma set_routes_subset:
  "set_routes all rs = (rs', None) \<Longrightarrow> set (concat (map rtOutputs rs')) \<subseteq> set all \<and> map rtOutputIDs rs' = map rtOutputIDs rs"
proof (induction rs arbitrary: rs')
  case (Cons r rs)
  then obtain outs rs2 where "Router_findOperators all (rtOutputIDs r) = Inr outs" "set_routes all rs = (rs2, None)"
    "rs' = r\<lparr>rtOutputs := outs\<rparr> # rs2"
    by (cases "set_routes all rs") (auto split: sum.splits)
  then show ?case using Cons.IH [of rs2] findOperators_subset [of all "rtOutputIDs r" outs] by auto
qed simp

text \<open>The outputs of the syslog input's parser, which the graph does not see.\<close>

definition hidden_targets :: "pipe_operator \<Rightarrow> opref set" where
  "hidden_targets op = (case op of SyslogOp b ids parser \<Rightarrow> set (OutputOperators parser) | _ \<Rightarrow> {})"

lemma op_targets_eq: "set (op_targets op) = set (op_Outputs op) \<union> hidden_targets op"
  by (cases op) (auto simp: hidden_targets_def)

lemma op_SetOutputs_subset:
  assumes "op_SetOutputs all op = (op', None)"
  shows "set (op_Outputs op') \<subseteq> set all" "op_ref op' = op_ref op" "op_CanOutput op' = op_CanOutput op"
    "\<forall>out \<in> hidden_targets op'. out \<in> set all \<and> Op_CanProcess out"
proof -
  have "set (op_Outputs op') \<subseteq> set all \<and> op_ref op' = op_ref op \<and> op_CanOutput op' = op_CanOutput op \<and>
    (\<forall>out \<in> hidden_targets op'. out \<in> set all \<and> Op_CanProcess out)"
  proof (cases op)
    case (WriterOp process w)
    then obtain outs where "set_outputs_loop all (OutputIDs w) = Inr outs" "op' = WriterOp process (w\<lparr>OutputOperators := outs\<rparr>)"
      using assms by (auto simp: SetOutputs_def split: sum.splits)
    then show ?thesis using WriterOp
      by (auto simp: set_outputs_loop_Inr op_ref_def BasicOperator_ID_def hidden_targets_def dest: found_all_in)
  next
    case (RouterOp p)
    then obtain rs where "set_routes all (routes p) = (rs, None)" "op' = RouterOp (p\<lparr>routes := rs\<rparr>)"
      using assms by (cases "set_routes all (routes p)") (auto simp: Router_SetOutputs_def)
    then show ?thesis using RouterOp set_routes_subset [of all "routes p" rs]
      by (auto simp: Router_Outputs_def op_ref_def BasicOperator_ID_def hidden_targets_def)
  next
    case (OutputOp b)
    then show ?thesis using assms by (simp add: Output_SetOutputs_def)
  next
    case (SyslogOp b ids parser)
    then obtain outs where "set_outputs_loop all ids = Inr outs"
        "op' = SyslogOp b ids (SetOutputIDs ids parser\<lparr>OutputOperators := outs\<rparr>)"
      using assms by (auto simp: SetOutputs_def SetOutputIDs_def split: sum.splits)
    then show ?thesis using SyslogOp
      by (auto simp: set_outputs_loop_Inr op_ref_def hidden_targets_def list_all_iff dest: found_all_in)
  qed
  then show "set (op_Outputs op') \<subseteq> set all" "op_ref op' = op_ref op" "op_CanOutput op' = op_CanOutput op"
    "\<forall>out \<in> hidden_targets op'. out \<in> set all \<and> Op_CanProcess out" by auto
qed

lemma setOperatorOutputs_subset:
  "setOperatorOutputs all ops = Inr ops' \<Longrightarrow>
   map op_ref ops' = map op_ref ops \<and> (\<forall>op \<in> set ops'. set (op_Outputs op) \<subseteq> set all \<and>
     (\<forall>out \<in> hidden_targets op. out \<in> set all \<and> Op_CanProcess out))"
proof (induction ops arbitrary: ops')
  case (Cons op ops)
  show ?case
  proof (cases "op_CanOutput op")
    case False
    then obtain os where "setOperatorOutputs all ops = Inr os" "ops' = op # os"
      using Cons.prems by (cases "setOperatorOutputs all ops") auto
    moreover have "op_Outputs op = [] \<and> hidden_targets op = {}"
      using False by (cases op) (auto simp: Output_Outputs_def hidden_targets_def)
    ultimately show ?thesis using Cons.IH [of os] by simp
  next
    case True
    then obtain op' where set: "op_SetOutputs all op = (op', None)"
      using Cons.prems by (cases "op_SetOutputs all op"; cases "snd (op_SetOutputs all op)") auto
    then obtain os where "setOperatorOutputs all ops = Inr os" "ops' = op' # os"
      using Cons.prems True by (cases "setOperatorOutputs all ops") auto
    then show ?thesis using Cons.IH [of os] op_SetOutputs_subset [OF set] by simp
  qed
qed simp

section \<open>Making the graph\<close>

lemma addNodes_graph:
  assumes "is_directed_graph G ok" "ok g" "addNodes G g ops = Inr g'"
  shows "ok g' \<and> HasEdgeFromTo G g' = HasEdgeFromTo G g \<and>
    distinct (map (\<lambda>op. createNodeID (op_ID op)) ops) \<and>
    (\<forall>op \<in> set ops. graph_Node G g (createNodeID (op_ID op)) = None) \<and>
    (\<forall>i n. graph_Node G g' i = Some n \<longleftrightarrow>
       graph_Node G g i = Some n \<or> n \<in> createOperatorNode ` set ops \<and> i = node_id n)"
  using assms(2,3)
proof (induction ops arbitrary: g)
  case (Cons op ops)
  let ?n = "createOperatorNode op"
  have id: "node_id ?n = createNodeID (op_ID op)" by (simp add: createOperatorNode_def)
  have none: "graph_Node G g (node_id ?n) = None" and rest: "addNodes G (AddNode G g ?n) ops = Inr g'"
    using Cons.prems by (auto simp: Let_def split: if_splits)
  note add = graph_add [OF assms(1) Cons.prems(1) none]
  have IH: "ok g' \<and> HasEdgeFromTo G g' = HasEdgeFromTo G g \<and>
      distinct (map (\<lambda>op. createNodeID (op_ID op)) ops) \<and>
      (\<forall>op \<in> set ops. ((graph_Node G g)(node_id ?n \<mapsto> ?n)) (createNodeID (op_ID op)) = None) \<and>
      (\<forall>i n. graph_Node G g' i = Some n \<longleftrightarrow>
         ((graph_Node G g)(node_id ?n \<mapsto> ?n)) i = Some n \<or> n \<in> createOperatorNode ` set ops \<and> i = node_id n)"
    using Cons.IH [OF add(1) rest] unfolding add(2,3) .
  have fresh: "createNodeID (op_ID o2) \<noteq> node_id ?n \<and> graph_Node G g (createNodeID (op_ID o2)) = None"
    if "o2 \<in> set ops" for o2
    using IH that by (auto split: if_splits)
  have "graph_Node G g' i = Some n \<longleftrightarrow>
      graph_Node G g i = Some n \<or> n \<in> createOperatorNode ` set (op # ops) \<and> i = node_id n" for i n
    using IH none by (cases "i = node_id ?n") auto
  moreover have "distinct (map (\<lambda>op. createNodeID (op_ID op)) (op # ops))"
    using IH fresh id by (fastforce simp: image_iff)
  ultimately show ?case using IH fresh none id by simp
qed simp

text \<open>All edges of one node, and then of all nodes.\<close>

lemma connectNode_graph:
  assumes "is_directed_graph G ok" "ok g" "graph_Node G g (node_id n) = Some n"
    "connectNode G g n outs = Some (Inr g')"
  shows "ok g' \<and> graph_Node G g' = graph_Node G g \<and> node_id n \<notin> snd ` set outs \<and>
    (\<forall>j \<in> snd ` set outs. \<exists>m. graph_Node G g j = Some m \<and> op_CanProcess (node_operator m)) \<and>
    (\<forall>i j. HasEdgeFromTo G g' i j \<longleftrightarrow> HasEdgeFromTo G g i j \<or> i = node_id n \<and> j \<in> snd ` set outs)"
  using assms(2,3,4)
proof (induction outs arbitrary: g)
  case (Cons out outs)
  obtain name j where out: "out = (name, j)" by (cases out)
  obtain n2 g2 where n2: "graph_Node G g j = Some n2" and g2: "SetEdge G g n n2 = Some g2"
    and rest: "connectNode G g2 n outs = Some (Inr g')" and process: "op_CanProcess (node_operator n2)"
    using Cons.prems(3) by (auto simp: out split: option.splits if_splits)
  have key: "node_id n2 = j" by (rule graph_key [OF assms(1) Cons.prems(1) n2])
  have "graph_Node G g (node_id n2) = Some n2" using n2 key by simp
  from graph_set [OF assms(1) Cons.prems(1,2) this] have
    g2': "node_id n \<noteq> j" "ok g2" "graph_Node G g2 = graph_Node G g"
      "\<forall>i k. HasEdgeFromTo G g2 i k \<longleftrightarrow> HasEdgeFromTo G g i k \<or> i = node_id n \<and> k = j"
    using g2 key by (auto split: if_splits)
  have "graph_Node G g2 (node_id n) = Some n" using Cons.prems(2) g2'(3) by simp
  from Cons.IH [OF g2'(2) this rest] show ?case using g2' out n2 process by auto
qed simp

lemma connect_each_graph:
  assumes "is_directed_graph G ok" "ok g" "\<forall>n \<in> set nodes. graph_Node G g (node_id n) = Some n"
    "connect_each G g nodes = Some (Inr g')"
  shows "ok g' \<and> graph_Node G g' = graph_Node G g \<and> (\<forall>n \<in> set nodes. node_id n \<notin> snd ` set (outputIDs n)) \<and>
    (\<forall>n \<in> set nodes. \<forall>j \<in> snd ` set (outputIDs n). \<exists>m. graph_Node G g j = Some m \<and> op_CanProcess (node_operator m)) \<and>
    (\<forall>i j. HasEdgeFromTo G g' i j \<longleftrightarrow>
       HasEdgeFromTo G g i j \<or> (\<exists>n \<in> set nodes. i = node_id n \<and> j \<in> snd ` set (outputIDs n)))"
  using assms(2,3,4)
proof (induction nodes arbitrary: g)
  case (Cons n nodes)
  obtain g2 where g2: "connectNode G g n (range_map G (outputIDs n)) = Some (Inr g2)"
    and rest: "connect_each G g2 nodes = Some (Inr g')"
    using Cons.prems(3) by (auto split: option.splits sum.splits)
  have "graph_Node G g (node_id n) = Some n" using Cons.prems(2) by simp
  from connectNode_graph [OF assms(1) Cons.prems(1) this g2]
  have n: "ok g2" "graph_Node G g2 = graph_Node G g" "node_id n \<notin> snd ` set (outputIDs n)"
    "\<forall>j \<in> snd ` set (outputIDs n). \<exists>m. graph_Node G g j = Some m \<and> op_CanProcess (node_operator m)"
    "\<forall>i j. HasEdgeFromTo G g2 i j \<longleftrightarrow> HasEdgeFromTo G g i j \<or> i = node_id n \<and> j \<in> snd ` set (outputIDs n)"
    by (simp_all add: graph_range [OF assms(1)])
  have "\<forall>n \<in> set nodes. graph_Node G g2 (node_id n) = Some n" using Cons.prems(2) n(2) by simp
  from Cons.IH [OF n(1) this rest] show ?case using n by auto
qed simp

text \<open>The edges of a pipeline are the outputs of its operators.\<close>

lemma outputIDs_create:
  "snd ` set (outputIDs (createOperatorNode op)) = createNodeID ` Op_ID ` set (op_Outputs op)"
proof -
  have "\<not> op_CanOutput op \<Longrightarrow> op_Outputs op = []" by (cases op) (auto simp: Output_Outputs_def)
  moreover have "snd ` set (map (\<lambda>name. (name, createNodeID name)) (remdups xs)) = createNodeID ` set xs" for xs
    by (auto simp: image_iff)
  ultimately show ?thesis by (cases "op_CanOutput op", simp_all add: createOperatorNode_def del: set_map set_remdups) simp
qed

definition pipeline_graph :: "('g, 'b) digraph_scheme \<Rightarrow> pipe_operator list \<Rightarrow> 'g \<Rightarrow> bool" where
  "pipeline_graph G ops g \<longleftrightarrow>
     distinct (map (\<lambda>op. createNodeID (op_ID op)) ops) \<and>
     mset (graph_Nodes G g) = mset (map createOperatorNode ops) \<and>
     (\<forall>op \<in> set ops. set (op_Outputs op) \<subseteq> op_ref ` set ops \<and> op_ID op \<notin> Op_ID ` set (op_Outputs op)) \<and>
     (\<forall>op \<in> set ops. list_all Op_CanProcess (op_Outputs op)) \<and>
     (\<forall>i j. HasEdgeFromTo G g i j \<longleftrightarrow>
        (\<exists>op \<in> set ops. i = createNodeID (op_ID op) \<and> j \<in> createNodeID ` Op_ID ` set (op_Outputs op)))"

lemma NewDirectedPipeline_graph:
  assumes G: "is_directed_graph G ok" and new: "NewDirectedPipeline G operators = Some (Inr p)"
  obtains ops nodes where "setOperatorOutputs (map op_ref operators) operators = Inr ops"
    "map op_ref ops = map op_ref operators" "ok (Graph p)" "pipeline_graph G ops (Graph p)"
    "topo_Sort G (Graph p) = Inr nodes" "\<not> startOnce p" "\<not> stopOnce p"
proof -
  obtain ops g nodes where set: "setOperatorOutputs (map op_ref operators) operators = Inr ops"
    and add: "addNodes G (NewDirectedGraph G) ops = Inr g"
    and con: "connect_each G g (graph_Nodes G g) = Some (Inr (Graph p))"
    and sort: "topo_Sort G (Graph p) = Inr nodes" and once: "\<not> startOnce p" "\<not> stopOnce p"
    using new by (auto simp: NewDirectedPipeline_def connectNodes_def split: sum.splits option.splits)
  note o = setOperatorOutputs_subset [OF set]
  from addNodes_graph [OF G graph_new(1) [OF G] add]
  have ok: "ok g" and noedge: "\<not> HasEdgeFromTo G g i j"
    and dist: "distinct (map (\<lambda>op. createNodeID (op_ID op)) ops)"
    and node: "graph_Node G g i = Some n \<longleftrightarrow> n \<in> createOperatorNode ` set ops \<and> i = node_id n" for i j n
    by (simp_all add: graph_new [OF G] G)
  have mem: "n \<in> set (graph_Nodes G g) \<longleftrightarrow> n \<in> createOperatorNode ` set ops" for n
    by (auto simp: graph_nodes [OF G ok] node)
  have "\<forall>n \<in> set (graph_Nodes G g). graph_Node G g (node_id n) = Some n" by (simp add: graph_nodes [OF G ok])
  note con = connect_each_graph [OF G ok this con]
  have nodes: "set (graph_Nodes G g) = createOperatorNode ` set ops" using mem by blast
  have id: "node_id (createOperatorNode op) = createNodeID (op_ID op)" for op by (simp add: createOperatorNode_def)
  from con have ok': "ok (Graph p)" and same: "graph_Node G (Graph p) = graph_Node G g"
    and self: "\<forall>op \<in> set ops. createNodeID (op_ID op) \<notin> createNodeID ` Op_ID ` set (op_Outputs op)"
    and edges: "\<forall>i j. HasEdgeFromTo G (Graph p) i j \<longleftrightarrow>
        (\<exists>op \<in> set ops. i = createNodeID (op_ID op) \<and> j \<in> createNodeID ` Op_ID ` set (op_Outputs op))"
    by (simp_all add: noedge nodes outputIDs_create id)
  have process: "\<forall>op \<in> set ops. \<forall>j \<in> createNodeID ` Op_ID ` set (op_Outputs op).
        \<exists>m. graph_Node G g j = Some m \<and> op_CanProcess (node_operator m)"
    unfolding outputIDs_create [symmetric] using con nodes by blast
  have "distinct (map node_id (map createOperatorNode ops))" using dist by (simp add: createOperatorNode_def comp_def)
  then have "distinct (map createOperatorNode ops)" using distinct_map by blast
  moreover have "set (graph_Nodes G (Graph p)) = set (map createOperatorNode ops)"
    using mem by (auto simp: graph_nodes [OF G ok'] graph_nodes [OF G ok] same)
  ultimately have "mset (graph_Nodes G (Graph p)) = mset (map createOperatorNode ops)"
    using graph_nodes(1) [OF G ok'] set_eq_iff_mset_eq_distinct by blast
  moreover have refs: "op_ref ` set ops = set (map op_ref operators)" using o by (metis set_map)
  moreover have "Op_CanProcess out" if op: "op \<in> set ops" and out: "out \<in> set (op_Outputs op)" for op out
  proof -
    have "out \<in> op_ref ` set ops" using o op out refs by blast
    then obtain x where x: "x \<in> set ops" "out = op_ref x" by blast
    obtain m where m: "m \<in> createOperatorNode ` set ops" "node_id m = createNodeID (Op_ID out)" "op_CanProcess (node_operator m)"
      using process op out node by (metis imageI)
    then obtain y where y: "y \<in> set ops" "m = createOperatorNode y" by blast
    then have "createNodeID (op_ID y) = createNodeID (op_ID x)" using m(2) x by (simp add: id op_ref_def)
    then have "y = x" using dist x(1) y(1) by (auto simp: distinct_map dest: inj_onD)
    then show ?thesis using m(3) x y by (simp add: op_ref_def createOperatorNode_def)
  qed
  ultimately have "pipeline_graph G ops (Graph p)"
    using o dist self edges by (auto simp: pipeline_graph_def list_all_iff)
  with set o ok' sort once that show thesis by blast
qed

section \<open>Starting and stopping in order\<close>

lemma start_each_prefix:
  "prefix (fst (start_each starts ops)) ops \<and> (snd (start_each starts ops) = None \<longrightarrow> fst (start_each starts ops) = ops)"
  by (induction ops) (auto split: option.splits)

lemma split_mset_nodes:
  assumes graph: "is_directed_graph G ok" "ok g" "pipeline_graph G ops g" and sort: "topo_Sort G g = Inr nodes"
  shows "mset (map node_operator nodes) = mset ops" "distinct (map op_ID (map node_operator nodes))"
    "nodes = map createOperatorNode (map node_operator nodes)"
proof -
  have nodes: "mset nodes = mset (map createOperatorNode ops)"
    using graph_sort(1) [OF graph(1,2) sort] graph(3) by (simp add: pipeline_graph_def)
  have inv: "node_operator (createOperatorNode op) = op" for op by (simp add: createOperatorNode_def)
  have "mset (map node_operator nodes) = mset (map node_operator (map createOperatorNode ops))"
    using nodes by (metis mset_map)
  then show m: "mset (map node_operator nodes) = mset ops" by (simp add: inv comp_def)
  have "distinct (map createNodeID (map op_ID ops))" using graph(3) by (simp add: pipeline_graph_def comp_def)
  then have "distinct (map op_ID ops)" using distinct_map by blast
  moreover have "mset (map op_ID (map node_operator nodes)) = mset (map op_ID ops)" using m by (metis mset_map)
  ultimately show "distinct (map op_ID (map node_operator nodes))" using mset_eq_imp_distinct_iff by blast
  have "set nodes = createOperatorNode ` set ops" using nodes by (metis mset_eq_setD set_map)
  then have "\<forall>n \<in> set nodes. createOperatorNode (node_operator n) = n" by (auto simp: inv)
  then show "nodes = map createOperatorNode (map node_operator nodes)" by (simp add: map_idI)
qed

text \<open>In the sorted list every operator stands before those that it writes to.\<close>

lemma sorted_outputs_later:
  assumes graph: "is_directed_graph G ok" "ok g" "pipeline_graph G ops g" and sort: "topo_Sort G g = Inr nodes"
    and split: "map node_operator nodes = before @ op # after" and out: "out \<in> set (op_Outputs op)"
  shows "Op_ID out \<in> op_ID ` set after"
proof -
  note m = split_mset_nodes [OF graph sort]
  have nodes: "nodes = map createOperatorNode before @ createOperatorNode op # map createOperatorNode after"
    using m(3) split by simp
  have id: "node_id (createOperatorNode x) = createNodeID (op_ID x)" for x by (simp add: createOperatorNode_def)
  have ops: "set ops = set before \<union> {op} \<union> set after" using m(1) split by (metis mset_eq_setD set_append list.simps(15) Un_insert_left Un_insert_right sup_bot_left Un_assoc)
  then obtain x where x: "x \<in> set ops" "out = op_ref x"
    using graph(3) out unfolding pipeline_graph_def by blast
  have "HasEdgeFromTo G g (createNodeID (op_ID op)) (createNodeID (Op_ID out))"
    using graph(3) out ops unfolding pipeline_graph_def by blast
  then have edge: "HasEdgeFromTo G g (createNodeID (op_ID op)) (createNodeID (op_ID x))" by (simp add: x op_ref_def)
  have "x \<notin> set before"
    using graph_sort(2) [OF graph(1,2) sort] edge by (auto simp: nodes sorted_wrt_append id)
  moreover have "x \<noteq> op"
    using graph(3) out x ops by (auto simp: pipeline_graph_def op_ref_def image_iff)
  ultimately have "x \<in> set after" using x ops by blast
  then show ?thesis by (simp add: x op_ref_def)
qed

text \<open>
  C13: a pipeline that was built starts its operators so that all outputs of an operator were started
  before it, each operator once, and all of them unless one fails.  Stopping goes through all of them in
  the opposite order, and a pipeline starts only once.  The outputs are those that the operator names,
  which is all that it writes to unless it is a syslog input (\<open>syslog_input_unordered\<close>).
\<close>

theorem pipeline_start_order:
  assumes G: "is_directed_graph G ok" and new: "NewDirectedPipeline G operators = Some (Inr p)"
    and start: "Pipeline_Start G starts p = (p', started, err)" and stop: "Pipeline_Stop G stops p' = (p2, stopped, errs)"
  shows "(\<forall>before op after out. started = before @ op # after \<longrightarrow> out \<in> set (op_Outputs op) \<longrightarrow>
            Op_ID out \<in> op_ID ` set before)
    \<and> distinct (map op_ID stopped) \<and> set (map op_ref stopped) = set (map op_ref operators)
    \<and> prefix started (rev stopped) \<and> (err = None \<longrightarrow> started = rev stopped)
    \<and> Pipeline_Start G starts p' = (p', [], Some alreadyStarted)
    \<and> Pipeline_Stop G stops p2 = (p2, [], [alreadyStopped])"
proof -
  obtain ops nodes where o: "setOperatorOutputs (map op_ref operators) operators = Inr ops" "map op_ref ops = map op_ref operators" "ok (Graph p)" "pipeline_graph G ops (Graph p)"
    "topo_Sort G (Graph p) = Inr nodes" "\<not> startOnce p" "\<not> stopOnce p"
    by (rule NewDirectedPipeline_graph [OF G new])
  note m = split_mset_nodes [OF G o(3,4,5)]
  have p': "p' = p\<lparr>startOnce := True\<rparr>" and st: "start_each starts (rev (map node_operator nodes)) = (started, err)"
    using start o(5,6) by (simp_all add: Pipeline_Start_def sorted_operators_def)
  have p2: "p2 = p'\<lparr>stopOnce := True\<rparr>" "stopped = map node_operator nodes"
    using stop o(5,7) by (simp_all add: Pipeline_Stop_def p' sorted_operators_def)
  have pre: "prefix started (rev stopped)" "err = None \<longrightarrow> started = rev stopped"
    using start_each_prefix [of starts "rev (map node_operator nodes)"] by (simp_all add: st p2)
  have "Op_ID out \<in> op_ID ` set before" if started: "started = before @ op # after" and out: "out \<in> set (op_Outputs op)" for before op after out
  proof -
    obtain rest where "rev stopped = before @ op # after @ rest" using pre(1) by (auto simp: prefix_def started)
    then have "stopped = rev (after @ rest) @ op # rev before"
      by (metis rev_append rev_rev_ident rev.simps(2) append.assoc append_Cons append_Nil)
    then show ?thesis using sorted_outputs_later [OF G o(3,4,5) _ out] p2(2) by (metis set_rev)
  qed
  moreover have "set (map op_ref stopped) = set (map op_ref operators)"
    using m(1) o(2) by (metis p2(2) mset_eq_setD set_map)
  ultimately show ?thesis
    using m(2) pre by (simp add: p2 p' Pipeline_Start_def Pipeline_Stop_def)
qed

text \<open>A pipeline of three operators, the first of which also writes to the last.\<close>

definition sample_writer :: "string \<Rightarrow> string list \<Rightarrow> pipe_operator" where
  "sample_writer name outs = WriterOp True
     \<lparr>BasicOperator.OperatorID = name, OperatorType = name, OutputIDs = outs, OutputOperators = []\<rparr>"

definition sample_operators :: "pipe_operator list" where
  "sample_operators = [sample_writer ''a'' [''b'', ''c''], sample_writer ''b'' [''c''],
     OutputOp \<lparr>BasicOperator.OperatorID = ''c'', OperatorType = ''c''\<rparr>]"

lemma sample_ids: "createNodeID ''a'' = 12638187200555641996" "createNodeID ''b'' = 12638190499090526629"
  "createNodeID ''c'' = 12638189399578898418"
  by (simp_all add: createNodeID_def)

lemma sample_new: "\<exists>p. NewDirectedPipeline list_graph sample_operators = Some (Inr p)"
  by (simp add: NewDirectedPipeline_def sample_operators_def sample_writer_def op_ref_def SetOutputs_def
      list_graph_def createOperatorNode_def sample_ids BasicOperator_ID_def connectNodes_def)

theorem pipeline_start_order_witness:
  "\<exists>p p' started p2 stopped errs. NewDirectedPipeline list_graph sample_operators = Some (Inr p)
    \<and> Pipeline_Start list_graph (\<lambda>_ _. None) p = (p', started, None)
    \<and> Pipeline_Stop list_graph (\<lambda>_. None) p' = (p2, stopped, errs)
    \<and> started = rev stopped \<and> op_ID ` set stopped = {''a'', ''b'', ''c''}"
proof -
  obtain p where p: "NewDirectedPipeline list_graph sample_operators = Some (Inr p)" using sample_new by blast
  obtain p' started err where start: "Pipeline_Start list_graph (\<lambda>_ _. None) p = (p', started, err)"
    by (cases "Pipeline_Start list_graph (\<lambda>_ _. None) p")
  obtain p2 stopped errs where stop: "Pipeline_Stop list_graph (\<lambda>_. None) p' = (p2, stopped, errs)"
    by (cases "Pipeline_Stop list_graph (\<lambda>_. None) p'")
  have never: "snd (start_each (\<lambda>_ _. None) ops) = None" for ops by (induction ops) auto
  have "\<not> startOnce p" by (rule NewDirectedPipeline_graph [OF list_graph_laws p])
  then have "err = None" using start never [of "rev (sorted_operators list_graph (Graph p))"]
    by (auto simp: Pipeline_Start_def)
  moreover note order = pipeline_start_order [OF list_graph_laws p start stop]
  ultimately have "started = rev stopped" by blast
  moreover have "Op_ID ` set (map op_ref stopped) = Op_ID ` set (map op_ref sample_operators)" using order by simp
  then have "op_ID ` set stopped = {''a'', ''b'', ''c''}"
    by (simp add: op_ref_def image_image sample_operators_def sample_writer_def BasicOperator_ID_def)
  ultimately show ?thesis using p start stop \<open>err = None\<close> by blast
qed

text \<open>
  A syslog input may start before the operator that its parser writes to: it names no outputs of its
  own, so that the graph has no edge from it and the sorted order is free.
\<close>

lemma syslog_input_unordered:
  "\<exists>p p' started. NewDirectedPipeline list_graph
      [OutputOp \<lparr>BasicOperator.OperatorID = ''b'', OperatorType = ''b''\<rparr>,
       SyslogOp \<lparr>BasicOperator.OperatorID = ''a'', OperatorType = ''a''\<rparr> [''b'']
         \<lparr>BasicOperator.OperatorID = ''p'', OperatorType = ''p'', OutputIDs = [], OutputOperators = []\<rparr>] = Some (Inr p)
    \<and> Pipeline_Start list_graph (\<lambda>_ _. None) p = (p', started, None)
    \<and> map (\<lambda>op. (op_ID op, map Op_ID (op_targets op))) started = [(''a'', [''b'']), (''b'', [])]"
  by (simp add: NewDirectedPipeline_def op_ref_def SetOutputs_def SetOutputIDs_def
      list_graph_def createOperatorNode_def sample_ids BasicOperator_ID_def connectNodes_def
      Pipeline_Start_def sorted_operators_def Output_Outputs_def)

section \<open>Which pipelines are built\<close>

definition connectable :: "('g, 'b) digraph_scheme \<Rightarrow> 'g \<Rightarrow> OperatorNode \<Rightarrow> 64 word \<Rightarrow> bool" where
  "connectable G g n j \<longleftrightarrow> j \<noteq> node_id n \<and> \<not> HasEdgeFromTo G g (node_id n) j \<and>
     (\<exists>m. graph_Node G g j = Some m \<and> op_CanProcess (node_operator m))"

lemma connectable_cong:
  "graph_Node G g2 = graph_Node G g \<Longrightarrow> (HasEdgeFromTo G g2 (node_id n) j \<longleftrightarrow> HasEdgeFromTo G g (node_id n) j) \<Longrightarrow>
   connectable G g2 n j \<longleftrightarrow> connectable G g n j"
  by (simp add: connectable_def)

lemma connectNode_succeeds:
  assumes G: "is_directed_graph G ok" and "ok g" "graph_Node G g (node_id n) = Some n" "distinct (map snd outs)"
    "\<forall>j \<in> snd ` set outs. connectable G g n j"
  shows "\<exists>g'. connectNode G g n outs = Some (Inr g')"
  using assms(2-5)
proof (induction outs arbitrary: g)
  case (Cons out outs)
  obtain name j where out: "out = (name, j)" by (cases out)
  then obtain m where m: "graph_Node G g j = Some m" "op_CanProcess (node_operator m)" "j \<noteq> node_id n"
    "\<not> HasEdgeFromTo G g (node_id n) j"
    using Cons.prems(4) by (auto simp: connectable_def)
  have key: "node_id m = j" by (rule graph_key [OF G Cons.prems(1) m(1)])
  then have "graph_Node G g (node_id m) = Some m" using m(1) by simp
  from graph_set [OF G Cons.prems(1,2) this] m(3) key obtain g2 where
    g2: "SetEdge G g n m = Some g2" "ok g2" "graph_Node G g2 = graph_Node G g"
      "\<forall>i k. HasEdgeFromTo G g2 i k \<longleftrightarrow> HasEdgeFromTo G g i k \<or> i = node_id n \<and> k = j"
    by auto
  have "\<forall>k \<in> snd ` set outs. k \<noteq> j" using Cons.prems(3) out by auto
  then have "\<forall>k \<in> snd ` set outs. connectable G g2 n k"
    using Cons.prems(4) connectable_cong [OF g2(3), of n] g2(4) by simp
  then have "\<exists>g'. connectNode G g2 n outs = Some (Inr g')"
    using Cons.IH [OF g2(2)] Cons.prems(2,3) g2(3) by simp
  then show ?case using m g2(1) by (simp add: out)
qed auto

lemma connect_each_succeeds:
  assumes G: "is_directed_graph G ok" and "ok g" "\<forall>n \<in> set nodes. graph_Node G g (node_id n) = Some n"
    "distinct (map node_id nodes)" "\<forall>n \<in> set nodes. distinct (map snd (outputIDs n))"
    "\<forall>n \<in> set nodes. \<forall>j \<in> snd ` set (outputIDs n). connectable G g n j"
  shows "\<exists>g'. connect_each G g nodes = Some (Inr g')"
  using assms(2-6)
proof (induction nodes arbitrary: g)
  case (Cons n nodes)
  have node: "graph_Node G g (node_id n) = Some n" using Cons.prems(2) by simp
  have perm: "mset (range_map G (outputIDs n)) = mset (outputIDs n)" using G unfolding is_directed_graph_def by blast
  then have "mset (map snd (range_map G (outputIDs n))) = mset (map snd (outputIDs n))" by (metis mset_map)
  then have dist: "distinct (map snd (range_map G (outputIDs n)))"
    using Cons.prems(4) mset_eq_imp_distinct_iff by (metis list.set_intros(1))
  have "\<forall>j \<in> snd ` set (range_map G (outputIDs n)). connectable G g n j"
    using Cons.prems(5) by (simp add: graph_range [OF G])
  from connectNode_succeeds [OF G Cons.prems(1) node dist this] obtain g2 where
    g2: "connectNode G g n (range_map G (outputIDs n)) = Some (Inr g2)" by blast
  from connectNode_graph [OF G Cons.prems(1) node g2]
  have n: "ok g2" "graph_Node G g2 = graph_Node G g"
    "\<forall>i j. HasEdgeFromTo G g2 i j \<longleftrightarrow> HasEdgeFromTo G g i j \<or> i = node_id n \<and> j \<in> snd ` set (outputIDs n)"
    by (simp_all add: graph_range [OF G])
  have other: "node_id n2 \<noteq> node_id n" if "n2 \<in> set nodes" for n2 using Cons.prems(3) that by (auto simp: image_iff)
  have "\<exists>g'. connect_each G g2 nodes = Some (Inr g')"
  proof (rule Cons.IH [OF n(1)])
    show "\<forall>n \<in> set nodes. \<forall>j \<in> snd ` set (outputIDs n). connectable G g2 n j"
      using Cons.prems(5) other connectable_cong [OF n(2)] n(3) by simp
  qed (use Cons.prems(2-4) n(2) in simp_all)
  then show ?case using g2 by simp
qed simp

lemma addNodes_succeeds:
  assumes G: "is_directed_graph G ok" and "ok g" "distinct (map (\<lambda>op. createNodeID (op_ID op)) ops)"
    "\<forall>op \<in> set ops. graph_Node G g (createNodeID (op_ID op)) = None"
  shows "\<exists>g'. addNodes G g ops = Inr g'"
  using assms(2-4)
proof (induction ops arbitrary: g)
  case (Cons op ops)
  let ?n = "createOperatorNode op"
  have id: "node_id ?n = createNodeID (op_ID op)" by (simp add: createOperatorNode_def)
  then have none: "graph_Node G g (node_id ?n) = None" using Cons.prems(3) by simp
  note add = graph_add [OF G Cons.prems(1) none]
  have "\<exists>g'. addNodes G (AddNode G g ?n) ops = Inr g'"
    by (rule Cons.IH [OF add(1)]) (use Cons.prems(2,3) id in \<open>auto simp: add(2) image_iff\<close>)
  then show ?case using none by (simp add: Let_def)
qed simp

text \<open>What it takes: IDs that differ as hashes, outputs that can process, and no cycle.\<close>

definition well_connected :: "pipe_operator list \<Rightarrow> bool" where
  "well_connected ops \<longleftrightarrow>
     distinct (map (\<lambda>op. createNodeID (op_ID op)) ops) \<and>
     (\<forall>op \<in> set ops. list_all Op_CanProcess (op_Outputs op)) \<and>
     (\<exists>rank :: string \<Rightarrow> nat. \<forall>op \<in> set ops. \<forall>out \<in> set (op_Outputs op). rank (op_ID op) < rank (Op_ID out))"

lemma sorted_ranks:
  assumes graph: "is_directed_graph G ok" "ok g" "pipeline_graph G ops g" and sort: "topo_Sort G g = Inr nodes"
  shows "\<exists>rank :: string \<Rightarrow> nat. \<forall>op \<in> set ops. \<forall>out \<in> set (op_Outputs op). rank (op_ID op) < rank (Op_ID out)"
proof (intro exI [of _ "\<lambda>i. length (takeWhile (\<lambda>x. op_ID x \<noteq> i) (map node_operator nodes))"] ballI)
  fix op out
  assume op: "op \<in> set ops" and out: "out \<in> set (op_Outputs op)"
  note m = split_mset_nodes [OF graph sort]
  have "op \<in> set (map node_operator nodes)" using m(1) op by (metis mset_eq_setD)
  then obtain before after where split: "map node_operator nodes = before @ op # after" by (meson split_list)
  have later: "Op_ID out \<in> op_ID ` set after" by (rule sorted_outputs_later [OF graph sort split out])
  have "distinct (map op_ID (before @ op # after))" using m(2) unfolding split .
  then have sep: "op_ID ` set before \<inter> op_ID ` set after = {}" "op_ID op \<notin> op_ID ` set before" "op_ID op \<notin> op_ID ` set after"
    by auto
  have differ: "op_ID op \<noteq> Op_ID out" using later sep(3) by metis
  have "op_ID x \<noteq> op_ID op \<and> op_ID x \<noteq> Op_ID out" if "x \<in> set before" for x
    using that later sep(1,2) by (metis disjoint_iff imageI)
  then show "length (takeWhile (\<lambda>x. op_ID x \<noteq> op_ID op) (map node_operator nodes))
      < length (takeWhile (\<lambda>x. op_ID x \<noteq> Op_ID out) (map node_operator nodes))"
    unfolding split using differ by simp
qed

lemma well_connected_graph:
  assumes G: "is_directed_graph G ok" and set: "setOperatorOutputs (map op_ref operators) operators = Inr ops"
    and well: "well_connected ops"
  shows "\<exists>p. NewDirectedPipeline G operators = Some (Inr p)"
proof -
  note o = setOperatorOutputs_subset [OF set]
  have refs: "op_ref ` set ops = set (map op_ref operators)" using o by (metis set_map)
  obtain rank :: "string \<Rightarrow> nat" where
    dist: "distinct (map (\<lambda>op. createNodeID (op_ID op)) ops)"
    and process: "\<forall>op \<in> set ops. \<forall>out \<in> set (op_Outputs op). Op_CanProcess out"
    and rank: "\<forall>op \<in> set ops. \<forall>out \<in> set (op_Outputs op). rank (op_ID op) < rank (Op_ID out)"
    using well by (auto simp: well_connected_def list_all_iff)
  have inj: "inj_on createNodeID (op_ID ` set ops)" using dist by (auto simp: distinct_map inj_on_def)
  have target: "\<exists>x \<in> set ops. out = op_ref x" if "op \<in> set ops" "out \<in> set (op_Outputs op)" for op out
    using o that refs by blast
  obtain g where add: "addNodes G (NewDirectedGraph G) ops = Inr g"
    using addNodes_succeeds [OF G graph_new(1) [OF G] dist] graph_new(2) [OF G] by blast
  from addNodes_graph [OF G graph_new(1) [OF G] add]
  have ok: "ok g" and noedge: "\<not> HasEdgeFromTo G g i j"
    and node: "graph_Node G g i = Some n \<longleftrightarrow> n \<in> createOperatorNode ` set ops \<and> i = node_id n" for i j n
    by (simp_all add: graph_new [OF G] G)
  have id: "node_id (createOperatorNode op) = createNodeID (op_ID op)" "node_operator (createOperatorNode op) = op" for op
    by (simp_all add: createOperatorNode_def)
  have found: "\<forall>n \<in> set (graph_Nodes G g). graph_Node G g (node_id n) = Some n" by (simp add: graph_nodes [OF G ok])
  have nodes: "set (graph_Nodes G g) = createOperatorNode ` set ops" by (auto simp: graph_nodes [OF G ok] node)
  have d1: "distinct (map node_id (graph_Nodes G g))"
    using graph_nodes(1) [OF G ok] found unfolding distinct_map inj_on_def by (metis option.inject)
  have d2: "\<forall>n \<in> set (graph_Nodes G g). distinct (map snd (outputIDs n))"
  proof
    fix n
    assume "n \<in> set (graph_Nodes G g)"
    then obtain op where op: "op \<in> set ops" "n = createOperatorNode op" using nodes by blast
    have "Op_ID ` set (op_Outputs op) \<subseteq> op_ID ` set ops" using target [OF op(1)] by (fastforce simp: op_ref_def)
    then have "inj_on createNodeID (Op_ID ` set (op_Outputs op))" by (rule inj_on_subset [OF inj])
    then show "distinct (map snd (outputIDs n))" 
      by (cases "op_CanOutput op", simp_all add: op(2) createOperatorNode_def comp_def del: set_map) (simp add: distinct_map)
  qed
  have "\<forall>n \<in> set (graph_Nodes G g). \<forall>j \<in> snd ` set (outputIDs n). connectable G g n j"
  proof (intro ballI)
    fix n j
    assume "n \<in> set (graph_Nodes G g)" and j: "j \<in> snd ` set (outputIDs n)"
    then obtain op where op: "op \<in> set ops" "n = createOperatorNode op" using nodes by blast
    then obtain out where out: "out \<in> set (op_Outputs op)" "j = createNodeID (Op_ID out)" using j by (auto simp: outputIDs_create)
    obtain x where x: "x \<in> set ops" "out = op_ref x" using target [OF op(1) out(1)] by blast
    have "graph_Node G g j = Some (createOperatorNode x)" using x by (simp add: node id out(2) op_ref_def)
    moreover have "Op_CanProcess out" "rank (op_ID op) < rank (Op_ID out)" using process rank op(1) out(1) by blast+
    then have "op_CanProcess x" "op_ID x \<noteq> op_ID op" by (auto simp: x(2) op_ref_def)
    moreover from this have "createNodeID (op_ID x) \<noteq> createNodeID (op_ID op)" using inj op(1) x(1) by (meson imageI inj_onD)
    ultimately show "connectable G g n j" by (simp add: connectable_def op(2) id noedge out(2) x(2) op_ref_def)
  qed
  from connect_each_succeeds [OF G ok found d1 d2 this] obtain g' where
    con: "connect_each G g (graph_Nodes G g) = Some (Inr g')" by blast
  from connect_each_graph [OF G ok found con]
  have ok': "ok g'" and edges: "\<forall>i j. HasEdgeFromTo G g' i j \<longleftrightarrow>
        (\<exists>op \<in> set ops. i = createNodeID (op_ID op) \<and> j \<in> createNodeID ` Op_ID ` set (op_Outputs op))"
    by (simp_all add: noedge nodes outputIDs_create id)
  define rk where "rk i = rank (inv_into (op_ID ` set ops) createNodeID i)" for i
  have rk: "rk (createNodeID (op_ID op)) = rank (op_ID op)" if "op \<in> set ops" for op
    using that by (simp add: rk_def inv_into_f_f [OF inj])
  have "rk i < rk j" if "HasEdgeFromTo G g' i j" for i j
  proof -
    obtain op out where op: "op \<in> set ops" "out \<in> set (op_Outputs op)" "i = createNodeID (op_ID op)" "j = createNodeID (Op_ID out)"
      using edges \<open>HasEdgeFromTo G g' i j\<close> by blast
    moreover obtain x where x: "x \<in> set ops" "out = op_ref x" using target [OF op(1,2)] by blast
    moreover have "rank (op_ID op) < rank (Op_ID out)" using rank op(1,2) by blast
    ultimately show ?thesis by (simp add: rk op_ref_def)
  qed
  then obtain ns where "topo_Sort G g' = Inr ns" using graph_sorts [OF G ok'] by blast
  then show ?thesis using set add con by (simp add: NewDirectedPipeline_def connectNodes_def)
qed

text \<open>
  C14: a pipeline is built exactly when all outputs can be set, the hashes of the IDs differ, every
  output can process, and the operators can be ranked so that each one writes to higher ones only.
\<close>

theorem pipeline_builds_iff:
  assumes G: "is_directed_graph G ok"
  shows "(\<exists>p. NewDirectedPipeline G operators = Some (Inr p)) \<longleftrightarrow>
    (\<exists>ops. setOperatorOutputs (map op_ref operators) operators = Inr ops \<and> well_connected ops)"
proof
  assume "\<exists>p. NewDirectedPipeline G operators = Some (Inr p)"
  then obtain p where new: "NewDirectedPipeline G operators = Some (Inr p)" by blast
  obtain ops nodes where o: "setOperatorOutputs (map op_ref operators) operators = Inr ops" "ok (Graph p)"
    "pipeline_graph G ops (Graph p)" "topo_Sort G (Graph p) = Inr nodes"
    by (rule NewDirectedPipeline_graph [OF G new])
  have "well_connected ops"
    using o(3) sorted_ranks [OF G o(2-4)] unfolding well_connected_def pipeline_graph_def by blast
  with o(1) show "\<exists>ops. setOperatorOutputs (map op_ref operators) operators = Inr ops \<and> well_connected ops" by blast
next
  assume "\<exists>ops. setOperatorOutputs (map op_ref operators) operators = Inr ops \<and> well_connected ops"
  then show "\<exists>p. NewDirectedPipeline G operators = Some (Inr p)" using well_connected_graph [OF G] by blast
qed

theorem pipeline_builds_iff_witness:
  "\<nexists>p. NewDirectedPipeline list_graph [sample_writer ''a'' [''b''], sample_writer ''b'' [''a'']] = Some (Inr p)"
proof -
  have "\<not> well_connected ops"
    if "setOperatorOutputs (map op_ref [sample_writer ''a'' [''b''], sample_writer ''b'' [''a'']])
      [sample_writer ''a'' [''b''], sample_writer ''b'' [''a'']] = Inr ops" for ops
  proof
    assume "well_connected ops"
    then show False
      using that by (auto simp: well_connected_def sample_writer_def SetOutputs_def op_ref_def BasicOperator_ID_def)
  qed
  then show ?thesis using pipeline_builds_iff [OF list_graph_laws] by blast
qed

text \<open>An operator that writes to itself is not reported as a cycle: the graph panics.\<close>

lemma self_output_panics:
  assumes G: "is_directed_graph G ok" and self: "OutputIDs w = [BasicOperator_ID w]"
  shows "NewDirectedPipeline G [WriterOp True w] = None"
proof -
  let ?op = "WriterOp True (w\<lparr>OutputOperators := [op_ref (WriterOp True w)]\<rparr>)"
  let ?n = "createOperatorNode ?op"
  have set: "setOperatorOutputs (map op_ref [WriterOp True w]) [WriterOp True w] = Inr [?op]"
    using self by (simp add: SetOutputs_def op_ref_def)
  have id: "node_id ?n = createNodeID (op_ID ?op)" "outputIDs ?n = [(op_ID ?op, node_id ?n)]" "node_operator ?n = ?op"
    by (simp_all add: createOperatorNode_def op_ref_def BasicOperator_ID_def)
  obtain g where add: "addNodes G (NewDirectedGraph G) [?op] = Inr g"
    using addNodes_succeeds [OF G graph_new(1) [OF G], of "[?op]"] by (auto simp: graph_new [OF G])
  from addNodes_graph [OF G graph_new(1) [OF G] add]
  have ok: "ok g" and node: "graph_Node G g i = Some n \<longleftrightarrow> n = ?n \<and> i = node_id n" and noedge: "\<not> HasEdgeFromTo G g i j" for i j n
    by (simp_all add: graph_new [OF G] G)
  have "set (graph_Nodes G g) = {?n}" by (auto simp: graph_nodes [OF G ok] node)
  then have nodes: "graph_Nodes G g = [?n]"
    using graph_nodes(1) [OF G ok] by (cases "graph_Nodes G g") (auto simp: subset_singleton_iff)
  have "graph_Node G g (node_id ?n) = Some ?n" by (simp add: node)
  moreover from graph_set [OF G ok this this] have "SetEdge G g ?n ?n = None" by simp
  moreover have "range_map G (outputIDs ?n) = outputIDs ?n"
  proof -
    have "mset (range_map G (outputIDs ?n)) = {#(op_ID ?op, node_id ?n)#}"
      using G unfolding is_directed_graph_def by (simp add: id(2))
    then show ?thesis by (simp add: id(2))
  qed
  ultimately have "connect_each G g (graph_Nodes G g) = None" by (simp add: nodes id(2,3) noedge)
  then show ?thesis using set add by (simp add: NewDirectedPipeline_def connectNodes_def)
qed

section \<open>Unique IDs\<close>

lemma newID_longer: "newID t n \<noteq> t"
  by (simp add: newID_def itoa_def)

lemma itoa_nonempty [simp]: "itoa i \<noteq> []"
  by (simp add: itoa_def)

lemma free_number_ge: "n \<le> free_number ids t j n"
  by (induction ids t j n rule: free_number.induct) (subst free_number.simps, auto)

text \<open>The search looks at every ID but that of the first configuration, which it skips after a clash.\<close>

lemma free_number_free:
  "\<forall>k < j. k < length ids \<longrightarrow> newID t n \<noteq> ids ! k \<Longrightarrow> ids \<noteq> [] \<longrightarrow> (\<forall>m. newID t m \<noteq> ids ! 0) \<Longrightarrow>
   newID t (free_number ids t j n) \<notin> set ids"
proof (induction ids t j n rule: free_number.induct)
  case (1 ids t j n)
  show ?case
  proof (cases "j < length ids")
    case True
    show ?thesis
    proof (cases "newID t n = ids ! j")
      case clash: True
      have "\<forall>k < 1. k < length ids \<longrightarrow> newID t (Suc n) \<noteq> ids ! k" using "1.prems"(2) True by auto
      then show ?thesis using "1.IH"(1) [OF True clash] "1.prems"(2) True clash by (simp add: free_number.simps [of ids t j n])
    next
      case False
      have "\<forall>k < Suc j. k < length ids \<longrightarrow> newID t n \<noteq> ids ! k" using "1.prems"(1) False by (simp add: less_Suc_eq)
      then show ?thesis using "1.IH"(2) [OF True False] "1.prems"(2) True False by (simp add: free_number.simps [of ids t j n])
    qed
  next
    case False
    have "newID t n \<noteq> ids ! k" if "k < length ids" for k using "1.prems"(1) False that by simp
    then have "newID t n \<notin> set ids" by (metis in_set_conv_nth)
    then show ?thesis using False by (simp add: free_number.simps [of ids t j n])
  qed
qed

definition generic_id :: "'a BasicConfig_scheme \<Rightarrow> bool" where
  "generic_id c \<longleftrightarrow> cfgOperatorType c = BasicConfig_ID c"

text \<open>
  What holds before the configuration at \<open>i\<close> is looked at: two equal IDs are both generic, and the later
  one is not done yet; the types of the generic IDs that are done are counted.
\<close>

definition dedup_inv :: "nat \<Rightarrow> (string \<Rightarrow> nat) \<Rightarrow> 'a BasicConfig_scheme list \<Rightarrow> bool" where
  "dedup_inv i typeMap ops \<longleftrightarrow>
     (\<forall>j k. j < k \<longrightarrow> k < length ops \<longrightarrow> BasicConfig_ID (ops ! j) = BasicConfig_ID (ops ! k) \<longrightarrow>
        i \<le> k \<and> generic_id (ops ! j) \<and> generic_id (ops ! k)) \<and>
     (\<forall>j < i. j < length ops \<longrightarrow> generic_id (ops ! j) \<longrightarrow> typeMap (cfgOperatorType (ops ! j)) \<noteq> 0)"

lemma SetID_ID: "n \<noteq> [] \<Longrightarrow> BasicConfig_ID (BasicConfig_SetID n c) = n"
  "cfgOperatorType (BasicConfig_SetID n c) = cfgOperatorType c"
  by (simp_all add: BasicConfig_ID_def BasicConfig_SetID_def)

lemma newID_nonempty: "newID t n \<noteq> []"
  by (simp add: newID_def)

lemma dedup_inv_keep:
  assumes "dedup_inv i tm ops" "i < length ops" "\<not> generic_id (ops ! i)"
  shows "dedup_inv (Suc i) tm ops"
  using assms unfolding dedup_inv_def by (metis le_antisym less_Suc_eq not_less_eq_eq)

lemma dedup_inv_first:
  assumes "dedup_inv i tm ops" "i < length ops" "generic_id (ops ! i)" "tm (cfgOperatorType (ops ! i)) = 0"
  shows "dedup_inv (Suc i) (tm(cfgOperatorType (ops ! i) := Suc 0)) ops"
  unfolding dedup_inv_def
proof ((rule conjI; intro allI impI), goal_cases)
  case (1 j k)
  have "k \<noteq> i"
  proof
    assume "k = i"
    then have "generic_id (ops ! j)" "BasicConfig_ID (ops ! j) = BasicConfig_ID (ops ! i)"
      using assms(1) 1 unfolding dedup_inv_def by blast+
    then have "cfgOperatorType (ops ! j) = cfgOperatorType (ops ! i)" using assms(3) by (simp add: generic_id_def)
    moreover have "tm (cfgOperatorType (ops ! j)) \<noteq> 0"
      using assms(1,2) 1(1) \<open>generic_id (ops ! j)\<close> unfolding dedup_inv_def \<open>k = i\<close> by simp
    ultimately show False using assms(4) by simp
  qed
  then show ?case using assms(1) 1 unfolding dedup_inv_def by (metis Suc_leI le_neq_implies_less)
qed (use assms(1) in \<open>auto simp: dedup_inv_def less_Suc_eq\<close>)

lemma dedup_inv_rename:
  assumes inv: "dedup_inv i tm ops" and i: "i < length ops" and new: "newID (cfgOperatorType (ops ! i)) n \<notin> BasicConfig_ID ` set ops"
  shows "dedup_inv (Suc i) (tm(cfgOperatorType (ops ! i) := Suc n))
    (ops[i := BasicConfig_SetID (newID (cfgOperatorType (ops ! i)) n) (ops ! i)])"
proof -
  let ?c = "BasicConfig_SetID (newID (cfgOperatorType (ops ! i)) n) (ops ! i)"
  have c: "BasicConfig_ID ?c = newID (cfgOperatorType (ops ! i)) n" "\<not> generic_id ?c"
    using newID_longer [of "cfgOperatorType (ops ! i)" n]
    by (auto simp: generic_id_def SetID_ID newID_nonempty)
  have differ: "BasicConfig_ID (ops ! k) \<noteq> BasicConfig_ID ?c" if "k < length ops" for k
    using new that nth_mem [OF that] unfolding c(1) by (metis imageI)
  show ?thesis
    unfolding dedup_inv_def length_list_update
  proof ((rule conjI; intro allI impI), goal_cases)
    case (1 j k)
    then have "i \<noteq> j \<and> i \<noteq> k"
      using differ [of j] differ [of k] by (auto simp: nth_list_update)
    moreover from this have "i \<le> k \<and> generic_id (ops ! j) \<and> generic_id (ops ! k)"
      using inv 1 unfolding dedup_inv_def by (metis nth_list_update_neq)
    ultimately show ?case by simp
  next
    case (2 j)
    then show ?case using inv c(2) unfolding dedup_inv_def by (auto simp: nth_list_update less_Suc_eq split: if_splits)
  qed
qed

lemma dedup_from_unique:
  assumes "dedup_inv i tm ops" "i + k = length ops" "i = 0 \<longrightarrow> (\<forall>t. tm t = 0)"
    "ops \<noteq> [] \<longrightarrow> (\<forall>c \<in> set ops. \<forall>m. newID (cfgOperatorType c) m \<noteq> BasicConfig_ID (ops ! 0))"
  shows "distinct (map BasicConfig_ID (dedup_from i tm ops k)) \<and> length (dedup_from i tm ops k) = length ops \<and>
    (\<forall>j < length ops. dedup_from i tm ops k ! j = ops ! j \<or>
       i \<le> j \<and> generic_id (ops ! j) \<and>
       (\<exists>n. dedup_from i tm ops k ! j = BasicConfig_SetID (newID (cfgOperatorType (ops ! j)) n) (ops ! j)))"
  using assms
proof (induction k arbitrary: i tm ops)
  case 0
  then have "BasicConfig_ID (ops ! j) \<noteq> BasicConfig_ID (ops ! k)" if "j < k" "k < length ops" for j k
    using that unfolding dedup_inv_def by fastforce
  then have "distinct (map BasicConfig_ID ops)" by (auto simp: distinct_conv_nth) (metis nat_neq_iff)
  then show ?case by simp
next
  case (Suc k)
  let ?t = "cfgOperatorType (ops ! i)"
  have i: "i < length ops" and k: "Suc i + k = length ops" using Suc.prems(2) by auto
  show ?case
  proof (cases "generic_id (ops ! i) \<and> tm ?t \<noteq> 0")
    case False
    then obtain tm' where inv: "dedup_inv (Suc i) tm' ops" and same: "dedup_from i tm ops (Suc k) = dedup_from (Suc i) tm' ops k"
      using dedup_inv_keep [OF Suc.prems(1) i] dedup_inv_first [OF Suc.prems(1) i]
      by (cases "generic_id (ops ! i)") (auto simp: generic_id_def Let_def)
    show ?thesis using Suc.IH [OF inv k] Suc.prems(4) unfolding same by (metis Suc_leD nat.distinct(1))
  next
    case True
    define n where "n = free_number (map BasicConfig_ID ops) ?t 0 (tm ?t)"
    let ?c = "BasicConfig_SetID (newID ?t n) (ops ! i)"
    let ?ops = "ops[i := ?c]"
    have pos: "i \<noteq> 0" using True Suc.prems(3) by auto
    have "newID ?t n \<notin> set (map BasicConfig_ID ops)"
      unfolding n_def by (rule free_number_free) (use Suc.prems(4) i in auto)
    then have inv: "dedup_inv (Suc i) (tm(?t := Suc n)) ?ops" using dedup_inv_rename [OF Suc.prems(1) i] by simp
    have same: "dedup_from i tm ops (Suc k) = dedup_from (Suc i) (tm(?t := Suc n)) ?ops k"
      using True by (auto simp: generic_id_def Let_def n_def)
    have "cfgOperatorType c \<in> cfgOperatorType ` set ops" if "c \<in> set ?ops" for c
      using that set_update_subset_insert [of ops i ?c] i by (auto simp: SetID_ID)
    then have first: "?ops \<noteq> [] \<longrightarrow> (\<forall>c \<in> set ?ops. \<forall>m. newID (cfgOperatorType c) m \<noteq> BasicConfig_ID (?ops ! 0))"
      using Suc.prems(4) pos i by fastforce
    have IH: "distinct (map BasicConfig_ID (dedup_from i tm ops (Suc k)))" "length (dedup_from i tm ops (Suc k)) = length ops"
      "\<forall>j < length ops. dedup_from i tm ops (Suc k) ! j = ?ops ! j \<or>
         Suc i \<le> j \<and> generic_id (?ops ! j) \<and>
         (\<exists>n. dedup_from i tm ops (Suc k) ! j = BasicConfig_SetID (newID (cfgOperatorType (?ops ! j)) n) (?ops ! j))"
      using Suc.IH [OF inv _ _ first] k unfolding same length_list_update by blast+
    have "dedup_from i tm ops (Suc k) ! j = ops ! j \<or> i \<le> j \<and> generic_id (ops ! j) \<and>
        (\<exists>n. dedup_from i tm ops (Suc k) ! j = BasicConfig_SetID (newID (cfgOperatorType (ops ! j)) n) (ops ! j))"
      if "j < length ops" for j
    proof (cases "j = i")
      case True2: True
      have "dedup_from i tm ops (Suc k) ! i = ?c" using IH(3) i by (metis not_less_eq_eq le_refl nth_list_update_eq)
      then show ?thesis unfolding True2 using True by blast
    next
      case False
      then show ?thesis using IH(3) that by (metis Suc_leD nth_list_update_neq)
    qed
    then show ?thesis using IH by blast
  qed
qed

text \<open>
  C39: after \<open>dedeplucateIDs\<close> no two configurations have the same ID, provided that only configurations
  without an ID of their own shared one, and that the first ID does not look like a generated one.
  Configurations with an ID of their own are left alone, the others keep their type as ID or get a number.
\<close>

theorem dedup_unique:
  assumes "\<And>j k. j < k \<Longrightarrow> k < length ops \<Longrightarrow> BasicConfig_ID (ops ! j) = BasicConfig_ID (ops ! k) \<Longrightarrow>
      generic_id (ops ! j) \<and> generic_id (ops ! k)"
    and "\<And>c m. c \<in> set ops \<Longrightarrow> newID (cfgOperatorType c) m \<noteq> BasicConfig_ID (ops ! 0)"
  shows "distinct (map BasicConfig_ID (dedeplucateIDs ops)) \<and> length (dedeplucateIDs ops) = length ops \<and>
    (\<forall>j < length ops. dedeplucateIDs ops ! j = ops ! j \<or>
       generic_id (ops ! j) \<and>
       (\<exists>n. dedeplucateIDs ops ! j = BasicConfig_SetID (newID (cfgOperatorType (ops ! j)) n) (ops ! j)))"
proof -
  have "dedup_inv 0 (\<lambda>_. 0) ops" using assms(1) by (auto simp: dedup_inv_def)
  from dedup_from_unique [OF this, of "length ops"] assms(2) show ?thesis by (auto simp: dedeplucateIDs_def)
qed

definition sample_configs :: "string list \<Rightarrow> BasicConfig list" where
  "sample_configs ids = map (\<lambda>i. \<lparr>cfgOperatorID = i, cfgOperatorType = ''noop''\<rparr>) ids"

theorem dedup_unique_witness:
  "distinct (map BasicConfig_ID (dedeplucateIDs (sample_configs [[], [], ''noop1'', []])))"
proof -
  let ?ops = "sample_configs [[], [], ''noop1'', []]"
  have nth: "BasicConfig_ID (?ops ! j) = (if j = 2 then ''noop1'' else ''noop'')"
    "generic_id (?ops ! j) \<longleftrightarrow> j \<noteq> 2" if "j < 4" for j
    using that by (auto simp: sample_configs_def BasicConfig_ID_def generic_id_def less_Suc_eq numeral_eq_Suc)
  have "newID (cfgOperatorType c) m \<noteq> BasicConfig_ID (?ops ! 0)" if "c \<in> set ?ops" for c m
    using that newID_longer [of "''noop''" m] by (auto simp: sample_configs_def BasicConfig_ID_def)
  moreover have "length ?ops = 4" by (simp add: sample_configs_def)
  moreover have "generic_id (?ops ! j) \<and> generic_id (?ops ! k)"
    if "j < k" "k < 4" "BasicConfig_ID (?ops ! j) = BasicConfig_ID (?ops ! k)" for j k
    using that nth [of j] nth [of k] by (auto split: if_splits)
  ultimately show ?thesis using dedup_unique [of ?ops] by metis
qed

text \<open>
  The hypothesis on the first ID is needed: with the IDs \<open>noop2\<close>, \<open>noop1\<close> and two generic ones, \<open>noop1\<close>
  is seen to be taken, but then \<open>noop2\<close> is not, since the search goes on at the second configuration.
\<close>

lemma dedup_first_skipped:
  "map BasicConfig_ID (dedeplucateIDs (sample_configs [''noop2'', ''noop1'', [], []])) = [''noop2'', ''noop1'', ''noop'', ''noop2'']"
  by code_simp

end
