(* ===== verification/Pipeline_Flow.thy ===== *)
theory Pipeline_Flow
  imports Pipeline_Laws
begin

text \<open>
  Entries on their way through a pipeline.  Operators call \<open>Process\<close> of those they write to, which
  write in turn before they return (\<open>operator/helper/writer.go\<close>, \<open>operator/transformer/router/router.go\<close>).
  What one operator writes is the matter of its own theory; here the operators are put together, as the
  graph of \<open>Pipelines\<close> connects them.
\<close>

section \<open>One entry at one operator\<close>

text \<open>
  \<open>acts\<close> gives the entries that an operator writes when an entry arrives, and its new state; \<open>None\<close> is
  a panic.  \<open>downstream\<close> is that of routers.  An input, such as the syslog input, answers with an error.
\<close>

definition arrive ::
  "(string \<Rightarrow> entry \<Rightarrow> 's \<Rightarrow> (entry list \<times> 's) option) \<Rightarrow> ('s \<Rightarrow> opref \<Rightarrow> entry \<Rightarrow> entry) \<Rightarrow> pipe_operator \<Rightarrow> entry \<Rightarrow> 's
    \<Rightarrow> ((opref \<times> entry) list \<times> 's) option" where
  "arrive acts downstream op e s =
     (case op of
        WriterOp process w \<Rightarrow> map_option (apfst (\<lambda>es. concat (map (Write w) es))) (acts (op_ID op) e s)
      | RouterOp p \<Rightarrow> map_option (\<lambda>(sent, err). (sent, s)) (Router_Process (downstream s) p e)
      | OutputOp b \<Rightarrow> map_option (apfst (\<lambda>_. [])) (acts (op_ID op) e s)
      | SyslogOp b ids parser \<Rightarrow> Some ([], s))"

section \<open>Delivery\<close>

text \<open>
  The calls that follow when entries are sent, depth first: the operators and entries that \<open>Process\<close> is
  called with, in order.  Nothing in the calls themselves bounds their depth.
\<close>

partial_function (option) deliver ::
  "(string \<Rightarrow> entry \<Rightarrow> 's \<Rightarrow> (entry list \<times> 's) option) \<Rightarrow> ('s \<Rightarrow> opref \<Rightarrow> entry \<Rightarrow> entry) \<Rightarrow> pipe_operator list
    \<Rightarrow> (opref \<times> entry) list \<Rightarrow> 's \<Rightarrow> ((pipe_operator \<times> entry) list \<times> 's) option" where
  "deliver acts downstream ops sent s =
     (case sent of
        [] \<Rightarrow> Some ([], s)
      | (out, e) # rest \<Rightarrow>
     (case find (\<lambda>op. op_ID op = Op_ID out) ops of
        None \<Rightarrow> None
      | Some op \<Rightarrow>
     (case arrive acts downstream op e s of
        None \<Rightarrow> None
      | Some (new, s1) \<Rightarrow>
          Option.bind (deliver acts downstream ops (new @ rest) s1) (\<lambda>(calls, s2). Some ((op, e) # calls, s2)))))"

lemma deliver_Nil [simp]: "deliver acts d ops [] s = Some ([], s)"
  by (simp add: deliver.simps)

lemma deliver_Cons: "find (\<lambda>op. op_ID op = Op_ID out) ops = Some op \<Longrightarrow> arrive acts d op e s = Some (new, s1) \<Longrightarrow>
   deliver acts d ops ((out, e) # rest) s = map_option (apfst (Cons (op, e))) (deliver acts d ops (new @ rest) s1)"
  by (subst deliver.simps) (cases "deliver acts d ops (new @ rest) s1", auto)

lemma deliver_append:
  assumes "deliver acts d ops sent s = Some (xs, s1)"
  shows "deliver acts d ops (sent @ rest) s = map_option (apfst ((@) xs)) (deliver acts d ops rest s1)"
proof -
  let ?P = "\<lambda>acts d ops sent s r. deliver acts d ops (sent @ rest) s =
      map_option (apfst ((@) (fst r))) (deliver acts d ops rest (snd r))"
  have "?P acts d ops sent s (xs, s1)"
  proof (rule deliver.raw_induct [where P = ?P, OF _ assms])
    fix deliver' acts d ops and sent :: "(opref \<times> entry) list" and s r
    assume IH: "\<And>acts d ops sent s r. deliver' acts d ops sent s = Some r \<Longrightarrow> ?P acts d ops sent s r"
      and r: "(case sent of [] \<Rightarrow> Some ([], s) | (out, e) # rest \<Rightarrow>
          case find (\<lambda>op. op_ID op = Op_ID out) ops of None \<Rightarrow> None
          | Some op \<Rightarrow> (case arrive acts d op e s of None \<Rightarrow> None
              | Some (new, s1) \<Rightarrow> Option.bind (deliver' acts d ops (new @ rest) s1) (\<lambda>(calls, s2). Some ((op, e) # calls, s2)))) =
        Some r"
    show "?P acts d ops sent s r"
    proof (cases sent)
      case Nil
      then show ?thesis using r by (cases "deliver acts d ops rest s") auto
    next
      case (Cons p tl)
      obtain out e where p: "p = (out, e)" by (cases p)
      obtain op s1 new ys s2 where op: "find (\<lambda>op. op_ID op = Op_ID out) ops = Some op" "arrive acts d op e s = Some (new, s1)"
        and rec: "deliver' acts d ops (new @ tl) s1 = Some (ys, s2)" and r: "r = ((op, e) # ys, s2)"
        using r by (auto simp: Cons p split: option.splits bind_splits)
      have "deliver acts d ops ((new @ tl) @ rest) s1 = map_option (apfst ((@) ys)) (deliver acts d ops rest s2)"
        using IH [OF rec] by simp
      then show ?thesis
        by (cases "deliver acts d ops rest s2") (auto simp: Cons p r deliver_Cons [OF op])
    qed
  qed
  then show ?thesis by simp
qed

section \<open>Every operator sends to its outputs only\<close>

lemma send_shared_fst: "fst ` set (send_shared d ops e) = set ops"
  by (metis send_shared_targets set_map)

lemma send_shared_target: "(op, x) \<in> set (send_shared d ops e) \<Longrightarrow> op \<in> set ops"
  using send_shared_fst [of d ops e] by force

lemma route_loop_targets: "route_loop d env rs e = Some (sent, err) \<Longrightarrow> fst ` set sent \<subseteq> set (concat (map rtOutputs rs))"
  by (induction rs arbitrary: e) (fastforce split: sum.splits gval.splits if_splits option.splits prod.splits
      dest: send_shared_target)+

lemma Write_fst: "fst ` set (Write w e) = set (OutputOperators w)"
  by (metis Write_def write_loop_targets set_map)

lemma arrive_targets:
  assumes "arrive acts d op e s = Some (sent, s1)"
  shows "fst ` set sent \<subseteq> set (op_Outputs op)"
proof (cases op)
  case (WriterOp process w)
  have "x \<in> set (OutputOperators w)" if "(x, e2) \<in> set (Write w e1)" for x e1 e2
    using that Write_fst [of w e1] by force
  then show ?thesis using assms WriterOp by (auto simp: arrive_def)
next
  case (RouterOp p)
  then show ?thesis using assms route_loop_targets
    by (fastforce simp: arrive_def Router_Outputs_def Router_Process_def)
next
  case (OutputOp b)
  then show ?thesis using assms by (auto simp: arrive_def)
next
  case (SyslogOp b ids parser)
  then show ?thesis using assms by (auto simp: arrive_def)
qed

text \<open>What a transformer sends has this form: one entry, written to all outputs, or none.\<close>

lemma transformer_acts:
  assumes "ProcessWith t e transform = Some (sent, err)"
  shows "\<exists>es. sent = concat (map (Write t) es) \<and> length es = (if err = None \<or> OnError t = SendOnError then 1 else 0)"
proof -
  obtain e' where e': "sent = (if err = None \<or> OnError t = SendOnError then Write t e' else [])"
    using ProcessWith_exactly_once [OF assms] by blast
  show ?thesis
    by (rule exI [of _ "if err = None \<or> OnError t = SendOnError then [e'] else []"]) (auto simp: e')
qed

section \<open>Deliveries end\<close>

text \<open>
  A ranking of the operators under which entries only go upwards, as the sorted graph gives it.  The
  entries for one operator lead to calls of later ones alone, so the calls that follow are finite.
\<close>

definition at_end :: "pipe_operator \<times> entry \<Rightarrow> bool" where
  "at_end call \<longleftrightarrow> \<not> op_CanOutput (fst call)"

definition never_drops :: "(string \<Rightarrow> entry \<Rightarrow> 's \<Rightarrow> (entry list \<times> 's) option) \<Rightarrow> ('s \<Rightarrow> opref \<Rightarrow> entry \<Rightarrow> entry)
    \<Rightarrow> pipe_operator \<Rightarrow> bool" where
  "never_drops acts d op \<longleftrightarrow> op_CanProcess op \<and> op_CanOutput op \<longrightarrow> (\<forall>e s s1. arrive acts d op e s \<noteq> Some ([], s1))"

definition rises :: "(string \<Rightarrow> nat) \<Rightarrow> pipe_operator list \<Rightarrow> bool" where
  "rises rank ops \<longleftrightarrow> distinct (map op_ID ops) \<and>
     (\<forall>op \<in> set ops. \<forall>out \<in> set (op_Outputs op). out \<in> op_ref ` set ops \<and> Op_CanProcess out \<and> rank (op_ID op) < rank (Op_ID out))"

lemma rises_find:
  assumes "rises rank ops" "out \<in> op_ref ` set ops" "Op_CanProcess out"
  obtains op where "find (\<lambda>op. op_ID op = Op_ID out) ops = Some op" "op \<in> set ops" "op_CanProcess op" "op_ID op = Op_ID out"
proof -
  obtain x where x: "x \<in> set ops" "out = op_ref x" using assms(2) by blast
  then obtain op where op: "find (\<lambda>op. op_ID op = Op_ID out) ops = Some op"
    by (cases "find (\<lambda>op. op_ID op = Op_ID out) ops") (auto simp: find_None_iff op_ref_def)
  have in_ops: "op \<in> set ops" "op_ID op = Op_ID out" using op by (auto simp: find_Some_iff)
  have "op = x" using assms(1) x in_ops by (auto simp: rises_def op_ref_def distinct_map dest: inj_onD)
  then show thesis using that op in_ops assms(3) x(2) by (simp add: op_ref_def)
qed

lemma deliver_finite:
  assumes outs: "rises rank ops" and top: "\<forall>op \<in> set ops. rank (op_ID op) < (n :: nat)"
    and runs: "\<forall>op \<in> set ops. \<forall>e s. arrive acts d op e s \<noteq> None"
    and sent: "\<forall>out \<in> fst ` set sent. out \<in> op_ref ` set ops \<and> Op_CanProcess out \<and> n \<le> rank (Op_ID out) + h"
  shows "\<exists>calls s1. deliver acts d ops sent s = Some (calls, s1) \<and> (\<forall>(x, e) \<in> set calls. x \<in> set ops \<and> op_CanProcess x) \<and>
    ((\<forall>op \<in> set ops. never_drops acts d op) \<longrightarrow> length sent \<le> length (filter at_end calls))"
  using sent
proof (induction h arbitrary: sent s)
  case 0
  then have "sent = []" using top by (cases sent) (fastforce simp: op_ref_def)+
  then show ?case by simp
next
  case (Suc h)
  show ?case using Suc.prems
  proof (induction sent arbitrary: s)
    case (Cons p rest)
    obtain out e where p: "p = (out, e)" by (cases p)
    then have "out \<in> op_ref ` set ops" "Op_CanProcess out" "n \<le> rank (Op_ID out) + Suc h" using Cons.prems by auto
    then obtain op where find: "find (\<lambda>op. op_ID op = Op_ID out) ops = Some op"
      and op: "op \<in> set ops" "op_CanProcess op" "n \<le> rank (op_ID op) + Suc h" by (metis rises_find [OF outs])
    obtain new s1 where new: "arrive acts d op e s = Some (new, s1)" using runs op(1) by fastforce
    have "\<forall>x \<in> fst ` set new. x \<in> op_ref ` set ops \<and> Op_CanProcess x \<and> n \<le> rank (Op_ID x) + h"
      using arrive_targets [OF new] outs op by (fastforce simp: rises_def)
    from Suc.IH [OF this, of s1] obtain xs s2 where xs: "deliver acts d ops new s1 = Some (xs, s2)"
      "\<forall>(x, e) \<in> set xs. x \<in> set ops \<and> op_CanProcess x"
      "(\<forall>op \<in> set ops. never_drops acts d op) \<longrightarrow> length new \<le> length (filter at_end xs)" by blast
    have "\<forall>out \<in> fst ` set rest. out \<in> op_ref ` set ops \<and> Op_CanProcess out \<and> n \<le> rank (Op_ID out) + Suc h"
      using Cons.prems by simp
    from Cons.IH [OF this, of s2] obtain ys s3 where ys: "deliver acts d ops rest s2 = Some (ys, s3)"
      "\<forall>(x, e) \<in> set ys. x \<in> set ops \<and> op_CanProcess x"
      "(\<forall>op \<in> set ops. never_drops acts d op) \<longrightarrow> length rest \<le> length (filter at_end ys)" by blast
    have "1 \<le> length (filter at_end ((op, e) # xs))" if "\<forall>op \<in> set ops. never_drops acts d op"
    proof (cases "op_CanOutput op")
      case True
      then have "new \<noteq> []" using that op(1,2) new by (auto simp: never_drops_def)
      then have "1 \<le> length new" by (cases new) auto
      also have "\<dots> \<le> length (filter at_end xs)" using xs(3) that by blast
      finally show ?thesis by simp
    qed (simp add: at_end_def)
    then have "(\<forall>op \<in> set ops. never_drops acts d op) \<longrightarrow> length (p # rest) \<le> length (filter at_end ((op, e) # xs @ ys))"
      using ys(3) by fastforce
    moreover have "deliver acts d ops (p # rest) s = Some ((op, e) # xs @ ys, s3)"
      by (simp add: p deliver_Cons [OF find new] deliver_append [OF xs(1)] ys(1))
    moreover have "\<forall>(x, e) \<in> set ((op, e) # xs @ ys). x \<in> set ops \<and> op_CanProcess x" using xs(2) ys(2) op by auto
    ultimately show ?case by blast
  qed simp
qed

lemma built_operators:
  assumes G: "is_directed_graph G ok" and new: "NewDirectedPipeline G operators = Some (Inr p)"
  obtains ops rank where "setOperatorOutputs (map op_ref operators) operators = Inr ops" "map op_ref ops = map op_ref operators"
    "set (Pipeline_Operators G p) = set ops" "rises rank (Pipeline_Operators G p)"
proof -
  obtain ops nodes where o: "setOperatorOutputs (map op_ref operators) operators = Inr ops" "map op_ref ops = map op_ref operators"
      "ok (Graph p)" "pipeline_graph G ops (Graph p)" "topo_Sort G (Graph p) = Inr nodes"
    by (rule NewDirectedPipeline_graph [OF G new])
  obtain rank :: "string \<Rightarrow> nat" where rank: "\<forall>op \<in> set ops. \<forall>out \<in> set (op_Outputs op). rank (op_ID op) < rank (Op_ID out)"
    using sorted_ranks [OF G o(3-5)] by blast
  have "mset (Pipeline_Operators G p) = mset (map node_operator (map createOperatorNode ops))"
    unfolding Pipeline_Operators_def using o(4) by (metis pipeline_graph_def mset_map)
  then have m: "mset (Pipeline_Operators G p) = mset ops" by (simp add: createOperatorNode_def comp_def)
  have "distinct (map createNodeID (map op_ID ops))" using o(4) by (simp add: pipeline_graph_def comp_def)
  then have "distinct (map op_ID ops)" using distinct_map by blast
  moreover have "mset (map op_ID (Pipeline_Operators G p)) = mset (map op_ID ops)" using m by (metis mset_map)
  ultimately have "distinct (map op_ID (Pipeline_Operators G p))" using mset_eq_imp_distinct_iff by blast
  moreover have "set (Pipeline_Operators G p) = set ops" using m by (metis mset_eq_setD)
  ultimately show thesis using o rank by (intro that [of ops rank]) (auto simp: rises_def pipeline_graph_def list_all_iff)
qed

lemma built_targets:
  assumes G: "is_directed_graph G ok" and new: "NewDirectedPipeline G operators = Some (Inr p)"
    and op: "op \<in> set (Pipeline_Operators G p)" "out \<in> set (op_targets op)"
  shows "out \<in> op_ref ` set (Pipeline_Operators G p)" "Op_CanProcess out"
proof -
  obtain ops rank where o: "setOperatorOutputs (map op_ref operators) operators = Inr ops" "map op_ref ops = map op_ref operators"
      "set (Pipeline_Operators G p) = set ops" "rises rank (Pipeline_Operators G p)"
    by (rule built_operators [OF G new])
  have "op_ref ` set ops = set (map op_ref operators)" using o(2) by (metis set_map)
  then have "out \<in> op_ref ` set (Pipeline_Operators G p) \<and> Op_CanProcess out"
    using setOperatorOutputs_subset [OF o(1)] o(3,4) op by (auto simp: op_targets_eq rises_def)
  then show "out \<in> op_ref ` set (Pipeline_Operators G p)" "Op_CanProcess out" by auto
qed

text \<open>
  C15: entries run through a pipeline and out of it.  In a built pipeline whose operators do not panic,
  whatever an operator writes to its outputs, the syslog input through its parser, leads to finitely many
  calls of \<open>Process\<close>, all of them of operators of the pipeline that can process entries.  If no operator
  with outputs drops an entry, as many entries as were written come to operators without outputs, at least.
\<close>

theorem pipeline_delivers:
  assumes G: "is_directed_graph G ok" and new: "NewDirectedPipeline G operators = Some (Inr p)"
    and runs: "\<forall>op \<in> set (Pipeline_Operators G p). \<forall>e s. arrive acts d op e s \<noteq> None"
    and src: "op \<in> set (Pipeline_Operators G p)" "fst ` set sent \<subseteq> set (op_targets op)"
  shows "\<exists>calls s1. deliver acts d (Pipeline_Operators G p) sent s = Some (calls, s1)
    \<and> (\<forall>(x, e) \<in> set calls. x \<in> set (Pipeline_Operators G p) \<and> op_CanProcess x)
    \<and> ((\<forall>x \<in> set (Pipeline_Operators G p). never_drops acts d x) \<longrightarrow> length sent \<le> length (filter at_end calls))"
proof -
  obtain rank where rank: "rises rank (Pipeline_Operators G p)" by (rule built_operators [OF G new])
  obtain n where n: "\<forall>op \<in> set (Pipeline_Operators G p). rank (op_ID op) < n"
    using finite_nat_set_iff_bounded [of "(rank \<circ> op_ID) ` set (Pipeline_Operators G p)"] by auto
  have "\<forall>out \<in> fst ` set sent. out \<in> op_ref ` set (Pipeline_Operators G p) \<and> Op_CanProcess out \<and> n \<le> rank (Op_ID out) + n"
    using src built_targets [OF G new] by auto
  from deliver_finite [OF rank n runs this] show ?thesis by blast
qed

text \<open>The sample pipeline, whose operators write what they get and count it.\<close>

definition sample_acts :: "string \<Rightarrow> entry \<Rightarrow> nat \<Rightarrow> (entry list \<times> nat) option" where
  "sample_acts name e n = Some ([e], Suc n)"

definition sample_ref :: "string \<Rightarrow> opref" where
  "sample_ref name = \<lparr>Op_ID = name, Op_CanProcess = True\<rparr>"

definition sample_built :: "pipe_operator list" where
  "sample_built =
     [WriterOp True \<lparr>BasicOperator.OperatorID = ''a'', OperatorType = ''a'', OutputIDs = [''b'', ''c''],
        OutputOperators = [sample_ref ''b'', sample_ref ''c'']\<rparr>,
      WriterOp True \<lparr>BasicOperator.OperatorID = ''b'', OperatorType = ''b'', OutputIDs = [''c''],
        OutputOperators = [sample_ref ''c'']\<rparr>,
      OutputOp \<lparr>BasicOperator.OperatorID = ''c'', OperatorType = ''c''\<rparr>]"

lemma sample_new_operators:
  "\<exists>p. NewDirectedPipeline list_graph sample_operators = Some (Inr p) \<and> Pipeline_Operators list_graph p = sample_built"
  by (simp add: NewDirectedPipeline_def sample_operators_def sample_writer_def op_ref_def SetOutputs_def
      list_graph_def createOperatorNode_def sample_ids BasicOperator_ID_def connectNodes_def
      Pipeline_Operators_def sample_built_def sample_ref_def)

theorem pipeline_delivers_witness:
  "\<exists>p calls n. NewDirectedPipeline list_graph sample_operators = Some (Inr p)
    \<and> deliver sample_acts (\<lambda>_ _ e. e) (Pipeline_Operators list_graph p)
        [(sample_ref ''b'', New zero_time), (sample_ref ''c'', New zero_time)] 0 = Some (calls, n)
    \<and> 2 \<le> length (filter at_end calls)"
proof -
  obtain p where p: "NewDirectedPipeline list_graph sample_operators = Some (Inr p)"
    and ops: "Pipeline_Operators list_graph p = sample_built" using sample_new_operators by blast
  have runs: "\<forall>op \<in> set (Pipeline_Operators list_graph p). \<forall>e n. arrive sample_acts (\<lambda>_ _ e. e) op e n \<noteq> None"
    by (simp add: ops sample_built_def arrive_def sample_acts_def)
  have never: "\<forall>op \<in> set (Pipeline_Operators list_graph p). never_drops sample_acts (\<lambda>_ _ e. e) op"
    by (simp add: ops sample_built_def never_drops_def arrive_def sample_acts_def Write_def)
  have "hd sample_built \<in> set (Pipeline_Operators list_graph p)"
    "fst ` set [(sample_ref ''b'', New zero_time), (sample_ref ''c'', New zero_time)] \<subseteq> set (op_targets (hd sample_built))"
    by (simp_all add: ops sample_built_def)
  from pipeline_delivers [OF list_graph_laws p runs this, of 0] never p show ?thesis by auto
qed

end
