(* ===== verification/Ip_Resolver.thy ===== *)
theory Ip_Resolver
  imports Prelude
begin

text \<open>
  The names of addresses: \<open>operator/helper/ip_resolver.go\<close>.

  Times are nanoseconds.  The answer of \<open>net.LookupAddr\<close> is a parameter, and may change with time.
  \<open>GetHostFromIp\<close> reads the cache under its lock, looks the address up without it, and stores the
  answer under it again; in a run other calls and the goroutine's ticks may come between.
\<close>

section \<open>Operations\<close>

record cacheEntry =
  hostname :: string
  expireTime :: int

record IPResolver =
  host_cache :: "(string, cacheEntry) fmap"
  resolver_stopped :: bool
  invalidationInterval :: int

definition minutes :: "int \<Rightarrow> int" where "minutes n = n * 60 * 1000000000"

definition defaultInvalidationInterval :: int where
  "defaultInvalidationInterval = minutes 5"

definition NewIpResolver :: IPResolver where
  "NewIpResolver = \<lparr>host_cache = fmempty, resolver_stopped = False, invalidationInterval = defaultInvalidationInterval\<rparr>"

text \<open>Stopping sends to the goroutine only once.\<close>

definition IPResolver_Stop :: "IPResolver \<Rightarrow> IPResolver \<times> bool" where
  "IPResolver_Stop r = (if resolver_stopped r then (r, False) else (r\<lparr>resolver_stopped := True\<rparr>, True))"

definition invalidateCache :: "int \<Rightarrow> IPResolver \<Rightarrow> IPResolver" where
  "invalidateCache now r =
     r\<lparr>host_cache := fmfilter (\<lambda>ip. case fmlookup (host_cache r) ip of
          Some entry \<Rightarrow> \<not> expireTime entry < now | None \<Rightarrow> True) (host_cache r)\<rparr>"

type_synonym lookup_addr = "string \<Rightarrow> string list option"

definition lookupIpAddr :: "lookup_addr \<Rightarrow> string \<Rightarrow> string" where
  "lookupIpAddr dns ip =
     (case dns ip of
        None \<Rightarrow> ip
      | Some [] \<Rightarrow> ip
      | Some (host # _) \<Rightarrow> if host \<noteq> [] \<and> last host = CHR ''.'' then butlast host else host)"

definition cached_host :: "string \<Rightarrow> IPResolver \<Rightarrow> string option" where
  "cached_host ip r = map_option hostname (fmlookup (host_cache r) ip)"

definition store_host :: "int \<Rightarrow> string \<Rightarrow> string \<Rightarrow> IPResolver \<Rightarrow> IPResolver" where
  "store_host now ip host r =
     r\<lparr>host_cache := fmupd ip \<lparr>hostname = host, expireTime = now + minutes 5\<rparr> (host_cache r)\<rparr>"

text \<open>A whole call, with the answer of its lookup and the time at which that is stored.\<close>

definition GetHostFromIp :: "lookup_addr \<Rightarrow> int \<Rightarrow> string \<Rightarrow> IPResolver \<Rightarrow> string \<times> IPResolver" where
  "GetHostFromIp dns now ip r =
     (case cached_host ip r of
        Some host \<Rightarrow> (host, r)
      | None \<Rightarrow> let host = lookupIpAddr dns ip in (host, store_host now ip host r))"

section \<open>Runs\<close>

text \<open>
  The goroutine of \<open>start\<close>: tick \<open>k\<close> of its ticker is due \<open>k\<close> intervals after the start, and is dealt with
  \<open>late k\<close> nanoseconds later.  These are the ticks up to the time \<open>t\<close>, from the \<open>k\<close>-th on.
\<close>

function resolver_ticks :: "(nat \<Rightarrow> nat) \<Rightarrow> int \<Rightarrow> nat \<Rightarrow> int \<Rightarrow> IPResolver \<Rightarrow> nat \<times> IPResolver" where
  "resolver_ticks late start k t r =
     (let due = start + int k * invalidationInterval r; now = due + int (late k) in
      if 0 < invalidationInterval r \<and> now \<le> t
      then resolver_ticks late start (Suc k) t (invalidateCache now r)
      else (k, r))"
  by pat_completeness auto
termination
  by (relation "measure (\<lambda>(late, start, k, t, r). nat (t + 1 - start - int k * invalidationInterval r))")
    (auto simp: invalidateCache_def algebra_simps)

declare resolver_ticks.simps [simp del]

text \<open>
  What the callers do: one asks for a name, and gets it at once if it is in the cache; otherwise the answer
  to a lookup that began at the time \<open>asked\<close> comes at the time \<open>t\<close>, and is stored and returned.  The result
  lists the names that were returned, each with its time and address.
\<close>

datatype resolver_event = Ask int string | Answer int int string

fun event_time :: "resolver_event \<Rightarrow> int" where
  "event_time (Ask t ip) = t"
| "event_time (Answer asked t ip) = t"

definition resolver_step :: "(int \<Rightarrow> lookup_addr) \<Rightarrow> resolver_event \<Rightarrow> IPResolver \<Rightarrow> (int \<times> string \<times> string) list \<times> IPResolver" where
  "resolver_step dns ev r =
     (case ev of
        Ask t ip \<Rightarrow> (case cached_host ip r of Some host \<Rightarrow> ([(t, ip, host)], r) | None \<Rightarrow> ([], r))
      | Answer asked t ip \<Rightarrow>
          (let host = lookupIpAddr (dns asked) ip in ([(t, ip, host)], store_host t ip host r)))"

fun resolver_run ::
  "(int \<Rightarrow> lookup_addr) \<Rightarrow> (nat \<Rightarrow> nat) \<Rightarrow> int \<Rightarrow> nat \<Rightarrow> IPResolver \<Rightarrow> resolver_event list \<Rightarrow> (int \<times> string \<times> string) list" where
  "resolver_run dns late start k r [] = []"
| "resolver_run dns late start k r (ev # evs) =
     (case resolver_ticks late start k (event_time ev) r of
        (k, r) \<Rightarrow> (case resolver_step dns ev r of
          (names, r) \<Rightarrow> names @ resolver_run dns late start k r evs))"

section \<open>How old an answer can be\<close>

text \<open>
  After \<open>k - 1\<close> ticks every name in the cache is the answer that its entry says, and would not have been
  expired at the last of these ticks.
\<close>

definition resolver_inv :: "(int \<Rightarrow> lookup_addr) \<Rightarrow> resolver_event list \<Rightarrow> int \<Rightarrow> nat \<Rightarrow> int \<Rightarrow> IPResolver \<Rightarrow> bool" where
  "resolver_inv dns evs start k now r \<longleftrightarrow>
     invalidationInterval r = minutes 5 \<and> start + (int k - 1) * minutes 5 \<le> now \<and>
     (\<forall>ip e. fmlookup (host_cache r) ip = Some e \<longrightarrow>
        start + (int k - 1) * minutes 5 \<le> expireTime e \<and> expireTime e - minutes 5 \<le> now \<and>
        (\<exists>asked. Answer asked (expireTime e - minutes 5) ip \<in> set evs \<and> hostname e = lookupIpAddr (dns asked) ip))"

lemma minutes_pos: "0 < n \<Longrightarrow> 0 < minutes n"
  by (simp add: minutes_def)

lemma resolver_ticks_inv:
  assumes "resolver_inv dns evs start k now r" "now \<le> t" "resolver_ticks late start k t r = (k', r')"
  shows "resolver_inv dns evs start k' t r' \<and> t < start + int k' * minutes 5 + int (late k')"
  using assms
proof (induction late start k t r arbitrary: now k' r' rule: resolver_ticks.induct)
  case (1 late start k t r)
  let ?h = "start + int k * minutes 5 + int (late k)"
  have i: "invalidationInterval r = minutes 5" using "1.prems"(1) by (simp add: resolver_inv_def)
  show ?case
  proof (cases "?h \<le> t")
    case True
    then have run: "resolver_ticks late start (Suc k) t (invalidateCache ?h r) = (k', r')"
      using "1.prems"(3) minutes_pos [of 5] by (subst (asm) resolver_ticks.simps) (simp add: i Let_def)
    have "resolver_inv dns evs start (Suc k) (max now ?h) (invalidateCache ?h r)"
      using "1.prems"(1) by (fastforce simp: resolver_inv_def invalidateCache_def split: if_splits option.splits)
    then show ?thesis
      using "1.IH" [OF refl refl _ _ _ run [folded i]] True "1.prems"(2) minutes_pos [of 5] run by (simp add: i)
  next
    case False
    then have "(k', r') = (k, r)"
      using "1.prems"(3) by (subst (asm) resolver_ticks.simps) (simp add: i Let_def)
    then show ?thesis using "1.prems"(1,2) False by (fastforce simp: resolver_inv_def)
  qed
qed

lemma resolver_step_inv:
  assumes inv: "resolver_inv dns evs start k (event_time ev) r" and ev: "ev \<in> set evs"
    and soon: "event_time ev < start + int k * minutes 5 + int L"
    and step: "resolver_step dns ev r = (names, r')"
  shows "resolver_inv dns evs start k (event_time ev) r' \<and>
    (\<forall>(t, ip, host) \<in> set names. \<exists>asked t'. Answer asked t' ip \<in> set evs \<and> t - minutes 10 - int L \<le> t' \<and> t' \<le> t \<and>
       host = lookupIpAddr (dns asked) ip)"
proof (cases ev)
  case (Ask t ip)
  show ?thesis
  proof (cases "fmlookup (host_cache r) ip")
    case None
    then show ?thesis using inv step Ask by (simp add: resolver_step_def cached_host_def)
  next
    case (Some e)
    then have r': "names = [(t, ip, hostname e)]" "r' = r" using step Ask by (auto simp: resolver_step_def cached_host_def)
    have e: "start + (int k - 1) * minutes 5 \<le> expireTime e" "expireTime e - minutes 5 \<le> t"
      "\<exists>asked. Answer asked (expireTime e - minutes 5) ip \<in> set evs \<and> hostname e = lookupIpAddr (dns asked) ip"
      using inv Some Ask by (auto simp: resolver_inv_def)
    have "t - minutes 10 - int L \<le> expireTime e - minutes 5"
      using e(1) soon Ask by (simp add: minutes_def algebra_simps)
    then show ?thesis using inv e(2,3) r' by fastforce
  qed
next
  case (Answer asked t ip)
  then have r': "names = [(t, ip, lookupIpAddr (dns asked) ip)]" "r' = store_host t ip (lookupIpAddr (dns asked) ip) r"
    using step by (auto simp: resolver_step_def Let_def)
  have "resolver_inv dns evs start k t r'"
    using inv ev minutes_pos [of 5] unfolding r'(2) Answer by (fastforce simp: resolver_inv_def store_host_def split: if_splits)
  then show ?thesis using r'(1) Answer ev minutes_pos [of 10] by fastforce
qed

lemma resolver_run_fresh:
  assumes late: "\<forall>k. late k \<le> L"
  shows "resolver_inv dns all start k now r \<Longrightarrow> sorted (now # map event_time evs) \<Longrightarrow> set evs \<subseteq> set all \<Longrightarrow>
    (t, ip, host) \<in> set (resolver_run dns late start k r evs) \<Longrightarrow>
    \<exists>asked t'. Answer asked t' ip \<in> set all \<and> t - minutes 10 - int L \<le> t' \<and> t' \<le> t \<and> host = lookupIpAddr (dns asked) ip"
proof (induction evs arbitrary: k r now)
  case (Cons ev evs)
  obtain k1 r1 where ticks: "resolver_ticks late start k (event_time ev) r = (k1, r1)" by (metis surj_pair)
  obtain names r2 where step: "resolver_step dns ev r1 = (names, r2)" by (metis surj_pair)
  have inv: "resolver_inv dns all start k1 (event_time ev) r1" "event_time ev < start + int k1 * minutes 5 + int (late k1)"
    using resolver_ticks_inv [OF Cons.prems(1) _ ticks] Cons.prems(2) by auto
  have "event_time ev < start + int k1 * minutes 5 + int L"
    using inv(2) late by (meson add_left_mono less_le_trans of_nat_mono)
  note event = resolver_step_inv [OF inv(1) _ this step]
  consider "(t, ip, host) \<in> set names" | "(t, ip, host) \<in> set (resolver_run dns late start k1 r2 evs)"
    using Cons.prems(4) by (auto simp: ticks step)
  then show ?case
  proof cases
    case 1
    then show ?thesis using event Cons.prems(3) by fastforce
  next
    case 2
    then show ?thesis using Cons.IH [OF _ _ _ 2] event Cons.prems(2,3) by auto
  qed
qed simp

text \<open>
  C29: how old a name can be.  Let callers ask a new resolver for names and let their lookups be answered, in
  any order and interleaving, while the goroutine that \<open>start\<close> began ticks every five minutes and deals
  with each tick at most \<open>L\<close> nanoseconds late.  Then every name that is returned is the answer to a lookup
  of its address that had come no more than ten minutes and \<open>L\<close> nanoseconds earlier: an entry lives for five
  minutes and stays until the next tick.
\<close>

theorem resolver_fresh:
  assumes "\<forall>k. late k \<le> L" "sorted (start # map event_time evs)"
    and "(t, ip, host) \<in> set (resolver_run dns late start 1 NewIpResolver evs)"
  shows "\<exists>asked t'. Answer asked t' ip \<in> set evs \<and> t - minutes 10 - int L \<le> t' \<and> t' \<le> t \<and>
    host = lookupIpAddr (dns asked) ip"
proof (rule resolver_run_fresh [OF assms(1) _ assms(2) subset_refl assms(3)])
  show "resolver_inv dns evs start 1 start NewIpResolver"
    by (simp add: resolver_inv_def NewIpResolver_def defaultInvalidationInterval_def)
qed

text \<open>The bound is sharp: an answer of almost ten minutes ago is still returned, and then no longer.\<close>

theorem resolver_fresh_witness:
  "let dns = \<lambda>t ip. Some [if t < minutes 1 then ''old.'' else ''new.''];
       evs = [Ask 0 ''10.0.0.1'', Answer 0 1 ''10.0.0.1'', Ask (minutes 10 - 1) ''10.0.0.1'', Ask (minutes 10) ''10.0.0.1'']
   in resolver_run dns (\<lambda>_. 0) 0 1 NewIpResolver evs = [(1, ''10.0.0.1'', ''old''), (minutes 10 - 1, ''10.0.0.1'', ''old'')] \<and>
     (\<exists>asked t'. Answer asked t' ''10.0.0.1'' \<in> set evs \<and> minutes 10 - 1 - minutes 10 \<le> t' \<and> t' \<le> minutes 10 - 1 \<and>
        ''old'' = lookupIpAddr (dns asked) ''10.0.0.1'')"
proof -
  let ?dns = "\<lambda>t ip. Some [if t < minutes 1 then ''old.'' else ''new.'']"
  let ?evs = "[Ask 0 ''10.0.0.1'', Answer 0 1 ''10.0.0.1'', Ask (minutes 10 - 1) ''10.0.0.1'', Ask (minutes 10) ''10.0.0.1'']"
  have run: "resolver_run ?dns (\<lambda>_. 0) 0 1 NewIpResolver ?evs =
      [(1, ''10.0.0.1'', ''old''), (minutes 10 - 1, ''10.0.0.1'', ''old'')]"
    by (simp add: resolver_ticks.simps resolver_step_def cached_host_def store_host_def NewIpResolver_def
        defaultInvalidationInterval_def invalidateCache_def lookupIpAddr_def minutes_def Let_def)
  then have "(minutes 10 - 1, ''10.0.0.1'', ''old'') \<in> set (resolver_run ?dns (\<lambda>_. 0) 0 1 NewIpResolver ?evs)" by simp
  then show ?thesis
    using resolver_fresh [of "\<lambda>_. 0" 0 0 ?evs "minutes 10 - 1" "''10.0.0.1''" "''old''" ?dns] run
    by (simp add: minutes_def)
qed

end
