(* ===== verification/Network_Inputs.thy ===== *)
theory Network_Inputs
  imports File_Input Ip_Resolver Syslog_Parsing
begin

text \<open>
  Inputs from sockets: \<open>operator/input/tcp/tcp.go\<close>, \<open>udp/udp.go\<close> and \<open>syslog/syslog.go\<close>, with the
  decoding of \<open>operator/helper/encoding.go\<close>.

  A connection is the bytes that the peer sends before it closes, and the sizes of the pieces in which
  they arrive; to the scanner it is a source like a file, without a fingerprint.  A datagram arrives
  whole.  Address resolution, TLS, sockets and the decoders of encodings are parameters.  Connections
  run in goroutines of their own; each is modelled by itself.
\<close>

section \<open>Parameters\<close>

record net_env =
  net_compile :: compiler
  net_regexp :: "string \<Rightarrow> string + find_index"
  net_iana :: iana_index
  resolve_address :: "string \<Rightarrow> gerror + string"
  load_tls :: "gerror option"
  decoder_of :: "string \<Rightarrow> decoder"

text \<open>The clocks that the \<open>k\<close>-th message of a connection sees, and the name service.\<close>

record net_time =
  entry_now :: "nat \<Rightarrow> gtime"
  resolver_now :: "nat \<Rightarrow> int"
  name_service :: "nat \<Rightarrow> lookup_addr"

type_synonym endpoint = "(string \<times> int) option"

section \<open>Messages\<close>

definition Encoding_Decode :: "decoder \<Rightarrow> string \<Rightarrow> gerror + string" where
  "Encoding_Decode dec msgBuf =
     (case dec msgBuf of
        Inl err \<Rightarrow> Inl (StdError (''transform encoding: '' @ error_text err))
      | Inr text \<Rightarrow> Inr text)"

definition add_endpoint :: "lookup_addr \<Rightarrow> int \<Rightarrow> string \<Rightarrow> endpoint \<Rightarrow> entry \<times> IPResolver \<Rightarrow> entry \<times> IPResolver" where
  "add_endpoint dns now side addr er =
     (case addr of
        None \<Rightarrow> er
      | Some (host_ip, port) \<Rightarrow>
          (case GetHostFromIp dns now host_ip (snd er) of
             (host, r) \<Rightarrow>
               (AddAttribute (''net.'' @ side @ ''.name'') host
                  (AddAttribute (''net.'' @ side @ ''.port'') (itoa port)
                     (AddAttribute (''net.'' @ side @ ''.ip'') host_ip (fst er))), r)))"

text \<open>The resolver is missing exactly when no attributes are to be added.\<close>

type_synonym labeller = "entry \<Rightarrow> IPResolver option \<Rightarrow> entry \<times> IPResolver option"

definition with_resolver :: "(entry \<times> IPResolver \<Rightarrow> entry \<times> IPResolver) \<Rightarrow> labeller" where
  "with_resolver f e r = (case r of None \<Rightarrow> (e, None) | Some r \<Rightarrow> apsnd Some (f (e, r)))"

definition tcp_attributes :: "lookup_addr \<Rightarrow> int \<Rightarrow> endpoint \<Rightarrow> endpoint \<Rightarrow> labeller" where
  "tcp_attributes dns now remote here = with_resolver (\<lambda>(e, r).
     add_endpoint dns now ''host'' here
       (add_endpoint dns now ''peer'' remote (AddAttribute ''net.transport'' ''IP.TCP'' e, r)))"

definition udp_attributes :: "lookup_addr \<Rightarrow> int \<Rightarrow> endpoint \<Rightarrow> endpoint \<Rightarrow> labeller" where
  "udp_attributes dns now remote here = with_resolver (\<lambda>(e, r).
     add_endpoint dns now ''peer'' remote
       (add_endpoint dns now ''host'' here (AddAttribute ''net.transport'' ''IP.UDP'' e, r)))"

text \<open>One token: an error is logged, and the loop goes on.\<close>

definition handle_token ::
  "decoder \<Rightarrow> gtime \<Rightarrow> 'a InputOperator_scheme \<Rightarrow> labeller \<Rightarrow> string \<Rightarrow> IPResolver option
    \<Rightarrow> ((opref \<times> entry) list \<times> IPResolver option) option" where
  "handle_token dec now i add token r =
     (case Encoding_Decode dec token of
        Inl err \<Rightarrow> Some ([], r)
      | Inr decoded \<Rightarrow>
          (case NewEntry now i (VString decoded) of
             None \<Rightarrow> None
           | Some (Inl err) \<Rightarrow> Some ([], r)
           | Some (Inr e) \<Rightarrow> (case add e r of (e, r) \<Rightarrow> Some (Write i e, r))))"

fun handle_tokens ::
  "(nat \<Rightarrow> labeller) \<Rightarrow> decoder \<Rightarrow> net_time \<Rightarrow> 'a InputOperator_scheme \<Rightarrow> nat \<Rightarrow> string list \<Rightarrow> IPResolver option
    \<Rightarrow> ((opref \<times> entry) list \<times> IPResolver option) option" where
  "handle_tokens add dec nt i k [] r = Some ([], r)"
| "handle_tokens add dec nt i k (t # ts) r =
     (case handle_token dec (entry_now nt k) i (add k) t r of
        None \<Rightarrow> None
      | Some (sent, r) \<Rightarrow> map_option (apfst ((@) sent)) (handle_tokens add dec nt i (Suc k) ts r))"

section \<open>Scanning a connection\<close>

text \<open>The buffer has the maximal size from the start.\<close>

definition NewScanner :: "nat \<Rightarrow> scanner" where
  "NewScanner maxSize =
     \<lparr>window = [], w_start = 0, buf_size = maxSize, max_token = maxSize, at_end = False, empties = 0, scan_pos = 0\<rparr>"

definition connection_source :: "nat list \<Rightarrow> string \<Rightarrow> source" where
  "connection_source pieces bytes =
     \<lparr>remaining = bytes, limits = pieces, src_fp = \<lparr>FirstBytes = [], spare = []\<rparr>, fp_size = 0, read_offset = 0\<rparr>"

definition plain_split :: "split_func \<Rightarrow> unit split_state" where
  "plain_split f u data atEOF = ((), f data atEOF)"

definition connection_tokens :: "split_func \<Rightarrow> nat \<Rightarrow> nat list \<Rightarrow> string \<Rightarrow> string list option" where
  "connection_tokens f maxSize pieces bytes =
     map_option fst (read_loop (plain_split f) () (NewScanner maxSize) (connection_source pieces bytes) [])"

section \<open>TCP\<close>

definition minMaxLogSize :: int where "minMaxLogSize = 64 * 1024"
definition DefaultMaxLogSize :: int where "DefaultMaxLogSize = 1024 * 1024"

record TCPBaseConfig =
  tcpMaxLogSize :: int
  tcpListenAddress :: string
  tcpTLS :: bool
  tcpAddAttributes :: bool
  tcpEncoding :: string
  tcpMultiline :: MultilineConfig

record TCPInputConfig = InputConfig +
  TCPBase :: TCPBaseConfig

definition NewTCPInputConfig :: "string \<Rightarrow> TCPInputConfig" where
  "NewTCPInputConfig operatorID =
     InputConfig.extend (NewInputConfig operatorID ''tcp_input'') (TCPInputConfig.fields
       \<lparr>tcpMaxLogSize = 0, tcpListenAddress = [], tcpTLS = False, tcpAddAttributes = False,
        tcpEncoding = ''utf-8'', tcpMultiline = NewMultilineConfig\<rparr>)"

record TCPInput = InputOperator +
  tcp_address :: string
  tcp_MaxLogSize :: nat
  tcp_splitFunc :: split_func
  tcp_decoder :: decoder
  tcp_resolver :: "IPResolver option"
  tcp_tls :: bool

definition resolver_for :: "bool \<Rightarrow> IPResolver option" where
  "resolver_for addAttributes = (if addAttributes then Some NewIpResolver else None)"

definition TCPInputConfig_Build :: "net_env \<Rightarrow> bool \<Rightarrow> 'a TCPInputConfig_scheme \<Rightarrow> gerror + TCPInput" where
  "TCPInputConfig_Build env has_logger c =
     (case InputConfig_Build (net_compile env) has_logger c of
        Inl err \<Rightarrow> Inl err
      | Inr inputOperator \<Rightarrow>
          let b = TCPBase c; size = (if tcpMaxLogSize b = 0 then DefaultMaxLogSize else tcpMaxLogSize b) in
          if size < minMaxLogSize
          then Inl (StdError (''invalid value for parameter '' @ quoted ''max_log_size''
            @ '', must be equal to or greater than 65536 bytes''))
          else if tcpListenAddress b = []
          then Inl (StdError (''missing required parameter '' @ quoted ''listen_address''))
          else (case resolve_address env (tcpListenAddress b) of
             Inl err \<Rightarrow> Inl (StdError (''failed to resolve listen_address: '' @ error_text err))
           | Inr _ \<Rightarrow>
          (case EncodingConfig_Build (net_iana env) (tcpEncoding b) of
             Inl err \<Rightarrow> Inl err
           | Inr encoding \<Rightarrow>
          (case getSplitFunc (net_regexp env) (tcpMultiline b) encoding True False (nat size) of
             Inl err \<Rightarrow> Inl err
           | Inr (splitFunc, _) \<Rightarrow>
          (case (if tcpTLS b then load_tls env else None) of
             Some err \<Rightarrow> Inl err
           | None \<Rightarrow> Inr (InputOperator.extend inputOperator (TCPInput.fields (tcpListenAddress b) (nat size) splitFunc
               (decoder_of env (tcpEncoding b)) (resolver_for (tcpAddAttributes b)) (tcpTLS b))))))))"

text \<open>\<open>listen\<close> and \<open>tls_listen\<close> are what listening on the address returns.\<close>

definition configureListener :: "gerror option \<Rightarrow> gerror option \<Rightarrow> 'a TCPInput_scheme \<Rightarrow> gerror option" where
  "configureListener listen tls_listen t =
     (if \<not> tcp_tls t
      then map_option (\<lambda>err. StdError (''failed to configure tcp listener: '' @ error_text err)) listen
      else map_option (\<lambda>err. StdError (''failed to configure tls listener: '' @ error_text err)) tls_listen)"

definition TCPInput_Start :: "gerror option \<Rightarrow> gerror option \<Rightarrow> 'a TCPInput_scheme \<Rightarrow> gerror option" where
  "TCPInput_Start listen tls_listen t =
     map_option (\<lambda>err. StdError (''failed to listen on interface: '' @ error_text err)) (configureListener listen tls_listen t)"

text \<open>One accepted connection, from \<open>remote\<close> to \<open>here\<close>.\<close>

definition tcp_messages ::
  "net_time \<Rightarrow> 'a TCPInput_scheme \<Rightarrow> endpoint \<Rightarrow> endpoint \<Rightarrow> string list \<Rightarrow> ((opref \<times> entry) list \<times> IPResolver option) option" where
  "tcp_messages nt t remote here tokens =
     handle_tokens (\<lambda>k. tcp_attributes (name_service nt k) (resolver_now nt k) remote here) (tcp_decoder t) nt t 0 tokens
       (tcp_resolver t)"

definition tcp_goHandleMessages ::
  "net_time \<Rightarrow> 'a TCPInput_scheme \<Rightarrow> endpoint \<Rightarrow> endpoint \<Rightarrow> nat list \<Rightarrow> string
    \<Rightarrow> ((opref \<times> entry) list \<times> IPResolver option) option" where
  "tcp_goHandleMessages nt t remote here pieces bytes =
     (case connection_tokens (tcp_splitFunc t) (tcp_MaxLogSize t) pieces bytes of
        None \<Rightarrow> None
      | Some tokens \<Rightarrow> tcp_messages nt t remote here tokens)"

text \<open>Accepting: an error ends the loop only when the operator is being stopped.\<close>

datatype 'conn accept_event = Accepted 'conn | AcceptError (being_stopped: bool)

fun goListen :: "'conn accept_event list \<Rightarrow> 'conn list" where
  "goListen [] = []"
| "goListen (Accepted conn # rest) = conn # goListen rest"
| "goListen (AcceptError done # rest) = (if done then [] else goListen rest)"

text \<open>Stopping closes the listener, waits for the goroutines, and stops the resolver.\<close>

definition stop_resolver :: "IPResolver option \<Rightarrow> IPResolver option" where
  "stop_resolver = map_option (\<lambda>r. fst (IPResolver_Stop r))"

definition TCPInput_Stop :: "'a TCPInput_scheme \<Rightarrow> 'a TCPInput_scheme" where
  "TCPInput_Stop t = t\<lparr>tcp_resolver := stop_resolver (tcp_resolver t)\<rparr>"

section \<open>UDP\<close>

definition MaxUDPSize :: nat where "MaxUDPSize = 64 * 1024"

record UDPBaseConfig =
  udpListenAddress :: string
  udpAddAttributes :: bool
  udpEncoding :: string
  udpMultiline :: MultilineConfig

record UDPInputConfig = InputConfig +
  UDPBase :: UDPBaseConfig

text \<open>An expression that never matches keeps datagrams in one piece.\<close>

definition NewUDPInputConfig :: "string \<Rightarrow> UDPInputConfig" where
  "NewUDPInputConfig operatorID =
     InputConfig.extend (NewInputConfig operatorID ''udp_input'') (UDPInputConfig.fields
       \<lparr>udpListenAddress = [], udpAddAttributes = False, udpEncoding = ''utf-8'',
        udpMultiline = \<lparr>LineStartPattern = [], LineEndPattern = ''.^''\<rparr>\<rparr>)"

record UDPInput = InputOperator +
  udp_address :: string
  udp_splitFunc :: split_func
  udp_decoder :: decoder
  udp_resolver :: "IPResolver option"

definition UDPInputConfig_Build :: "net_env \<Rightarrow> bool \<Rightarrow> 'a UDPInputConfig_scheme \<Rightarrow> gerror + UDPInput" where
  "UDPInputConfig_Build env has_logger c =
     (case InputConfig_Build (net_compile env) has_logger c of
        Inl err \<Rightarrow> Inl err
      | Inr inputOperator \<Rightarrow>
          let b = UDPBase c in
          if udpListenAddress b = []
          then Inl (StdError (''missing required parameter '' @ quoted ''listen_address''))
          else (case resolve_address env (udpListenAddress b) of
             Inl err \<Rightarrow> Inl (StdError (''failed to resolve listen_address: '' @ error_text err))
           | Inr address \<Rightarrow>
          (case EncodingConfig_Build (net_iana env) (udpEncoding b) of
             Inl err \<Rightarrow> Inl err
           | Inr encoding \<Rightarrow>
          (case getSplitFunc (net_regexp env) (udpMultiline b) encoding True False MaxUDPSize of
             Inl err \<Rightarrow> Inl err
           | Inr (splitFunc, _) \<Rightarrow> Inr (InputOperator.extend inputOperator (UDPInput.fields address splitFunc
               (decoder_of env (udpEncoding b)) (resolver_for (udpAddAttributes b))))))))"

definition UDPInput_Start :: "gerror option \<Rightarrow> 'a UDPInput_scheme \<Rightarrow> gerror option" where
  "UDPInput_Start listen u = map_option (\<lambda>err. StdError (''failed to open connection: '' @ error_text err)) listen"

definition UDPInput_Stop :: "'a UDPInput_scheme \<Rightarrow> 'a UDPInput_scheme" where
  "UDPInput_Stop u = u\<lparr>udp_resolver := stop_resolver (udp_resolver u)\<rparr>"

text \<open>What \<open>ReadFrom\<close> gives: a datagram, cut at the size of the buffer, or an error.\<close>

datatype udp_event = Datagram string endpoint | ReadFromError

definition readMessage :: "string \<Rightarrow> string" where
  "readMessage datagram = rev (dropWhile (\<lambda>c. (of_char c :: nat) < 32) (rev (take MaxUDPSize datagram)))"

text \<open>An error ends the loop, whether or not the operator is being stopped.\<close>

fun udp_goHandleMessages ::
  "net_time \<Rightarrow> 'a UDPInput_scheme \<Rightarrow> endpoint \<Rightarrow> nat \<Rightarrow> IPResolver option \<Rightarrow> udp_event list
    \<Rightarrow> ((opref \<times> entry) list \<times> IPResolver option) option" where
  "udp_goHandleMessages nt u here k r [] = Some ([], r)"
| "udp_goHandleMessages nt u here k r (ReadFromError # rest) = Some ([], r)"
| "udp_goHandleMessages nt u here k r (Datagram bytes remote # rest) =
     (case connection_tokens (udp_splitFunc u) MaxUDPSize [] (readMessage bytes) of
        None \<Rightarrow> None
      | Some tokens \<Rightarrow>
     (case handle_tokens (\<lambda>k. udp_attributes (name_service nt k) (resolver_now nt k) remote here) (udp_decoder u) nt u k
             tokens r of
        None \<Rightarrow> None
      | Some (sent, r) \<Rightarrow> map_option (apfst ((@) sent)) (udp_goHandleMessages nt u here (k + length tokens) r rest)))"

section \<open>Syslog over either\<close>

record SyslogInputConfig = InputConfig +
  siProtocol :: string
  siLocation :: string
  siTcp :: "TCPBaseConfig option"
  siUdp :: "UDPBaseConfig option"

definition NewSyslogInputConfig :: "string \<Rightarrow> SyslogInputConfig" where
  "NewSyslogInputConfig operatorID =
     InputConfig.extend (NewInputConfig operatorID ''syslog_input'') (SyslogInputConfig.fields [] [] None None)"

datatype transport_input = Over_TCP TCPInput | Over_UDP UDPInput

record 'loc SyslogInput = InputOperator +
  si_transport :: transport_input
  si_parser :: "'loc SyslogParser"

definition internal_parser_config :: "string \<Rightarrow> 'a SyslogInputConfig_scheme \<Rightarrow> 'loc SyslogParserConfig" where
  "internal_parser_config i c =
     (ParserConfig.extend (NewParserConfig (i @ ''_internal_tcp'') ''syslog_parser'')
        (SyslogParserConfig.fields (siProtocol c) (siLocation c)))
       \<lparr>cfgOperatorID := i @ ''_internal_parser'', cfgOutputIDs := cfgOutputIDs c\<rparr>"

definition parser_ref :: "'loc SyslogParser \<Rightarrow> opref" where
  "parser_ref p = \<lparr>Op_ID = BasicOperator_ID p, Op_CanProcess = True\<rparr>"

definition SyslogInputConfig_Build ::
  "net_env \<Rightarrow> 'loc time_env \<Rightarrow> bool \<Rightarrow> 'a SyslogInputConfig_scheme \<Rightarrow> (gerror + 'loc SyslogInput) option" where
  "SyslogInputConfig_Build env te has_logger c =
     (case InputConfig_Build (net_compile env) has_logger c of
        Inl err \<Rightarrow> Some (Inl err)
      | Inr inputBase \<Rightarrow>
     (case SyslogParserConfig_Build te (net_compile env) has_logger (internal_parser_config (BasicOperator_ID inputBase) c) of
        None \<Rightarrow> None
      | Some (Inl err) \<Rightarrow> Some (Inl (StdError (''failed to resolve syslog config: '' @ error_text err)))
      | Some (Inr syslogParser) \<Rightarrow>
     (let out = parser_ref syslogParser
      in Some (case siTcp c of
        Some b \<Rightarrow>
          (case TCPInputConfig_Build env has_logger
                  ((NewTCPInputConfig (BasicOperator_ID inputBase @ ''_internal_tcp''))\<lparr>TCPBase := b\<rparr>) of
             Inl err \<Rightarrow> Inl (StdError (''failed to resolve tcp config: '' @ error_text err))
           | Inr tcpInput \<Rightarrow> (case SetOutputs [out] (SetOutputIDs [Op_ID out] tcpInput) of
               (input, Some err) \<Rightarrow> Inl (StdError ''failed to set outputs'')
             | (input, None) \<Rightarrow> Inr (InputOperator.extend inputBase (SyslogInput.fields (Over_TCP input) syslogParser))))
      | None \<Rightarrow>
     (case siUdp c of
        Some b \<Rightarrow>
          (case UDPInputConfig_Build env has_logger
                  ((NewUDPInputConfig (BasicOperator_ID inputBase @ ''_internal_udp''))\<lparr>UDPBase := b\<rparr>) of
             Inl err \<Rightarrow> Inl (StdError (''failed to resolve upd config: '' @ error_text err))
           | Inr udpInput \<Rightarrow> (case SetOutputs [out] (SetOutputIDs [Op_ID out] udpInput) of
               (input, Some err) \<Rightarrow> Inl (StdError ''failed to set outputs'')
             | (input, None) \<Rightarrow> Inr (InputOperator.extend inputBase (SyslogInput.fields (Over_UDP input) syslogParser))))
      | None \<Rightarrow> Inl (StdError ''need tcp config or udp config''))))))"

text \<open>The outputs of the operator go to its parser; its own list stays empty.\<close>

definition SyslogInput_SetOutputs :: "opref list \<Rightarrow> ('loc, 'a) SyslogInput_scheme \<Rightarrow> ('loc, 'a) SyslogInput_scheme \<times> gerror option" where
  "SyslogInput_SetOutputs operators t =
     (case SetOutputs operators (SetOutputIDs (OutputIDs t) (si_parser t)) of
        (p, err) \<Rightarrow> (t\<lparr>si_parser := p\<rparr>, err))"

definition SyslogInput_Start :: "gerror option \<Rightarrow> gerror option \<Rightarrow> ('loc, 'a) SyslogInput_scheme \<Rightarrow> gerror option" where
  "SyslogInput_Start listen tls_listen t =
     (case si_transport t of
        Over_TCP i \<Rightarrow> TCPInput_Start listen tls_listen i
      | Over_UDP i \<Rightarrow> UDPInput_Start listen i)"

definition SyslogInput_Stop :: "('loc, 'a) SyslogInput_scheme \<Rightarrow> ('loc, 'a) SyslogInput_scheme" where
  "SyslogInput_Stop t =
     t\<lparr>si_transport := (case si_transport t of
        Over_TCP i \<Rightarrow> Over_TCP (TCPInput_Stop i)
      | Over_UDP i \<Rightarrow> Over_UDP (UDPInput_Stop i))\<rparr>"

text \<open>What reaches the outputs: the transport's entries, each processed by the parser.\<close>

fun parse_sent :: "'loc machines \<Rightarrow> ('loc, 'b) run_env_scheme \<Rightarrow> 'loc SyslogParser \<Rightarrow> (opref \<times> entry) list \<Rightarrow> (opref \<times> entry) list option" where
  "parse_sent ms re p [] = Some []"
| "parse_sent ms re p ((op, e) # rest) =
     (if op \<noteq> parser_ref p then map_option (Cons (op, e)) (parse_sent ms re p rest)
      else case SyslogParser_Process ms re p e of
        None \<Rightarrow> None
      | Some (sent, err) \<Rightarrow> map_option ((@) sent) (parse_sent ms re p rest))"

end
