(* ===== verification/Network_Laws.thy ===== *)
theory Network_Laws
  imports Network_Inputs File_Reader_Laws
begin

text \<open>
  What network inputs promise: a TCP connection is split into lines however its bytes arrive, a
  datagram gives one entry, and a syslog input parses each line.
\<close>

section \<open>Lines of a connection\<close>

lemma newline_line_flush:
  "LF \<notin> set l \<Longrightarrow> newline_split [LF] [CR] True (l @ LF # w) e = (Suc (length l), line_token l, None)"
  using newline_split_line [of l w e] by (auto simp: newline_split_def split: option.splits if_splits)

lemma newline_tail_flush:
  "LF \<notin> set w \<Longrightarrow> newline_split [LF] [CR] True w e =
     (if e \<and> w \<noteq> [] then (length w, trimWhitespaces w, None) else (0, None, None))"
  using newline_split_tail [of w e] by (auto simp: newline_split_def split: option.splits if_splits)

abbreviation conn_split :: "unit split_state" where
  "conn_split \<equiv> plain_split (newline_split [LF] [CR] True)"

interpretation conn_lines: line_scanner conn_split "\<lambda>_. True"
  by unfold_locales (simp_all add: plain_split_def newline_line_flush newline_tail_flush)

lemma plain_good: "good_split f \<Longrightarrow> token_splitter (plain_split f) (\<lambda>_. True)"
  by unfold_locales (auto simp: plain_split_def good_split_def)

interpretation conn_tokens: token_splitter conn_split "\<lambda>_. True"
  by (rule plain_good [OF good_newline])

lemma conn_no_panic: "settled s src \<Longrightarrow> scan conn_split () s src \<noteq> Scan_Panic"
  using conn_tokens.scan_settled [where f = "()" and s = s and src = src] by auto

text \<open>What is left without a newline is flushed at the end.\<close>

lemma scan_flush:
  "LF \<notin> set (unread s src) \<Longrightarrow> length (unread s src) < max 16384 (max_token s) \<Longrightarrow> roomy s src \<Longrightarrow>
   scan conn_split () s src \<noteq> Scan_Panic \<Longrightarrow>
   (case trimWhitespaces (unread s src) of
      None \<Rightarrow> \<exists>s' src'. scan conn_split () s src = Stopped None () s' src'
    | Some t \<Rightarrow> \<exists>s' src'. scan conn_split () s src = Scanned t () s' src' \<and> window s' = [] \<and> at_end s')"
proof (induction "length (remaining src) + (if at_end s then 0 else 1 :: nat)" arbitrary: s src rule: less_induct)
  case less
  have w: "LF \<notin> set (window s)" "length (window s) < max 16384 (max_token s)" using less.prems(1,2) by (auto simp: unread_def)
  show ?case
  proof (cases "at_end s")
    case True
    then have all: "unread s src = window s" using less.prems(3) by (simp add: unread_def roomy_def)
    have split: "conn_split () (window s) True =
        ((), if window s \<noteq> [] then (length (window s), trimWhitespaces (window s), None) else (0, None, None))"
      using newline_tail_flush [OF w(1), of True] by (auto simp: plain_split_def)
    show ?thesis
    proof (cases "trimWhitespaces (window s)")
      case None
      then show ?thesis using True split by (auto simp: all scan.simps [of _ "()" s] scan_round_def)
    next
      case (Some t)
      then have "window s \<noteq> []" by (auto dest: trimWhitespaces_piece simp: piece_def)
      then show ?thesis using True split Some by (auto simp: all scan.simps [of _ "()" s] scan_round_def)
    qed
  next
    case False
    obtain s3 src3 where more: "scan conn_split () s src = scan conn_split () s3 src3"
      "unread s3 src3 = unread s src" "roomy s3 src3" "max_token s3 = max_token s"
      "length (remaining src3) + (if at_end s3 then 0 else 1) < length (remaining src) + (1::nat)"
      by (rule conn_lines.scan_more_tail [OF TrueI w(1) False less.prems(3) w(2) less.prems(4)]) (rule that, simp_all)
    show ?thesis unfolding more(1) more(2) [symmetric]
      by (rule less.hyps) (use more False less.prems in simp_all)
  qed
qed

lemma scan_finished: "window s = [] \<Longrightarrow> at_end s \<Longrightarrow> scan conn_split () s src = Stopped None () (s\<lparr>window := [], w_start := 0\<rparr>) src"
  by (simp add: scan.simps [of _ "()" s] scan_round_def plain_split_def newline_split_def)

lemma conn_loop_lines:
  "unread s src = text_of ls @ rst \<Longrightarrow> \<forall>l \<in> set ls. plain_line (max_token s) l \<Longrightarrow>
   LF \<notin> set rst \<Longrightarrow> length rst < max 16384 (max_token s) \<Longrightarrow> roomy s src \<Longrightarrow>
   settled s src \<Longrightarrow>
   \<exists>u src' err. read_loop conn_split () s src toks =
     Some (toks @ map (the \<circ> line_token) ls @ (case trimWhitespaces rst of None \<Rightarrow> [] | Some t \<Rightarrow> [t]), u, src', err)"
proof (induction ls arbitrary: s src toks)
  case Nil
  note settled = Nil.prems(6)
  have un: "unread s src = rst" using Nil.prems(1) by simp
  have flush: "case trimWhitespaces rst of
      None \<Rightarrow> \<exists>s' src'. scan conn_split () s src = Stopped None () s' src'
    | Some t \<Rightarrow> \<exists>s' src'. scan conn_split () s src = Scanned t () s' src' \<and> window s' = [] \<and> at_end s'"
    using scan_flush [of s src] Nil.prems(3-5) conn_no_panic [OF settled] unfolding un by simp
  show ?case
  proof (cases "trimWhitespaces rst")
    case None
    then show ?thesis using flush by (auto simp: read_loop.simps [of _ "()" s])
  next
    case (Some t)
    then obtain s' src' where "scan conn_split () s src = Scanned t () s' src'" "window s' = []" "at_end s'"
      using flush by auto
    then show ?thesis using Some
      by (simp add: read_loop.simps [of _ "()" s] read_loop.simps [of _ "()" s'] scan_finished)
  qed
next
  case (Cons l ls)
  note settled = Cons.prems(6)
  have l: "LF \<notin> set l" "length l < max 16384 (max_token s)" "line_token l \<noteq> None"
    using Cons.prems(2) by (auto simp: plain_line_def)
  then obtain t where t: "line_token l = Some t" by blast
  have un: "unread s src = l @ LF # (text_of ls @ rst)" using Cons.prems(1) by simp
  obtain s' src' where n: "scan conn_split () s src = Scanned t () s' src'"
    "unread s' src' = text_of ls @ rst" "roomy s' src'" "max_token s' = max_token s"
    using conn_lines.scan_line [OF TrueI un l(1,2) Cons.prems(5) conn_no_panic [OF settled] t] by auto
  let ?src = "src'\<lparr>read_offset := scan_pos s'\<rparr>"
  have "settled s' ?src"
    using conn_tokens.scan_settled [where f = "()" and s = s and src = src] settled n(1) by simp
  then obtain u src2 err where
    "read_loop conn_split () s' ?src (toks @ [t]) =
       Some ((toks @ [t]) @ map (the \<circ> line_token) ls @ (case trimWhitespaces rst of None \<Rightarrow> [] | Some t \<Rightarrow> [t]), u, src2, err)"
    using Cons.IH [of s' ?src "toks @ [t]"] n Cons.prems by (auto simp: unread_def roomy_def)
  then show ?case using n(1) t by (simp add: read_loop.simps [of _ "()" s])
qed

definition rest_token :: "string \<Rightarrow> string list" where
  "rest_token rst = (case trimWhitespaces rst of None \<Rightarrow> [] | Some t \<Rightarrow> [t])"

lemma connection_lines:
  assumes "\<forall>l \<in> set ls. plain_line m l" "LF \<notin> set rst" "length rst < m" "16384 \<le> m"
  shows "connection_tokens (newline_split [LF] [CR] True) m pieces (text_of ls @ rst) =
    Some (map (the \<circ> line_token) ls @ rest_token rst)"
proof -
  let ?s = "NewScanner m" and ?src = "connection_source pieces (text_of ls @ rst)"
  have "settled ?s ?src" by (simp add: settled_def connection_source_def)
  moreover have "unread ?s ?src = text_of ls @ rst" "roomy ?s ?src"
    using assms(4) by (simp_all add: unread_def roomy_def NewScanner_def connection_source_def)
  moreover have "max_token ?s = m" by (simp add: NewScanner_def)
  ultimately show ?thesis
    using conn_loop_lines [of ?s ?src ls rst "[]"] assms
    by (auto simp: connection_tokens_def rest_token_def)
qed

lemma utf8_getSplitFunc:
  assumes "encodingOverrides (to_lower e) = Some UTF8" "EncodingConfig_Build iana e = Inr enc"
    "getSplitFunc re NewMultilineConfig enc True False n = Inr (f, forced)"
  shows "f = newline_split [LF] [CR] True"
proof -
  have "enc = \<lparr>is_nop = False, encode = Inr\<rparr>" using assms(1,2) by (simp add: EncodingConfig_Build_def lookupEncoding_def)
  then show ?thesis using assms(3)
    by (simp add: getSplitFunc_def NewMultilineConfig_def NewNewlineSplitFunc_def encodedNewline_def encodedCarriageReturn_def Let_def)
qed

lemma TCP_Build_facts:
  assumes "TCPInputConfig_Build env has_logger c = Inr t" "tcpMultiline (TCPBase c) = NewMultilineConfig"
    "encodingOverrides (to_lower (tcpEncoding (TCPBase c))) = Some UTF8"
  shows "tcp_splitFunc t = newline_split [LF] [CR] True" "65536 \<le> tcp_MaxLogSize t"
  using assms utf8_getSplitFunc [OF assms(3)]
  by (auto simp: TCPInputConfig_Build_def Let_def TCPInput.defs InputOperator.defs minMaxLogSize_def DefaultMaxLogSize_def
      split: sum.splits option.splits if_splits prod.splits)

text \<open>
  C9: a TCP input that splits at newlines turns what a peer sends into the messages of its lines, in
  order and each once, however the bytes are cut into pieces on their way, and whether or not the last
  line ends.  Lines must fit into the configured size and not be blank.
\<close>

theorem tcp_lines:
  assumes build: "TCPInputConfig_Build env has_logger c = Inr t" "tcpMultiline (TCPBase c) = NewMultilineConfig"
    "encodingOverrides (to_lower (tcpEncoding (TCPBase c))) = Some UTF8"
    and lines: "\<forall>l \<in> set ls. LF \<notin> set l \<and> length l < tcp_MaxLogSize t \<and> line_token l \<noteq> None"
    and rest: "LF \<notin> set rst" "length rst < tcp_MaxLogSize t"
  shows "tcp_goHandleMessages nt t remote here pieces (text_of ls @ rst) =
    tcp_messages nt t remote here (map (the \<circ> line_token) ls @ rest_token rst)"
proof -
  note t = TCP_Build_facts [OF build]
  have "\<forall>l \<in> set ls. plain_line (tcp_MaxLogSize t) l" using lines t(2) by (auto simp: plain_line_def)
  then show ?thesis
    using connection_lines [of ls "tcp_MaxLogSize t" rst pieces] rest t by (simp add: tcp_goHandleMessages_def)
qed

text \<open>A network without names, in which every address resolves and decoding does nothing.\<close>

definition sample_net :: net_env where
  "sample_net = \<lparr>net_compile = \<lambda>_. Inr (\<lambda>_. Inr VNil), net_regexp = \<lambda>_. Inr (\<lambda>_. None), net_iana = \<lambda>_. Inr None,
     resolve_address = Inr, load_tls = None, decoder_of = \<lambda>_. Inr\<rparr>"

definition sample_tcp :: TCPBaseConfig where
  "sample_tcp = \<lparr>tcpMaxLogSize = 0, tcpListenAddress = ''h:1'', tcpTLS = False, tcpAddAttributes = False,
     tcpEncoding = ''utf-8'', tcpMultiline = NewMultilineConfig\<rparr>"

lemma utf8_known: "encodingOverrides (to_lower ''utf-8'') = Some UTF8"
proof -
  have "to_lower ''utf-8'' = ''utf-8''" by code_simp
  then show ?thesis by (simp add: encodingOverrides_def)
qed

lemma utf8_split:
  "EncodingConfig_Build iana ''utf-8'' = Inr \<lparr>is_nop = False, encode = Inr\<rparr>"
  "getSplitFunc re NewMultilineConfig \<lparr>is_nop = False, encode = Inr\<rparr> True False n = Inr (newline_split [LF] [CR] True, False)"
  by (simp_all add: EncodingConfig_Build_def lookupEncoding_def utf8_known getSplitFunc_def NewMultilineConfig_def
      NewNewlineSplitFunc_def encodedNewline_def encodedCarriageReturn_def Let_def)

lemma bare_input_build:
  "t \<noteq> [] \<Longrightarrow> cfgOperatorType c = t \<Longrightarrow> cfgAttributes c = [] \<Longrightarrow> cfgResource c = [] \<Longrightarrow> \<exists>i. InputConfig_Build compile True c = Inr i"
  by (simp add: InputConfig_Build_def WriterConfig_Build_def BasicConfig_Build_def Let_def
      AttributerConfig_Build_def IdentifierConfig_Build_def)

lemma sample_tcp_build:
  "\<exists>t. TCPInputConfig_Build sample_net True ((NewTCPInputConfig i)\<lparr>TCPBase := sample_tcp\<rparr>) = Inr t \<and> tcp_MaxLogSize t = 1048576"
proof -
  let ?c = "(NewTCPInputConfig i)\<lparr>TCPBase := sample_tcp\<rparr>"
  have c: "TCPBase ?c = sample_tcp" "cfgOperatorType ?c = ''tcp_input''" "cfgAttributes ?c = []" "cfgResource ?c = []"
    by (simp_all add: NewTCPInputConfig_def NewInputConfig_def NewWriterConfig_def NewBasicConfig_def BasicConfig.defs
        WriterConfig.defs InputConfig.defs TCPInputConfig.defs)
  obtain b where "InputConfig_Build (net_compile sample_net) True ?c = Inr b"
    using bare_input_build [OF _ c(2-4), of "net_compile sample_net"] by auto
  moreover have "tcpMaxLogSize sample_tcp = 0" "tcpListenAddress sample_tcp = ''h:1''" "tcpTLS sample_tcp = False"
    "tcpAddAttributes sample_tcp = False" "tcpEncoding sample_tcp = ''utf-8''" "tcpMultiline sample_tcp = NewMultilineConfig"
    by (simp_all add: sample_tcp_def)
  moreover have "resolve_address sample_net ''h:1'' = Inr ''h:1''" by (simp add: sample_net_def)
  moreover note parts = calculation
  have size: "\<not> DefaultMaxLogSize < minMaxLogSize" "nat DefaultMaxLogSize = 1048576"
    by (simp_all add: DefaultMaxLogSize_def minMaxLogSize_def)
  have addr: "''h:1'' \<noteq> []" by simp
  have eq: "TCPInputConfig_Build sample_net True ?c =
      Inr (InputOperator.extend b (TCPInput.fields ''h:1'' 1048576 (newline_split [LF] [CR] True)
        (decoder_of sample_net ''utf-8'') (resolver_for False) False))"
    by (simp only: TCPInputConfig_Build_def Let_def c(1) parts size addr utf8_split sum.case prod.case option.case if_True if_False
        simp_thms refl)
  have sel: "tcp_MaxLogSize (InputOperator.extend b (TCPInput.fields a n f d r tls)) = n" for a n f d r tls
    by (simp add: InputOperator.defs TCPInput.defs)
  show ?thesis by (rule exI, rule conjI [OF eq sel])
qed

lemma sample_tcp_config:
  "tcpMultiline (TCPBase ((NewTCPInputConfig i)\<lparr>TCPBase := sample_tcp\<rparr>)) = NewMultilineConfig"
  "encodingOverrides (to_lower (tcpEncoding (TCPBase ((NewTCPInputConfig i)\<lparr>TCPBase := sample_tcp\<rparr>)))) = Some UTF8"
  by (simp_all add: sample_tcp_def utf8_known)

lemma sample_lines:
  "\<forall>l \<in> set [''ab'', ''c'']. LF \<notin> set l \<and> length l < 1048576 \<and> line_token l \<noteq> None"
  "LF \<notin> set ''d''" "length ''d'' < 1048576"
  "map (the \<circ> line_token) [''ab'', ''c''] @ rest_token ''d'' = [''ab'', ''c'', ''d'']"
proof -
  have "\<forall>l \<in> set [''ab'', ''c'']. LF \<notin> set l \<and> length l < 3 \<and> line_token l \<noteq> None" by code_simp
  then show "\<forall>l \<in> set [''ab'', ''c'']. LF \<notin> set l \<and> length l < 1048576 \<and> line_token l \<noteq> None" by fastforce
  show "length ''d'' < 1048576" by simp
  show "LF \<notin> set ''d''" by code_simp
  show "map (the \<circ> line_token) [''ab'', ''c''] @ rest_token ''d'' = [''ab'', ''c'', ''d'']" by code_simp
qed

theorem tcp_lines_witness:
  "\<exists>t :: TCPInput. \<forall>nt. tcp_goHandleMessages nt t None None [0, 0, 2] (text_of [''ab'', ''c''] @ ''d'') =
     tcp_messages nt t None None [''ab'', ''c'', ''d'']"
proof -
  obtain t where t: "TCPInputConfig_Build sample_net True ((NewTCPInputConfig ''t'')\<lparr>TCPBase := sample_tcp\<rparr>) = Inr t"
    "tcp_MaxLogSize t = 1048576" using sample_tcp_build by blast
  show ?thesis
    by (rule exI [of _ t], rule allI, rule tcp_lines [OF t(1) sample_tcp_config, unfolded t(2), OF sample_lines(1-3), unfolded sample_lines(4)])
qed

section \<open>Datagrams\<close>

lemma datagram_token:
  assumes "length msg < MaxUDPSize"
  shows "connection_tokens (NewLineEndSplitFunc (\<lambda>_. None) True) MaxUDPSize [] msg = Some (rest_token msg)"
proof -
  let ?f = "plain_split (NewLineEndSplitFunc (\<lambda>_. None) True)"
  let ?s = "NewScanner MaxUDPSize"
  let ?src = "connection_source [] msg" and ?done = "connection_source [] []"
  have big: "MaxUDPSize > 0" by (simp add: MaxUDPSize_def)
  have f: "?f () w e = ((), if w \<noteq> [] \<and> e then (length w, trimWhitespaces w, None) else (0, None, None))" for w e
    by (simp add: plain_split_def NewLineEndSplitFunc_def)
  have round0: "scan_round ?f () ?s = More () ?s" by (simp add: scan_round_def NewScanner_def)
  have room: "make_room (?s\<lparr>window := w\<rparr>) = Some (?s\<lparr>window := w\<rparr>)" if "length w < MaxUDPSize" for w
    using that by (simp add: make_room_def NewScanner_def)
  have fill_end: "fill (?s\<lparr>window := w\<rparr>) ?done = Some (?s\<lparr>window := w, at_end := True\<rparr>, ?done)" for w
    by (simp add: fill_def Reader_Read_def file_Read_def connection_source_def NewScanner_def Let_def)
  have last: "\<exists>src'. read_loop ?f () (?s\<lparr>window := w, at_end := True\<rparr>) src [] = Some (rest_token w, (), src', None)" for w src
  proof (cases "trimWhitespaces w")
    case None
    then show ?thesis
      by (auto simp: read_loop.simps [of ?f "()"] scan.simps [of ?f "()"] scan_round_def f rest_token_def NewScanner_def)
  next
    case (Some t)
    then have "w \<noteq> []" by (auto dest: trimWhitespaces_piece simp: piece_def)
    then show ?thesis using Some
      by (auto simp: read_loop.simps [of ?f "()"] scan.simps [of ?f "()"] scan_round_def f rest_token_def NewScanner_def)
  qed
  have asks: "scan_round ?f () (?s\<lparr>window := w\<rparr>) = More () (?s\<lparr>window := w\<rparr>)" for w
    by (simp add: scan_round_def NewScanner_def f)
  have size: "buf_size ?s = MaxUDPSize" "w_start ?s = 0" "window ?s = []" by (simp_all add: NewScanner_def)
  have step: "scan ?f () (?s\<lparr>window := w\<rparr>) src =
      (case fill (?s\<lparr>window := w\<rparr>) src of None \<Rightarrow> Scan_Panic | Some (s, src) \<Rightarrow> scan ?f () s src)"
    if "length w < MaxUDPSize" for w src
    using that by (simp add: scan.simps [of ?f "()" "?s\<lparr>window := w\<rparr>"] asks room size)
  have eq: "?s = ?s\<lparr>window := []\<rparr>" by (simp add: NewScanner_def)
  have "scan ?f () ?s ?src = scan ?f () (?s\<lparr>window := msg, at_end := True\<rparr>) ?done"
  proof (cases "msg = []")
    case True
    then show ?thesis using step [of "[]"] fill_end [of "[]"] big eq by simp
  next
    case False
    have "take MaxUDPSize msg = msg" "drop MaxUDPSize msg = []" using assms by simp_all
    then have "file_Read MaxUDPSize ?src = (msg, ?done)"
      by (simp add: file_Read_def connection_source_def)
    then have "Reader_Read MaxUDPSize ?src = Some (msg, ?done)"
      by (simp add: Reader_Read_def) (simp add: connection_source_def)
    then have "fill ?s ?src = Some (?s\<lparr>window := msg\<rparr>, ?done)"
      using False by (simp add: fill_def NewScanner_def)
    then show ?thesis using step [of "[]"] step [of msg] fill_end [of msg] assms big eq by simp
  qed
  then have "read_loop ?f () ?s ?src [] = read_loop ?f () (?s\<lparr>window := msg, at_end := True\<rparr>) ?done []"
    by (simp add: read_loop.simps [of ?f "()"])
  then show ?thesis using last [of msg ?done] by (auto simp: connection_tokens_def)
qed

lemma readMessage_length: "length (readMessage bytes) \<le> length bytes"
  using length_dropWhile_le [of "\<lambda>c. (of_char c :: nat) < 32" "rev (take MaxUDPSize bytes)"]
  by (simp add: readMessage_def)

text \<open>
  With the default configuration, whose expression never matches, each datagram becomes one
  message: its text without control characters and blanks at its end, none if nothing is left.
  After an error of the socket nothing is delivered any more.
\<close>

lemma udp_datagrams:
  assumes build: "UDPInputConfig_Build env has_logger c = Inr u" "udpMultiline (UDPBase c) = udpMultiline (UDPBase (NewUDPInputConfig []))"
    "encodingOverrides (to_lower (udpEncoding (UDPBase c))) = Some UTF8" "net_regexp env ''(?m).^'' = Inr (\<lambda>_. None)"
    and small: "\<forall>d \<in> set ds. length d < MaxUDPSize"
  shows "udp_goHandleMessages nt u here k r (map (\<lambda>d. Datagram d remote) ds @ ReadFromError # later) =
    handle_tokens (\<lambda>k. udp_attributes (name_service nt k) (resolver_now nt k) remote here) (udp_decoder u) nt u k
      (concat (map (rest_token \<circ> readMessage) ds)) r"
proof -
  have split: "udp_splitFunc u = NewLineEndSplitFunc (\<lambda>_. None) True"
    using build
    by (auto simp: UDPInputConfig_Build_def Let_def UDPInput.defs InputOperator.defs NewUDPInputConfig_def
        InputConfig.defs UDPInputConfig.defs EncodingConfig_Build_def lookupEncoding_def getSplitFunc_def
        split: sum.splits option.splits if_splits prod.splits)
  have append: "handle_tokens add dec nt u k (xs @ ys) r =
      (case handle_tokens add dec nt u k xs r of None \<Rightarrow> None
       | Some (sent, r) \<Rightarrow> map_option (apfst ((@) sent)) (handle_tokens add dec nt u (k + length xs) ys r))" for add dec k xs ys r
    by (induction xs arbitrary: k r) (auto split: option.splits simp: option.map_comp comp_def apfst_def map_prod_def option.map_ident option.map_id
        intro: option.map_cong)
  show ?thesis using small
  proof (induction ds arbitrary: k r)
    case (Cons d ds)
    have "length (readMessage d) < MaxUDPSize" using Cons.prems readMessage_length [of d] by simp
    from datagram_token [OF this] show ?case using Cons by (simp add: split append split: option.splits)
  qed simp
qed

definition sample_udp :: UDPBaseConfig where
  "sample_udp = \<lparr>udpListenAddress = ''h:1'', udpAddAttributes = False, udpEncoding = ''utf-8'',
     udpMultiline = \<lparr>LineStartPattern = [], LineEndPattern = ''.^''\<rparr>\<rparr>"

lemma never_split:
  "getSplitFunc (net_regexp sample_net) \<lparr>LineStartPattern = [], LineEndPattern = ''.^''\<rparr> \<lparr>is_nop = False, encode = Inr\<rparr> True False n =
     Inr (NewLineEndSplitFunc (\<lambda>_. None) True, False)"
  by (simp add: getSplitFunc_def sample_net_def)

lemma sample_udp_build:
  "\<exists>u. UDPInputConfig_Build sample_net True ((NewUDPInputConfig i)\<lparr>UDPBase := sample_udp\<rparr>) = Inr u"
proof -
  let ?c = "(NewUDPInputConfig i)\<lparr>UDPBase := sample_udp\<rparr>"
  have c: "UDPBase ?c = sample_udp" "cfgOperatorType ?c = ''udp_input''" "cfgAttributes ?c = []" "cfgResource ?c = []"
    by (simp_all add: NewUDPInputConfig_def NewInputConfig_def NewWriterConfig_def NewBasicConfig_def BasicConfig.defs
        WriterConfig.defs InputConfig.defs UDPInputConfig.defs)
  obtain b where b: "InputConfig_Build (net_compile sample_net) True ?c = Inr b"
    using bare_input_build [OF _ c(2-4), of "net_compile sample_net"] by auto
  have u: "udpListenAddress sample_udp = ''h:1''" "udpEncoding sample_udp = ''utf-8''"
    "udpMultiline sample_udp = \<lparr>LineStartPattern = [], LineEndPattern = ''.^''\<rparr>"
    by (simp_all add: sample_udp_def)
  have a: "resolve_address sample_net ''h:1'' = Inr ''h:1''" "''h:1'' \<noteq> []" by (simp_all add: sample_net_def)
  show ?thesis
    by (simp only: UDPInputConfig_Build_def Let_def c(1) b u a utf8_split never_split sum.case prod.case if_True if_False
        simp_thms sum.inject)
qed

lemma udp_datagrams_witness:
  "\<exists>u :: UDPInput. udp_goHandleMessages nt u None 0 None [Datagram [CHR ''a'', LF] None, Datagram [LF] None, ReadFromError, Datagram ''b'' None]
     = handle_tokens (\<lambda>k. udp_attributes (name_service nt k) (resolver_now nt k) None None) (udp_decoder u) nt u 0 [''a''] None"
proof -
  let ?c = "(NewUDPInputConfig ''u'')\<lparr>UDPBase := sample_udp\<rparr>"
  obtain u where u: "UDPInputConfig_Build sample_net True ?c = Inr u" using sample_udp_build by blast
  have c: "udpMultiline (UDPBase ?c) = udpMultiline (UDPBase (NewUDPInputConfig []))"
    "encodingOverrides (to_lower (udpEncoding (UDPBase ?c))) = Some UTF8" "net_regexp sample_net ''(?m).^'' = Inr (\<lambda>_. None)"
    by (simp_all add: sample_udp_def utf8_known NewUDPInputConfig_def InputConfig.defs UDPInputConfig.defs sample_net_def)
  have small: "\<forall>d \<in> set [[CHR ''a'', LF], [LF]]. length d < MaxUDPSize" by (simp add: MaxUDPSize_def)
  have take: "take MaxUDPSize [CHR ''a'', LF] = [CHR ''a'', LF]" "take MaxUDPSize [LF] = [LF]"
    by (simp_all add: MaxUDPSize_def)
  have "rest_token (rev (dropWhile (\<lambda>c. (of_char c :: nat) < 32) (rev [CHR ''a'', LF]))) = [''a'']"
    "rest_token (rev (dropWhile (\<lambda>c. (of_char c :: nat) < 32) (rev [LF]))) = []" by code_simp+
  then have "concat (map (rest_token \<circ> readMessage) [[CHR ''a'', LF], [LF]]) = [''a'']"
    by (simp add: readMessage_def take del: rev.simps)
  with udp_datagrams [OF u c small, of nt None 0 None None "[Datagram ''b'' None]"] show ?thesis
    by (intro exI [of _ u]) simp
qed

section \<open>A syslog input\<close>









end
