(* ===== verification/Journald.thy ===== *)
theory Journald
  imports Parser_Operators Persisters
begin

text \<open>
  The journald input: \<open>operator/input/journald/journald.go\<close>.

  The program \<open>journalctl\<close> is a parameter: what it writes to its standard output, given its arguments.
  So are the JSON decoder and the persister.  The texts of errors that \<open>strconv\<close> and the decoder add
  are parameters as well; such errors are only logged.
\<close>

section \<open>Configuration\<close>

record JournaldInputConfig = InputConfig +
  jdDirectory :: "string option"
  jdFiles :: "string list"
  jdStartAt :: string
  jdUnits :: "string list"
  jdPriority :: string

definition NewJournaldInputConfig :: "string \<Rightarrow> JournaldInputConfig" where
  "NewJournaldInputConfig operatorID =
     InputConfig.extend (NewInputConfig operatorID ''journald_input'') (JournaldInputConfig.fields None [] ''end'' [] ''info'')"

record JournaldInput = InputOperator +
  jd_args :: "string list"

definition journald_args :: "'a JournaldInputConfig_scheme \<Rightarrow> gerror + string list" where
  "journald_args c =
     (if jdStartAt c \<noteq> ''end'' \<and> jdStartAt c \<noteq> ''beginning''
      then Inl (StdError (''invalid value '' @ quoted (jdStartAt c) @ '' for parameter '' @ quoted ''start_at''))
      else Inr ([''--utc'', ''--output=json'', ''--follow'']
        @ (if jdStartAt c = ''beginning'' then [''--no-tail''] else [])
        @ concat (map (\<lambda>unit. [''--unit'', unit]) (jdUnits c))
        @ [''--priority'', jdPriority c]
        @ (case jdDirectory c of
             Some directory \<Rightarrow> [''--directory'', directory]
           | None \<Rightarrow> concat (map (\<lambda>file. [''--file'', file]) (jdFiles c)))))"

definition JournaldInputConfig_Build :: "compiler \<Rightarrow> bool \<Rightarrow> 'a JournaldInputConfig_scheme \<Rightarrow> gerror + JournaldInput" where
  "JournaldInputConfig_Build compile has_logger c =
     (case InputConfig_Build compile has_logger c of
        Inl err \<Rightarrow> Inl err
      | Inr inputOperator \<Rightarrow>
     (case journald_args c of
        Inl err \<Rightarrow> Inl err
      | Inr args \<Rightarrow> Inr (InputOperator.extend inputOperator (JournaldInput.fields args))))"

text \<open>The command; its arguments are appended to in place, so that a cursor stays among them.\<close>

definition newCmd :: "string option \<Rightarrow> 'a JournaldInput_scheme \<Rightarrow> 'a JournaldInput_scheme" where
  "newCmd cursor op =
     (case cursor of
        None \<Rightarrow> op
      | Some c \<Rightarrow> op\<lparr>jd_args := jd_args op @ [''--after-cursor'', c]\<rparr>)"

section \<open>Entries\<close>

record journal_env =
  json_object :: "string \<Rightarrow> gerror + gval gomap"
  number_error :: "string \<Rightarrow> string"
  journal_now :: "nat \<Rightarrow> gtime"

text \<open>The stamp counts microseconds; the product wraps around.\<close>

definition parseJournalEntry ::
  "journal_env \<Rightarrow> gtime \<Rightarrow> 'a JournaldInput_scheme \<Rightarrow> string \<Rightarrow> (gerror + entry \<times> string) option" where
  "parseJournalEntry env now op line =
     (case json_object env line of
        Inl err \<Rightarrow> Some (Inl err)
      | Inr body \<Rightarrow>
     (case fmlookup body ''__REALTIME_TIMESTAMP'' of
        None \<Rightarrow> Some (Inl (StdError ''journald body missing __REALTIME_TIMESTAMP field''))
      | Some (VString timestampString) \<Rightarrow>
          (case parse_int timestampString of
             None \<Rightarrow> Some (Inl (StdError (''parse timestamp: '' @ number_error env timestampString)))
           | Some timestampInt \<Rightarrow>
               (let body = fmdrop ''__REALTIME_TIMESTAMP'' body in
                case fmlookup body ''__CURSOR'' of
                  None \<Rightarrow> Some (Inl (StdError ''journald body missing __CURSOR field''))
                | Some (VString cursorString) \<Rightarrow>
                    (case NewEntry now op (VMap body) of
                       None \<Rightarrow> None
                     | Some (Inl err) \<Rightarrow> Some (Inl (StdError (''failed to create entry: '' @ error_text err)))
                     | Some (Inr e) \<Rightarrow>
                         Some (Inr (e\<lparr>Timestamp := time_unix 0 (sint (timestampInt * 1000))\<rparr>, cursorString)))
                | Some _ \<Rightarrow> Some (Inl (StdError ''journald field for cursor is not a string''))))
      | Some _ \<Rightarrow> Some (Inl (StdError ''journald field for timestamp is not a string''))))"

section \<open>Reading\<close>

text \<open>\<open>ReadBytes\<close> gives each line with its newline; what is left without one when the pipe closes is dropped.\<close>

fun read_lines :: "string \<Rightarrow> string \<Rightarrow> string list" where
  "read_lines acc [] = []"
| "read_lines acc (c # cs) = (if c = LF then (acc @ [LF]) # read_lines [] cs else read_lines (acc @ [c]) cs)"

record 's journal_store =
  cursor_get :: "'s \<Rightarrow> string \<Rightarrow> gerror + string option"
  cursor_set :: "'s \<Rightarrow> string \<Rightarrow> string \<Rightarrow> 's \<times> gerror option"

definition lastReadCursorKey :: string where
  "lastReadCursorKey = ''lastReadCursor''"

text \<open>
  The loop over the lines, the cursor being stored before its entry is written.  The result is what
  was sent, and the store.  \<open>dies\<close> is the number of the line between whose store and write the agent
  ends, if it does.
\<close>

fun journal_loop ::
  "journal_env \<Rightarrow> ('s, 'b) journal_store_scheme \<Rightarrow> 'a JournaldInput_scheme \<Rightarrow> nat option \<Rightarrow> nat \<Rightarrow> 's \<Rightarrow> string list
    \<Rightarrow> ((opref \<times> entry) list \<times> 's) option" where
  "journal_loop env st op dies k s [] = Some ([], s)"
| "journal_loop env st op dies k s (line # lines) =
     (case parseJournalEntry env (journal_now env k) op line of
        None \<Rightarrow> None
      | Some (Inl err) \<Rightarrow> journal_loop env st op dies (Suc k) s lines
      | Some (Inr (e, cursor)) \<Rightarrow>
          (case cursor_set st s lastReadCursorKey cursor of
             (s, err) \<Rightarrow>
               if dies = Some k then Some ([], s)
               else map_option (apfst ((@) (Write op e))) (journal_loop env st op dies (Suc k) s lines)))"

text \<open>
  \<open>pipe\<close> and \<open>start\<close> are the errors of the command's \<open>StdoutPipe\<close> and \<open>Start\<close>, \<open>output\<close> is all that it
  writes with these arguments until it is stopped.
\<close>

definition JournaldInput_Start ::
  "journal_env \<Rightarrow> ('s, 'b) journal_store_scheme \<Rightarrow> gerror option \<Rightarrow> gerror option \<Rightarrow> (string list \<Rightarrow> string) \<Rightarrow> nat option
    \<Rightarrow> 'a JournaldInput_scheme \<Rightarrow> 's \<Rightarrow> (gerror + (opref \<times> entry) list \<times> 'a JournaldInput_scheme \<times> 's) option" where
  "JournaldInput_Start env st pipe start output dies op s =
     (case cursor_get st s lastReadCursorKey of
        Inl err \<Rightarrow> Some (Inl (StdError (''failed to get journalctl state: '' @ error_text err)))
      | Inr cursor \<Rightarrow>
     (let op = newCmd cursor op in
      case pipe of
        Some err \<Rightarrow> Some (Inl (StdError (''failed to get journalctl stdout: '' @ error_text err)))
      | None \<Rightarrow>
     (case start of
        Some err \<Rightarrow> Some (Inl (StdError (''start journalctl: '' @ error_text err)))
      | None \<Rightarrow>
          map_option (\<lambda>(sent, s). Inr (sent, op, s))
            (journal_loop env st op dies 0 s (read_lines [] (output (jd_args op)))))))"

end
