(* ===== verification/Journald_Laws.thy ===== *)
theory Journald_Laws
  imports Journald "HOL-Library.Sublist"
begin

text \<open>
  What the journald input promises over restarts: wherever its runs are stopped, the journal is
  delivered once and in order, and an agent that dies loses at most one entry.
\<close>

section \<open>What a line holds\<close>

text \<open>The body, the time and the cursor of a line, if it has them.\<close>

definition journal_record :: "journal_env \<Rightarrow> string \<Rightarrow> (gval \<times> gtime \<times> string) option" where
  "journal_record env line =
     (case json_object env line of
        Inl err \<Rightarrow> None
      | Inr m \<Rightarrow>
     (case (fmlookup m ''__REALTIME_TIMESTAMP'', fmlookup m ''__CURSOR'') of
        (Some (VString t), Some (VString c)) \<Rightarrow>
          map_option (\<lambda>us. (VMap (fmdrop ''__REALTIME_TIMESTAMP'' m), time_unix 0 (sint (us * 1000)), c)) (parse_int t)
      | _ \<Rightarrow> None))"

abbreviation record_shape :: "gval \<times> gtime \<times> string \<Rightarrow> gval \<times> gtime" where
  "record_shape r \<equiv> (fst r, fst (snd r))"

abbreviation entry_shape :: "entry \<Rightarrow> gval \<times> gtime" where
  "entry_shape e \<equiv> (Body e, Timestamp e)"

lemma NewEntry_args [simp]: "NewEntry now (op\<lparr>jd_args := a\<rparr>) v = NewEntry now op v"
proof -
  have "in_resource (op\<lparr>jd_args := a\<rparr>) = in_resource op" by simp
  then show ?thesis unfolding NewEntry_def by (simp split: option.split prod.split)
qed

lemma Write_args [simp]: "Write (op\<lparr>jd_args := a\<rparr>) e = Write op e"
  by (simp add: Write_def)

lemma labels_args [simp]: "labels_entries (op\<lparr>jd_args := a\<rparr>) = labels_entries op"
  by (simp add: labels_entries_def)

lemma parse_record:
  assumes "labels_entries op"
  shows "case journal_record env line of
      None \<Rightarrow> \<exists>err. parseJournalEntry env now op line = Some (Inl err)
    | Some r \<Rightarrow> \<exists>e. parseJournalEntry env now op line = Some (Inr (e, snd (snd r))) \<and> entry_shape e = record_shape r"
proof (cases "journal_record env line")
  case None
  then show ?thesis
    by (auto simp: journal_record_def parseJournalEntry_def Let_def split: sum.splits option.splits gval.splits)
next
  case (Some r)
  then obtain m t c us where m: "json_object env line = Inr m" "fmlookup m ''__REALTIME_TIMESTAMP'' = Some (VString t)"
      "fmlookup m ''__CURSOR'' = Some (VString c)" "parse_int t = Some us"
      "r = (VMap (fmdrop ''__REALTIME_TIMESTAMP'' m), time_unix 0 (sint (us * 1000)), c)"
    by (auto simp: journal_record_def split: sum.splits option.splits gval.splits)
  obtain e where e: "NewEntry now op (VMap (fmdrop ''__REALTIME_TIMESTAMP'' m)) = Some (Inr e)"
    using assms by (auto simp: labels_entries_def)
  show ?thesis using Some m e NewEntry_body [OF e] by (simp add: parseJournalEntry_def)
qed

abbreviation records :: "journal_env \<Rightarrow> string list \<Rightarrow> (gval \<times> gtime \<times> string) list" where
  "records env \<equiv> List.map_filter (journal_record env)"

lemma map_filter_append: "List.map_filter f (xs @ ys) = List.map_filter f xs @ List.map_filter f ys"
  by (simp add: List.map_filter_def)

lemma last_record:
  "List.map_filter f ls \<noteq> [] \<Longrightarrow>
   \<exists>i < length ls. f (ls ! i) = Some (last (List.map_filter f ls)) \<and> List.map_filter f (drop (Suc i) ls) = []"
proof (induction ls rule: rev_induct)
  case Nil then show ?case by (simp add: List.map_filter_simps)
next
  case (snoc l ls)
  show ?case
  proof (cases "f l")
    case None
    then have "List.map_filter f (ls @ [l]) = List.map_filter f ls" by (simp add: map_filter_append List.map_filter_simps)
    moreover from this obtain i where "i < length ls" "f (ls ! i) = Some (last (List.map_filter f ls))"
      "List.map_filter f (drop (Suc i) ls) = []" using snoc by auto
    ultimately show ?thesis using None
      by (intro exI [of _ i]) (simp add: nth_append map_filter_append List.map_filter_simps)
  next
    case (Some r)
    then show ?thesis by (intro exI [of _ "length ls"]) (simp add: map_filter_append List.map_filter_simps)
  qed
qed

section \<open>Lines\<close>

definition is_line :: "string \<Rightarrow> bool" where
  "is_line l \<longleftrightarrow> (\<exists>w. LF \<notin> set w \<and> l = w @ [LF])"

lemma read_lines_line: "LF \<notin> set w \<Longrightarrow> read_lines acc (w @ LF # rest) = (acc @ w @ [LF]) # read_lines [] rest"
  by (induction w arbitrary: acc) auto

lemma read_lines_tail: "LF \<notin> set w \<Longrightarrow> read_lines acc w = []"
  by (induction w arbitrary: acc) auto

text \<open>Output that is cut off gives a prefix of the lines.\<close>

lemma read_lines_cut:
  "\<forall>l \<in> set ls. is_line l \<Longrightarrow>
   \<exists>k \<le> length ls. read_lines [] (take n (concat ls)) = take k ls \<and> (length (concat ls) \<le> n \<longrightarrow> k = length ls)"
proof (induction ls arbitrary: n)
  case Nil then show ?case by simp
next
  case (Cons l ls)
  then obtain w where w: "LF \<notin> set w" "l = w @ [LF]" by (auto simp: is_line_def)
  show ?case
  proof (cases "length l \<le> n")
    case True
    obtain k where "k \<le> length ls" "read_lines [] (take (n - length l) (concat ls)) = take k ls"
      "length (concat ls) \<le> n - length l \<longrightarrow> k = length ls" using Cons.IH [of "n - length l"] Cons.prems by auto
    moreover have "take n (concat (l # ls)) = w @ LF # take (n - length l) (concat ls)"
      using True w by (simp add: take_Cons')
    ultimately show ?thesis using True w by (intro exI [of _ "Suc k"]) (auto simp: read_lines_line)
  next
    case False
    then have "take n (concat (l # ls)) = take n w" using w by simp
    moreover have "LF \<notin> set (take n w)" using w by (meson in_set_takeD)
    ultimately show ?thesis using False by (intro exI [of _ 0]) (simp add: read_lines_tail)
  qed
qed

section \<open>Runs\<close>

text \<open>
  What \<open>journalctl\<close> prints for a journal that is given by its lines: all of it, or what comes after
  the line with the cursor.
\<close>

definition prints :: "journal_env \<Rightarrow> string list \<Rightarrow> string list \<Rightarrow> (string list \<Rightarrow> string) \<Rightarrow> bool" where
  "prints env journal base output \<longleftrightarrow>
     output base = concat journal \<and>
     (\<forall>i < length journal. \<forall>r. journal_record env (journal ! i) = Some r \<longrightarrow>
        output (base @ [''--after-cursor'', snd (snd r)]) = concat (drop (Suc i) journal))"

text \<open>
  Runs of the operator with restarts between them.  Each is cut off after some number of bytes of its
  input, or the agent dies in it between storing a cursor and writing its entry.
\<close>

fun journal_runs ::
  "journal_env \<Rightarrow> ('s, 'b) journal_store_scheme \<Rightarrow> (string list \<Rightarrow> string) \<Rightarrow> 'a JournaldInput_scheme \<Rightarrow> 's
    \<Rightarrow> (nat \<times> nat option) list \<Rightarrow> ((opref \<times> entry) list \<times> 's) option" where
  "journal_runs env st output op s [] = Some ([], s)"
| "journal_runs env st output op s ((n, dies) # ns) =
     (case JournaldInput_Start env st None None (\<lambda>args. take n (output args)) dies op s of
        None \<Rightarrow> None
      | Some (Inl err) \<Rightarrow> journal_runs env st output op s ns
      | Some (Inr (sent, _, s)) \<Rightarrow> map_option (apfst ((@) sent)) (journal_runs env st output op s ns))"

context persister
begin

abbreviation store :: "'s journal_store" where
  "store \<equiv> \<lparr>cursor_get = get, cursor_set = put\<rparr>"

lemma journal_loop_records:
  assumes "labels_entries op" and puts: "\<And>s k v. snd (put s k v) = None"
  shows "\<exists>es s' m d. journal_loop env store op dies k s ls = Some (concat (map (Write op) es), s') \<and>
    m \<le> length ls \<and> (dies = None \<longrightarrow> m = length ls \<and> \<not> d) \<and> (d \<longrightarrow> records env (take m ls) \<noteq> []) \<and>
    map entry_shape es = map record_shape ((if d then butlast else id) (records env (take m ls))) \<and>
    (if records env (take m ls) = [] then s' = s
     else get s' lastReadCursorKey = Inr (Some (snd (snd (last (records env (take m ls)))))))"
proof (induction ls arbitrary: k s)
  case Nil
  have "journal_loop env store op dies k s [] = Some (concat (map (Write op) []), s)" by simp
  then show ?case
    by (intro exI [of _ "[]"] exI [of _ s] exI [of _ 0] exI [of _ False]) (simp add: List.map_filter_simps)
next
  case (Cons l ls)
  show ?case
  proof (cases "journal_record env l")
    case None
    then obtain err where parse: "parseJournalEntry env (journal_now env k) op l = Some (Inl err)"
      using parse_record [OF assms(1), of env "journal_now env k" l] by auto
    then have loop: "journal_loop env store op dies k s (l # ls) = journal_loop env store op dies (Suc k) s ls" by simp
    have skip: "records env (take (Suc m) (l # ls)) = records env (take m ls)" for m
      using None by (simp add: List.map_filter_simps)
    obtain es s' m d where "journal_loop env store op dies (Suc k) s ls = Some (concat (map (Write op) es), s')"
        "m \<le> length ls" "dies = None \<longrightarrow> m = length ls \<and> \<not> d" "d \<longrightarrow> records env (take m ls) \<noteq> []"
        "map entry_shape es = map record_shape ((if d then butlast else id) (records env (take m ls)))"
        "if records env (take m ls) = [] then s' = s
         else get s' lastReadCursorKey = Inr (Some (snd (snd (last (records env (take m ls))))))"
      using Cons.IH [of "Suc k" s] by blast
    then show ?thesis unfolding loop
      by (intro exI [of _ es] exI [of _ s'] exI [of _ "Suc m"] exI [of _ d]) (simp only: skip, simp)
  next
    case (Some r)
    then obtain e where e: "parseJournalEntry env (journal_now env k) op l = Some (Inr (e, snd (snd r)))"
        "entry_shape e = record_shape r"
      using parse_record [OF assms(1), of env "journal_now env k" l] by auto
    obtain s1 where s1: "put s lastReadCursorKey (snd (snd r)) = (s1, None)"
      using puts [of s lastReadCursorKey "snd (snd r)"] by (metis prod.collapse)
    have first: "records env (take (Suc m) (l # ls)) = r # records env (take m ls)" for m
      using Some by (simp add: List.map_filter_simps)
    show ?thesis
    proof (cases "dies = Some k")
      case True
      then have "journal_loop env store op dies k s (l # ls) = Some (concat (map (Write op) []), s1)" using e s1 by simp
      then show ?thesis using True get_put [OF s1] first [of 0]
        by (intro exI [of _ "[]"] exI [of _ s1] exI [of _ 1] exI [of _ True]) (simp add: List.map_filter_simps)
    next
      case False
      obtain es s' m d where es: "journal_loop env store op dies (Suc k) s1 ls = Some (concat (map (Write op) es), s')"
          "m \<le> length ls" "dies = None \<longrightarrow> m = length ls \<and> \<not> d" "d \<longrightarrow> records env (take m ls) \<noteq> []"
          "map entry_shape es = map record_shape ((if d then butlast else id) (records env (take m ls)))"
          "if records env (take m ls) = [] then s' = s1
           else get s' lastReadCursorKey = Inr (Some (snd (snd (last (records env (take m ls))))))"
        using Cons.IH by blast
      have "journal_loop env store op dies k s (l # ls) = Some (concat (map (Write op) (e # es)), s')"
        using e s1 es(1) False by simp
      then show ?thesis using e(2) es(2-) get_put [OF s1]
        by (intro exI [of _ "e # es"] exI [of _ s'] exI [of _ "Suc m"] exI [of _ d]) (simp only: first, auto split: if_splits)
    qed
  qed
qed

definition stands_at :: "journal_env \<Rightarrow> string list \<Rightarrow> 's \<Rightarrow> nat \<Rightarrow> bool" where
  "stands_at env journal s n \<longleftrightarrow> n \<le> length journal \<and>
     (if n = 0 then get s lastReadCursorKey = Inr None
      else \<exists>r. journal_record env (journal ! (n - 1)) = Some r \<and> get s lastReadCursorKey = Inr (Some (snd (snd r))))"

lemma journal_start_from:
  assumes "stands_at env journal s n" "prints env journal (jd_args op) output"
  shows "\<exists>op'. (\<exists>a. op' = op\<lparr>jd_args := a\<rparr>) \<and>
    JournaldInput_Start env store None None (\<lambda>args. take m (output args)) dies op s =
      map_option (\<lambda>(sent, s). Inr (sent, op', s))
        (journal_loop env store op' dies 0 s (read_lines [] (take m (concat (drop n journal)))))"
proof (cases "n = 0")
  case True
  then show ?thesis using assms
    by (intro exI [of _ op] conjI exI [of _ "jd_args op"])
      (simp_all add: stands_at_def prints_def JournaldInput_Start_def newCmd_def)
next
  case False
  then obtain r where r: "journal_record env (journal ! (n - 1)) = Some r" "n - 1 < length journal"
      "get s lastReadCursorKey = Inr (Some (snd (snd r)))"
    using assms(1) by (auto simp: stands_at_def)
  have "output (jd_args op @ [''--after-cursor'', snd (snd r)]) = concat (drop n journal)"
  proof -
    have "output (jd_args op @ [''--after-cursor'', snd (snd r)]) = concat (drop (Suc (n - 1)) journal)"
      using assms(2) r(1,2) unfolding prints_def by blast
    then show ?thesis using False by simp
  qed
  then show ?thesis using r
    by (intro exI [of _ "op\<lparr>jd_args := jd_args op @ [''--after-cursor'', snd (snd r)]\<rparr>"] conjI exI [of _ "jd_args op @ [''--after-cursor'', snd (snd r)]"])
      (simp_all add: JournaldInput_Start_def newCmd_def Let_def)
qed

text \<open>Where a run that has seen the lines \<open>ls\<close> leaves the store.\<close>

lemma stands_after:
  assumes "stands_at env journal s n" "ls = take k (drop n journal)"
    and "if records env ls = [] then s' = s else get s' lastReadCursorKey = Inr (Some (snd (snd (last (records env ls)))))"
  obtains n' where "stands_at env journal s' n'" "n \<le> n'" "records env ls = records env (take (n' - n) (drop n journal))"
    "ls = drop n journal \<Longrightarrow> records env (drop n' journal) = []"
proof (cases "records env ls = []")
  case True
  then show thesis using assms by (intro that [of n]) (simp_all add: List.map_filter_simps)
next
  case False
  obtain i where i: "i < length ls" "journal_record env (ls ! i) = Some (last (records env ls))"
    "records env (drop (Suc i) ls) = []" using last_record [OF False] by blast
  let ?n = "n + Suc i"
  have less: "i < k" "n + i < length journal" using i(1) by (auto simp: assms(2))
  then have "ls ! i = journal ! (?n - 1)" by (simp add: assms(2))
  then have stands: "stands_at env journal s' ?n" using i(2) assms(3) False less(2) by (simp add: stands_at_def)
  have split: "ls = take (Suc i) (drop n journal) @ drop (Suc i) ls"
    using less(1) unfolding assms(2) by (metis Suc_leI append_take_drop_id min.absorb1 take_take)
  have "records env ls = records env (take (Suc i) (drop n journal)) @ records env (drop (Suc i) ls)"
    by (subst split) (rule map_filter_append)
  then have "records env ls = records env (take (?n - n) (drop n journal))" using i(3) by simp
  moreover have "records env (drop ?n journal) = []" if "ls = drop n journal"
    using i(3) unfolding that by (simp add: add.commute)
  ultimately show thesis using stands by (intro that [of ?n]) simp_all
qed

lemma journal_run_from:
  assumes "stands_at env journal s n" "prints env journal (jd_args op) output"
    and "labels_entries op" "\<And>s k v. snd (put s k v) = None" "\<forall>l \<in> set journal. is_line l"
  shows "\<exists>es s' n' op' d. JournaldInput_Start env store None None (\<lambda>args. take m (output args)) dies op s =
      Some (Inr (concat (map (Write op) es), op', s')) \<and> stands_at env journal s' n' \<and> n \<le> n' \<and>
    map entry_shape es = map record_shape ((if d then butlast else id) (records env (take (n' - n) (drop n journal)))) \<and>
    (d \<longrightarrow> records env (take (n' - n) (drop n journal)) \<noteq> []) \<and>
    (dies = None \<longrightarrow> \<not> d \<and> (length (concat journal) \<le> m \<longrightarrow> records env (drop n' journal) = []))"
proof -
  obtain op' a where op': "op' = op\<lparr>jd_args := a\<rparr>" and start:
    "JournaldInput_Start env store None None (\<lambda>args. take m (output args)) dies op s =
      map_option (\<lambda>(sent, s). Inr (sent, op', s))
        (journal_loop env store op' dies 0 s (read_lines [] (take m (concat (drop n journal)))))"
    using journal_start_from [OF assms(1,2), of m dies] by blast
  have "\<forall>l \<in> set (drop n journal). is_line l" using assms(5) by (meson in_set_dropD)
  then obtain k where k: "k \<le> length (drop n journal)"
      "read_lines [] (take m (concat (drop n journal))) = take k (drop n journal)"
      "length (concat (drop n journal)) \<le> m \<longrightarrow> k = length (drop n journal)"
    using read_lines_cut by blast
  have W: "Write op' = Write op" by (rule ext) (simp add: op')
  have labels: "labels_entries op'" using assms(3) by (simp add: op')
  obtain es s' j d where es: "journal_loop env store op' dies 0 s (take k (drop n journal)) = Some (concat (map (Write op) es), s')"
      "j \<le> length (take k (drop n journal))" "dies = None \<longrightarrow> j = length (take k (drop n journal)) \<and> \<not> d"
      "d \<longrightarrow> records env (take j (take k (drop n journal))) \<noteq> []"
      "map entry_shape es = map record_shape ((if d then butlast else id) (records env (take j (take k (drop n journal)))))"
      "if records env (take j (take k (drop n journal))) = [] then s' = s
       else get s' lastReadCursorKey = Inr (Some (snd (snd (last (records env (take j (take k (drop n journal))))))))"
    using journal_loop_records [OF labels assms(4), of env dies 0 s "take k (drop n journal)", unfolded W] by blast
  let ?ls = "take j (take k (drop n journal))"
  have "?ls = take (min j k) (drop n journal)" by simp
  from stands_after [OF assms(1) this es(6)] obtain n' where n': "stands_at env journal s' n'" "n \<le> n'"
    "records env ?ls = records env (take (n' - n) (drop n journal))"
    "?ls = drop n journal \<Longrightarrow> records env (drop n' journal) = []" by blast
  have "?ls = drop n journal" if "dies = None" "length (concat journal) \<le> m"
  proof -
    have "length (concat (drop n journal)) \<le> length (concat journal)"
      by (metis append_take_drop_id concat_append length_append le_add2)
    then show ?thesis using k(3) es(3) that by simp
  qed
  then show ?thesis using start es(1,3,4,5) k(2) n'
    by (intro exI [of _ es] exI [of _ s'] exI [of _ n'] exI [of _ op'] exI [of _ d]) auto
qed

lemma journal_runs_from:
  assumes "prints env journal (jd_args op) output" "labels_entries op"
    and "\<And>s k v. snd (put s k v) = None" "\<forall>l \<in> set journal. is_line l"
  shows "stands_at env journal s n \<Longrightarrow>
    \<exists>es s' n'. journal_runs env store output op s ms = Some (concat (map (Write op) es), s') \<and>
      stands_at env journal s' n' \<and> n \<le> n' \<and>
      subseq (map entry_shape es) (map record_shape (records env (take (n' - n) (drop n journal)))) \<and>
      length (records env (take (n' - n) (drop n journal))) \<le> length es + length (filter (\<lambda>m. snd m \<noteq> None) ms) \<and>
      (ms \<noteq> [] \<and> snd (last ms) = None \<and> length (concat journal) \<le> fst (last ms) \<longrightarrow> records env (drop n' journal) = [])"
proof (induction ms arbitrary: s n)
  case Nil
  then show ?case by (intro exI [of _ "[]"] exI [of _ s] exI [of _ n]) (simp add: List.map_filter_simps)
next
  case (Cons md ms)
  obtain m dies where md: "md = (m, dies)" by (cases md)
  obtain es s1 n1 op' d where 1: "JournaldInput_Start env store None None (\<lambda>args. take m (output args)) dies op s =
        Some (Inr (concat (map (Write op) es), op', s1))" "stands_at env journal s1 n1" "n \<le> n1"
      "map entry_shape es = map record_shape ((if d then butlast else id) (records env (take (n1 - n) (drop n journal))))"
      "d \<longrightarrow> records env (take (n1 - n) (drop n journal)) \<noteq> []"
      "dies = None \<longrightarrow> \<not> d \<and> (length (concat journal) \<le> m \<longrightarrow> records env (drop n1 journal) = [])"
    using journal_run_from [OF Cons.prems assms(1,2,3,4), of m dies] by blast
  obtain fs s2 n2 where 2: "journal_runs env store output op s1 ms = Some (concat (map (Write op) fs), s2)"
      "stands_at env journal s2 n2" "n1 \<le> n2"
      "subseq (map entry_shape fs) (map record_shape (records env (take (n2 - n1) (drop n1 journal))))"
      "length (records env (take (n2 - n1) (drop n1 journal))) \<le> length fs + length (filter (\<lambda>m. snd m \<noteq> None) ms)"
      "ms \<noteq> [] \<and> snd (last ms) = None \<and> length (concat journal) \<le> fst (last ms) \<longrightarrow> records env (drop n2 journal) = []"
    using Cons.IH [OF 1(2)] by blast
  have "take (n2 - n) (drop n journal) = take (n1 - n) (drop n journal) @ take (n2 - n1) (drop n1 journal)"
    using take_add [of "n1 - n" "n2 - n1" "drop n journal"] 1(3) 2(3) by simp
  then have all: "records env (take (n2 - n) (drop n journal)) =
      records env (take (n1 - n) (drop n journal)) @ records env (take (n2 - n1) (drop n1 journal))"
    by (simp add: map_filter_append)
  let ?R = "records env (take (n1 - n) (drop n journal))"
  have "subseq (map entry_shape es) (map record_shape ?R)"
    unfolding 1(4) by (rule subseq_map) (simp add: prefix_imp_subseq prefixeq_butlast)
  then have sub: "subseq (map entry_shape (es @ fs)) (map record_shape (records env (take (n2 - n) (drop n journal))))"
    unfolding all map_append using 2(4) by (rule list_emb_append_mono)
  have "length es = length ((if d then butlast else id) ?R)" using arg_cong [OF 1(4), of length] by (simp only: length_map)
  then have "length ?R \<le> length es + (if dies = None then 0 else 1)" using 1(6) by (auto split: if_splits)
  then have len: "length (records env (take (n2 - n) (drop n journal))) \<le>
      length (es @ fs) + length (filter (\<lambda>m. snd m \<noteq> None) (md # ms))"
    using 2(5) by (auto simp: all md split: if_splits)
  have "records env (drop n2 journal) = []" if "ms = []" "dies = None" "length (concat journal) \<le> m"
  proof -
    have "drop n1 journal = take (n2 - n1) (drop n1 journal) @ drop n2 journal"
      using 2(3) by (metis append_take_drop_id drop_drop le_add_diff_inverse2)
    then show ?thesis using 1(6) that(2,3) by (metis append_is_Nil_conv map_filter_append)
  qed
  then have "md # ms \<noteq> [] \<and> snd (last (md # ms)) = None \<and> length (concat journal) \<le> fst (last (md # ms)) \<longrightarrow>
      records env (drop n2 journal) = []" using 2(6) md by auto
  moreover have "journal_runs env store output op s (md # ms) = Some (concat (map (Write op) (es @ fs)), s2)"
    using 1(1) 2(1) by (simp add: md)
  ultimately show ?case using sub len 1(3) 2(2,3) by (meson le_trans)
qed

end

section \<open>The journal over restarts\<close>

definition agent_store :: "string \<Rightarrow> mockPersister journal_store" where
  "agent_store scope = \<lparr>cursor_get = scoped_Get mock_Get scope, cursor_set = scoped_Set mock_Set scope\<rparr>"

text \<open>
  C7: the journal survives restarts.  The input is started again and again on a store that outlives it, empty
  at first.  Each run is cut off after any number of bytes from \<open>journalctl\<close>, in the middle of a line if need
  be; and in some runs the agent dies after it stored a cursor and before it wrote the entry.  If labelling
  an entry never fails, what all runs together write are records of the first so many lines of the
  journal, in the order of the journal and each at most once; lines that hold no record are skipped.  At
  most one record is missing for each run in which the agent died, and none if it never did.  If the last
  run saw the journal to its end, these lines hold all records of the journal.
\<close>

theorem journald_resumes:
  assumes "prints env journal (jd_args op) output" "\<forall>l \<in> set journal. is_line l" "labels_entries op"
  shows "\<exists>es s n. journal_runs env (agent_store scope) output op NewUnscopedMockPersister runs =
      Some (concat (map (Write op) es), s) \<and>
    (let written = map (\<lambda>e. (Body e, Timestamp e)) es;
         seen = map (\<lambda>r. (fst r, fst (snd r))) (List.map_filter (journal_record env) (take n journal))
     in subseq written seen \<and> length seen \<le> length written + length (filter (\<lambda>r. snd r \<noteq> None) runs) \<and>
       ((\<forall>r \<in> set runs. snd r = None) \<longrightarrow> written = seen)) \<and>
    (runs \<noteq> [] \<and> snd (last runs) = None \<and> length (concat journal) \<le> fst (last runs) \<longrightarrow>
      List.map_filter (journal_record env) (take n journal) = List.map_filter (journal_record env) journal)"
proof -
  have puts: "snd (scoped_Set mock_Set scope s k v) = None" for s k v
    by (simp add: scoped_Set_def mock_Set_def)
  have "mock_scoped.stands_at scope env journal NewUnscopedMockPersister 0"
    by (simp add: mock_scoped.stands_at_def scoped_Get_def mock_Get_def NewUnscopedMockPersister_def)
  from mock_scoped.journal_runs_from [OF assms(1,3) puts assms(2) this, of runs]
  obtain es s n where runs: "journal_runs env (agent_store scope) output op NewUnscopedMockPersister runs =
        Some (concat (map (Write op) es), s)"
      "subseq (map entry_shape es) (map record_shape (records env (take n journal)))"
      "length (records env (take n journal)) \<le> length es + length (filter (\<lambda>r. snd r \<noteq> None) runs)"
      "runs \<noteq> [] \<and> snd (last runs) = None \<and> length (concat journal) \<le> fst (last runs) \<longrightarrow> records env (drop n journal) = []"
    unfolding agent_store_def by auto
  have "map entry_shape es = map record_shape (records env (take n journal))" if "\<forall>r \<in> set runs. snd r = None"
  proof -
    have "filter (\<lambda>r. snd r \<noteq> None) runs = []" using that by simp
    then have "length (map record_shape (records env (take n journal))) \<le> length (map entry_shape es)" using runs(3) by simp
    then show ?thesis using runs(2) subseq_same_length [OF runs(2)] list_emb_length [OF runs(2)] by (simp only: le_antisym)
  qed
  moreover have "records env (take n journal) = records env journal" if "records env (drop n journal) = []"
    using that by (metis append_Nil2 append_take_drop_id map_filter_append)
  ultimately show ?thesis using runs by (intro exI [of _ es] exI [of _ s] exI [of _ n]) (simp add: Let_def)
qed

definition sample_journal_env :: journal_env where
  "sample_journal_env =
     \<lparr>json_object = (\<lambda>l. if hd l = CHR ''?'' then Inl (StdError ''syntax'')
        else Inr (fmap_of_list [(''__REALTIME_TIMESTAMP'', VString ''5''), (''__CURSOR'', VString [hd l])])),
      number_error = (\<lambda>s. s), journal_now = (\<lambda>_. zero_time)\<rparr>"

definition sample_journal :: "string list" where
  "sample_journal = [[CHR ''a'', LF], [CHR ''?'', LF], [CHR ''b'', LF]]"

definition sample_output :: "string list \<Rightarrow> string" where
  "sample_output args =
     (if last args = ''a'' then concat (tl sample_journal) else if last args = ''b'' then [] else concat sample_journal)"

definition sample_journald :: JournaldInput where
  "sample_journald = \<lparr>OperatorID = ''j'', OperatorType = ''journald_input'', OutputIDs = [], OutputOperators = [],
     in_attributes = [], in_resource = [], jd_args = [''--no-tail'']\<rparr>"

lemma sample_records:
  "journal_record sample_journal_env [CHR ''a'', LF] = Some (VMap (fmap_of_list [(''__CURSOR'', VString ''a'')]), time_unix 0 5000, ''a'')"
  "journal_record sample_journal_env [CHR ''?'', LF] = None"
  "journal_record sample_journal_env [CHR ''b'', LF] = Some (VMap (fmap_of_list [(''__CURSOR'', VString ''b'')]), time_unix 0 5000, ''b'')"
proof -
  have t: "parse_int ''5'' = Some 5" by code_simp
  have drop: "fmdrop ''__REALTIME_TIMESTAMP'' (fmap_of_list [(''__REALTIME_TIMESTAMP'', VString ''5''), (''__CURSOR'', v)])
      = fmap_of_list [(''__CURSOR'', v)]" for v
    by (simp add: fmap_ext fmlookup_of_list)
  show "journal_record sample_journal_env [CHR ''a'', LF] = Some (VMap (fmap_of_list [(''__CURSOR'', VString ''a'')]), time_unix 0 5000, ''a'')"
    "journal_record sample_journal_env [CHR ''?'', LF] = None"
    "journal_record sample_journal_env [CHR ''b'', LF] = Some (VMap (fmap_of_list [(''__CURSOR'', VString ''b'')]), time_unix 0 5000, ''b'')"
    using drop by (simp_all add: journal_record_def sample_journal_env_def fmlookup_of_list t)
qed

theorem journald_resumes_witness:
  "\<exists>es s. journal_runs sample_journal_env (agent_store ''j'') sample_output sample_journald NewUnscopedMockPersister
      [(3, None), (1, None), (9, None)] =
      Some (concat (map (Write sample_journald) es), s) \<and>
    map (\<lambda>e. (Body e, Timestamp e)) es =
      [(VMap (fmap_of_list [(''__CURSOR'', VString ''a'')]), time_unix 0 5000),
       (VMap (fmap_of_list [(''__CURSOR'', VString ''b'')]), time_unix 0 5000)]"
proof -
  have prints: "prints sample_journal_env sample_journal (jd_args sample_journald) sample_output"
  proof -
    have "i = 0 \<or> i = 1 \<or> i = 2" if "i < length sample_journal" for i :: nat
      using that by (auto simp: sample_journal_def)
    then show ?thesis
      by (fastforce simp: prints_def sample_journal_def sample_journald_def sample_output_def sample_records)
  qed
  have lines: "\<forall>l \<in> set sample_journal. is_line l"
    by (auto simp: sample_journal_def is_line_def)
  have labels: "labels_entries sample_journald"
    by (simp add: labels_bare sample_journald_def)
  have all: "List.map_filter (journal_record sample_journal_env) sample_journal =
      [(VMap (fmap_of_list [(''__CURSOR'', VString ''a'')]), time_unix 0 5000, ''a''),
       (VMap (fmap_of_list [(''__CURSOR'', VString ''b'')]), time_unix 0 5000, ''b'')]"
    by (simp add: sample_journal_def sample_records List.map_filter_simps)
  have size: "length (concat sample_journal) \<le> 9" by (simp add: sample_journal_def)
  from journald_resumes [OF prints lines labels, where runs = "[(3, None), (1, None), (9, None)]" and scope = "''j''"] show ?thesis
    unfolding Let_def all
    by (elim exE conjE) (intro exI conjI, assumption, use all size in \<open>simp del: journal_runs.simps\<close>)
qed

text \<open>An agent that dies in its first run, between storing the cursor of the first record and writing it, never writes it.\<close>

lemma parse_args [simp]: "parseJournalEntry env now (op\<lparr>jd_args := a\<rparr>) = parseJournalEntry env now op"
  by (rule ext) (simp add: parseJournalEntry_def Let_def split: sum.split option.split gval.split)

definition sample_sending :: JournaldInput where
  "sample_sending = sample_journald\<lparr>OutputOperators := [\<lparr>Op_ID = ''o'', Op_CanProcess = True\<rparr>]\<rparr>"

lemma journal_entry_lost:
  "map_option (map (Body \<circ> snd) \<circ> fst) (journal_runs sample_journal_env (agent_store ''j'') sample_output
      sample_sending NewUnscopedMockPersister [(9, Some 0), (9, None)]) =
    Some [VMap (fmap_of_list [(''__CURSOR'', VString ''b'')])]"
proof -
  have labels: "labels_entries sample_sending"
    by (simp add: labels_bare sample_sending_def sample_journald_def)
  note parse = parse_record [OF labels, of sample_journal_env zero_time]
  have now: "journal_now sample_journal_env k = zero_time" for k by (simp add: sample_journal_env_def)
  obtain e where a: "parseJournalEntry sample_journal_env zero_time sample_sending [CHR ''a'', LF] =
      Some (Inr (e, ''a''))"
    using parse [of "[CHR ''a'', LF]"] by (auto simp: sample_records)
  obtain f where b: "parseJournalEntry sample_journal_env zero_time sample_sending [CHR ''b'', LF] =
      Some (Inr (f, ''b''))" "Body f = VMap (fmap_of_list [(''__CURSOR'', VString ''b'')])"
    using parse [of "[CHR ''b'', LF]"] by (auto simp: sample_records)
  obtain err where c: "parseJournalEntry sample_journal_env zero_time sample_sending [CHR ''?'', LF] =
      Some (Inl err)"
    using parse [of "[CHR ''?'', LF]"] by (auto simp: sample_records)
  have args: "jd_args sample_sending = [''--no-tail'']" by (simp add: sample_sending_def sample_journald_def)
  have sends: "Write sample_sending f = [(\<lparr>Op_ID = ''o'', Op_CanProcess = True\<rparr>, f)]"
    by (simp add: Write_def sample_sending_def)
  show ?thesis
    by (simp add: JournaldInput_Start_def newCmd_def agent_store_def scoped_Get_def scoped_Set_def mock_Get_def mock_Set_def
        NewUnscopedMockPersister_def sample_output_def sample_journal_def now args a b c sends Let_def)
qed

end
