(* ===== verification/K8s_Events.thy ===== *)
theory K8s_Events
  imports Parser_Operators "HOL-Library.Multiset"
begin

text \<open>
  The input for Kubernetes events: \<open>operator/input/k8sevent/k8s_event.go\<close>.

  The client library is a parameter: the configuration of the cluster, the client, the lists of
  namespaces, and what the watches give.  Every namespace is watched by a goroutine of its own; the
  list of namespaces is a Go slice that they share, and taking out a name moves those behind it within
  the same array.
\<close>

section \<open>Configuration\<close>

record K8sEventsConfig = InputConfig +
  k8Namespaces :: "string list"
  k8DiscoverNamespaces :: bool
  k8DiscoveryInterval :: int

definition NewK8sEventsConfig :: "string \<Rightarrow> K8sEventsConfig" where
  "NewK8sEventsConfig operatorID =
     InputConfig.extend (NewInputConfig operatorID ''k8s_event_input'') (K8sEventsConfig.fields [] True (60 * ns_per_s))"

text \<open>The slice \<open>namespaces\<close> is its array and its length.\<close>

record K8sEvents = InputOperator +
  ns_array :: "string list"
  ns_len :: nat
  discoverNamespaces :: bool
  discoveryInterval :: int

definition K8sEventsConfig_Build :: "compiler \<Rightarrow> bool \<Rightarrow> 'a K8sEventsConfig_scheme \<Rightarrow> gerror + K8sEvents" where
  "K8sEventsConfig_Build compile has_logger c =
     (case InputConfig_Build compile has_logger c of
        Inl err \<Rightarrow> Inl (Agent (Wrap err ''build transformer''))
      | Inr input \<Rightarrow>
          if k8Namespaces c = [] \<and> \<not> k8DiscoverNamespaces c
          then Inl (StdError ''`namespaces` must be specified or `discover_namespaces` enabled'')
          else Inr (InputOperator.extend input
            (K8sEvents.fields (k8Namespaces c) (length (k8Namespaces c)) (k8DiscoverNamespaces c) (k8DiscoveryInterval c))))"

section \<open>The list of namespaces\<close>

definition namespaces :: "'a K8sEvents_scheme \<Rightarrow> string list" where
  "namespaces k = take (ns_len k) (ns_array k)"

text \<open>Whether \<open>append\<close> finds room in the array makes no difference below the length.\<close>

definition addNamespace :: "string \<Rightarrow> 'a K8sEvents_scheme \<Rightarrow> 'a K8sEvents_scheme" where
  "addNamespace namespace k =
     k\<lparr>ns_array := namespaces k @ [namespace] @ drop (Suc (ns_len k)) (ns_array k), ns_len := Suc (ns_len k)\<rparr>"

fun has_loop :: "string list \<Rightarrow> string \<Rightarrow> bool" where
  "has_loop [] namespace = False"
| "has_loop (n # ns) namespace = (if n = namespace then True else has_loop ns namespace)"

definition hasNamespace :: "string \<Rightarrow> 'a K8sEvents_scheme \<Rightarrow> bool" where
  "hasNamespace namespace k = has_loop (namespaces k) namespace"

text \<open>The loop finds the first place \<open>i\<close> of the name; the array above the new length is left as it is.\<close>

fun remove_loop :: "nat \<Rightarrow> string list \<Rightarrow> string \<Rightarrow> 'a K8sEvents_scheme \<Rightarrow> 'a K8sEvents_scheme" where
  "remove_loop i [] namespace k = k"
| "remove_loop i (n # ns) namespace k =
     (if n \<noteq> namespace then remove_loop (Suc i) ns namespace k
      else k\<lparr>ns_array := take i (ns_array k) @ drop (Suc i) (namespaces k) @ drop (ns_len k - 1) (ns_array k),
             ns_len := ns_len k - 1\<rparr>)"

definition removeNamespace :: "string \<Rightarrow> 'a K8sEvents_scheme \<Rightarrow> 'a K8sEvents_scheme" where
  "removeNamespace namespace k = remove_loop 0 (namespaces k) namespace k"

section \<open>Events\<close>

record k8s_event =
  EventTime :: gtime
  LastTimestamp :: gtime
  FirstTimestamp :: gtime
  ClusterName :: string
  ioNamespace :: string
  ioKind :: string
  ioUID :: string
  ioName :: string

definition populateResource :: "'e k8s_event_scheme \<Rightarrow> entry \<Rightarrow> entry" where
  "populateResource event e =
     (let add = AddResourceKey;
          e = add ''k8s.namespace.name'' (ioNamespace event) (add ''k8s.cluster.name'' (ClusterName event) e);
          uid_name = (\<lambda>kind. add (''k8s.'' @ kind @ ''.name'') (ioName event) (add (''k8s.'' @ kind @ ''.uid'') (ioUID event) e))
      in if ioKind event = ''Pod'' then uid_name ''pod''
         else if ioKind event = ''Container'' then add ''k8s.container.name'' (ioName event) e
         else if ioKind event = ''ReplicaSet'' then uid_name ''replicaset''
         else if ioKind event = ''Deployment'' then uid_name ''deployment''
         else if ioKind event = ''StatefulSet'' then uid_name ''statefulset''
         else if ioKind event = ''DaemonSet'' then uid_name ''daemonset''
         else if ioKind event = ''Job'' then uid_name ''job''
         else if ioKind event = ''CronJob'' then uid_name ''cronjob''
         else e)"

definition event_time :: "'e k8s_event_scheme \<Rightarrow> entry \<Rightarrow> entry" where
  "event_time event e =
     (if EventTime event \<noteq> zero_time then e\<lparr>Timestamp := EventTime event\<rparr>
      else if LastTimestamp event \<noteq> zero_time then e\<lparr>Timestamp := LastTimestamp event\<rparr>
      else if FirstTimestamp event \<noteq> zero_time then e\<lparr>Timestamp := FirstTimestamp event\<rparr>
      else e)"

text \<open>What a watch delivers; the object of an error is not an event.\<close>

datatype 'e watch_object = Event_Object "'e k8s_event_scheme" | Other_Object

record 'e watch_event =
  EventType :: string
  Object :: "'e watch_object"

text \<open>
  One event, with the converter of the Kubernetes library as a parameter: an entry, or none when an
  error was logged, or a panic of the type assertion.
\<close>

definition event_entry ::
  "('e k8s_event_scheme \<Rightarrow> gerror + gval gomap) \<Rightarrow> gtime \<Rightarrow> 'a K8sEvents_scheme \<Rightarrow> 'e watch_event \<Rightarrow> entry option option" where
  "event_entry toUnstructured now k event =
     (case Object event of
        Other_Object \<Rightarrow> None
      | Event_Object typedEvent \<Rightarrow>
     (case toUnstructured typedEvent of
        Inl err \<Rightarrow> Some None
      | Inr body \<Rightarrow>
     (case NewEntry now k (VMap body) of
        None \<Rightarrow> None
      | Some (Inl err) \<Rightarrow> Some None
      | Some (Inr e) \<Rightarrow>
          Some (Some (populateResource typedEvent (AddAttribute ''event_type'' (EventType event) (event_time typedEvent e)))))))"

text \<open>The events until the channel is closed or the operator is stopped, the \<open>i\<close>-th first.\<close>

fun consumeWatchEvents ::
  "('e k8s_event_scheme \<Rightarrow> gerror + gval gomap) \<Rightarrow> (nat \<Rightarrow> gtime) \<Rightarrow> 'a K8sEvents_scheme \<Rightarrow> nat \<Rightarrow> 'e watch_event list
    \<Rightarrow> (opref \<times> entry) list option" where
  "consumeWatchEvents toUnstructured now k i [] = Some []"
| "consumeWatchEvents toUnstructured now k i (event # events) =
     (case event_entry toUnstructured (now i) k event of
        None \<Rightarrow> None
      | Some None \<Rightarrow> consumeWatchEvents toUnstructured now k (Suc i) events
      | Some (Some e) \<Rightarrow> map_option ((@) (Write k e)) (consumeWatchEvents toUnstructured now k (Suc i) events))"

text \<open>
  The goroutine of a namespace, given the results of its calls of \<open>Watch\<close> in turn until the operator is
  stopped: what is sent, and whether the goroutine has ended by taking the namespace out of the list.
\<close>

fun startWatchingNamespace ::
  "('e k8s_event_scheme \<Rightarrow> gerror + gval gomap) \<Rightarrow> (nat \<Rightarrow> gtime) \<Rightarrow> 'a K8sEvents_scheme \<Rightarrow> nat
    \<Rightarrow> (gerror + 'e watch_event list) list \<Rightarrow> ((opref \<times> entry) list \<times> bool) option" where
  "startWatchingNamespace toUnstructured now k i [] = Some ([], False)"
| "startWatchingNamespace toUnstructured now k i (Inl err # watches) = Some ([], True)"
| "startWatchingNamespace toUnstructured now k i (Inr events # watches) =
     (case consumeWatchEvents toUnstructured now k i events of
        None \<Rightarrow> None
      | Some sent \<Rightarrow> map_option (apfst ((@) sent))
          (startWatchingNamespace toUnstructured now k (i + length events) watches))"

section \<open>Starting\<close>

record k8s_namespace =
  nsName :: string

definition listNamespaces :: "gerror + k8s_namespace list \<Rightarrow> gerror + string list" where
  "listNamespaces res = (case res of Inl err \<Rightarrow> Inl err | Inr items \<Rightarrow> Inr (map nsName items))"

text \<open>
  The operator while it runs: the goroutines by the namespace that they watch, how far \<open>Start\<close> has
  come in its loop over the namespaces, and how far the discovery has come with a namespace that it has
  found.  \<open>range\<close> evaluates the slice once, so that the loop goes up to the length it had then, but reads
  the array as it is at each step.
\<close>

datatype discovery = Idle | Missing string | Added string

record k8s_run =
  run_op :: K8sEvents
  watched :: "string multiset"
  ranging :: "(nat \<times> nat) option"
  discovering :: discovery
  cancelled :: bool

fun add_missing :: "string list \<Rightarrow> 'a K8sEvents_scheme \<Rightarrow> 'a K8sEvents_scheme" where
  "add_missing [] k = k"
| "add_missing (n # ns) k = add_missing ns (if \<not> hasNamespace n k then addNamespace n k else k)"

record k8s_client =
  in_cluster :: "gerror option"
  new_client :: "gerror option"
  first_list :: "gerror + k8s_namespace list"
  test_watch :: "string \<Rightarrow> gerror option"

text \<open>\<open>Start\<close> up to its loop over the namespaces.\<close>

definition K8sEvents_Start :: "k8s_client \<Rightarrow> K8sEvents \<Rightarrow> gerror + k8s_run" where
  "K8sEvents_Start client k =
     (case in_cluster client of
        Some err \<Rightarrow> Inl (Agent (NewError ''agent not in kubernetes cluster''
          ''the k8s_event_input operator only supports running in a pod inside a kubernetes cluster'' []))
      | None \<Rightarrow>
     (case new_client client of
        Some err \<Rightarrow> Inl (Agent (Wrap err ''build client''))
      | None \<Rightarrow>
     (case (if discoverNamespaces k
            then (case listNamespaces (first_list client) of
                    Inl err \<Rightarrow> Inl (Agent (Wrap err ''initial namespace discovery''))
                  | Inr found \<Rightarrow> Inr (add_missing found k))
            else Inr k) of
        Inl err \<Rightarrow> Inl err
      | Inr k \<Rightarrow>
     (case (if ns_len k > 0 then map_option (\<lambda>err. StdError (''test connection failed: list events for namespace '' @
               quoted (ns_array k ! 0) @ '': '' @ error_text err)) (test_watch client (ns_array k ! 0)) else None) of
        Some err \<Rightarrow> Inl err
      | None \<Rightarrow> Inr \<lparr>run_op = k, watched = {#}, ranging = Some (0, ns_len k), discovering = Idle, cancelled = False\<rparr>))))"

text \<open>
  One namespace that the discovery has found: it is looked up in the list, added to it, and watched.  The
  first two are critical sections of their own, and others may come between.
\<close>

definition discover_check :: "string \<Rightarrow> k8s_run \<Rightarrow> k8s_run" where
  "discover_check n r = (if hasNamespace n (run_op r) then r else r\<lparr>discovering := Missing n\<rparr>)"

definition discover_add :: "k8s_run \<Rightarrow> k8s_run" where
  "discover_add r =
     (case discovering r of
        Missing n \<Rightarrow> r\<lparr>run_op := addNamespace n (run_op r), discovering := Added n\<rparr>
      | _ \<Rightarrow> r)"

definition discover_watch :: "k8s_run \<Rightarrow> k8s_run" where
  "discover_watch r =
     (case discovering r of
        Added n \<Rightarrow> r\<lparr>watched := add_mset n (watched r), discovering := Idle\<rparr>
      | _ \<Rightarrow> r)"

text \<open>One tick of the discovery, when nothing comes between.\<close>

definition discover_one :: "string \<Rightarrow> k8s_run \<Rightarrow> k8s_run" where
  "discover_one n r = discover_watch (discover_add (discover_check n r))"

definition find_namespaces :: "gerror + k8s_namespace list \<Rightarrow> k8s_run \<Rightarrow> k8s_run" where
  "find_namespaces res r = (case listNamespaces res of Inl err \<Rightarrow> r | Inr found \<Rightarrow> fold discover_one found r)"

text \<open>
  The steps of the goroutines: \<open>Start\<close> begins the watch of the next namespace or ends its loop, a watch
  fails, or the discovery goes on.
\<close>

inductive k8s_step :: "k8s_run \<Rightarrow> k8s_run \<Rightarrow> bool" where
  Range: "\<not> cancelled r \<Longrightarrow> ranging r = Some (i, n) \<Longrightarrow> i < n \<Longrightarrow>
    k8s_step r (r\<lparr>watched := add_mset (ns_array (run_op r) ! i) (watched r), ranging := Some (Suc i, n)\<rparr>)"
| Ranged: "\<not> cancelled r \<Longrightarrow> ranging r = Some (n, n) \<Longrightarrow> k8s_step r (r\<lparr>ranging := None\<rparr>)"
| Fails: "\<not> cancelled r \<Longrightarrow> ns \<in># watched r \<Longrightarrow>
    k8s_step r (r\<lparr>watched := watched r - {#ns#}, run_op := removeNamespace ns (run_op r)\<rparr>)"
| Check: "\<not> cancelled r \<Longrightarrow> ranging r = None \<Longrightarrow> discoverNamespaces (run_op r) \<Longrightarrow> discovering r = Idle \<Longrightarrow>
    k8s_step r (discover_check n r)"
| Add: "\<not> cancelled r \<Longrightarrow> k8s_step r (discover_add r)"
| Watch: "\<not> cancelled r \<Longrightarrow> k8s_step r (discover_watch r)"

inductive_cases k8s_stepE: "k8s_step r r'"

text \<open>Stopping cancels the watches and the discovery, and waits for them.\<close>

definition K8sEvents_Stop :: "k8s_run \<Rightarrow> k8s_run \<times> gerror option" where
  "K8sEvents_Stop r = (r\<lparr>watched := {#}, cancelled := True\<rparr>, None)"

end
