(* ===== verification/K8s_Laws.thy ===== *)
theory K8s_Laws
  imports K8s_Events
begin

text \<open>
  What the input for Kubernetes events promises: which namespaces are watched, and what entry an event
  becomes.
\<close>

section \<open>The list of namespaces\<close>

definition slice_ok :: "'a K8sEvents_scheme \<Rightarrow> bool" where
  "slice_ok k \<longleftrightarrow> ns_len k \<le> length (ns_array k)"

lemma has_loop_set [simp]: "has_loop ns n \<longleftrightarrow> n \<in> set ns"
  by (induction ns) auto

lemma hasNamespace_iff [simp]: "hasNamespace n k \<longleftrightarrow> n \<in> set (namespaces k)"
  by (simp add: hasNamespace_def)

lemma namespaces_length: "slice_ok k \<Longrightarrow> length (namespaces k) = ns_len k"
  by (simp add: namespaces_def slice_ok_def)

lemma add_namespaces [simp]: "slice_ok k \<Longrightarrow> namespaces (addNamespace n k) = namespaces k @ [n]"
  by (simp add: namespaces_def addNamespace_def slice_ok_def)

lemma namespaces_update [simp]: "namespaces (k\<lparr>ns_array := a, ns_len := n\<rparr>) = take n a"
  by (simp add: namespaces_def)

lemma add_slice [simp, intro]: "slice_ok k \<Longrightarrow> slice_ok (addNamespace n k)"
  by (simp add: namespaces_def addNamespace_def slice_ok_def)

lemma remove_loop_split:
  "n \<in> set ns \<Longrightarrow> \<exists>j < length ns. ns ! j = n \<and> n \<notin> set (take j ns) \<and> remove_loop i ns n k =
     k\<lparr>ns_array := take (i + j) (ns_array k) @ drop (Suc (i + j)) (namespaces k) @ drop (ns_len k - 1) (ns_array k),
       ns_len := ns_len k - 1\<rparr>"
proof (induction ns arbitrary: i)
  case (Cons m ns)
  show ?case
  proof (cases "m = n")
    case True
    then show ?thesis by (intro exI [of _ 0]) simp
  next
    case False
    then obtain j where "j < length ns" "ns ! j = n" "n \<notin> set (take j ns)" "remove_loop (Suc i) ns n k =
        k\<lparr>ns_array := take (Suc i + j) (ns_array k) @ drop (Suc (Suc i + j)) (namespaces k) @ drop (ns_len k - 1) (ns_array k),
          ns_len := ns_len k - 1\<rparr>"
      using Cons by fastforce
    then show ?thesis using False by (intro exI [of _ "Suc j"]) simp
  qed
qed simp

lemma remove_loop_none: "n \<notin> set ns \<Longrightarrow> remove_loop i ns n k = k"
  by (induction ns arbitrary: i) auto

lemma remove_array:
  assumes "slice_ok k" "n \<in> set (namespaces k)"
  obtains j where "j < ns_len k" "namespaces k ! j = n" "n \<notin> set (take j (namespaces k))"
    "removeNamespace n k = k\<lparr>ns_array := take j (namespaces k) @ drop (Suc j) (namespaces k) @ drop (ns_len k - 1) (ns_array k),
       ns_len := ns_len k - 1\<rparr>"
proof -
  obtain j where j: "j < length (namespaces k)" "namespaces k ! j = n" "n \<notin> set (take j (namespaces k))"
    "removeNamespace n k = k\<lparr>ns_array := take j (ns_array k) @ drop (Suc j) (namespaces k) @ drop (ns_len k - 1) (ns_array k),
       ns_len := ns_len k - 1\<rparr>"
    using remove_loop_split [OF assms(2), of 0 k] by (auto simp: removeNamespace_def)
  moreover have "take j (ns_array k) = take j (namespaces k)"
    using j(1) by (simp add: namespaces_def min.absorb1)
  ultimately show thesis using assms(1) by (intro that [of j]) (simp_all add: namespaces_length)
qed

lemma remove_namespaces:
  assumes "slice_ok k"
  shows "namespaces (removeNamespace n k) = remove1 n (namespaces k) \<and> slice_ok (removeNamespace n k)"
proof (cases "n \<in> set (namespaces k)")
  case True
  obtain j where j: "j < ns_len k" "namespaces k ! j = n" "n \<notin> set (take j (namespaces k))"
    "removeNamespace n k = k\<lparr>ns_array := take j (namespaces k) @ drop (Suc j) (namespaces k) @ drop (ns_len k - 1) (ns_array k),
       ns_len := ns_len k - 1\<rparr>"
    using remove_array [OF assms True] .
  have len: "length (namespaces k) = ns_len k" by (rule namespaces_length [OF assms])
  have "namespaces k = take j (namespaces k) @ n # drop (Suc j) (namespaces k)"
    using j(1,2) len by (metis id_take_nth_drop)
  then have "remove1 n (namespaces k) = take j (namespaces k) @ drop (Suc j) (namespaces k)"
    using j(3) by (metis remove1.simps(2) remove1_append)
  then show ?thesis using j(1,4) len assms by (simp add: slice_ok_def)
next
  case False
  then show ?thesis using assms by (simp add: removeNamespace_def remove_loop_none remove1_idem)
qed

lemma add_missing_namespaces:
  "slice_ok k \<Longrightarrow> slice_ok (add_missing ns k) \<and> set (namespaces (add_missing ns k)) = set (namespaces k) \<union> set ns \<and>
     (distinct (namespaces k) \<longrightarrow> distinct (namespaces (add_missing ns k)))"
  by (induction ns arbitrary: k) auto

lemma add_missing_discover [simp]: "discoverNamespaces (add_missing ns k) = discoverNamespaces k"
  by (induction ns arbitrary: k) (auto simp: addNamespace_def)

lemma remove_discover [simp]: "discoverNamespaces (removeNamespace n k) = discoverNamespaces k"
proof -
  have "discoverNamespaces (remove_loop i ns n k) = discoverNamespaces k" for i ns by (induction ns arbitrary: i) auto
  then show ?thesis by (simp add: removeNamespace_def)
qed

lemma add_discover [simp]: "discoverNamespaces (addNamespace n k) = discoverNamespaces k"
  by (simp add: addNamespace_def)

section \<open>Who is watched\<close>

text \<open>What \<open>Start\<close> comes to when no watch fails during its loop.\<close>

definition undisturbed :: "k8s_run \<Rightarrow> k8s_run" where
  "undisturbed r = r\<lparr>watched := mset (namespaces (run_op r)), ranging := None\<rparr>"

lemma range_steps:
  assumes "ranging r = Some (i, ns_len (run_op r))" "i \<le> ns_len (run_op r)" "slice_ok (run_op r)" "\<not> cancelled r"
    and "watched r = mset (take i (namespaces (run_op r)))"
  shows "k8s_step\<^sup>*\<^sup>* r (undisturbed r)"
  using assms
proof (induction "ns_len (run_op r) - i" arbitrary: i r)
  case 0
  then have i: "i = ns_len (run_op r)" by simp
  then have "watched r = mset (namespaces (run_op r))" using 0 by (simp add: namespaces_def)
  then have "undisturbed r = r\<lparr>ranging := None\<rparr>" by (simp add: undisturbed_def)
  then show ?case using k8s_step.Ranged [of r "ns_len (run_op r)"] 0 i by simp
next
  case (Suc d)
  then have i: "i < ns_len (run_op r)" by simp
  let ?r = "r\<lparr>watched := add_mset (ns_array (run_op r) ! i) (watched r), ranging := Some (Suc i, ns_len (run_op r))\<rparr>"
  have step: "k8s_step r ?r" by (rule k8s_step.Range [OF Suc.prems(4,1) i])
  have "i < length (namespaces (run_op r))" using i Suc.prems(3) by (simp add: namespaces_length)
  then have "take (Suc i) (namespaces (run_op r)) = take i (namespaces (run_op r)) @ [ns_array (run_op r) ! i]"
    by (simp add: take_Suc_conv_app_nth) (simp add: namespaces_def)
  then have now: "watched ?r = mset (take (Suc i) (namespaces (run_op ?r)))" using Suc.prems(5) by simp
  have "k8s_step\<^sup>*\<^sup>* ?r (undisturbed ?r)"
    by (rule Suc.hyps(1) [OF _ _ _ _ _ now]) (use Suc.hyps(2) Suc.prems i in simp_all)
  moreover have "undisturbed ?r = undisturbed r" by (simp add: undisturbed_def)
  ultimately show ?case using step by (metis converse_rtranclp_into_rtranclp)
qed

lemma Start_run:
  "K8sEvents_Start client k = Inr r \<Longrightarrow> slice_ok k \<Longrightarrow>
     \<exists>k'. r = \<lparr>run_op = k', watched = {#}, ranging = Some (0, ns_len k'), discovering = Idle, cancelled = False\<rparr> \<and> slice_ok k' \<and>
       k' = (if discoverNamespaces k then add_missing (map nsName (case first_list client of Inr l \<Rightarrow> l | Inl _ \<Rightarrow> [])) k else k)"
  using add_missing_namespaces [of k]
  by (auto simp: K8sEvents_Start_def listNamespaces_def split: option.splits if_splits sum.splits)

text \<open>Every listed namespace is watched, but for one that the discovery has only just added.\<close>

definition watches_listed :: "k8s_run \<Rightarrow> bool" where
  "watches_listed r \<longleftrightarrow> slice_ok (run_op r) \<and> ranging r = None \<and>
     (case discovering r of
        Idle \<Rightarrow> watched r = mset (namespaces (run_op r))
      | Missing n \<Rightarrow> watched r = mset (namespaces (run_op r)) \<and> n \<notin> set (namespaces (run_op r))
      | Added n \<Rightarrow> add_mset n (watched r) = mset (namespaces (run_op r)))"

lemma discover_watches:
  "watches_listed r \<Longrightarrow> discovering r = Idle \<Longrightarrow> watches_listed (discover_check n r)"
  "watches_listed r \<Longrightarrow> watches_listed (discover_add r)"
  "watches_listed r \<Longrightarrow> watches_listed (discover_watch r)"
  by (auto simp: watches_listed_def discover_check_def discover_add_def discover_watch_def split: discovery.splits)

lemma discover_distinct:
  "watches_listed r \<Longrightarrow> distinct (namespaces (run_op r)) \<Longrightarrow> distinct (namespaces (run_op (discover_add r)))"
  by (auto simp: watches_listed_def discover_add_def split: discovery.splits)

lemma discover_same [simp]:
  "run_op (discover_check n r) = run_op r" "run_op (discover_watch r) = run_op r"
  by (auto simp: discover_check_def discover_watch_def split: discovery.splits)

lemma watch_fails:
  assumes "watches_listed r" "m \<in># watched r"
  shows "watches_listed (r\<lparr>watched := watched r - {#m#}, run_op := removeNamespace m (run_op r)\<rparr>)"
    (is "watches_listed ?r")
    and "distinct (namespaces (run_op r)) \<Longrightarrow> distinct (namespaces (removeNamespace m (run_op r)))"
proof -
  have ok: "slice_ok (run_op r)" "ranging r = None" using assms(1) by (simp_all add: watches_listed_def)
  have remove: "namespaces (removeNamespace m (run_op r)) = remove1 m (namespaces (run_op r))"
    "slice_ok (removeNamespace m (run_op r))" using remove_namespaces [OF ok(1), of m] by blast+
  then show "distinct (namespaces (run_op r)) \<Longrightarrow> distinct (namespaces (removeNamespace m (run_op r)))" by simp
  show "watches_listed ?r"
  proof (cases "discovering r")
    case Idle
    then show ?thesis using assms remove ok by (simp add: watches_listed_def)
  next
    case (Missing n)
    then have "n \<notin> set (remove1 m (namespaces (run_op r)))"
      using assms(1) by (auto simp: watches_listed_def dest: notin_set_remove1)
    then show ?thesis using assms remove ok Missing by (simp add: watches_listed_def)
  next
    case (Added n)
    then have "add_mset n (watched r) = mset (namespaces (run_op r))" using assms(1) by (simp add: watches_listed_def)
    moreover have "add_mset n (watched r) - {#m#} = add_mset n (watched r - {#m#})"
      using multiset_diff_union_assoc [of "{#m#}" "watched r" "{#n#}"] assms(2) by simp
    ultimately have "add_mset n (watched r - {#m#}) = mset (remove1 m (namespaces (run_op r)))" by simp
    then show ?thesis using remove ok Added by (simp add: watches_listed_def)
  qed
qed

lemma watches_step:
  "k8s_step r r' \<Longrightarrow> watches_listed r \<Longrightarrow>
     watches_listed r' \<and> (distinct (namespaces (run_op r)) \<longrightarrow> distinct (namespaces (run_op r')))"
proof (induction rule: k8s_step.induct)
  case (Fails r m)
  then show ?case using watch_fails [OF Fails.prems Fails.hyps(2)] by simp
next
  case (Check r n)
  then show ?case using discover_watches(1) by simp
next
  case (Add r)
  then show ?case using discover_watches(2) discover_distinct by blast
next
  case (Watch r)
  then show ?case using discover_watches(3) by simp
qed (simp_all add: watches_listed_def)

lemma watches_steps:
  "k8s_step\<^sup>*\<^sup>* r r' \<Longrightarrow> watches_listed r \<Longrightarrow>
     watches_listed r' \<and> (distinct (namespaces (run_op r)) \<longrightarrow> distinct (namespaces (run_op r')))"
  by (induction rule: rtranclp_induct) (use watches_step in blast)+

lemma undisturbed_watches: "slice_ok (run_op r) \<Longrightarrow> discovering r = Idle \<Longrightarrow> watches_listed (undisturbed r)"
  by (simp add: watches_listed_def undisturbed_def)

lemma discovered_watched:
  "watches_listed r \<Longrightarrow> discovering r = Idle \<Longrightarrow>
     watches_listed (fold discover_one ns r) \<and> set ns \<union> set_mset (watched r) \<subseteq> set_mset (watched (fold discover_one ns r))"
proof (induction ns arbitrary: r)
  case (Cons n ns)
  have "watches_listed (discover_one n r) \<and> discovering (discover_one n r) = Idle \<and>
      insert n (set_mset (watched r)) \<subseteq> set_mset (watched (discover_one n r))"
    using Cons.prems
    by (auto simp: watches_listed_def discover_one_def discover_check_def discover_add_def discover_watch_def)
  then show ?case using Cons.IH [of "discover_one n r"] by auto
qed simp

lemma count_distinct: "distinct ns \<Longrightarrow> count (mset ns) n \<le> 1"
  by (simp add: distinct_count_atmost_1)

text \<open>
  C11: every listed namespace is watched.  After a start during whose loop no watch fails, at every
  moment, whatever fails or is discovered later, the goroutines watch exactly the namespaces of the list,
  but for the one that the discovery may have just added and is about to watch; if the configured names
  differ, no namespace is watched by two goroutines.  A tick of the discovery gets all namespaces that it
  finds watched.
\<close>

theorem k8s_watched_once:
  assumes "K8sEventsConfig_Build compile has_logger c = Inr k" "K8sEvents_Start client k = Inr r0"
  shows "k8s_step\<^sup>*\<^sup>* r0 (undisturbed r0) \<and>
    (\<forall>r. k8s_step\<^sup>*\<^sup>* (undisturbed r0) r \<longrightarrow>
       ((\<forall>n. discovering r \<noteq> Added n) \<longrightarrow> watched r = mset (namespaces (run_op r))) \<and>
       (\<forall>n. discovering r = Added n \<longrightarrow> add_mset n (watched r) = mset (namespaces (run_op r))) \<and>
       (distinct (k8Namespaces c) \<longrightarrow> (\<forall>n. count (watched r) n \<le> 1)) \<and>
       (discovering r = Idle \<longrightarrow>
          (\<forall>items. set (map nsName items) \<subseteq> set_mset (watched (find_namespaces (Inr items) r)))))"
proof -
  have k: "slice_ok k" "namespaces k = k8Namespaces c"
    using assms(1) by (auto simp: K8sEventsConfig_Build_def slice_ok_def namespaces_def K8sEvents.defs InputOperator.defs
        split: sum.splits if_splits)
  obtain k' where r0: "r0 = \<lparr>run_op = k', watched = {#}, ranging = Some (0, ns_len k'), discovering = Idle, cancelled = False\<rparr>" "slice_ok k'"
    "distinct (k8Namespaces c) \<longrightarrow> distinct (namespaces k')"
    using Start_run [OF assms(2) k(1)] add_missing_namespaces [OF k(1)] k(2) by auto
  have start: "k8s_step\<^sup>*\<^sup>* r0 (undisturbed r0)" by (rule range_steps [of _ 0]) (simp_all add: r0)
  have "((\<forall>n. discovering r \<noteq> Added n) \<longrightarrow> watched r = mset (namespaces (run_op r))) \<and>
       (\<forall>n. discovering r = Added n \<longrightarrow> add_mset n (watched r) = mset (namespaces (run_op r))) \<and>
       (distinct (k8Namespaces c) \<longrightarrow> (\<forall>n. count (watched r) n \<le> 1)) \<and>
       (discovering r = Idle \<longrightarrow>
          (\<forall>items. set (map nsName items) \<subseteq> set_mset (watched (find_namespaces (Inr items) r))))"
    if "k8s_step\<^sup>*\<^sup>* (undisturbed r0) r" for r
  proof -
    have ok: "watches_listed r" "distinct (k8Namespaces c) \<longrightarrow> distinct (namespaces (run_op r))"
      using watches_steps [OF that undisturbed_watches] r0 by (simp_all add: undisturbed_def)
    have found: "set (map nsName items) \<subseteq> set_mset (watched (find_namespaces (Inr items) r))" if "discovering r = Idle" for items
      using discovered_watched [OF ok(1) that, of "map nsName items"] by (simp add: find_namespaces_def listNamespaces_def)
    have list: "watched r \<subseteq># mset (namespaces (run_op r))"
      "(\<forall>n. discovering r \<noteq> Added n) \<longrightarrow> watched r = mset (namespaces (run_op r))"
      "\<forall>n. discovering r = Added n \<longrightarrow> add_mset n (watched r) = mset (namespaces (run_op r))"
      using ok(1) mset_subset_eq_add_right [of "watched r"]
      by (auto simp: watches_listed_def split: discovery.splits) (metis add_mset_add_single mset_subset_eq_add_left)
    have "count (watched r) n \<le> 1" if "distinct (k8Namespaces c)" for n
      using mset_subset_eq_count [OF list(1), of n] count_distinct [of "namespaces (run_op r)" n] ok(2) that by (meson le_trans)
    then show ?thesis using found list(2,3) by blast
  qed
  then show ?thesis using start by blast
qed

lemma resource_key [simp]:
  "Body (AddResourceKey k v e) = Body e" "Timestamp (AddResourceKey k v e) = Timestamp e"
  "Attributes (AddResourceKey k v e) = Attributes e"
  "fmlookup (the (Resource (AddResourceKey k v e))) k' = (if k' = k then Some (VString v) else fmlookup (nonnil (Resource e)) k')"
  "nonnil (Resource (AddResourceKey k v e)) = the (Resource (AddResourceKey k v e))"
  by (simp_all add: AddResourceKey_def nonnil_def)

lemma populate_frame [simp]:
  "Body (populateResource te e) = Body e" "Timestamp (populateResource te e) = Timestamp e"
  "Attributes (populateResource te e) = Attributes e"
  by (simp_all add: populateResource_def Let_def)

lemma populate_keys:
  "fmlookup (the (Resource (populateResource te e))) ''k8s.namespace.name'' = Some (VString (ioNamespace te))"
  "fmlookup (the (Resource (populateResource te e))) ''k8s.cluster.name'' = Some (VString (ClusterName te))"
  by (simp_all add: populateResource_def Let_def)

text \<open>
  An event becomes an entry with the first of its three times that is set, its type as an attribute, and
  the object in its resource.
\<close>

lemma k8s_event_entry:
  assumes "Object event = Event_Object te" "toUnstructured te = Inr body" "NewEntry now k (VMap body) = Some (Inr e0)"
  shows "\<exists>e. event_entry toUnstructured now k event = Some (Some e) \<and> Body e = VMap body \<and>
    Timestamp e = hd ([t \<leftarrow> [EventTime te, LastTimestamp te, FirstTimestamp te]. t \<noteq> zero_time] @ [zero_time]) \<and>
    fmlookup (the (Attributes e)) ''event_type'' = Some (VString (EventType event)) \<and>
    fmlookup (the (Resource e)) ''k8s.namespace.name'' = Some (VString (ioNamespace te)) \<and>
    fmlookup (the (Resource e)) ''k8s.cluster.name'' = Some (VString (ClusterName te))"
  using assms NewEntry_body [OF assms(3)]
  by (simp add: event_entry_def populate_keys) (simp add: event_time_def AddAttribute_def)

section \<open>Namespaces that are lost\<close>

definition lost :: "string \<Rightarrow> k8s_run \<Rightarrow> bool" where
  "lost n r \<longleftrightarrow> slice_ok (run_op r) \<and> ranging r = None \<and> n \<notin># watched r \<and> discovering r \<notin> {Missing n, Added n} \<and>
     (n \<in> set (namespaces (run_op r)) \<or> \<not> discoverNamespaces (run_op r))"

lemma lost_step:
  "k8s_step r r' \<Longrightarrow> lost n r \<Longrightarrow>
     lost n r' \<and> (n \<in> set (namespaces (run_op r)) \<longrightarrow> n \<in> set (namespaces (run_op r')))"
proof (induction rule: k8s_step.induct)
  case (Fails r m)
  then have "m \<noteq> n" by (auto simp: lost_def)
  then show ?case using Fails remove_namespaces [of "run_op r" m] by (auto simp: lost_def dest: in_diffD)
qed (auto simp: lost_def discover_check_def discover_add_def discover_watch_def split: discovery.splits)

lemma lost_steps:
  "k8s_step\<^sup>*\<^sup>* r r' \<Longrightarrow> lost n r \<Longrightarrow>
     lost n r' \<and> (n \<in> set (namespaces (run_op r)) \<longrightarrow> n \<in> set (namespaces (run_op r')))"
  by (induction rule: rtranclp_induct) (use lost_step in blast)+

lemma range_rest:
  assumes "ranging r = Some (i, n)" "i \<le> n" "n \<le> length (ns_array (run_op r))" "\<not> cancelled r"
  shows "k8s_step\<^sup>*\<^sup>* r (r\<lparr>watched := watched r + mset (drop i (take n (ns_array (run_op r)))), ranging := None\<rparr>)"
  using assms
proof (induction "n - i" arbitrary: i r)
  case 0
  then show ?case using k8s_step.Ranged [of r n] by simp
next
  case (Suc d)
  then have i: "i < n" by simp
  let ?a = "ns_array (run_op r)"
  let ?r = "r\<lparr>watched := add_mset (?a ! i) (watched r), ranging := Some (Suc i, n)\<rparr>"
  have step: "k8s_step r ?r" by (rule k8s_step.Range [OF Suc.prems(4,1) i])
  have "drop i (take n ?a) = ?a ! i # drop (Suc i) (take n ?a)"
    using i Suc.prems(3) by (subst Cons_nth_drop_Suc [symmetric]) simp_all
  moreover have "k8s_step\<^sup>*\<^sup>* ?r (?r\<lparr>watched := watched ?r + mset (drop (Suc i) (take n (ns_array (run_op ?r)))), ranging := None\<rparr>)"
    by (rule Suc.hyps(1)) (use Suc.hyps(2) Suc.prems i in simp_all)
  ultimately show ?case using step by (simp add: converse_rtranclp_into_rtranclp)
qed

lemma drop_last_one: "xs \<noteq> [] \<Longrightarrow> drop (length xs - Suc 0) xs = [last xs]"
  by (metis append_butlast_last_id append_eq_conv_conj length_butlast One_nat_def)

lemma add_missing_full:
  "ns_len k = length (ns_array k) \<Longrightarrow> ns_len (add_missing ns k) = length (ns_array (add_missing ns k))"
proof (induction ns arbitrary: k)
  case (Cons n ns)
  have "ns_len (addNamespace n k) = length (ns_array (addNamespace n k))"
    using Cons.prems by (simp add: addNamespace_def namespaces_def)
  then show ?case using Cons by simp
qed simp

lemma start_full:
  assumes "K8sEventsConfig_Build compile has_logger cfg = Inr k" "K8sEvents_Start client k = Inr r0"
  obtains k' where "r0 = \<lparr>run_op = k', watched = {#}, ranging = Some (0, ns_len k'), discovering = Idle, cancelled = False\<rparr>"
    "ns_len k' = length (ns_array k')"
proof -
  have k: "ns_len k = length (ns_array k)"
    using assms(1) by (auto simp: K8sEventsConfig_Build_def K8sEvents.defs InputOperator.defs split: sum.splits if_splits)
  obtain k' where "r0 = \<lparr>run_op = k', watched = {#}, ranging = Some (0, ns_len k'), discovering = Idle, cancelled = False\<rparr>"
      "k' = (if discoverNamespaces k then add_missing (map nsName (case first_list client of Inr l \<Rightarrow> l | Inl _ \<Rightarrow> [])) k else k)"
    using Start_run [OF assms(2)] k by (auto simp: slice_ok_def)
  then show thesis using k by (intro that [of k']) (simp_all add: add_missing_full)
qed

text \<open>
  C12: namespaces can be lost for good.  If the watch of the first of at least three different namespaces
  fails before \<open>Start\<close> has got to the second one, the second one may stay in the list without ever
  being watched again, whatever the discovery does, while the last one is watched twice.  Without
  discovery, a namespace whose watch has failed after the start is never watched again.
\<close>

theorem k8s_namespace_lost:
  assumes "K8sEventsConfig_Build compile has_logger cfg = Inr k" "K8sEvents_Start client k = Inr r0"
    and "namespaces (run_op r0) = a # b # c # ns" "distinct (a # b # c # ns)"
  shows "(\<exists>r. k8s_step\<^sup>*\<^sup>* r0 r \<and> count (watched r) (last (c # ns)) = 2 \<and>
      (\<forall>r'. k8s_step\<^sup>*\<^sup>* r r' \<longrightarrow> b \<in> set (namespaces (run_op r')) \<and> b \<notin># watched r')) \<and>
    (\<forall>r r' n. ranging r = None \<and> discovering r = Idle \<and> slice_ok (run_op r) \<and> \<not> discoverNamespaces (run_op r) \<and> n \<notin># watched r \<and>
      k8s_step\<^sup>*\<^sup>* r r' \<longrightarrow> n \<notin># watched r')"
proof (rule conjI)
  obtain k where r0: "r0 = \<lparr>run_op = k, watched = {#}, ranging = Some (0, ns_len k), discovering = Idle, cancelled = False\<rparr>"
      "ns_len k = length (ns_array k)"
    using start_full [OF assms(1,2)] .
  have array: "ns_array k = a # b # c # ns" using assms(3) r0 by (simp add: namespaces_def)
  let ?k = "k\<lparr>ns_array := b # c # ns @ [last (c # ns)], ns_len := Suc (Suc (length ns))\<rparr>"
  have removed: "removeNamespace a k = ?k"
    using array r0(2) drop_last_one [of "c # ns"] by (simp add: removeNamespace_def namespaces_def)
  let ?n = "Suc (Suc (Suc (length ns)))"
  have len: "ns_len k = ?n" using array r0(2) by simp
  let ?r1 = "\<lparr>run_op = k, watched = {#a#}, ranging = Some (1, ?n), discovering = Idle, cancelled = False\<rparr>"
  let ?r2 = "\<lparr>run_op = ?k, watched = {#}, ranging = Some (1, ?n), discovering = Idle, cancelled = False\<rparr>"
  let ?r = "\<lparr>run_op = ?k, watched = mset (c # ns @ [last (c # ns)]), ranging = None, discovering = Idle, cancelled = False\<rparr>"
  have "k8s_step r0 ?r1" using k8s_step.Range [of r0 0 ?n] array by (simp add: r0(1) len)
  moreover have "k8s_step ?r1 ?r2" using k8s_step.Fails [of ?r1 a] removed by simp
  moreover have "k8s_step\<^sup>*\<^sup>* ?r2 ?r" using range_rest [of ?r2 1 ?n] by simp
  ultimately have steps: "k8s_step\<^sup>*\<^sup>* r0 ?r" by (meson converse_rtranclp_into_rtranclp)
  have last: "last (c # ns) \<in> set (c # ns)" by (rule last_in_set) simp
  have "count (mset (c # ns)) (last (c # ns)) = 1"
    using assms(4) last by (metis distinct.simps(2) distinct_count_atmost_1)
  moreover have "watched ?r = mset (c # ns) + {#last (c # ns)#}" by simp
  ultimately have twice: "count (watched ?r) (last (c # ns)) = 2" by (simp only: count_union, simp del: last.simps)
  have "b \<notin> set (c # ns)" using assms(4) by auto
  then have b: "b \<notin># watched ?r" using last by auto
  show "\<exists>r. k8s_step\<^sup>*\<^sup>* r0 r \<and> count (watched r) (last (c # ns)) = 2 \<and>
      (\<forall>r'. k8s_step\<^sup>*\<^sup>* r r' \<longrightarrow> b \<in> set (namespaces (run_op r')) \<and> b \<notin># watched r')"
    by (rule exI [of _ ?r], intro conjI steps twice)
      (use lost_steps [of ?r _ b] b in \<open>auto simp: lost_def slice_ok_def\<close>)
next
  show "\<forall>r r' n. ranging r = None \<and> discovering r = Idle \<and> slice_ok (run_op r) \<and> \<not> discoverNamespaces (run_op r) \<and> n \<notin># watched r \<and>
      k8s_step\<^sup>*\<^sup>* r r' \<longrightarrow> n \<notin># watched r'"
    using lost_steps by (fastforce simp: lost_def)
qed

section \<open>Witnesses\<close>

definition sample_k8s :: "string list \<Rightarrow> bool \<Rightarrow> K8sEvents" where
  "sample_k8s names discover = \<lparr>OperatorID = ''k'', OperatorType = ''k8s_event_input'', OutputIDs = [], OutputOperators = [],
     in_attributes = [], in_resource = [], ns_array = names, ns_len = length names, discoverNamespaces = discover,
     discoveryInterval = 60 * ns_per_s\<rparr>"

definition sample_client :: "string list \<Rightarrow> k8s_client" where
  "sample_client names = \<lparr>in_cluster = None, new_client = None, first_list = Inr (map k8s_namespace.make names), test_watch = (\<lambda>_. None)\<rparr>"

lemma sample_k8s_build:
  "K8sEventsConfig_Build (\<lambda>_. Inl (StdError [])) True
     ((NewK8sEventsConfig ''k'')\<lparr>k8Namespaces := n # ns, k8DiscoverNamespaces := d\<rparr>) = Inr (sample_k8s (n # ns) d)"
  by (simp add: K8sEventsConfig_Build_def NewK8sEventsConfig_def sample_k8s_def NewInputConfig_def NewWriterConfig_def NewBasicConfig_def
      InputConfig_Build_def WriterConfig_Build_def BasicConfig_Build_def BasicConfig_ID_def Let_def
      AttributerConfig_Build_def IdentifierConfig_Build_def BasicConfig.defs WriterConfig.defs InputConfig.defs
      K8sEventsConfig.defs BasicOperator.defs WriterOperator.defs InputOperator.defs K8sEvents.defs)

theorem k8s_watched_once_witness:
  "\<exists>r0. K8sEvents_Start (sample_client [''a'', ''b'']) (sample_k8s [''a''] True) = Inr r0 \<and>
     (\<forall>r. k8s_step\<^sup>*\<^sup>* (undisturbed r0) r \<longrightarrow> count (watched r) ''a'' \<le> 1)"
proof -
  have start: "\<exists>r0. K8sEvents_Start (sample_client [''a'', ''b'']) (sample_k8s [''a''] True) = Inr r0"
    by (simp add: K8sEvents_Start_def sample_client_def sample_k8s_def listNamespaces_def)
  have distinct: "distinct (k8Namespaces ((NewK8sEventsConfig ''k'')\<lparr>k8Namespaces := [''a''], k8DiscoverNamespaces := True\<rparr>))"
    by simp
  obtain r0 where r0: "K8sEvents_Start (sample_client [''a'', ''b'']) (sample_k8s [''a''] True) = Inr r0" using start by blast
  show ?thesis
    using k8s_watched_once [OF sample_k8s_build r0] r0 distinct by blast
qed

theorem k8s_namespace_lost_witness:
  "\<exists>r0 r. K8sEvents_Start (sample_client []) (sample_k8s [''a'', ''b'', ''c''] True) = Inr r0 \<and> k8s_step\<^sup>*\<^sup>* r0 r \<and>
     count (watched r) ''c'' = 2 \<and> (\<forall>r'. k8s_step\<^sup>*\<^sup>* r r' \<longrightarrow> ''b'' \<notin># watched r')"
proof -
  let ?r0 = "\<lparr>run_op = sample_k8s [''a'', ''b'', ''c''] True, watched = {#}, ranging = Some (0, 3), discovering = Idle, cancelled = False\<rparr>"
  have r0: "K8sEvents_Start (sample_client []) (sample_k8s [''a'', ''b'', ''c''] True) = Inr ?r0"
    by (simp add: K8sEvents_Start_def sample_client_def sample_k8s_def listNamespaces_def)
  have names: "namespaces (run_op ?r0) = ''a'' # ''b'' # ''c'' # []" by (simp add: namespaces_def sample_k8s_def)
  have "distinct (''a'' # ''b'' # ''c'' # [])" by simp
  from k8s_namespace_lost [OF sample_k8s_build r0 names this] r0 show ?thesis by auto
qed

end
