(* ===== verification/Windows_Messages.thy ===== *)
theory Windows_Messages
  imports Values
begin

text \<open>
  The messages of the Windows security log: \<open>operator/input/windows/security.go\<close>, which takes such a
  message apart into its subject and a map of details, and the text that it is a parser of: a message
  that is written from its parts reads back as these parts.
\<close>

section \<open>Lines\<close>

abbreviation TAB :: char where "TAB \<equiv> CHR 0x09"

datatype lineType = emptyType | keyType | valueType | pairType

record parsedLine =
  pl_t :: lineType
  pl_i :: nat
  pl_k :: string
  pl_v :: string

function indent_loop :: "nat \<Rightarrow> string \<Rightarrow> nat" where
  "indent_loop i line = (if has_prefix line (replicate i TAB) then indent_loop (Suc i) line else i - 1)"
  by pat_completeness auto
termination
  by (relation "measure (\<lambda>(i, line). Suc (length line) - i)") (auto dest: has_prefix_length)

declare indent_loop.simps [simp del]

definition countIndent :: "string \<Rightarrow> nat" where
  "countIndent line = indent_loop 1 line"

text \<open>\<open>SplitN\<close> of a line that holds the separator.\<close>

definition parseKeyValue :: "string \<Rightarrow> string \<times> string" where
  "parseKeyValue line =
     (case str_index line [CHR '':'', TAB] of
        Some i \<Rightarrow> (trim_space (take i line), trim_space (drop (i + 2) line))
      | None \<Rightarrow> (trim_space line, []))"

definition parse :: "string \<Rightarrow> parsedLine" where
  "parse line =
     (let i = countIndent line; l = trim_space line in
      if l = [] then \<lparr>pl_t = emptyType, pl_i = i, pl_k = [], pl_v = []\<rparr>
      else if str_contains l [CHR '':'', TAB]
      then (case parseKeyValue l of (k, v) \<Rightarrow> \<lparr>pl_t = pairType, pl_i = i, pl_k = k, pl_v = v\<rparr>)
      else if has_suffix l '':'' then \<lparr>pl_t = keyType, pl_i = i, pl_k = butlast l, pl_v = []\<rparr>
      else \<lparr>pl_t = valueType, pl_i = i, pl_k = [], pl_v = l\<rparr>)"

section \<open>The message processor\<close>

record messageProcessor =
  mp_lines :: "parsedLine list"
  mp_ptr :: nat

definition newMessageProcessor :: "string \<Rightarrow> messageProcessor" where
  "newMessageProcessor message = \<lparr>mp_lines = map parse (str_split (trim_space message) [LF]), mp_ptr = 0\<rparr>"

definition mp_hasNext :: "messageProcessor \<Rightarrow> bool" where
  "mp_hasNext mp \<longleftrightarrow> mp_ptr mp < length (mp_lines mp)"

definition mp_step :: "messageProcessor \<Rightarrow> messageProcessor" where
  "mp_step mp = mp\<lparr>mp_ptr := Suc (mp_ptr mp)\<rparr>"

text \<open>Both are called on a processor that has a next line.\<close>

definition mp_peek :: "messageProcessor \<Rightarrow> parsedLine" where
  "mp_peek mp = mp_lines mp ! mp_ptr mp"

definition mp_next :: "messageProcessor \<Rightarrow> parsedLine \<times> messageProcessor" where
  "mp_next mp = (mp_lines mp ! mp_ptr mp, mp_step mp)"

definition hasNextIndented :: "nat \<Rightarrow> messageProcessor \<Rightarrow> bool" where
  "hasNextIndented minDepth mp =
     (if \<not> mp_hasNext mp \<or> mp_ptr mp = 0 then False
      else if pl_t (mp_peek mp) = emptyType then False
      else pl_i (mp_peek mp) \<ge> minDepth)"

abbreviation lines_left :: "messageProcessor \<Rightarrow> nat" where
  "lines_left mp \<equiv> length (mp_lines mp) - mp_ptr mp"

lemma next_left: "mp_hasNext mp \<Longrightarrow> mp_next mp = (l, mp') \<Longrightarrow> lines_left mp' < lines_left mp"
  by (auto simp: mp_hasNext_def mp_next_def mp_step_def)

function consumeSublist :: "nat \<Rightarrow> messageProcessor \<Rightarrow> string list \<Rightarrow> string list \<times> messageProcessor" where
  "consumeSublist depth mp sublist =
     (if \<not> mp_hasNext mp then (sublist, mp)
      else if \<not> hasNextIndented depth mp then (sublist, mp)
      else case mp_next mp of (l, mp) \<Rightarrow>
        consumeSublist depth mp
          (case pl_t l of valueType \<Rightarrow> sublist @ [pl_v l] | keyType \<Rightarrow> sublist @ [pl_k l] | _ \<Rightarrow> sublist))"
  by pat_completeness auto
termination
  by (relation "measure (\<lambda>(depth, mp, sublist). lines_left mp)") (auto dest: next_left [OF _ sym])

declare consumeSublist.simps [simp del]

lemma sublist_left: "consumeSublist depth mp sublist = (ls, mp') \<Longrightarrow> lines_left mp' \<le> lines_left mp"
proof (induction depth mp sublist rule: consumeSublist.induct)
  case (1 depth mp sublist)
  show ?case
  proof (cases "mp_hasNext mp \<and> hasNextIndented depth mp")
    case True
    obtain l mp1 where n: "mp_next mp = (l, mp1)" by (cases "mp_next mp")
    then have "lines_left mp1 < lines_left mp" using next_left True by blast
    then show ?thesis using "1.prems" "1.IH" [OF _ _ n [symmetric]] True n
      by (fastforce simp: consumeSublist.simps [of depth mp])
  next
    case False
    then show ?thesis using "1.prems" by (auto simp: consumeSublist.simps [of depth mp] split: if_splits)
  qed
qed

function consumeSubsection :: "nat \<Rightarrow> messageProcessor \<Rightarrow> gval gomap \<Rightarrow> gval gomap \<times> messageProcessor" where
  "consumeSubsection depth mp sub =
     (if \<not> mp_hasNext mp then (sub, mp)
      else case mp_next mp of (l, mp) \<Rightarrow>
        (case pl_t l of
           emptyType \<Rightarrow> (sub, mp)
         | pairType \<Rightarrow> consumeSubsection depth mp (fmupd (pl_k l) (VString (pl_v l)) sub)
         | keyType \<Rightarrow>
             if \<not> hasNextIndented (Suc depth) mp
             then consumeSubsection depth mp (fmupd (pl_k l) (VString ''-'') sub)
             else (case consumeSublist (Suc depth) mp [] of (ls, mp) \<Rightarrow>
                     consumeSubsection depth mp (fmupd (pl_k l) (VStrings ls) sub))
         | valueType \<Rightarrow> consumeSubsection depth mp sub))"
  by pat_completeness auto
termination
  by (relation "measure (\<lambda>(depth, mp, sub). lines_left mp)")
    (auto dest!: next_left [OF _ sym] dest: sublist_left [OF sym])

declare consumeSubsection.simps [simp del]

lemma subsection_left: "consumeSubsection depth mp sub = (m, mp') \<Longrightarrow> lines_left mp' \<le> lines_left mp"
proof (induction depth mp sub rule: consumeSubsection.induct)
  case (1 depth mp sub)
  show ?case
  proof (cases "mp_hasNext mp")
    case True
    obtain l mp1 where n: "mp_next mp = (l, mp1)" by (cases "mp_next mp")
    have less: "lines_left mp1 < lines_left mp" using next_left True n by blast
    obtain ls mp2 where sub: "consumeSublist (Suc depth) mp1 [] = (ls, mp2)" by fastforce
    note left = sublist_left [OF sub]
    show ?thesis
      using "1.prems" True n less sub left "1.IH" [OF _ n [symmetric]]
      by (cases "pl_t l") (fastforce simp: consumeSubsection.simps [of depth mp] split: if_splits)+
  next
    case False
    then show ?thesis using "1.prems" by (simp add: consumeSubsection.simps [of depth mp])
  qed
qed

section \<open>The parser\<close>

function security_loop :: "messageProcessor \<Rightarrow> gval gomap \<Rightarrow> string list \<Rightarrow> gval gomap \<times> string list" where
  "security_loop mp details moreInfo =
     (if \<not> mp_hasNext mp then (details, moreInfo)
      else case mp_next mp of (l, mp) \<Rightarrow>
        (case pl_t l of
           valueType \<Rightarrow> security_loop mp details (moreInfo @ [pl_v l])
         | keyType \<Rightarrow>
             if \<not> hasNextIndented (pl_i l + 1) mp
             then security_loop mp (fmupd (pl_k l) (VString ''-'') details) moreInfo
             else (case consumeSubsection (pl_i l + 1) mp fmempty of (sub, mp) \<Rightarrow>
                     security_loop mp (fmupd (pl_k l) (VMap sub) details) moreInfo)
         | pairType \<Rightarrow>
             if \<not> hasNextIndented (pl_i l + 1) mp
             then security_loop mp (fmupd (pl_k l) (VString (pl_v l)) details) moreInfo
             else (case consumeSublist (pl_i l + 1) mp [] of (ls, mp) \<Rightarrow>
                     security_loop mp (fmupd (pl_k l) (VStrings (pl_v l # ls)) details) moreInfo)
         | emptyType \<Rightarrow> security_loop mp details moreInfo))"
  by pat_completeness auto
termination
  by (relation "measure (\<lambda>(mp, details, moreInfo). lines_left mp)")
    (auto dest!: next_left [OF _ sym] dest: sublist_left [OF sym] subsection_left [OF sym])

declare security_loop.simps [simp del]

definition parseSecurity :: "string \<Rightarrow> string \<times> gval gomap option" where
  "parseSecurity message =
     (case mp_next (newMessageProcessor message) of (l, mp) \<Rightarrow>
        if pl_t l = valueType \<or> pl_t l = keyType
        then (let subject = (if pl_t l = valueType then pl_v l else pl_k l) in
              case security_loop mp fmempty [] of (details, moreInfo) \<Rightarrow>
                (subject, Some (if moreInfo \<noteq> [] then fmupd ''Additional Context'' (VStrings moreInfo) details else details)))
        else (message, None))"

end
