(* ===== verification/Windows_Message_Laws.thy ===== *)
theory Windows_Message_Laws
  imports Windows_Messages
begin

text \<open>
  The message parser of the Windows input reads back what a security message is written from.
\<close>

section \<open>The text of a message\<close>

text \<open>
  A message is its subject and its details with a blank line in front of each: a key with its text, with
  nothing, with several texts on lines of their own, or with a section of such; or a line of context.
\<close>

datatype sub_detail =
    Sub_Text string string
  | Sub_Empty string
  | Sub_List string "string list"

datatype detail =
    Text_Detail string string
  | Empty_Detail string
  | List_Detail string string "string list"
  | Section string "sub_detail list"
  | Context string

fun sub_lines :: "sub_detail \<Rightarrow> string list" where
  "sub_lines (Sub_Text k v) = [TAB # k @ '':'' @ [TAB] @ v]"
| "sub_lines (Sub_Empty k) = [TAB # k @ '':'']"
| "sub_lines (Sub_List k vs) = (TAB # k @ '':'') # map (\<lambda>v. TAB # TAB # v) vs"

fun detail_lines :: "detail \<Rightarrow> string list" where
  "detail_lines (Text_Detail k v) = [k @ '':'' @ [TAB] @ v]"
| "detail_lines (Empty_Detail k) = [k @ '':'']"
| "detail_lines (List_Detail k v vs) = (k @ '':'' @ [TAB] @ v) # map ((#) TAB) vs"
| "detail_lines (Section k subs) = (k @ '':'') # concat (map sub_lines subs)"
| "detail_lines (Context c) = [c]"

definition message_text :: "string \<Rightarrow> detail list \<Rightarrow> string" where
  "message_text subject ds = str_join (subject # concat (map (\<lambda>d. [] # detail_lines d) ds)) [LF]"

fun sub_value :: "sub_detail \<Rightarrow> gval gomap \<Rightarrow> gval gomap" where
  "sub_value (Sub_Text k v) m = fmupd k (VString v) m"
| "sub_value (Sub_Empty k) m = fmupd k (VString ''-'') m"
| "sub_value (Sub_List k vs) m = fmupd k (VStrings vs) m"

fun detail_value :: "detail \<Rightarrow> gval gomap \<Rightarrow> gval gomap" where
  "detail_value (Text_Detail k v) m = fmupd k (VString v) m"
| "detail_value (Empty_Detail k) m = fmupd k (VString ''-'') m"
| "detail_value (List_Detail k v vs) m = fmupd k (VStrings (v # vs)) m"
| "detail_value (Section k subs) m = fmupd k (VMap (fold sub_value subs fmempty)) m"
| "detail_value (Context c) m = m"

fun contexts :: "detail list \<Rightarrow> string list" where
  "contexts [] = []"
| "contexts (Context c # ds) = c # contexts ds"
| "contexts (_ # ds) = contexts ds"

definition message_details :: "detail list \<Rightarrow> gval gomap" where
  "message_details ds =
     (let m = fold detail_value ds fmempty
      in if contexts ds \<noteq> [] then fmupd ''Additional Context'' (VStrings (contexts ds)) m else m)"

section \<open>Well-formed parts\<close>

definition plain_text :: "string \<Rightarrow> bool" where
  "plain_text w \<longleftrightarrow> w \<noteq> [] \<and> begins_plain w \<and> ends_plain w \<and> LF \<notin> set w"

definition key_text :: "string \<Rightarrow> bool" where
  "key_text k \<longleftrightarrow> plain_text k \<and> TAB \<notin> set k"

definition line_text :: "string \<Rightarrow> bool" where
  "line_text w \<longleftrightarrow> plain_text w \<and> TAB \<notin> set w \<and> last w \<noteq> CHR '':''"

fun sub_ok :: "sub_detail \<Rightarrow> bool" where
  "sub_ok (Sub_Text k v) \<longleftrightarrow> key_text k \<and> plain_text v"
| "sub_ok (Sub_Empty k) \<longleftrightarrow> key_text k"
| "sub_ok (Sub_List k vs) \<longleftrightarrow> key_text k \<and> vs \<noteq> [] \<and> list_all line_text vs"

fun detail_ok :: "detail \<Rightarrow> bool" where
  "detail_ok (Text_Detail k v) \<longleftrightarrow> key_text k \<and> plain_text v"
| "detail_ok (Empty_Detail k) \<longleftrightarrow> key_text k"
| "detail_ok (List_Detail k v vs) \<longleftrightarrow> key_text k \<and> plain_text v \<and> vs \<noteq> [] \<and> list_all line_text vs"
| "detail_ok (Section k subs) \<longleftrightarrow> key_text k \<and> subs \<noteq> [] \<and> list_all sub_ok subs"
| "detail_ok (Context c) \<longleftrightarrow> line_text c"

section \<open>Single lines\<close>

lemma begins_plain_TAB: "begins_plain w \<Longrightarrow> w \<noteq> [] \<Longrightarrow> hd w \<noteq> TAB"
  using begins_plain_hd [of w] by (auto simp: ascii_space_def)

lemmas trim_tabs = trim_space_tabs

lemma indent_tabs:
  assumes "w = [] \<or> hd w \<noteq> TAB"
  shows "countIndent (replicate n TAB @ w) = n"
proof -
  have yes: "has_prefix (replicate n TAB @ w) (replicate i TAB)" if "i \<le> n" for i
    using that by (simp add: has_prefix_def)
  have no: "\<not> has_prefix (replicate n TAB @ w) (replicate (Suc n) TAB)"
  proof
    assume "has_prefix (replicate n TAB @ w) (replicate (Suc n) TAB)"
    then obtain t where t: "replicate n TAB @ w = replicate (Suc n) TAB @ t" by (auto simp: has_prefix_iff)
    have "replicate (Suc n) TAB @ t = replicate n TAB @ TAB # t" by (simp add: replicate_app_Cons_same)
    then show False using assms t by simp
  qed
  have "indent_loop i (replicate n TAB @ w) = n" if "1 \<le> i" "i \<le> Suc n" for i
    using that
  proof (induction "Suc n - i" arbitrary: i)
    case 0
    then have "i = Suc n" by simp
    then show ?case using no by (simp add: indent_loop.simps [of "Suc n"])
  next
    case (Suc d)
    then show ?case using yes [of i] Suc.hyps(1) [of "Suc i"] by (simp add: indent_loop.simps [of i])
  qed
  then show ?thesis by (simp add: countIndent_def)
qed

lemma no_separator: "TAB \<notin> set w \<Longrightarrow> \<not> str_contains w [CHR '':'', TAB]"
  by (auto simp: str_contains_iff)

lemma parse_empty: "parse [] = \<lparr>pl_t = emptyType, pl_i = 0, pl_k = [], pl_v = []\<rparr>"
  using indent_tabs [of "[]" 0] by (simp add: parse_def trim_space_plain)

lemma parse_value:
  assumes "line_text w"
  shows "parse (replicate n TAB @ w) = \<lparr>pl_t = valueType, pl_i = n, pl_k = [], pl_v = w\<rparr>"
proof -
  have w: "w \<noteq> []" "begins_plain w" "ends_plain w" "TAB \<notin> set w" "last w \<noteq> CHR '':''"
    using assms by (simp_all add: line_text_def plain_text_def)
  have "\<not> has_suffix w '':''" using w(5) by (auto simp: has_suffix_iff)
  then show ?thesis
    using w trim_tabs [OF w(2,3), of n] indent_tabs [of w n] begins_plain_TAB [OF w(2,1)] no_separator [OF w(4)]
    by (force simp: parse_def)
qed

lemma parse_key:
  assumes "key_text k"
  shows "parse (replicate n TAB @ k @ '':'') = \<lparr>pl_t = keyType, pl_i = n, pl_k = k, pl_v = []\<rparr>"
proof -
  have k: "k \<noteq> []" "begins_plain k" "TAB \<notin> set k"
    using assms by (simp_all add: key_text_def plain_text_def)
  have l: "k @ '':'' \<noteq> []" "begins_plain (k @ '':'')" "ends_plain (k @ '':'')"
    using k begins_plain_append [of k "CHR '':''" "[]"] ends_plain_colon by simp_all
  have "has_suffix (k @ '':'') '':''" "\<not> str_contains (k @ '':'') [CHR '':'', TAB]"
    using k no_separator [of "k @ '':''"] by (auto simp: has_suffix_iff)
  moreover have "hd (k @ '':'') \<noteq> TAB" using begins_plain_TAB [OF l(2,1)] .
  ultimately show ?thesis
    using k trim_tabs [OF l(2,3), of n] indent_tabs [of "k @ '':''" n] by (simp add: parse_def)
qed

lemma separator_index: "TAB \<notin> set k \<Longrightarrow> str_index (k @ CHR '':'' # TAB # v) [CHR '':'', TAB] = Some (length k)"
proof (induction k)
  case (Cons c k)
  then have "\<not> has_prefix (c # k @ CHR '':'' # TAB # v) [CHR '':'', TAB]"
    by (cases k) (auto simp: has_prefix_def)
  then show ?case using Cons by simp
qed (simp add: has_prefix_def)

lemma parse_pair:
  assumes "key_text k" "plain_text v"
  shows "parse (replicate n TAB @ k @ CHR '':'' # TAB # v) = \<lparr>pl_t = pairType, pl_i = n, pl_k = k, pl_v = v\<rparr>"
proof -
  have k: "k \<noteq> []" "begins_plain k" "ends_plain k" "TAB \<notin> set k"
    and v: "v \<noteq> []" "begins_plain v" "ends_plain v"
    using assms by (simp_all add: key_text_def plain_text_def)
  let ?l = "k @ CHR '':'' # TAB # v"
  have l: "?l \<noteq> []" "begins_plain ?l" "ends_plain ?l"
    using k v begins_plain_append [of k "CHR '':''" "TAB # v"] ends_plain_append [of v TAB "k @ '':''"] by simp_all
  have "hd ?l \<noteq> TAB" using begins_plain_TAB [OF l(2,1)] .
  moreover have "str_contains ?l [CHR '':'', TAB]" using separator_index [OF k(4)] by (simp add: str_contains_def)
  moreover have "parseKeyValue ?l = (k, v)"
    using trim_tabs [of k 0] trim_tabs [of v 0] k v by (simp add: parseKeyValue_def separator_index [OF k(4)])
  ultimately show ?thesis
    using trim_tabs [OF l(2,3), of n] indent_tabs [of ?l n] by (simp add: parse_def)
qed

section \<open>The processor over parsed lines\<close>

definition mp_at :: "parsedLine list \<Rightarrow> parsedLine list \<Rightarrow> messageProcessor" where
  "mp_at pre suf = \<lparr>mp_lines = pre @ suf, mp_ptr = length pre\<rparr>"

lemma mp_at_simps [simp]:
  "mp_hasNext (mp_at pre suf) \<longleftrightarrow> suf \<noteq> []"
  "mp_next (mp_at pre (l # suf)) = (l, mp_at (pre @ [l]) suf)"
  "hasNextIndented d (mp_at pre suf) \<longleftrightarrow> pre \<noteq> [] \<and> suf \<noteq> [] \<and> pl_t (hd suf) \<noteq> emptyType \<and> d \<le> pl_i (hd suf)"
  by (auto simp: mp_at_def mp_hasNext_def mp_next_def mp_step_def mp_peek_def hasNextIndented_def nth_append hd_conv_nth)

text \<open>Where a list of values ends.\<close>

definition ends_list :: "nat \<Rightarrow> parsedLine list \<Rightarrow> bool" where
  "ends_list d suf \<longleftrightarrow> suf = [] \<or> pl_t (hd suf) = emptyType \<or> pl_i (hd suf) < d"

abbreviation value_line :: "nat \<Rightarrow> string \<Rightarrow> parsedLine" where
  "value_line d v \<equiv> \<lparr>pl_t = valueType, pl_i = d, pl_k = [], pl_v = v\<rparr>"

abbreviation blank_line :: parsedLine where
  "blank_line \<equiv> \<lparr>pl_t = emptyType, pl_i = 0, pl_k = [], pl_v = []\<rparr>"

lemma sublist_values:
  "pre \<noteq> [] \<Longrightarrow> ends_list d suf \<Longrightarrow>
   consumeSublist d (mp_at pre (map (value_line d) vs @ suf)) acc = (acc @ vs, mp_at (pre @ map (value_line d) vs) suf)"
proof (induction vs arbitrary: pre acc)
  case Nil
  then show ?case by (auto simp: consumeSublist.simps [of d "mp_at pre suf"] ends_list_def)
next
  case (Cons v vs)
  then show ?case
    by (simp add: consumeSublist.simps [of d "mp_at pre (value_line d v # map (value_line d) vs @ suf)"])
qed

fun sub_parsed :: "sub_detail \<Rightarrow> parsedLine list" where
  "sub_parsed (Sub_Text k v) = [\<lparr>pl_t = pairType, pl_i = 1, pl_k = k, pl_v = v\<rparr>]"
| "sub_parsed (Sub_Empty k) = [\<lparr>pl_t = keyType, pl_i = 1, pl_k = k, pl_v = []\<rparr>]"
| "sub_parsed (Sub_List k vs) = \<lparr>pl_t = keyType, pl_i = 1, pl_k = k, pl_v = []\<rparr> # map (value_line 2) vs"

fun detail_parsed :: "detail \<Rightarrow> parsedLine list" where
  "detail_parsed (Text_Detail k v) = [\<lparr>pl_t = pairType, pl_i = 0, pl_k = k, pl_v = v\<rparr>]"
| "detail_parsed (Empty_Detail k) = [\<lparr>pl_t = keyType, pl_i = 0, pl_k = k, pl_v = []\<rparr>]"
| "detail_parsed (List_Detail k v vs) = \<lparr>pl_t = pairType, pl_i = 0, pl_k = k, pl_v = v\<rparr> # map (value_line 1) vs"
| "detail_parsed (Section k subs) = \<lparr>pl_t = keyType, pl_i = 0, pl_k = k, pl_v = []\<rparr> # concat (map sub_parsed subs)"
| "detail_parsed (Context c) = [value_line 0 c]"

lemma sub_parsed_hd: "sub_parsed s \<noteq> [] \<and> pl_i (hd (sub_parsed s)) = 1 \<and> pl_t (hd (sub_parsed s)) \<noteq> emptyType"
  by (cases s) auto

text \<open>A section ends at a blank line, which it takes, or with the message.\<close>

lemma subsection_subs:
  assumes "suf = [] \<or> hd suf = blank_line"
  shows "pre \<noteq> [] \<Longrightarrow> list_all sub_ok subs \<Longrightarrow>
    \<exists>pre'. pre' \<noteq> [] \<and> consumeSubsection 1 (mp_at pre (concat (map sub_parsed subs) @ suf)) m =
      (fold sub_value subs m, mp_at (if suf = [] then pre' else pre' @ [blank_line]) (tl suf))"
proof (induction subs arbitrary: pre m)
  case Nil
  show ?case
  proof (cases suf)
    case Nil
    then show ?thesis using Nil.prems by (intro exI [of _ pre]) (simp add: consumeSubsection.simps [of _ "mp_at pre []"])
  next
    case (Cons l suf')
    then show ?thesis using assms Nil.prems
      by (intro exI [of _ pre]) (simp add: consumeSubsection.simps [of _ "mp_at pre (blank_line # suf')"])
  qed
next
  case (Cons s subs)
  let ?rest = "concat (map sub_parsed subs) @ suf"
  have ends: "ends_list 2 ?rest"
    using assms sub_parsed_hd [of "hd subs"] by (cases subs) (auto simp: ends_list_def)
  show ?case
  proof (cases s)
    case (Sub_Text k v)
    then show ?thesis using Cons.IH [of "pre @ sub_parsed s" "sub_value s m"] Cons.prems
      by (simp add: consumeSubsection.simps [of _ "mp_at pre (_ # ?rest)"])
  next
    case (Sub_Empty k)
    have "\<not> hasNextIndented 2 (mp_at (pre @ sub_parsed s) ?rest)" using ends by (auto simp: ends_list_def)
    then have "consumeSubsection 1 (mp_at pre (sub_parsed s @ ?rest)) m =
        consumeSubsection 1 (mp_at (pre @ sub_parsed s) ?rest) (sub_value s m)"
      by (subst consumeSubsection.simps) (simp add: Sub_Empty numeral_2_eq_2 del: mp_at_simps(3))
    then show ?thesis using Cons.IH [of "pre @ sub_parsed s" "sub_value s m"] Cons.prems by simp
  next
    case (Sub_List k vs)
    then have "vs \<noteq> []" using Cons.prems by simp
    then obtain v vs' where vs: "vs = v # vs'" by (cases vs) auto
    let ?l = "\<lparr>pl_t = keyType, pl_i = 1, pl_k = k, pl_v = []\<rparr>"
    have sub: "consumeSublist 2 (mp_at (pre @ [?l]) (map (value_line 2) vs @ ?rest)) [] =
        (vs, mp_at ((pre @ [?l]) @ map (value_line 2) vs) ?rest)"
      using sublist_values [OF _ ends, of "pre @ [?l]" vs "[]"] by simp
    have indented: "hasNextIndented 2 (mp_at (pre @ [?l]) (map (value_line 2) vs @ ?rest))" by (simp add: vs)
    have "consumeSubsection 1 (mp_at pre (sub_parsed s @ ?rest)) m =
        consumeSubsection 1 (mp_at ((pre @ [?l]) @ map (value_line 2) vs) ?rest) (sub_value s m)"
      by (subst consumeSubsection.simps) (use indented sub in \<open>simp add: Sub_List numeral_2_eq_2 del: mp_at_simps(3)\<close>)
    then show ?thesis using Cons.IH [of "(pre @ [?l]) @ map (value_line 2) vs" "sub_value s m"] Cons.prems by simp
  qed
qed

abbreviation parsed_details :: "detail list \<Rightarrow> parsedLine list" where
  "parsed_details ds \<equiv> concat (map (\<lambda>d. blank_line # detail_parsed d) ds)"

lemma parsed_details_hd: "parsed_details ds = [] \<or> hd (parsed_details ds) = blank_line"
  by (cases ds) auto

lemma skip_blank: "security_loop (mp_at pre (blank_line # suf)) m info = security_loop (mp_at (pre @ [blank_line]) suf) m info"
  by (simp add: security_loop.simps [of "mp_at pre (blank_line # suf)"])

lemma loop_end: "security_loop (mp_at pre []) m info = (m, info)"
  by (simp add: security_loop.simps [of "mp_at pre []"])

lemma loop_detail:
  assumes "detail_ok d" "pre \<noteq> []"
  shows "\<exists>pre'. pre' \<noteq> [] \<and>
    security_loop (mp_at pre (detail_parsed d @ parsed_details ds)) m info =
    security_loop (mp_at pre' (parsed_details ds)) (detail_value d m) (info @ contexts [d])"
proof -
  let ?rest = "parsed_details ds"
  have ends: "ends_list n ?rest" for n using parsed_details_hd [of ds] by (auto simp: ends_list_def)
  have blank: "?rest = [] \<or> pl_t (hd ?rest) = emptyType" using parsed_details_hd [of ds] by auto
  show ?thesis
  proof (cases d)
    case (List_Detail k v vs)
    then obtain w ws where vs: "vs = w # ws" using assms(1) by (cases vs) auto
    let ?l = "\<lparr>pl_t = pairType, pl_i = 0, pl_k = k, pl_v = v\<rparr>"
    have sub: "consumeSublist 1 (mp_at (pre @ [?l]) (map (value_line 1) vs @ ?rest)) [] =
        (vs, mp_at ((pre @ [?l]) @ map (value_line 1) vs) ?rest)"
      using sublist_values [OF _ ends, of "pre @ [?l]" 1 vs "[]"] by simp
    have indented: "hasNextIndented 1 (mp_at (pre @ [?l]) (map (value_line 1) vs @ ?rest))" by (simp add: vs)
    show ?thesis
      by (rule exI [of _ "(pre @ [?l]) @ map (value_line 1) vs"], subst security_loop.simps)
        (use indented sub in \<open>simp add: List_Detail del: mp_at_simps(3)\<close>)
  next
    case (Section k subs)
    then obtain s ss where subs: "subs = s # ss" using assms(1) by (cases subs) auto
    let ?l = "\<lparr>pl_t = keyType, pl_i = 0, pl_k = k, pl_v = []\<rparr>"
    obtain pre' where sub: "pre' \<noteq> []" "consumeSubsection 1 (mp_at (pre @ [?l]) (concat (map sub_parsed subs) @ ?rest)) fmempty =
        (fold sub_value subs fmempty, mp_at (if ?rest = [] then pre' else pre' @ [blank_line]) (tl ?rest))"
      using subsection_subs [OF parsed_details_hd, of "pre @ [?l]" subs ds fmempty] assms(1) Section by auto
    have "concat (map sub_parsed subs) @ ?rest \<noteq> [] \<and> pl_i (hd (concat (map sub_parsed subs) @ ?rest)) = 1 \<and>
        pl_t (hd (concat (map sub_parsed subs) @ ?rest)) \<noteq> emptyType"
      using sub_parsed_hd [of s] by (auto simp: subs)
    then have indented: "hasNextIndented 1 (mp_at (pre @ [?l]) (concat (map sub_parsed subs) @ ?rest))" by simp
    have step: "security_loop (mp_at pre (detail_parsed d @ ?rest)) m info =
        security_loop (mp_at (if ?rest = [] then pre' else pre' @ [blank_line]) (tl ?rest)) (detail_value d m) (info @ contexts [d])"
      by (subst security_loop.simps) (use indented sub(2) in \<open>simp add: Section del: mp_at_simps(3)\<close>)
    have unskip: "security_loop (mp_at (if ?rest = [] then pre' else pre' @ [blank_line]) (tl ?rest)) m' info' =
        security_loop (mp_at pre' ?rest) m' info'" for m' info'
    proof (cases "?rest")
      case (Cons l ls)
      then have "l = blank_line" using parsed_details_hd [of ds] by simp
      then show ?thesis by (simp only: Cons skip_blank list.sel list.distinct if_False)
    qed simp
    show ?thesis by (rule exI [of _ pre'], rule conjI [OF sub(1)], simp only: step unskip)
  qed (use blank assms(2) in \<open>auto simp: security_loop.simps [of "mp_at pre (_ # ?rest)"] intro!: exI [of _ "pre @ detail_parsed d"]\<close>)
qed

lemma contexts_Cons: "contexts (d # ds) = contexts [d] @ contexts ds"
  by (cases d) auto

lemma loop_details:
  "list_all detail_ok ds \<Longrightarrow> pre \<noteq> [] \<Longrightarrow>
   security_loop (mp_at pre (parsed_details ds)) m info = (fold detail_value ds m, info @ contexts ds)"
proof (induction ds arbitrary: pre m info)
  case Nil
  then show ?case by (simp add: loop_end)
next
  case (Cons d ds)
  obtain pre' where "pre' \<noteq> []" "security_loop (mp_at (pre @ [blank_line]) (detail_parsed d @ parsed_details ds)) m info =
      security_loop (mp_at pre' (parsed_details ds)) (detail_value d m) (info @ contexts [d])"
    using loop_detail [of d "pre @ [blank_line]" ds m info] Cons.prems by auto
  then show ?case using Cons.IH [of pre' "detail_value d m" "info @ contexts [d]"] Cons.prems contexts_Cons [of d ds]
    by (simp add: skip_blank)
qed

section \<open>The lines of the text\<close>

definition message_lines :: "string \<Rightarrow> detail list \<Rightarrow> string list" where
  "message_lines subject ds = subject # concat (map (\<lambda>d. [] # detail_lines d) ds)"

lemma sub_lines_parse: "sub_ok s \<Longrightarrow> map parse (sub_lines s) = sub_parsed s"
  using parse_pair [of _ _ 1] parse_key [of _ 1] parse_value [of _ 2]
  by (cases s) (auto simp: list_all_iff numeral_2_eq_2)

lemma detail_lines_parse: "detail_ok d \<Longrightarrow> map parse (detail_lines d) = detail_parsed d"
  using parse_pair [of _ _ 0] parse_key [of _ 0] parse_value [of _ 0] parse_value [of _ 1]
  by (cases d) (auto simp: list_all_iff map_concat sub_lines_parse intro!: arg_cong [of _ _ concat])

lemma pair_ends: "plain_text v \<Longrightarrow> ends_plain (l @ TAB # v)"
  by (simp add: ends_plain_append plain_text_def)

lemma sub_lines_plain: "sub_ok s \<Longrightarrow> l \<in> set (sub_lines s) \<Longrightarrow> LF \<notin> set l \<and> l \<noteq> [] \<and> ends_plain l"
  using pair_ends [of _ "TAB # _ @ '':''"] pair_ends [of _ "[]"] pair_ends [of _ "[TAB]"] ends_plain_colon [of "TAB # _"]
  by (cases s) (auto simp: key_text_def line_text_def list_all_iff, auto simp: plain_text_def)

lemma detail_lines_plain: "detail_ok d \<Longrightarrow> l \<in> set (detail_lines d) \<Longrightarrow> LF \<notin> set l \<and> l \<noteq> [] \<and> ends_plain l"
  using pair_ends [of _ "_ @ '':''"] pair_ends [of _ "[]"] ends_plain_colon
  by (cases d) (auto simp: key_text_def line_text_def list_all_iff dest: sub_lines_plain, auto simp: plain_text_def)

lemma split_join_lines: "ls \<noteq> [] \<Longrightarrow> \<forall>l \<in> set ls. c \<notin> set l \<Longrightarrow> split_at c (str_join ls [c]) = ls"
proof (induction ls)
  case (Cons l ls)
  then show ?case by (cases ls) (simp_all add: split_at_single split_at_join)
qed simp

lemma join_begins: "begins_plain l \<Longrightarrow> l \<noteq> [] \<Longrightarrow> begins_plain (str_join (l # ls) [LF])"
  by (cases ls) (simp_all add: begins_plain_append)

lemma last_join: "ls \<noteq> [] \<Longrightarrow> last ls \<noteq> [] \<Longrightarrow> last (str_join ls sep) = last (last ls) \<and> str_join ls sep \<noteq> []"
proof (induction ls)
  case (Cons l ls)
  then show ?case by (cases ls) auto
qed simp

lemma join_ends: "ls \<noteq> [] \<Longrightarrow> last ls \<noteq> [] \<Longrightarrow> ends_plain (last ls) \<Longrightarrow> ends_plain (str_join ls [LF])"
proof (induction ls)
  case (Cons l ls)
  show ?case
  proof (cases ls)
    case Nil
    then show ?thesis using Cons by simp
  next
    case (Cons l' ls')
    then have "ends_plain (str_join ls [LF])" "str_join ls [LF] \<noteq> []"
      using Cons.IH Cons.prems last_join [of ls "[LF]"] by simp_all
    then show ?thesis using ends_plain_append [of "str_join ls [LF]" LF l] Cons by simp
  qed
qed simp

lemma message_split:
  assumes "line_text subject" "list_all detail_ok ds"
  shows "str_split (trim_space (message_text subject ds)) [LF] = message_lines subject ds"
proof -
  have subject: "subject \<noteq> []" "begins_plain subject" "ends_plain subject" "LF \<notin> set subject"
    using assms(1) by (simp_all add: line_text_def plain_text_def)
  have joined: "message_text subject ds = str_join (message_lines subject ds) [LF]"
    by (simp add: message_text_def message_lines_def)
  have last: "last (message_lines subject ds) \<noteq> [] \<and> ends_plain (last (message_lines subject ds))"
  proof (cases ds rule: rev_cases)
    case Nil
    then show ?thesis using subject by (simp add: message_lines_def)
  next
    case (snoc es d)
    have ne: "detail_lines d \<noteq> []" by (cases d) auto
    then have "last (message_lines subject ds) = last (detail_lines d)" by (simp add: message_lines_def snoc)
    then show ?thesis using detail_lines_plain [of d "last (detail_lines d)"] assms(2) ne by (simp add: snoc)
  qed
  have "trim_space (message_text subject ds) = message_text subject ds"
    using join_begins [OF subject(2,1)] join_ends [of "message_lines subject ds"] last
    by (intro trim_space_plain) (simp_all add: joined message_lines_def)
  moreover have "\<forall>l \<in> set (message_lines subject ds). LF \<notin> set l"
    using subject(4) assms(2) detail_lines_plain by (auto simp: message_lines_def list_all_iff)
  moreover have "message_lines subject ds \<noteq> []" by (simp add: message_lines_def)
  ultimately show ?thesis by (simp add: str_split_char joined split_join_lines)
qed

text \<open>
  C28: a security message reads back.  From the text of a message, the parser gives its subject and
  exactly its details: texts, \<open>-\<close> for a key with nothing, lists, sections as maps of such, and all lines
  of context as one list.
\<close>

theorem security_roundtrip:
  assumes "line_text subject" "list_all detail_ok ds"
  shows "parseSecurity (message_text subject ds) = (subject, Some (message_details ds))"
proof -
  have "map parse (message_lines subject ds) = value_line 0 subject # parsed_details ds"
    using parse_value [OF assms(1), of 0] assms(2)
    by (auto simp: message_lines_def map_concat list_all_iff parse_empty detail_lines_parse intro!: arg_cong [of _ _ concat])
  then have "newMessageProcessor (message_text subject ds) = mp_at [] (value_line 0 subject # parsed_details ds)"
    by (simp add: newMessageProcessor_def message_split [OF assms] mp_at_def)
  then show ?thesis using loop_details [OF assms(2), of "[value_line 0 subject]" fmempty "[]"]
    by (simp add: parseSecurity_def message_details_def)
qed

theorem security_roundtrip_witness:
  "parseSecurity (message_text ''Logon.'' [Section ''Who'' [Sub_Text ''ID'' ''x y'', Sub_List ''Of'' [''a'', ''b''], Sub_Empty ''At''],
       List_Detail ''L'' ''1:'' [''2''], Context ''Why'']) =
     (''Logon.'', Some (fmupd ''Additional Context'' (VStrings [''Why'']) (fmupd ''L'' (VStrings [''1:'', ''2'']) (fmupd ''Who''
       (VMap (fmupd ''At'' (VString ''-'') (fmupd ''Of'' (VStrings [''a'', ''b'']) (fmupd ''ID'' (VString ''x y'') fmempty)))) fmempty))))"
proof -
  let ?ds = "[Section ''Who'' [Sub_Text ''ID'' ''x y'', Sub_List ''Of'' [''a'', ''b''], Sub_Empty ''At''],
       List_Detail ''L'' ''1:'' [''2''], Context ''Why'']"
  have "line_text ''Logon.''" "list_all detail_ok ?ds" by code_simp+
  from security_roundtrip [OF this] show ?thesis by (simp add: message_details_def)
qed

text \<open>A section ends at a blank line only: a key behind it without one becomes part of it.\<close>

lemma section_swallows:
  "parseSecurity (''M'' @ [LF] @ ''S:'' @ [LF, TAB] @ ''I:'' @ [TAB] @ ''1'' @ [LF] @ ''K:'' @ [TAB] @ ''2'') =
     (''M'', Some (fmap_of_list [(''S'', VMap (fmap_of_list [(''K'', VString ''2''), (''I'', VString ''1'')]))]))"
  by code_simp

end
