(* ===== verification/Windows_Input.thy ===== *)
theory Windows_Input
  imports Windows_Messages Parser_Operators Persisters
begin

text \<open>
  The Windows event log input: \<open>operator/input/windows/\<close>, but for \<open>security.go\<close>, which is in
  \<open>Windows_Messages\<close>, and \<open>api.go\<close>, which only hands calls to the library of the system.

  The system is a parameter: a state of type \<open>'w\<close> and the calls of \<open>api.go\<close> with their error numbers.
  The decoders of UTF-16, XML and times are parameters as well.  A handle is a number, and 0 is no
  handle.  In this theory \<open>None\<close> stands for a panic or a loop that does not end.
\<close>

section \<open>Events as XML\<close>

record EventXML =
  xml_Qualifiers :: "16 word"
  xml_ID :: "32 word"
  xml_ProviderName :: string
  xml_ProviderGUID :: string
  xml_EventSourceName :: string
  xml_Computer :: string
  xml_Channel :: string
  xml_RecordID :: "64 word"
  xml_SystemTime :: string
  xml_Message :: string
  xml_Level :: string
  xml_Task :: string
  xml_Opcode :: string
  xml_Keywords :: "string list"

definition parseTimestamp :: "(string \<Rightarrow> gtime option) \<Rightarrow> gtime \<Rightarrow> EventXML \<Rightarrow> gtime" where
  "parseTimestamp rfc3339 now e = (case rfc3339 (xml_SystemTime e) of Some timestamp \<Rightarrow> timestamp | None \<Rightarrow> now)"

definition parseSeverity :: "EventXML \<Rightarrow> severity" where
  "parseSeverity e =
     (if xml_Level e = ''Critical'' then Fatal
      else if xml_Level e = ''Error'' then Error
      else if xml_Level e = ''Warning'' then Warn
      else if xml_Level e = ''Information'' then Info
      else Default)"

definition parseMessage :: "EventXML \<Rightarrow> string \<times> gval gomap option" where
  "parseMessage e = (if xml_Channel e = ''Security'' then parseSecurity (xml_Message e) else (xml_Message e, None))"

definition parseBody :: "EventXML \<Rightarrow> gval gomap" where
  "parseBody e =
     (case parseMessage e of (message, details) \<Rightarrow>
        let body = fmap_of_list
              [(''event_id'', VMap (fmap_of_list [(''qualifiers'', VUint 16 (ucast (xml_Qualifiers e))), (''id'', VUint 32 (ucast (xml_ID e)))])),
               (''provider'', VMap (fmap_of_list [(''name'', VString (xml_ProviderName e)), (''guid'', VString (xml_ProviderGUID e)),
                  (''event_source'', VString (xml_EventSourceName e))])),
               (''system_time'', VString (xml_SystemTime e)), (''computer'', VString (xml_Computer e)),
               (''channel'', VString (xml_Channel e)), (''record_id'', VUint 64 (xml_RecordID e)),
               (''level'', VString (xml_Level e)), (''message'', VString message), (''task'', VString (xml_Task e)),
               (''opcode'', VString (xml_Opcode e)), (''keywords'', VStrings (xml_Keywords e))]
        in case details of
             None \<Rightarrow> body
           | Some d \<Rightarrow> if d \<noteq> fmempty then fmupd ''details'' (VMap d) body else body)"

section \<open>The system\<close>

type_synonym handle = nat
type_synonym errno = nat

definition ErrorInsufficientBuffer :: errno where "ErrorInsufficientBuffer = 122"
definition ErrorNoMoreItems :: errno where "ErrorNoMoreItems = 259"
definition ErrorInvalidOperation :: errno where "ErrorInvalidOperation = 4317"

definition EvtSubscribeToFutureEvents :: "32 word" where "EvtSubscribeToFutureEvents = 1"
definition EvtSubscribeStartAtOldestRecord :: "32 word" where "EvtSubscribeStartAtOldestRecord = 2"
definition EvtSubscribeStartAfterBookmark :: "32 word" where "EvtSubscribeStartAfterBookmark = 3"

text \<open>
  Rendering writes into a buffer of the given size: the error, how much was or would be used, and the
  bytes.
\<close>

record 'w win_api =
  evtCreateBookmark :: "string option \<Rightarrow> 'w \<Rightarrow> (errno + handle) \<times> 'w"
  evtUpdateBookmark :: "handle \<Rightarrow> handle \<Rightarrow> 'w \<Rightarrow> errno option \<times> 'w"
  evtSubscribe :: "string \<Rightarrow> handle \<Rightarrow> 32 word \<Rightarrow> 'w \<Rightarrow> (errno + handle) \<times> 'w"
  evtNext :: "handle \<Rightarrow> 32 word \<Rightarrow> 'w \<Rightarrow> (errno option \<times> handle list) \<times> 'w"
  evtRender :: "handle \<Rightarrow> bool \<Rightarrow> 32 word \<Rightarrow> 'w \<Rightarrow> errno option \<times> 32 word \<times> string"
  evtFormatMessage :: "handle \<Rightarrow> handle \<Rightarrow> 32 word \<Rightarrow> 'w \<Rightarrow> errno option \<times> 32 word \<times> string"
  evtOpenPublisherMetadata :: "string \<Rightarrow> 'w \<Rightarrow> (errno + handle) \<times> 'w"
  evtClose :: "handle \<Rightarrow> 'w \<Rightarrow> errno option \<times> 'w"
  createSignal :: "'w \<Rightarrow> gerror option"
  errno_text :: "errno \<Rightarrow> string"
  utf16Ptr :: "string \<Rightarrow> gerror option"
  utf16_decode :: "string \<Rightarrow> gerror + string"
  xml_event :: "string \<Rightarrow> gerror + EventXML"
  rfc3339 :: "string \<Rightarrow> gtime option"
  win_now :: "'w \<Rightarrow> gtime"

definition unmarshalEventXML :: "'w win_api \<Rightarrow> string \<Rightarrow> gerror + EventXML" where
  "unmarshalEventXML api bytes =
     (case xml_event api bytes of
        Inl err \<Rightarrow> Inl (StdError (''failed to unmarshal xml bytes into event: '' @ error_text err @ '' ('' @ bytes @ '')''))
      | Inr e \<Rightarrow> Inr e)"

section \<open>Buffers\<close>

definition defaultBufferSize :: nat where "defaultBufferSize = 16384"
definition bytesPerWChar :: nat where "bytesPerWChar = 2"

type_synonym Buffer = string

definition NewBuffer :: Buffer where
  "NewBuffer = replicate defaultBufferSize (CHR 0x00)"

definition ReadBytes :: "'w win_api \<Rightarrow> 32 word \<Rightarrow> Buffer \<Rightarrow> (gerror + string) option" where
  "ReadBytes api offset b =
     (if unat offset > length b then None
      else Some (case utf16_decode api (take (unat offset) b) of
        Inl err \<Rightarrow> Inl (StdError (''failed to convert buffer contents to utf8: '' @ error_text err))
      | Inr utf8 \<Rightarrow> Inr (str_trim utf8 [CHR 0x00])))"

definition ReadWideChars :: "'w win_api \<Rightarrow> 32 word \<Rightarrow> Buffer \<Rightarrow> (gerror + string) option" where
  "ReadWideChars api offset b = ReadBytes api (offset * of_nat bytesPerWChar) b"

definition ReadString :: "'w win_api \<Rightarrow> 32 word \<Rightarrow> Buffer \<Rightarrow> (gerror + string) option" where
  "ReadString api offset b = ReadBytes api offset b"

definition UpdateSizeBytes :: "32 word \<Rightarrow> Buffer" where
  "UpdateSizeBytes n = replicate (unat n) (CHR 0x00)"

definition UpdateSizeWide :: "32 word \<Rightarrow> Buffer" where
  "UpdateSizeWide n = replicate (unat (of_nat bytesPerWChar * n)) (CHR 0x00)"

definition SizeBytes :: "Buffer \<Rightarrow> 32 word" where
  "SizeBytes b = of_nat (length b)"

definition SizeWide :: "Buffer \<Rightarrow> 32 word" where
  "SizeWide b = of_nat (length b div bytesPerWChar)"

text \<open>What the buffer holds after a call that wrote these bytes from its first one on.\<close>

definition written :: "string \<Rightarrow> Buffer \<Rightarrow> Buffer" where
  "written bs b = bs @ drop (length bs) b"

section \<open>Rendering\<close>

text \<open>\<open>FirstByte\<close> needs a buffer that is not empty.  The buffer is passed by value, so that a larger one is only used by the call that made it.\<close>

partial_function (option) RenderSimple :: "'w win_api \<Rightarrow> 'w \<Rightarrow> handle \<Rightarrow> Buffer \<Rightarrow> (gerror + EventXML) option" where
  "RenderSimple api w event buffer =
     (if event = 0 then Some (Inl (StdError ''event handle does not exist''))
      else if buffer = [] then None
      else case evtRender api event False (SizeBytes buffer) w of (err, bufferUsed, bs) \<Rightarrow>
        if err = Some ErrorInsufficientBuffer then RenderSimple api w event (UpdateSizeBytes bufferUsed)
        else (case err of
          Some n \<Rightarrow> Some (Inl (StdError (''syscall to '' @ quoted ''EvtRender'' @ '' failed: '' @ errno_text api n)))
        | None \<Rightarrow>
            map_option (\<lambda>r. case r of
                Inl err \<Rightarrow> Inl (StdError (''failed to read bytes from buffer: '' @ error_text err))
              | Inr bytes \<Rightarrow> unmarshalEventXML api bytes) (ReadBytes api bufferUsed (written bs buffer))))"

partial_function (option) RenderFormatted ::
  "'w win_api \<Rightarrow> 'w \<Rightarrow> handle \<Rightarrow> handle \<Rightarrow> Buffer \<Rightarrow> (gerror + EventXML) option" where
  "RenderFormatted api w publisher event buffer =
     (if event = 0 then Some (Inl (StdError ''event handle does not exist''))
      else if buffer = [] then None
      else case evtFormatMessage api publisher event (SizeWide buffer) w of (err, bufferUsed, bs) \<Rightarrow>
        if err = Some ErrorInsufficientBuffer then RenderFormatted api w publisher event (UpdateSizeWide bufferUsed)
        else (case err of
          Some n \<Rightarrow> Some (Inl (StdError (''syscall to '' @ quoted ''EvtFormatMessage'' @ '' failed: '' @ errno_text api n)))
        | None \<Rightarrow>
            map_option (\<lambda>r. case r of
                Inl err \<Rightarrow> Inl (StdError (''failed to read bytes from buffer: '' @ error_text err))
              | Inr bytes \<Rightarrow> unmarshalEventXML api bytes) (ReadWideChars api bufferUsed (written bs buffer))))"

partial_function (option) Bookmark_Render :: "'w win_api \<Rightarrow> 'w \<Rightarrow> handle \<Rightarrow> Buffer \<Rightarrow> (gerror + string) option" where
  "Bookmark_Render api w b buffer =
     (if b = 0 then Some (Inl (StdError ''bookmark handle is not open''))
      else if buffer = [] then None
      else case evtRender api b True (SizeBytes buffer) w of (err, bufferUsed, bs) \<Rightarrow>
        if err = Some ErrorInsufficientBuffer then Bookmark_Render api w b (UpdateSizeBytes bufferUsed)
        else (case err of
          Some n \<Rightarrow> Some (Inl (StdError (''syscall to '' @ quoted ''EvtRender'' @ '' failed: '' @ errno_text api n)))
        | None \<Rightarrow> ReadString api bufferUsed (written bs buffer)))"

section \<open>Handles\<close>

text \<open>Closing a handle of an event, a bookmark, a subscription or a publisher, named by \<open>what\<close>.\<close>

definition close_handle :: "string \<Rightarrow> 'w win_api \<Rightarrow> handle \<Rightarrow> 'w \<Rightarrow> (gerror + handle) \<times> 'w" where
  "close_handle what api h w =
     (if h = 0 then (Inr h, w)
      else case evtClose api h w of
        (Some n, w) \<Rightarrow> (Inl (StdError (''failed to close '' @ what @ '': '' @ errno_text api n)), w)
      | (None, w) \<Rightarrow> (Inr 0, w))"

definition Event_Close :: "'w win_api \<Rightarrow> handle \<Rightarrow> 'w \<Rightarrow> (gerror + handle) \<times> 'w" where
  "Event_Close = close_handle ''event handle''"

definition Bookmark_Close :: "'w win_api \<Rightarrow> handle \<Rightarrow> 'w \<Rightarrow> (gerror + handle) \<times> 'w" where
  "Bookmark_Close = close_handle ''bookmark handle''"

definition Subscription_Close :: "'w win_api \<Rightarrow> handle \<Rightarrow> 'w \<Rightarrow> (gerror + handle) \<times> 'w" where
  "Subscription_Close = close_handle ''subscription handle''"

definition Publisher_Close :: "'w win_api \<Rightarrow> handle \<Rightarrow> 'w \<Rightarrow> (gerror + handle) \<times> 'w" where
  "Publisher_Close = close_handle ''publisher''"

definition Publisher_Open :: "'w win_api \<Rightarrow> string \<Rightarrow> handle \<Rightarrow> 'w \<Rightarrow> (gerror + handle) \<times> 'w" where
  "Publisher_Open api provider p w =
     (if p \<noteq> 0 then (Inl (StdError ''publisher handle is already open''), w)
      else case utf16Ptr api provider of
        Some err \<Rightarrow> (Inl (StdError (''failed to convert provider to utf16: '' @ error_text err)), w)
      | None \<Rightarrow> (case evtOpenPublisherMetadata api provider w of
            (Inl n, w) \<Rightarrow> (Inl (StdError (''failed to open publisher handle: '' @ errno_text api n)), w)
          | (Inr h, w) \<Rightarrow> (Inr h, w)))"

definition Bookmark_Open :: "'w win_api \<Rightarrow> string \<Rightarrow> handle \<Rightarrow> 'w \<Rightarrow> (gerror + handle) \<times> 'w" where
  "Bookmark_Open api offsetXML b w =
     (if b \<noteq> 0 then (Inl (StdError ''bookmark handle is already open''), w)
      else case utf16Ptr api offsetXML of
        Some err \<Rightarrow> (Inl (StdError (''failed to convert bookmark xml to utf16: '' @ error_text err)), w)
      | None \<Rightarrow> (case evtCreateBookmark api (Some offsetXML) w of
            (Inl n, w) \<Rightarrow> (Inl (StdError (''failed to create bookmark handle from xml: '' @ errno_text api n)), w)
          | (Inr h, w) \<Rightarrow> (Inr h, w)))"

text \<open>The handle that the bookmark has afterwards comes with the error.\<close>

definition Bookmark_Update :: "'w win_api \<Rightarrow> handle \<Rightarrow> handle \<Rightarrow> 'w \<Rightarrow> gerror option \<times> handle \<times> 'w" where
  "Bookmark_Update api b event w =
     (case (if b = 0 then evtCreateBookmark api None w else (Inr b, w)) of
        (Inl n, w) \<Rightarrow> (Some (StdError (''syscall to `EvtCreateBookmark` failed: '' @ errno_text api n)), b, w)
      | (Inr b, w) \<Rightarrow> (case evtUpdateBookmark api b event w of
            (Some n, w) \<Rightarrow> (Some (StdError (''syscall to `EvtUpdateBookmark` failed: '' @ errno_text api n)), b, w)
          | (None, w) \<Rightarrow> (None, b, w)))"

definition createFlags :: "string \<Rightarrow> handle \<Rightarrow> 32 word" where
  "createFlags startAt bookmark =
     (if bookmark \<noteq> 0 then EvtSubscribeStartAfterBookmark
      else if startAt = ''beginning'' then EvtSubscribeStartAtOldestRecord
      else EvtSubscribeToFutureEvents)"

definition Subscription_Open :: "'w win_api \<Rightarrow> string \<Rightarrow> string \<Rightarrow> handle \<Rightarrow> handle \<Rightarrow> 'w \<Rightarrow> (gerror + handle) \<times> 'w" where
  "Subscription_Open api channel startAt bookmark s w =
     (if s \<noteq> 0 then (Inl (StdError ''subscription handle is already open''), w)
      else case createSignal api w of
        Some err \<Rightarrow> (Inl (StdError (''failed to create signal handle: '' @ error_text err)), w)
      | None \<Rightarrow>
     (case utf16Ptr api channel of
        Some err \<Rightarrow> (Inl (StdError (''failed to convert channel to utf16: '' @ error_text err)), w)
      | None \<Rightarrow>
     (case evtSubscribe api channel bookmark (createFlags startAt bookmark) w of
        (Inl n, w) \<Rightarrow> (Inl (StdError (''failed to subscribe to '' @ channel @ '' channel: '' @ errno_text api n)), w)
      | (Inr h, w) \<Rightarrow> (Inr h, w))))"

definition Subscription_Read :: "'w win_api \<Rightarrow> i64 \<Rightarrow> handle \<Rightarrow> 'w \<Rightarrow> (gerror + handle list) \<times> 'w" where
  "Subscription_Read api maxReads s w =
     (if s = 0 then (Inl (StdError ''subscription handle is not open''), w)
      else if sint maxReads < 1 then (Inl (StdError ''max reads must be greater than 0''), w)
      else case evtNext api s (ucast maxReads) w of
        ((err, events), w) \<Rightarrow>
          if err = Some ErrorInvalidOperation \<and> events = [] then (Inr [], w)
          else if err \<noteq> None \<and> err \<noteq> Some ErrorNoMoreItems then (Inl (StdError (errno_text api (the err))), w)
          else (Inr events, w))"

section \<open>Configuration\<close>

record EventLogConfig = InputConfig +
  cfgChannel :: string
  cfgMaxReads :: i64
  cfgStartAt :: string
  cfgEventPollInterval :: int

definition NewDefaultConfig :: EventLogConfig where
  "NewDefaultConfig = InputConfig.extend (NewInputConfig [] ''windows_eventlog_input'') (EventLogConfig.fields [] 100 ''end'' ns_per_s)"

record EventLogInput = InputOperator +
  ev_bookmark :: handle
  ev_subscription :: handle
  ev_buffer :: Buffer
  ev_channel :: string
  ev_maxReads :: i64
  ev_startAt :: string
  ev_pollInterval :: int

definition EventLogConfig_Build :: "compiler \<Rightarrow> bool \<Rightarrow> 'a EventLogConfig_scheme \<Rightarrow> gerror + EventLogInput" where
  "EventLogConfig_Build compile has_logger c =
     (case InputConfig_Build compile has_logger c of
        Inl err \<Rightarrow> Inl err
      | Inr inputOperator \<Rightarrow>
          if cfgChannel c = [] then Inl (StdError ''missing required `channel` field'')
          else if sint (cfgMaxReads c) < 1 then Inl (StdError ''the `max_reads` field must be greater than zero'')
          else if cfgStartAt c \<noteq> ''end'' \<and> cfgStartAt c \<noteq> ''beginning''
          then Inl (StdError ''the `start_at` field must be set to `beginning` or `end`'')
          else Inr (InputOperator.extend inputOperator
            (EventLogInput.fields 0 0 NewBuffer (cfgChannel c) (cfgMaxReads c) (cfgStartAt c) (cfgEventPollInterval c))))"

section \<open>Reading\<close>

definition sendEvent :: "'w win_api \<Rightarrow> 'w \<Rightarrow> 'a EventLogInput_scheme \<Rightarrow> EventXML \<Rightarrow> (opref \<times> entry) list option" where
  "sendEvent api w op eventXML =
     (case NewEntry (win_now api w) op (VMap (parseBody eventXML)) of
        None \<Rightarrow> None
      | Some (Inl err) \<Rightarrow> Some []
      | Some (Inr e) \<Rightarrow> Some (Write op (e\<lparr>Timestamp := parseTimestamp (rfc3339 api) (win_now api w) eventXML,
          Severity := parseSeverity eventXML\<rparr>)))"

definition processEvent ::
  "'w win_api \<Rightarrow> 'a EventLogInput_scheme \<Rightarrow> handle \<Rightarrow> 'w \<Rightarrow> ((opref \<times> entry) list \<times> 'w) option" where
  "processEvent api op event w =
     (case RenderSimple api w event (ev_buffer op) of
        None \<Rightarrow> None
      | Some (Inl err) \<Rightarrow> Some ([], w)
      | Some (Inr simpleEvent) \<Rightarrow>
     (case Publisher_Open api (xml_ProviderName simpleEvent) 0 w of
        (Inl err, w) \<Rightarrow> map_option (\<lambda>sent. (sent, w)) (sendEvent api w op simpleEvent)
      | (Inr publisher, w) \<Rightarrow>
     (case RenderFormatted api w publisher event (ev_buffer op) of
        None \<Rightarrow> None
      | Some r \<Rightarrow>
          map_option (\<lambda>sent. (sent, snd (Publisher_Close api publisher w)))
            (sendEvent api w op (case r of Inl err \<Rightarrow> simpleEvent | Inr formattedEvent \<Rightarrow> formattedEvent)))))"

record 's event_store =
  offset_get :: "'s \<Rightarrow> string \<Rightarrow> gerror + string option"
  offset_set :: "'s \<Rightarrow> string \<Rightarrow> string \<Rightarrow> 's \<times> gerror option"
  offset_delete :: "'s \<Rightarrow> string \<Rightarrow> 's \<times> gerror option"

definition updateBookmarkOffset ::
  "'w win_api \<Rightarrow> ('s, 'b) event_store_scheme \<Rightarrow> 'a EventLogInput_scheme \<Rightarrow> handle \<Rightarrow> 'w \<Rightarrow> 's
    \<Rightarrow> ('a EventLogInput_scheme \<times> 'w \<times> 's) option" where
  "updateBookmarkOffset api st op event w s =
     (case Bookmark_Update api (ev_bookmark op) event w of
        (Some err, b, w) \<Rightarrow> Some (op\<lparr>ev_bookmark := b\<rparr>, w, s)
      | (None, b, w) \<Rightarrow>
     (case Bookmark_Render api w b (ev_buffer op) of
        None \<Rightarrow> None
      | Some (Inl err) \<Rightarrow> Some (op\<lparr>ev_bookmark := b\<rparr>, w, s)
      | Some (Inr bookmarkXML) \<Rightarrow> Some (op\<lparr>ev_bookmark := b\<rparr>, w, fst (offset_set st s (ev_channel op) bookmarkXML))))"

text \<open>The events of one batch; only the last one moves the bookmark.\<close>

fun read_events ::
  "'w win_api \<Rightarrow> ('s, 'b) event_store_scheme \<Rightarrow> 'a EventLogInput_scheme \<Rightarrow> handle list \<Rightarrow> 'w \<Rightarrow> 's
    \<Rightarrow> ((opref \<times> entry) list \<times> 'a EventLogInput_scheme \<times> 'w \<times> 's) option" where
  "read_events api st op [] w s = Some ([], op, w, s)"
| "read_events api st op (event # events) w s =
     (case processEvent api op event w of
        None \<Rightarrow> None
      | Some (sent, w) \<Rightarrow>
     (case (if events = [] then updateBookmarkOffset api st op event w s else Some (op, w, s)) of
        None \<Rightarrow> None
      | Some (op, w, s) \<Rightarrow>
          map_option (apfst ((@) sent)) (read_events api st op events (snd (Event_Close api event w)) s)))"

definition EventLogInput_read ::
  "'w win_api \<Rightarrow> ('s, 'b) event_store_scheme \<Rightarrow> 'a EventLogInput_scheme \<Rightarrow> 'w \<Rightarrow> 's
    \<Rightarrow> (nat \<times> (opref \<times> entry) list \<times> 'a EventLogInput_scheme \<times> 'w \<times> 's) option" where
  "EventLogInput_read api st op w s =
     (case Subscription_Read api (ev_maxReads op) (ev_subscription op) w of
        (Inl err, w) \<Rightarrow> Some (0, [], op, w, s)
      | (Inr events, w) \<Rightarrow> map_option (Pair (length events)) (read_events api st op events w s))"

text \<open>\<open>cancelled i\<close> says whether the context is found to be cancelled before the \<open>i\<close>-th read of a tick.\<close>

partial_function (option) readToEnd ::
  "'w win_api \<Rightarrow> ('s, 'b) event_store_scheme \<Rightarrow> (nat \<Rightarrow> bool) \<Rightarrow> nat \<Rightarrow> 'a EventLogInput_scheme \<Rightarrow> 'w \<Rightarrow> 's
    \<Rightarrow> ((opref \<times> entry) list \<times> 'a EventLogInput_scheme \<times> 'w \<times> 's) option" where
  "readToEnd api st cancelled i op w s =
     (if cancelled i then Some ([], op, w, s)
      else case EventLogInput_read api st op w s of
        None \<Rightarrow> None
      | Some (count, sent, op, w, s) \<Rightarrow>
          if count = 0 then Some (sent, op, w, s)
          else Option.bind (readToEnd api st cancelled (Suc i) op w s)
            (\<lambda>(rest_sent, r). Some (sent @ rest_sent, r)))"

text \<open>The ticks until the operator is stopped, each with what its reads see of the context.\<close>

fun readOnInterval ::
  "'w win_api \<Rightarrow> ('s, 'b) event_store_scheme \<Rightarrow> (nat \<Rightarrow> bool) list \<Rightarrow> 'a EventLogInput_scheme \<Rightarrow> 'w \<Rightarrow> 's
    \<Rightarrow> ((opref \<times> entry) list \<times> 'a EventLogInput_scheme \<times> 'w \<times> 's) option" where
  "readOnInterval api st [] op w s = Some ([], op, w, s)"
| "readOnInterval api st (cancelled # ticks) op w s =
     (case readToEnd api st cancelled 0 op w s of
        None \<Rightarrow> None
      | Some (sent, op, w, s) \<Rightarrow> map_option (apfst ((@) sent)) (readOnInterval api st ticks op w s))"

section \<open>Starting and stopping\<close>

text \<open>A missing value reads as the empty string.\<close>

definition getBookmarkOffset :: "('s, 'b) event_store_scheme \<Rightarrow> string \<Rightarrow> 's \<Rightarrow> string \<times> gerror option" where
  "getBookmarkOffset st channel s =
     (case offset_get st s channel of
        Inl err \<Rightarrow> ([], Some err)
      | Inr bytes \<Rightarrow> (case bytes of None \<Rightarrow> [] | Some b \<Rightarrow> b, None))"

definition EventLogInput_Start ::
  "'w win_api \<Rightarrow> ('s, 'b) event_store_scheme \<Rightarrow> 'a EventLogInput_scheme \<Rightarrow> 'w \<Rightarrow> 's
    \<Rightarrow> (gerror + 'a EventLogInput_scheme) \<times> 'w \<times> 's" where
  "EventLogInput_Start api st op w s =
     (case getBookmarkOffset st (ev_channel op) s of
        (offsetXML, err) \<Rightarrow>
     (let s = (if err \<noteq> None then fst (offset_delete st s (ev_channel op)) else s) in
      case (if offsetXML \<noteq> [] then Bookmark_Open api offsetXML 0 w else (Inr 0, w)) of
        (Inl err, w) \<Rightarrow> (Inl (StdError (''failed to open bookmark: '' @ error_text err)), w, s)
      | (Inr b, w) \<Rightarrow>
     (case Subscription_Open api (ev_channel op) (ev_startAt op) b 0 w of
        (Inl err, w) \<Rightarrow> (Inl (StdError (''failed to open subscription: '' @ error_text err)), w, s)
      | (Inr h, w) \<Rightarrow> (Inr (op\<lparr>ev_bookmark := b, ev_subscription := h\<rparr>), w, s))))"

definition EventLogInput_Stop ::
  "'w win_api \<Rightarrow> 'a EventLogInput_scheme \<Rightarrow> 'w \<Rightarrow> gerror option \<times> 'a EventLogInput_scheme \<times> 'w" where
  "EventLogInput_Stop api op w =
     (case Subscription_Close api (ev_subscription op) w of
        (Inl err, w) \<Rightarrow> (Some (StdError (''failed to close subscription: '' @ error_text err)), op, w)
      | (Inr h, w) \<Rightarrow>
     (let op = op\<lparr>ev_subscription := h\<rparr> in
      case Bookmark_Close api (ev_bookmark op) w of
        (Inl err, w) \<Rightarrow> (Some (StdError (''failed to close bookmark: '' @ error_text err)), op, w)
      | (Inr b, w) \<Rightarrow> (None, op\<lparr>ev_bookmark := b\<rparr>, w)))"

end
