(* ===== verification/Windows_Laws.thy ===== *)
theory Windows_Laws
  imports Windows_Input
begin

text \<open>
  What the Windows event log input promises: over clean stops and restarts every event of the channel is
  delivered once and in order.  The laws of the system's calls are stated over what its handles stand for.
\<close>

section \<open>What the calls do\<close>

datatype handle_state =
    Event nat
  | Mark nat
  | Sub nat
  | Pub

text \<open>
  A channel with so many events; an event, its formatted form and a bookmark behind the first \<open>m\<close> events
  as bytes and as what they decode to.
\<close>

record channel =
  ch_len :: nat
  ch_event_raw :: "nat \<Rightarrow> string"
  ch_format_raw :: "nat \<Rightarrow> string"
  ch_mark_raw :: "nat \<Rightarrow> string"
  ch_simple :: "nat \<Rightarrow> EventXML"
  ch_formatted :: "nat \<Rightarrow> EventXML"
  ch_mark :: "nat \<Rightarrow> string"
  ch_publisher :: "string \<Rightarrow> bool"

type_synonym 'w view = "'w \<Rightarrow> handle \<Rightarrow> handle_state option"

definition new_handle :: "'w view \<Rightarrow> 'w \<Rightarrow> 'w \<Rightarrow> handle \<Rightarrow> handle_state \<Rightarrow> bool" where
  "new_handle v w w' h st \<longleftrightarrow> h \<noteq> 0 \<and> v w h = None \<and> v w' = (v w)(h \<mapsto> st)"

text \<open>A call that renders these bytes into a buffer, whose size is counted in units of so many bytes.\<close>

definition renders :: "(32 word \<Rightarrow> errno option \<times> 32 word \<times> string) \<Rightarrow> nat \<Rightarrow> string \<Rightarrow> bool" where
  "renders call unit raw \<longleftrightarrow> (\<exists>n. n * unit = length raw \<and> 0 < n \<and> n * unit < 2 ^ 32 \<and>
     (\<forall>s. call s = (if unat s < n then (Some ErrorInsufficientBuffer, of_nat n, []) else (None, of_nat n, raw))))"

definition bookmark_laws :: "'w win_api \<Rightarrow> 'w view \<Rightarrow> channel \<Rightarrow> bool" where
  "bookmark_laws api v c \<longleftrightarrow>
     (\<forall>x w. \<exists>h w' n. evtCreateBookmark api x w = (Inr h, w') \<and> new_handle v w w' h (Mark n) \<and>
        (\<forall>m. x = Some (ch_mark c m) \<longrightarrow> n = m)) \<and>
     (\<forall>w b e m n. v w b = Some (Mark m) \<and> v w e = Some (Event n) \<longrightarrow>
        (\<exists>w'. evtUpdateBookmark api b e w = (None, w') \<and> v w' = (v w)(b \<mapsto> Mark (Suc n))))"

definition subscription_laws :: "'w win_api \<Rightarrow> 'w view \<Rightarrow> channel \<Rightarrow> bool" where
  "subscription_laws api v c \<longleftrightarrow>
     (\<forall>w name b flags. \<exists>h w' p. evtSubscribe api name b flags w = (Inr h, w') \<and> new_handle v w w' h (Sub p) \<and>
        (flags = EvtSubscribeStartAfterBookmark \<longrightarrow> (\<forall>m. v w b = Some (Mark m) \<longrightarrow> p = m)) \<and>
        (flags = EvtSubscribeStartAtOldestRecord \<longrightarrow> p = 0)) \<and>
     (\<forall>w s p n. v w s = Some (Sub p) \<longrightarrow>
        (\<exists>err hs w'. evtNext api s n w = ((err, hs), w') \<and> distinct hs \<and> 0 \<notin> set hs \<and> (\<forall>h \<in> set hs. v w h = None) \<and>
           v w' = ((v w)(s \<mapsto> Sub (p + length hs))) ++ map_of (zip hs (map Event [p..<p + length hs])) \<and>
           length hs \<le> unat n \<and> length hs \<le> ch_len c - p \<and> (hs \<noteq> [] \<longrightarrow> err = None) \<and>
           (hs = [] \<longrightarrow> (err = Some ErrorNoMoreItems \<or> err = Some ErrorInvalidOperation) \<and> (n \<noteq> 0 \<longrightarrow> ch_len c \<le> p))))"

definition handle_laws :: "'w win_api \<Rightarrow> 'w view \<Rightarrow> channel \<Rightarrow> bool" where
  "handle_laws api v c \<longleftrightarrow>
     (\<forall>w name. if ch_publisher c name then \<exists>h w'. evtOpenPublisherMetadata api name w = (Inr h, w') \<and> new_handle v w w' h Pub
        else \<exists>n w'. evtOpenPublisherMetadata api name w = (Inl n, w') \<and> v w' = v w) \<and>
     (\<forall>w h. v w h \<noteq> None \<longrightarrow> (\<exists>w'. evtClose api h w = (None, w') \<and> v w' = (v w)(h := None)))"

definition rendering_laws :: "'w win_api \<Rightarrow> 'w view \<Rightarrow> channel \<Rightarrow> bool" where
  "rendering_laws api v c \<longleftrightarrow>
     (\<forall>w e n. v w e = Some (Event n) \<and> n < ch_len c \<longrightarrow>
        renders (\<lambda>s. evtRender api e False s w) 1 (ch_event_raw c n) \<and>
        (\<forall>p. v w p = Some Pub \<longrightarrow> renders (\<lambda>s. evtFormatMessage api p e s w) 2 (ch_format_raw c n))) \<and>
     (\<forall>w b m. v w b = Some (Mark m) \<and> 0 < m \<and> m \<le> ch_len c \<longrightarrow> renders (\<lambda>s. evtRender api b True s w) 1 (ch_mark_raw c m)) \<and>
     (\<forall>n < ch_len c. \<exists>t. utf16_decode api (ch_event_raw c n) = Inr t \<and> xml_event api (str_trim t [CHR 0x00]) = Inr (ch_simple c n)) \<and>
     (\<forall>n < ch_len c. \<exists>t. utf16_decode api (ch_format_raw c n) = Inr t \<and> xml_event api (str_trim t [CHR 0x00]) = Inr (ch_formatted c n)) \<and>
     (\<forall>m \<le> ch_len c. 0 < m \<longrightarrow> ch_mark c m \<noteq> [] \<and> utf16Ptr api (ch_mark c m) = None \<and>
        (\<exists>t. utf16_decode api (ch_mark_raw c m) = Inr t \<and> str_trim t [CHR 0x00] = ch_mark c m))"

definition windows_laws :: "'w win_api \<Rightarrow> 'w view \<Rightarrow> channel \<Rightarrow> bool" where
  "windows_laws api v c \<longleftrightarrow>
     bookmark_laws api v c \<and> subscription_laws api v c \<and> handle_laws api v c \<and> rendering_laws api v c"

section \<open>Rendering ends\<close>

lemma unat_small: "n < 2 ^ 32 \<Longrightarrow> unat (of_nat n :: 32 word) = n"
  by (simp add: unat_of_nat)

lemma ReadBytes_written:
  assumes "length raw \<le> length b" "length raw < 2 ^ 32" "utf16_decode api raw = Inr t"
  shows "ReadBytes api (of_nat (length raw)) (written raw b) = Some (Inr (str_trim t [CHR 0x00]))"
  using assms unat_small [OF assms(2)] by (simp add: ReadBytes_def written_def)

text \<open>A second attempt has a buffer of the right size, whatever is rendered.\<close>

lemma render_retry:
  assumes call: "renders call unit raw"
    and step: "\<And>b. b \<noteq> [] \<Longrightarrow> R b = (case call (sizes b) of (err, used, bs) \<Rightarrow>
      if err = Some ErrorInsufficientBuffer then R (resize used) else K err used (written bs b))"
    and sizes: "\<And>b. length b < 2 ^ 32 \<Longrightarrow> unat (sizes b) = length b div unit"
    and resize: "\<And>n. n * unit < 2 ^ 32 \<Longrightarrow> length (resize (of_nat n)) = n * unit"
    and b: "b \<noteq> []" "length b < 2 ^ 32" and unit: "0 < unit"
  shows "\<exists>b' n. length raw \<le> length b' \<and> n * unit = length raw \<and> length raw < 2 ^ 32 \<and> R b = K None (of_nat n) (written raw b')"
proof -
  obtain n where n: "n * unit = length raw" "0 < n" "n * unit < 2 ^ 32"
    and calls: "\<And>s. call s = (if unat s < n then (Some ErrorInsufficientBuffer, of_nat n, []) else (None, of_nat n, raw))"
    using call by (auto simp: renders_def)
  have fits: "R b = K None (of_nat n) (written raw b)" if "n * unit \<le> length b" "length b < 2 ^ 32" "b \<noteq> []" for b
  proof -
    have "n \<le> length b div unit" using that(1) unit by (simp add: less_eq_div_iff_mult_less_eq)
    then show ?thesis using that step [OF that(3)] calls [of "sizes b"] sizes [OF that(2)] by simp
  qed
  show ?thesis
  proof (cases "n \<le> length b div unit")
    case True
    then have "n * unit \<le> length b" using unit by (simp add: less_eq_div_iff_mult_less_eq)
    then show ?thesis using fits b n by (intro exI [of _ b] exI [of _ n]) auto
  next
    case False
    let ?b = "resize (of_nat n)"
    have len: "length ?b = n * unit" by (rule resize [OF n(3)])
    then have "?b \<noteq> []" using n(2) unit by (metis list.size(3) mult_is_0 neq0_conv)
    moreover have "R b = R ?b" using False step [OF b(1)] calls [of "sizes b"] sizes [OF b(2)] by simp
    ultimately show ?thesis using fits [of ?b] len n by (intro exI [of _ ?b] exI [of _ n]) auto
  qed
qed

lemma Simple_renders:
  assumes "renders (\<lambda>s. evtRender api e False s w) 1 raw" "utf16_decode api raw = Inr t" "e \<noteq> 0" "b \<noteq> []" "length b < 2 ^ 32"
  shows "RenderSimple api w e b = Some (unmarshalEventXML api (str_trim t [CHR 0x00]))"
proof -
  obtain b' where b': "length raw \<le> length b'" "length raw < 2 ^ 32" "RenderSimple api w e b =
      map_option (\<lambda>r. case r of
          Inl err \<Rightarrow> Inl (StdError (''failed to read bytes from buffer: '' @ error_text err))
        | Inr bytes \<Rightarrow> unmarshalEventXML api bytes) (ReadBytes api (of_nat (length raw)) (written raw b'))"
    using render_retry [OF assms(1), where R = "RenderSimple api w e" and sizes = SizeBytes and resize = UpdateSizeBytes and b = b and
        K = "\<lambda>err used bs. case err of
          Some n \<Rightarrow> Some (Inl (StdError (''syscall to '' @ quoted ''EvtRender'' @ '' failed: '' @ errno_text api n)))
        | None \<Rightarrow> map_option (\<lambda>r. case r of
              Inl err \<Rightarrow> Inl (StdError (''failed to read bytes from buffer: '' @ error_text err))
            | Inr bytes \<Rightarrow> unmarshalEventXML api bytes) (ReadBytes api used bs)"] assms(3-5)
    by (auto simp: RenderSimple.simps [of _ _ e] SizeBytes_def UpdateSizeBytes_def unat_small)
  show ?thesis by (simp add: b'(3) ReadBytes_written [OF b'(1,2) assms(2)])
qed

lemma Mark_renders:
  assumes "renders (\<lambda>s. evtRender api h True s w) 1 raw" "utf16_decode api raw = Inr t" "h \<noteq> 0" "b \<noteq> []" "length b < 2 ^ 32"
  shows "Bookmark_Render api w h b = Some (Inr (str_trim t [CHR 0x00]))"
proof -
  obtain b' where b': "length raw \<le> length b'" "length raw < 2 ^ 32"
      "Bookmark_Render api w h b = ReadBytes api (of_nat (length raw)) (written raw b')"
    using render_retry [OF assms(1), where R = "Bookmark_Render api w h" and sizes = SizeBytes and resize = UpdateSizeBytes and b = b and
        K = "\<lambda>err used bs. case err of
          Some n \<Rightarrow> Some (Inl (StdError (''syscall to '' @ quoted ''EvtRender'' @ '' failed: '' @ errno_text api n)))
        | None \<Rightarrow> ReadString api used bs"] assms(3-5)
    by (auto simp: Bookmark_Render.simps [of _ _ h] SizeBytes_def UpdateSizeBytes_def unat_small ReadString_def)
  show ?thesis by (simp add: b'(3) ReadBytes_written [OF b'(1,2) assms(2)])
qed

lemma Formatted_renders:
  assumes "renders (\<lambda>s. evtFormatMessage api p e s w) 2 raw" "utf16_decode api raw = Inr t" "e \<noteq> 0" "b \<noteq> []" "length b < 2 ^ 32"
  shows "RenderFormatted api w p e b = Some (unmarshalEventXML api (str_trim t [CHR 0x00]))"
proof -
  have wide: "(of_nat n :: 32 word) * of_nat bytesPerWChar = of_nat (n * 2)"
    "of_nat bytesPerWChar * (of_nat n :: 32 word) = of_nat (n * 2)" for n
    by (simp_all add: bytesPerWChar_def)
  have size: "unat (SizeWide b) = length b div 2" if "length b < 2 ^ 32" for b
    using unat_small [of "length b div 2"] that by (simp add: SizeWide_def bytesPerWChar_def)
  have resize: "length (UpdateSizeWide (of_nat n)) = n * 2" if "n * 2 < 2 ^ 32" for n
    using unat_small [OF that] by (simp add: UpdateSizeWide_def wide del: of_nat_mult)
  obtain b' n where b': "length raw \<le> length b'" "length raw < 2 ^ 32" "n * 2 = length raw" "RenderFormatted api w p e b =
      map_option (\<lambda>r. case r of
          Inl err \<Rightarrow> Inl (StdError (''failed to read bytes from buffer: '' @ error_text err))
        | Inr bytes \<Rightarrow> unmarshalEventXML api bytes) (ReadWideChars api (of_nat n) (written raw b'))"
    using render_retry [OF assms(1), where R = "RenderFormatted api w p e" and sizes = SizeWide and resize = UpdateSizeWide and b = b and
        K = "\<lambda>err used bs. case err of
          Some n \<Rightarrow> Some (Inl (StdError (''syscall to '' @ quoted ''EvtFormatMessage'' @ '' failed: '' @ errno_text api n)))
        | None \<Rightarrow> map_option (\<lambda>r. case r of
              Inl err \<Rightarrow> Inl (StdError (''failed to read bytes from buffer: '' @ error_text err))
            | Inr bytes \<Rightarrow> unmarshalEventXML api bytes) (ReadWideChars api used bs)"] assms(3-5)
    by (auto simp: RenderFormatted.simps [of _ _ _ e] size resize)
  have "ReadWideChars api (of_nat n) (written raw b') = Some (Inr (str_trim t [CHR 0x00]))"
    using ReadBytes_written [OF b'(1,2) assms(2)] by (simp only: ReadWideChars_def wide b'(3))
  then show ?thesis by (simp add: b'(4))
qed

section \<open>One event\<close>

text \<open>The form in which an event is sent.\<close>

definition shown :: "'w win_api \<Rightarrow> channel \<Rightarrow> nat \<Rightarrow> EventXML" where
  "shown api c n =
     (let name = xml_ProviderName (ch_simple c n)
      in if utf16Ptr api name = None \<and> ch_publisher c name then ch_formatted c n else ch_simple c n)"

definition entry_of :: "'w win_api \<Rightarrow> channel \<Rightarrow> nat \<Rightarrow> entry \<Rightarrow> bool" where
  "entry_of api c n e \<longleftrightarrow> Body e = VMap (parseBody (shown api c n)) \<and> Severity e = parseSeverity (shown api c n) \<and>
     (\<forall>t. rfc3339 api (xml_SystemTime (shown api c n)) = Some t \<longrightarrow> Timestamp e = t)"

definition reads :: "'a EventLogInput_scheme \<Rightarrow> bool" where
  "reads op \<longleftrightarrow> labels_entries op \<and> ev_buffer op = NewBuffer"

lemma default_buffer: "NewBuffer \<noteq> []" "length NewBuffer < 2 ^ 32"
  by (simp_all add: NewBuffer_def defaultBufferSize_def)

lemma send_entry:
  assumes "labels_entries op"
  shows "\<exists>e. sendEvent api w op x = Some (Write op e) \<and> Body e = VMap (parseBody x) \<and> Severity e = parseSeverity x \<and>
    (\<forall>t. rfc3339 api (xml_SystemTime x) = Some t \<longrightarrow> Timestamp e = t)"
proof -
  obtain e where e: "NewEntry (win_now api w) op (VMap (parseBody x)) = Some (Inr e)"
    using assms by (auto simp: labels_entries_def)
  let ?e = "e\<lparr>Timestamp := parseTimestamp (rfc3339 api) (win_now api w) x, Severity := parseSeverity x\<rparr>"
  show ?thesis using NewEntry_body [OF e] by (intro exI [of _ ?e]) (simp add: sendEvent_def e parseTimestamp_def)
qed

lemma process_event:
  assumes laws: "windows_laws api v c" and reads: "reads op"
    and h: "v w h = Some (Event n)" "n < ch_len c" "h \<noteq> 0"
  shows "\<exists>e w'. processEvent api op h w = Some (Write op e, w') \<and> v w' = v w \<and> entry_of api c n e"
proof -
  have buffer: "ev_buffer op = NewBuffer" and labels: "labels_entries op" using reads by (simp_all add: reads_def)
  note rl = laws [unfolded windows_laws_def rendering_laws_def]
  obtain t where t: "utf16_decode api (ch_event_raw c n) = Inr t" "xml_event api (str_trim t [CHR 0x00]) = Inr (ch_simple c n)"
    using rl h(2) by blast
  have "renders (\<lambda>s. evtRender api h False s w) 1 (ch_event_raw c n)" using rl h by blast
  from Simple_renders [OF this t(1) h(3) default_buffer]
  have simple: "RenderSimple api w h NewBuffer = Some (Inr (ch_simple c n))" by (simp add: unmarshalEventXML_def t(2))
  let ?name = "xml_ProviderName (ch_simple c n)"
  show ?thesis
  proof (cases "utf16Ptr api ?name = None \<and> ch_publisher c ?name")
    case True
    have "\<forall>w name. if ch_publisher c name then \<exists>h w'. evtOpenPublisherMetadata api name w = (Inr h, w') \<and> new_handle v w w' h Pub
        else \<exists>n w'. evtOpenPublisherMetadata api name w = (Inl n, w') \<and> v w' = v w"
      using laws by (simp add: windows_laws_def handle_laws_def)
    then obtain p w1 where p: "evtOpenPublisherMetadata api ?name w = (Inr p, w1)" "new_handle v w w1 p Pub"
      using True by meson
    have view: "v w1 p = Some Pub" "v w1 h = Some (Event n)" "p \<noteq> 0" "v w p = None" "v w1 = (v w)(p \<mapsto> Pub)"
      using p(2) h(1) by (auto simp: new_handle_def)
    obtain u where u: "utf16_decode api (ch_format_raw c n) = Inr u" "xml_event api (str_trim u [CHR 0x00]) = Inr (ch_formatted c n)"
      using rl h(2) by blast
    have "renders (\<lambda>s. evtFormatMessage api p h s w1) 2 (ch_format_raw c n)" using rl view h(2) by blast
    from Formatted_renders [OF this u(1) h(3) default_buffer]
    have formatted: "RenderFormatted api w1 p h NewBuffer = Some (Inr (ch_formatted c n))" by (simp add: unmarshalEventXML_def u(2))
    obtain e where e: "sendEvent api w1 op (ch_formatted c n) = Some (Write op e)" "Body e = VMap (parseBody (ch_formatted c n))"
        "Severity e = parseSeverity (ch_formatted c n)"
        "\<forall>t. rfc3339 api (xml_SystemTime (ch_formatted c n)) = Some t \<longrightarrow> Timestamp e = t"
      using send_entry [OF labels, of api w1 "ch_formatted c n"] by blast
    have "\<forall>w h. v w h \<noteq> None \<longrightarrow> (\<exists>w'. evtClose api h w = (None, w') \<and> v w' = (v w)(h := None))"
      using laws by (simp add: windows_laws_def handle_laws_def)
    then obtain w2 where w2: "evtClose api p w1 = (None, w2)" "v w2 = (v w1)(p := None)" using view(1) by blast
    have "v w2 = v w" using view(4,5) w2(2) by (metis fun_upd_triv fun_upd_upd)
    then show ?thesis using True p(1) e w2(1) view(3)
      by (intro exI [of _ e] exI [of _ w2])
        (simp add: processEvent_def buffer simple Publisher_Open_def formatted Publisher_Close_def close_handle_def entry_of_def shown_def)
  next
    case False
    have pub: "\<forall>w name. if ch_publisher c name then \<exists>h w'. evtOpenPublisherMetadata api name w = (Inr h, w') \<and> new_handle v w w' h Pub
        else \<exists>n w'. evtOpenPublisherMetadata api name w = (Inl n, w') \<and> v w' = v w"
      using laws by (simp add: windows_laws_def handle_laws_def)
    have "\<exists>err w1. Publisher_Open api ?name 0 w = (Inl err, w1) \<and> v w1 = v w"
    proof (cases "utf16Ptr api ?name")
      case None
      then obtain k w1 where "evtOpenPublisherMetadata api ?name w = (Inl k, w1)" "v w1 = v w" using False pub by meson
      then show ?thesis by (simp add: Publisher_Open_def None)
    qed (simp add: Publisher_Open_def)
    then obtain err w1 where p: "Publisher_Open api ?name 0 w = (Inl err, w1)" "v w1 = v w" by blast
    obtain e where e: "sendEvent api w1 op (ch_simple c n) = Some (Write op e)" "Body e = VMap (parseBody (ch_simple c n))"
        "Severity e = parseSeverity (ch_simple c n)"
        "\<forall>t. rfc3339 api (xml_SystemTime (ch_simple c n)) = Some t \<longrightarrow> Timestamp e = t"
      using send_entry [OF labels, of api w1 "ch_simple c n"] by blast
    have "shown api c n = ch_simple c n" using False by (auto simp: shown_def)
    then show ?thesis using p e
      by (intro exI [of _ e] exI [of _ w1]) (simp add: processEvent_def buffer simple entry_of_def)
  qed
qed

section \<open>The bookmark\<close>

definition bookmark_ok :: "'w view \<Rightarrow> 'w \<Rightarrow> handle \<Rightarrow> bool" where
  "bookmark_ok v w b \<longleftrightarrow> b = 0 \<or> (\<exists>m. v w b = Some (Mark m))"

lemma update_bookmark:
  assumes laws: "windows_laws api v c" and reads: "reads op" and ok: "bookmark_ok v w (ev_bookmark op)"
    and h: "v w h = Some (Event n)" "n < ch_len c"
  shows "\<exists>b w'. updateBookmarkOffset api st op h w s =
      Some (op\<lparr>ev_bookmark := b\<rparr>, w', fst (offset_set st s (ev_channel op) (ch_mark c (Suc n)))) \<and>
    b \<noteq> 0 \<and> v w' = (v w)(b \<mapsto> Mark (Suc n)) \<and> (v w b = None \<or> (\<exists>m. v w b = Some (Mark m)))"
proof -
  have create: "\<forall>x w. \<exists>h w' n. evtCreateBookmark api x w = (Inr h, w') \<and> new_handle v w w' h (Mark n) \<and>
        (\<forall>m. x = Some (ch_mark c m) \<longrightarrow> n = m)"
    and update: "\<forall>w b e m n. v w b = Some (Mark m) \<and> v w e = Some (Event n) \<longrightarrow>
        (\<exists>w'. evtUpdateBookmark api b e w = (None, w') \<and> v w' = (v w)(b \<mapsto> Mark (Suc n)))"
    using laws by (simp_all add: windows_laws_def bookmark_laws_def)
  have "\<exists>b w'. Bookmark_Update api (ev_bookmark op) h w = (None, b, w') \<and> b \<noteq> 0 \<and> v w' = (v w)(b \<mapsto> Mark (Suc n)) \<and>
      (v w b = None \<or> (\<exists>m. v w b = Some (Mark m)))"
  proof (cases "ev_bookmark op = 0")
    case True
    obtain b w1 k where b: "evtCreateBookmark api None w = (Inr b, w1)" "new_handle v w w1 b (Mark k)"
      using create by blast
    then have view: "b \<noteq> 0" "v w b = None" "v w1 = (v w)(b \<mapsto> Mark k)" by (auto simp: new_handle_def)
    then have "v w1 b = Some (Mark k)" "v w1 h = Some (Event n)" using h(1) by auto
    then obtain w2 where "evtUpdateBookmark api b h w1 = (None, w2)" "v w2 = (v w1)(b \<mapsto> Mark (Suc n))"
      using update by blast
    then show ?thesis using True b(1) view
      by (intro exI [of _ b] exI [of _ w2]) (simp add: Bookmark_Update_def)
  next
    case False
    then obtain m where m: "v w (ev_bookmark op) = Some (Mark m)" using ok by (auto simp: bookmark_ok_def)
    then obtain w2 where "evtUpdateBookmark api (ev_bookmark op) h w = (None, w2)"
        "v w2 = (v w)(ev_bookmark op \<mapsto> Mark (Suc n))"
      using update h(1) by blast
    then show ?thesis using False m
      by (intro exI [of _ "ev_bookmark op"] exI [of _ w2]) (simp add: Bookmark_Update_def)
  qed
  then obtain b w' where b: "Bookmark_Update api (ev_bookmark op) h w = (None, b, w')" "b \<noteq> 0"
      "v w' = (v w)(b \<mapsto> Mark (Suc n))" "v w b = None \<or> (\<exists>m. v w b = Some (Mark m))" by blast
  note rl = laws [unfolded windows_laws_def rendering_laws_def]
  have le: "Suc n \<le> ch_len c" "0 < Suc n" using h(2) by simp_all
  obtain t where t: "utf16_decode api (ch_mark_raw c (Suc n)) = Inr t" "str_trim t [CHR 0x00] = ch_mark c (Suc n)"
    using rl le by blast
  have "v w' b = Some (Mark (Suc n))" using b(3) by simp
  then have "renders (\<lambda>s. evtRender api b True s w') 1 (ch_mark_raw c (Suc n))" using rl le by blast
  from Mark_renders [OF this t(1) b(2) default_buffer]
  have "Bookmark_Render api w' b (ev_buffer op) = Some (Inr (ch_mark c (Suc n)))" using reads by (simp add: reads_def t(2))
  then show ?thesis using b by (intro exI [of _ b] exI [of _ w']) (simp add: updateBookmarkOffset_def)
qed

section \<open>A batch, a tick, a run\<close>

lemma bookmark_update [simp]:
  "Write (op\<lparr>ev_bookmark := b\<rparr>) = Write op" "Write (op\<lparr>ev_subscription := h\<rparr>) = Write op"
  by (rule ext, simp add: Write_def)+

lemma NewEntry_update [simp]:
  "NewEntry now (op\<lparr>ev_bookmark := b\<rparr>) x = NewEntry now op x" "NewEntry now (op\<lparr>ev_subscription := b\<rparr>) x = NewEntry now op x"
proof -
  have "in_resource (op\<lparr>ev_bookmark := b\<rparr>) = in_resource op" "in_resource (op\<lparr>ev_subscription := b\<rparr>) = in_resource op" by simp_all
  then show "NewEntry now (op\<lparr>ev_bookmark := b\<rparr>) x = NewEntry now op x"
    "NewEntry now (op\<lparr>ev_subscription := b\<rparr>) x = NewEntry now op x"
    unfolding NewEntry_def by (simp_all split: option.split prod.split)
qed

lemma reads_update [simp]: "reads (op\<lparr>ev_bookmark := b\<rparr>) = reads op" "reads (op\<lparr>ev_subscription := h\<rparr>) = reads op"
  by (simp_all add: reads_def labels_entries_def)

lemma event_close:
  assumes "windows_laws api v c" "v w h \<noteq> None" "h \<noteq> 0"
  shows "v (snd (Event_Close api h w)) = (v w)(h := None)"
proof -
  have "\<forall>w h. v w h \<noteq> None \<longrightarrow> (\<exists>w'. evtClose api h w = (None, w') \<and> v w' = (v w)(h := None))"
    using assms(1) by (simp add: windows_laws_def handle_laws_def)
  then obtain w' where "evtClose api h w = (None, w')" "v w' = (v w)(h := None)" using assms(2) by blast
  then show ?thesis using assms(3) by (simp add: Event_Close_def close_handle_def)
qed

lemma read_batch:
  assumes laws: "windows_laws api v c"
  shows "reads op \<Longrightarrow> distinct hs \<Longrightarrow> 0 \<notin> set hs \<Longrightarrow> \<forall>i < length hs. v w (hs ! i) = Some (Event (p + i)) \<Longrightarrow>
    p + length hs \<le> ch_len c \<Longrightarrow> bookmark_ok v w (ev_bookmark op) \<Longrightarrow> v w h0 = Some (Sub q) \<Longrightarrow>
    \<exists>es b w'. read_events api st op hs w s = Some (concat (map (Write op) es), op\<lparr>ev_bookmark := b\<rparr>, w',
        if hs = [] then s else fst (offset_set st s (ev_channel op) (ch_mark c (p + length hs)))) \<and>
      bookmark_ok v w' b \<and> v w' h0 = Some (Sub q) \<and> list_all2 (entry_of api c) [p..<p + length hs] es"
proof (induction hs arbitrary: p op w s)
  case Nil
  then show ?case by (intro exI [of _ "[]"] exI [of _ "ev_bookmark op"] exI [of _ w]) simp
next
  case (Cons h hs)
  have h: "v w h = Some (Event p)" "h \<noteq> 0" "p < ch_len c" using Cons.prems(3-5) by auto
  obtain e w1 where e: "processEvent api op h w = Some (Write op e, w1)" "v w1 = v w" "entry_of api c p e"
    using process_event [OF laws Cons.prems(1) h(1,3,2)] by blast
  have rest: "\<forall>i < length hs. v w (hs ! i) = Some (Event (Suc p + i))" using Cons.prems(4) by fastforce
  have range: "[p..<p + length (h # hs)] = p # [Suc p..<Suc p + length hs]" by (simp add: upt_rec)
  show ?case
  proof (cases "hs = []")
    case True
    have "bookmark_ok v w1 (ev_bookmark op)" "v w1 h = Some (Event p)" using Cons.prems(6) h(1) e(2) by (simp_all add: bookmark_ok_def)
    then obtain b w2 where b: "updateBookmarkOffset api st op h w1 s =
          Some (op\<lparr>ev_bookmark := b\<rparr>, w2, fst (offset_set st s (ev_channel op) (ch_mark c (Suc p))))"
        "b \<noteq> 0" "v w2 = (v w1)(b \<mapsto> Mark (Suc p))" "v w1 b = None \<or> (\<exists>m. v w1 b = Some (Mark m))"
      using update_bookmark [OF laws Cons.prems(1) _ _ h(3), of w1 h st s] by blast
    have apart: "b \<noteq> h" "b \<noteq> h0" "h \<noteq> h0" using b(4) h(1) e(2) Cons.prems(7) by auto
    let ?w = "snd (Event_Close api h w2)"
    have "v w2 h \<noteq> None" using b(3) h(1) e(2) by simp
    from event_close [OF laws this h(2)] have close: "v ?w = (v w2)(h := None)" .
    have "v ?w h0 = Some (Sub q)" "bookmark_ok v ?w b" using close b(3) e(2) Cons.prems(7) apart by (simp_all add: bookmark_ok_def)
    then show ?thesis using True e(1,3) b(1) range
      by (intro exI [of _ "[e]"] exI [of _ b] exI [of _ ?w]) simp
  next
    case False
    let ?w = "snd (Event_Close api h w1)"
    have "v w1 h \<noteq> None" using h(1) e(2) by simp
    from event_close [OF laws this h(2)] have close: "v ?w = (v w)(h := None)" by (simp add: e(2))
    have "\<forall>i < length hs. v ?w (hs ! i) = Some (Event (Suc p + i))"
      using rest close Cons.prems(2) by (metis distinct.simps(2) fun_upd_other nth_mem)
    moreover have "bookmark_ok v ?w (ev_bookmark op)" "v ?w h0 = Some (Sub q)"
      using Cons.prems(6,7) close h(1) by (auto simp: bookmark_ok_def)
    ultimately obtain es b w' where IH: "read_events api st op hs ?w s = Some (concat (map (Write op) es), op\<lparr>ev_bookmark := b\<rparr>, w',
          if hs = [] then s else fst (offset_set st s (ev_channel op) (ch_mark c (Suc p + length hs))))"
        "bookmark_ok v w' b" "v w' h0 = Some (Sub q)" "list_all2 (entry_of api c) [Suc p..<Suc p + length hs] es"
      using Cons.IH [of op ?w "Suc p" s] Cons.prems by auto
    have "read_events api st op (h # hs) w s = Some (concat (map (Write op) (e # es)), op\<lparr>ev_bookmark := b\<rparr>, w',
          if h # hs = [] then s else fst (offset_set st s (ev_channel op) (ch_mark c (p + length (h # hs)))))"
      using False e(1) IH(1) by simp
    moreover have "list_all2 (entry_of api c) [p..<p + length (h # hs)] (e # es)" using range IH(4) e(3) by simp
    ultimately show ?thesis using IH(2,3) by blast
  qed
qed

text \<open>Where a running operator stands in its channel.\<close>

definition subscribed :: "'w view \<Rightarrow> channel \<Rightarrow> 'w \<Rightarrow> 'a EventLogInput_scheme \<Rightarrow> nat \<Rightarrow> bool" where
  "subscribed v c w op p \<longleftrightarrow> ev_subscription op \<noteq> 0 \<and> v w (ev_subscription op) = Some (Sub p) \<and>
     bookmark_ok v w (ev_bookmark op) \<and> p \<le> ch_len c"

definition reads_some :: "'a EventLogInput_scheme \<Rightarrow> bool" where
  "reads_some op \<longleftrightarrow> 1 \<le> sint (ev_maxReads op) \<and> (ucast (ev_maxReads op) :: 32 word) \<noteq> 0"

lemma read_next:
  assumes laws: "windows_laws api v c" and sub: "subscribed v c w op p" and some: "reads_some op"
  shows "\<exists>hs w1. Subscription_Read api (ev_maxReads op) (ev_subscription op) w = (Inr hs, w1) \<and>
    distinct hs \<and> 0 \<notin> set hs \<and> p + length hs \<le> ch_len c \<and> (\<forall>i < length hs. v w1 (hs ! i) = Some (Event (p + i))) \<and>
    v w1 (ev_subscription op) = Some (Sub (p + length hs)) \<and> bookmark_ok v w1 (ev_bookmark op) \<and> (hs = [] \<longrightarrow> p = ch_len c)"
proof -
  let ?s = "ev_subscription op" and ?n = "ucast (ev_maxReads op) :: 32 word"
  have s: "?s \<noteq> 0" "v w ?s = Some (Sub p)" "bookmark_ok v w (ev_bookmark op)" "p \<le> ch_len c"
    using sub by (simp_all add: subscribed_def)
  have "\<forall>w s p n. v w s = Some (Sub p) \<longrightarrow>
        (\<exists>err hs w'. evtNext api s n w = ((err, hs), w') \<and> distinct hs \<and> 0 \<notin> set hs \<and> (\<forall>h \<in> set hs. v w h = None) \<and>
           v w' = ((v w)(s \<mapsto> Sub (p + length hs))) ++ map_of (zip hs (map Event [p..<p + length hs])) \<and>
           length hs \<le> unat n \<and> length hs \<le> ch_len c - p \<and> (hs \<noteq> [] \<longrightarrow> err = None) \<and>
           (hs = [] \<longrightarrow> (err = Some ErrorNoMoreItems \<or> err = Some ErrorInvalidOperation) \<and> (n \<noteq> 0 \<longrightarrow> ch_len c \<le> p)))"
    using laws by (simp add: windows_laws_def subscription_laws_def)
  from this [rule_format, OF s(2), of ?n] obtain err hs w1 where n: "evtNext api ?s ?n w = ((err, hs), w1)" "distinct hs" "0 \<notin> set hs" "\<forall>h \<in> set hs. v w h = None"
      "v w1 = ((v w)(?s \<mapsto> Sub (p + length hs))) ++ map_of (zip hs (map Event [p..<p + length hs]))"
      "length hs \<le> ch_len c - p" "hs \<noteq> [] \<longrightarrow> err = None"
      "hs = [] \<longrightarrow> (err = Some ErrorNoMoreItems \<or> err = Some ErrorInvalidOperation) \<and> (?n \<noteq> 0 \<longrightarrow> ch_len c \<le> p)"
    by blast
  have "Subscription_Read api (ev_maxReads op) ?s w = (Inr hs, w1)"
    using n(1,7,8) s(1) some by (auto simp: Subscription_Read_def reads_some_def)
  moreover have "v w1 (hs ! i) = Some (Event (p + i))" if "i < length hs" for i
  proof -
    have "map_of (zip hs (map Event [p..<p + length hs])) (hs ! i) = Some (map Event [p..<p + length hs] ! i)"
      using that n(2) by (intro map_of_zip_nth) simp_all
    then show ?thesis using that by (simp add: n(5) map_add_Some_iff)
  qed
  moreover have other: "v w1 h = ((v w)(?s \<mapsto> Sub (p + length hs))) h" if "v w h \<noteq> None" for h
  proof -
    have "h \<notin> set hs" using n(4) that by auto
    then have "map_of (zip hs (map Event [p..<p + length hs])) h = None" by (simp add: map_of_zip_is_None)
    then show ?thesis by (simp only: n(5) map_add_def option.case)
  qed
  moreover have "v w1 ?s = Some (Sub (p + length hs))" using other [of ?s] s(2) by simp
  moreover have "bookmark_ok v w1 (ev_bookmark op)" using s(2,3) other [of "ev_bookmark op"] by (auto simp: bookmark_ok_def split: if_splits)
  ultimately show ?thesis using n s(4) some by (intro exI [of _ hs] exI [of _ w1]) (auto simp: reads_some_def)
qed

context persister
begin

abbreviation event_store :: "'s event_store" where
  "event_store \<equiv> \<lparr>offset_get = get, offset_set = put, offset_delete = remove\<rparr>"

definition stored_at :: "channel \<Rightarrow> 's \<Rightarrow> string \<Rightarrow> nat \<Rightarrow> bool" where
  "stored_at c s name p \<longleftrightarrow> get s name = Inr (if p = 0 then None else Some (ch_mark c p))"

lemma channel_read_from:
  assumes laws: "windows_laws api v c" and puts: "\<And>s k x. snd (put s k x) = None"
    and op: "reads op" "reads_some op" "subscribed v c w op p" "stored_at c s (ev_channel op) p"
  shows "\<exists>n es b w' s'. EventLogInput_read api event_store op w s = Some (n, concat (map (Write op) es), op\<lparr>ev_bookmark := b\<rparr>, w', s') \<and>
    subscribed v c w' (op\<lparr>ev_bookmark := b\<rparr>) (p + n) \<and> stored_at c s' (ev_channel op) (p + n) \<and>
    list_all2 (entry_of api c) [p..<p + n] es \<and> (n = 0 \<longrightarrow> p = ch_len c)"
proof -
  obtain hs w1 where n: "Subscription_Read api (ev_maxReads op) (ev_subscription op) w = (Inr hs, w1)"
    "distinct hs" "0 \<notin> set hs" "p + length hs \<le> ch_len c" "\<forall>i < length hs. v w1 (hs ! i) = Some (Event (p + i))"
    "v w1 (ev_subscription op) = Some (Sub (p + length hs))" "bookmark_ok v w1 (ev_bookmark op)" "hs = [] \<longrightarrow> p = ch_len c"
    using read_next [OF laws op(3,2)] by blast
  let ?s = "if hs = [] then s else fst (put s (ev_channel op) (ch_mark c (p + length hs)))"
  obtain es b w' where r: "read_events api event_store op hs w1 s = Some (concat (map (Write op) es), op\<lparr>ev_bookmark := b\<rparr>, w', ?s)"
      "bookmark_ok v w' b" "v w' (ev_subscription op) = Some (Sub (p + length hs))" "list_all2 (entry_of api c) [p..<p + length hs] es"
    using read_batch [OF laws op(1) n(2,3,5,4,7,6), of event_store s] by auto
  have "stored_at c ?s (ev_channel op) (p + length hs)"
  proof (cases "hs = []")
    case False
    have "put s (ev_channel op) (ch_mark c (p + length hs)) = (?s, None)"
      using puts [of s "ev_channel op" "ch_mark c (p + length hs)"] False by (metis prod.collapse)
    from get_put [OF this] show ?thesis using False by (simp add: stored_at_def)
  qed (use op(4) in simp)
  then show ?thesis using n(1,4,8) r op(3)
    by (intro exI [of _ "length hs"] exI [of _ es] exI [of _ b] exI [of _ w'] exI [of _ ?s])
      (simp add: EventLogInput_read_def subscribed_def)
qed

lemma channel_tick_from:
  assumes laws: "windows_laws api v c" and puts: "\<And>s k x. snd (put s k x) = None"
  shows "reads op \<Longrightarrow> reads_some op \<Longrightarrow> subscribed v c w op p \<Longrightarrow> stored_at c s (ev_channel op) p \<Longrightarrow>
    \<exists>es b w' s' p'. readToEnd api event_store cancelled i op w s = Some (concat (map (Write op) es), op\<lparr>ev_bookmark := b\<rparr>, w', s') \<and>
      subscribed v c w' (op\<lparr>ev_bookmark := b\<rparr>) p' \<and> stored_at c s' (ev_channel op) p' \<and> p \<le> p' \<and>
      list_all2 (entry_of api c) [p..<p'] es \<and> ((\<forall>j. \<not> cancelled j) \<longrightarrow> p' = ch_len c)"
proof (induction "ch_len c - p" arbitrary: i op w p s rule: less_induct)
  case less
  show ?case
  proof (cases "cancelled i")
    case True
    then show ?thesis using less.prems
      by (intro exI [of _ "[]"] exI [of _ "ev_bookmark op"] exI [of _ w] exI [of _ s] exI [of _ p])
        (auto simp: readToEnd.simps [of _ _ _ i])
  next
    case False
    obtain n es b w1 s1 where r: "EventLogInput_read api event_store op w s = Some (n, concat (map (Write op) es), op\<lparr>ev_bookmark := b\<rparr>, w1, s1)"
      "subscribed v c w1 (op\<lparr>ev_bookmark := b\<rparr>) (p + n)" "stored_at c s1 (ev_channel op) (p + n)"
      "list_all2 (entry_of api c) [p..<p + n] es" "n = 0 \<longrightarrow> p = ch_len c"
      using channel_read_from [OF laws puts less.prems] by blast
    show ?thesis
    proof (cases "n = 0")
      case True
      then show ?thesis using r False
        by (intro exI [of _ es] exI [of _ b] exI [of _ w1] exI [of _ s1] exI [of _ p])
          (simp add: readToEnd.simps [of _ _ _ i])
    next
      case n: False
      let ?op = "op\<lparr>ev_bookmark := b\<rparr>"
      have le: "p + n \<le> ch_len c" using r(2) by (simp add: subscribed_def)
      have prems: "reads ?op" "reads_some ?op" "stored_at c s1 (ev_channel ?op) (p + n)"
        using less.prems r(3) by (simp_all add: reads_some_def)
      have smaller: "ch_len c - (p + n) < ch_len c - p" using n le by simp
      obtain fs b2 w2 s2 p2 where t: "readToEnd api event_store cancelled (Suc i) ?op w1 s1 =
            Some (concat (map (Write op) fs), op\<lparr>ev_bookmark := b2\<rparr>, w2, s2)"
          "subscribed v c w2 (op\<lparr>ev_bookmark := b2\<rparr>) p2" "stored_at c s2 (ev_channel op) p2" "p + n \<le> p2"
          "list_all2 (entry_of api c) [p + n..<p2] fs" "(\<forall>j. \<not> cancelled j) \<longrightarrow> p2 = ch_len c"
        using less.hyps [OF smaller prems(1,2) r(2) prems(3), of "Suc i", simplified] by blast
      have "[p..<p2] = [p..<p + n] @ [p + n..<p2]" using t(4) by (metis le_add1 upt_add_eq_append le_add_diff_inverse)
      then have "list_all2 (entry_of api c) [p..<p2] (es @ fs)" using r(4) t(5) by (simp add: list_all2_appendI)
      then show ?thesis using r(1) t n False
        by (intro exI [of _ "es @ fs"] exI [of _ b2] exI [of _ w2] exI [of _ s2] exI [of _ p2])
          (simp add: readToEnd.simps [of _ _ _ i])
    qed
  qed
qed

lemma channel_ticks_from:
  assumes laws: "windows_laws api v c" and puts: "\<And>s k x. snd (put s k x) = None"
  shows "reads op \<Longrightarrow> reads_some op \<Longrightarrow> subscribed v c w op p \<Longrightarrow> stored_at c s (ev_channel op) p \<Longrightarrow>
    \<exists>es b w' s' p'. readOnInterval api event_store ticks op w s = Some (concat (map (Write op) es), op\<lparr>ev_bookmark := b\<rparr>, w', s') \<and>
      subscribed v c w' (op\<lparr>ev_bookmark := b\<rparr>) p' \<and> stored_at c s' (ev_channel op) p' \<and> p \<le> p' \<and>
      list_all2 (entry_of api c) [p..<p'] es \<and> ((\<lambda>_. False) \<in> set ticks \<longrightarrow> p' = ch_len c)"
proof (induction ticks arbitrary: op w p s)
  case Nil
  then show ?case
    by (intro exI [of _ "[]"] exI [of _ "ev_bookmark op"] exI [of _ w] exI [of _ s] exI [of _ p]) simp
next
  case (Cons t ts)
  obtain es b w1 s1 p1 where r: "readToEnd api event_store t 0 op w s = Some (concat (map (Write op) es), op\<lparr>ev_bookmark := b\<rparr>, w1, s1)"
    "subscribed v c w1 (op\<lparr>ev_bookmark := b\<rparr>) p1" "stored_at c s1 (ev_channel op) p1" "p \<le> p1"
    "list_all2 (entry_of api c) [p..<p1] es" "(\<forall>j. \<not> t j) \<longrightarrow> p1 = ch_len c"
    using channel_tick_from [OF laws puts Cons.prems, of t 0] by blast
  let ?op = "op\<lparr>ev_bookmark := b\<rparr>"
  have prems: "reads ?op" "reads_some ?op" "stored_at c s1 (ev_channel ?op) p1"
    using Cons.prems r(3) by (simp_all add: reads_some_def)
  obtain fs b2 w2 s2 p2 where q: "readOnInterval api event_store ts ?op w1 s1 = Some (concat (map (Write op) fs), op\<lparr>ev_bookmark := b2\<rparr>, w2, s2)"
    "subscribed v c w2 (op\<lparr>ev_bookmark := b2\<rparr>) p2" "stored_at c s2 (ev_channel op) p2" "p1 \<le> p2"
    "list_all2 (entry_of api c) [p1..<p2] fs" "(\<lambda>_. False) \<in> set ts \<longrightarrow> p2 = ch_len c"
    using Cons.IH [OF prems(1,2) r(2) prems(3)] by auto
  have "[p..<p2] = [p..<p1] @ [p1..<p2]" using r(4) q(4) by (metis upt_add_eq_append le_add_diff_inverse)
  then have all: "list_all2 (entry_of api c) [p..<p2] (es @ fs)" using r(5) q(5) by (simp add: list_all2_appendI)
  have "p2 \<le> ch_len c" using q(2) by (simp add: subscribed_def)
  then have "(\<lambda>_. False) \<in> set (t # ts) \<longrightarrow> p2 = ch_len c" using r(6) q(4,6) by auto
  then show ?case using r q all
    by (intro exI [of _ "es @ fs"] exI [of _ b2] exI [of _ w2] exI [of _ s2] exI [of _ p2]) simp
qed

lemma channel_start_from:
  assumes laws: "windows_laws api v c" and st: "stored_at c s (ev_channel op) p" "p \<le> ch_len c" "ev_startAt op = ''beginning''"
    and sys: "utf16Ptr api (ev_channel op) = None" "\<And>w. createSignal api w = None"
  shows "\<exists>b h w'. EventLogInput_Start api event_store op w s = (Inr (op\<lparr>ev_bookmark := b, ev_subscription := h\<rparr>), w', s) \<and>
    subscribed v c w' (op\<lparr>ev_bookmark := b, ev_subscription := h\<rparr>) p"
proof -
  have create: "\<forall>x w. \<exists>h w' n. evtCreateBookmark api x w = (Inr h, w') \<and> new_handle v w w' h (Mark n) \<and>
        (\<forall>m. x = Some (ch_mark c m) \<longrightarrow> n = m)"
    using laws by (simp add: windows_laws_def bookmark_laws_def)
  have subscribe: "\<forall>w name b flags. \<exists>h w' p. evtSubscribe api name b flags w = (Inr h, w') \<and> new_handle v w w' h (Sub p) \<and>
        (flags = EvtSubscribeStartAfterBookmark \<longrightarrow> (\<forall>m. v w b = Some (Mark m) \<longrightarrow> p = m)) \<and>
        (flags = EvtSubscribeStartAtOldestRecord \<longrightarrow> p = 0)"
    using laws by (simp add: windows_laws_def subscription_laws_def)
  show ?thesis
  proof (cases "p = 0")
    case True
    obtain h w1 where h: "evtSubscribe api (ev_channel op) 0 EvtSubscribeStartAtOldestRecord w = (Inr h, w1)" "new_handle v w w1 h (Sub 0)"
      using subscribe by blast
    then show ?thesis using True st sys
      by (intro exI [of _ 0] exI [of _ h] exI [of _ w1])
        (simp add: EventLogInput_Start_def getBookmarkOffset_def stored_at_def Subscription_Open_def createFlags_def
          subscribed_def bookmark_ok_def new_handle_def)
  next
    case False
    then have mark: "ch_mark c p \<noteq> []" "utf16Ptr api (ch_mark c p) = None"
      using laws st(2) by (auto simp: windows_laws_def rendering_laws_def)
    obtain b w1 where b: "evtCreateBookmark api (Some (ch_mark c p)) w = (Inr b, w1)" "new_handle v w w1 b (Mark p)"
      using create by blast
    then have view: "b \<noteq> 0" "v w1 b = Some (Mark p)" by (auto simp: new_handle_def)
    obtain h w2 where h: "evtSubscribe api (ev_channel op) b EvtSubscribeStartAfterBookmark w1 = (Inr h, w2)" "new_handle v w1 w2 h (Sub p)"
      using subscribe view(2) by blast
    have "v w2 b = Some (Mark p)" using h(2) view(2) by (auto simp: new_handle_def)
    then show ?thesis using False st sys mark b(1) h view
      by (intro exI [of _ b] exI [of _ h] exI [of _ w2])
        (simp add: EventLogInput_Start_def getBookmarkOffset_def stored_at_def Bookmark_Open_def Subscription_Open_def
          createFlags_def subscribed_def bookmark_ok_def new_handle_def)
  qed
qed

end

section \<open>The channel over restarts\<close>

text \<open>Runs of a built operator, each with its ticks, stopped in order and started again.\<close>

fun windows_runs ::
  "'w win_api \<Rightarrow> ('s, 'b) event_store_scheme \<Rightarrow> (nat \<Rightarrow> bool) list list \<Rightarrow> 'a EventLogInput_scheme \<Rightarrow> 'w \<Rightarrow> 's
    \<Rightarrow> ((opref \<times> entry) list \<times> 'w \<times> 's) option" where
  "windows_runs api st [] op w s = Some ([], w, s)"
| "windows_runs api st (ticks # runs) op w s =
     (case EventLogInput_Start api st op w s of
        (Inl err, w, s) \<Rightarrow> windows_runs api st runs op w s
      | (Inr running, w, s) \<Rightarrow>
     (case readOnInterval api st ticks running w s of
        None \<Rightarrow> None
      | Some (sent, running, w, s) \<Rightarrow>
     (case EventLogInput_Stop api running w of (err, _, w) \<Rightarrow> map_option (apfst ((@) sent)) (windows_runs api st runs op w s))))"

context persister
begin

lemma channel_runs_from:
  assumes laws: "windows_laws api v c" and puts: "\<And>s k x. snd (put s k x) = None"
    and op: "reads op" "reads_some op" "ev_startAt op = ''beginning''"
    and sys: "utf16Ptr api (ev_channel op) = None" "\<And>w. createSignal api w = None"
  shows "stored_at c s (ev_channel op) p \<Longrightarrow> p \<le> ch_len c \<Longrightarrow>
    \<exists>es w' s' p'. windows_runs api event_store runs op w s = Some (concat (map (Write op) es), w', s') \<and>
      p \<le> p' \<and> p' \<le> ch_len c \<and> list_all2 (entry_of api c) [p..<p'] es \<and>
      (runs \<noteq> [] \<and> (\<lambda>_. False) \<in> set (last runs) \<longrightarrow> p' = ch_len c)"
proof (induction runs arbitrary: w s p)
  case Nil
  then show ?case by (intro exI [of _ "[]"] exI [of _ w] exI [of _ s] exI [of _ p]) simp
next
  case (Cons ticks runs)
  obtain b h w1 where start: "EventLogInput_Start api event_store op w s = (Inr (op\<lparr>ev_bookmark := b, ev_subscription := h\<rparr>), w1, s)"
      "subscribed v c w1 (op\<lparr>ev_bookmark := b, ev_subscription := h\<rparr>) p"
    using channel_start_from [OF laws Cons.prems op(3) sys] by blast
  let ?op = "op\<lparr>ev_bookmark := b, ev_subscription := h\<rparr>"
  have prems: "reads ?op" "reads_some ?op" "stored_at c s (ev_channel ?op) p"
    using op Cons.prems by (simp_all add: reads_some_def)
  obtain es b2 w2 s2 p2 where r: "readOnInterval api event_store ticks ?op w1 s = Some (concat (map (Write op) es), op\<lparr>ev_subscription := h, ev_bookmark := b2\<rparr>, w2, s2)"
    "subscribed v c w2 (op\<lparr>ev_subscription := h, ev_bookmark := b2\<rparr>) p2" "stored_at c s2 (ev_channel op) p2" "p \<le> p2"
    "list_all2 (entry_of api c) [p..<p2] es" "(\<lambda>_. False) \<in> set ticks \<longrightarrow> p2 = ch_len c"
    using channel_ticks_from [OF laws puts prems(1,2) start(2) prems(3), of ticks, simplified] by blast
  have le: "p2 \<le> ch_len c" using r(2) by (simp add: subscribed_def)
  obtain err o3 w3 where stop: "EventLogInput_Stop api (op\<lparr>ev_subscription := h, ev_bookmark := b2\<rparr>) w2 = (err, o3, w3)"
    by (cases "EventLogInput_Stop api (op\<lparr>ev_subscription := h, ev_bookmark := b2\<rparr>) w2")
  obtain fs w4 s4 p4 where q: "windows_runs api event_store runs op w3 s2 = Some (concat (map (Write op) fs), w4, s4)"
    "p2 \<le> p4" "p4 \<le> ch_len c" "list_all2 (entry_of api c) [p2..<p4] fs"
    "runs \<noteq> [] \<and> (\<lambda>_. False) \<in> set (last runs) \<longrightarrow> p4 = ch_len c"
    using Cons.IH [OF r(3) le, of w3] by blast
  have "[p..<p4] = [p..<p2] @ [p2..<p4]" using r(4) q(2) by (metis upt_add_eq_append le_add_diff_inverse)
  then have all: "list_all2 (entry_of api c) [p..<p4] (es @ fs)" using r(5) q(4) by (simp add: list_all2_appendI)
  have "ticks # runs \<noteq> [] \<and> (\<lambda>_. False) \<in> set (last (ticks # runs)) \<longrightarrow> p4 = ch_len c"
    using r(6) q(2,3,5) by auto
  then show ?case using start(1) r(1,4) stop q(1-3) all
    by (intro exI [of _ "es @ fs"] exI [of _ w4] exI [of _ s4] exI [of _ p4]) simp
qed

end

definition agent_offsets :: "string \<Rightarrow> mockPersister event_store" where
  "agent_offsets scope = \<lparr>offset_get = scoped_Get mock_Get scope, offset_set = scoped_Set mock_Set scope,
     offset_delete = scoped_Delete mock_Delete scope\<rparr>"

lemma small_count:
  fixes x :: i64
  assumes "1 \<le> sint x" "sint x < 2 ^ 32"
  shows "(ucast x :: 32 word) \<noteq> 0"
proof -
  have "uint (ucast x :: 32 word) = take_bit 32 (sint x)"
    by (simp add: unsigned_ucast_eq sint_uint take_bit_signed_take_bit)
  also have "\<dots> = sint x" using assms by (simp add: take_bit_int_eq_self)
  finally show ?thesis using assms(1) by auto
qed

text \<open>
  C8: the event log survives restarts.  Take a built operator that starts at the beginning of its channel,
  on a system whose calls do what they are documented to, and run it again and again on an empty store,
  each run stopped after any number of ticks and reads.  Then all runs together write the first so many
  events of the channel: each once and in order, with its body and severity; and all of them if a tick of
  the last run was not cut short.  No call for a batch, nor the rendering into a buffer that is too
  small at first, fails to return.
\<close>

theorem windows_resumes:
  assumes "EventLogConfig_Build compile has_logger cfg = Inr op" "cfgStartAt cfg = ''beginning''"
    and "sint (cfgMaxReads cfg) < 2 ^ 32" "labels_entries op"
    and "windows_laws api v c" "utf16Ptr api (cfgChannel cfg) = None" "\<forall>w. createSignal api w = None"
  shows "\<exists>es w' s' n. windows_runs api (agent_offsets scope) runs op w NewUnscopedMockPersister =
      Some (concat (map (Write op) es), w', s') \<and> n \<le> ch_len c \<and> list_all2 (entry_of api c) [0..<n] es \<and>
    (runs \<noteq> [] \<and> (\<lambda>_. False) \<in> set (last runs) \<longrightarrow> n = ch_len c)"
proof -
  have op: "ev_buffer op = NewBuffer" "ev_channel op = cfgChannel cfg" "ev_maxReads op = cfgMaxReads cfg"
      "ev_startAt op = ''beginning''" "1 \<le> sint (cfgMaxReads cfg)"
    using assms(1,2) by (auto simp: EventLogConfig_Build_def EventLogInput.defs InputOperator.defs split: sum.splits if_splits)
  have "(ucast (cfgMaxReads cfg) :: 32 word) \<noteq> 0"
    using small_count [OF op(5) assms(3)] .
  then have r: "reads op" "reads_some op" using op assms(4) by (simp_all add: reads_def reads_some_def)
  have puts: "snd (scoped_Set mock_Set scope s k x) = None" for s k x by (simp add: scoped_Set_def mock_Set_def)
  have "mock_scoped.stored_at scope c NewUnscopedMockPersister (ev_channel op) 0"
    by (simp add: mock_scoped.stored_at_def scoped_Get_def mock_Get_def NewUnscopedMockPersister_def)
  from mock_scoped.channel_runs_from [OF assms(5) puts r op(4) _ _ this, of runs w] assms(6,7) op(2)
  show ?thesis unfolding agent_offsets_def by auto
qed

section \<open>A system\<close>

text \<open>A system that keeps a list of what its handles stand for, with a channel of two events.\<close>

type_synonym sys = "handle_state option list"

definition sys_view :: "sys view" where
  "sys_view w h = (if 0 < h \<and> h \<le> length w then w ! (h - 1) else None)"

definition sys_render :: "nat \<Rightarrow> string \<Rightarrow> 32 word \<Rightarrow> errno option \<times> 32 word \<times> string" where
  "sys_render unit raw s =
     (let n = length raw div unit
      in if unat s < n then (Some ErrorInsufficientBuffer, of_nat n, []) else (None, of_nat n, raw))"

definition sys_xml :: "string \<Rightarrow> EventXML" where
  "sys_xml t = \<lparr>xml_Qualifiers = 0, xml_ID = 7, xml_ProviderName = ''p'', xml_ProviderGUID = [], xml_EventSourceName = [],
     xml_Computer = [], xml_Channel = ''c'', xml_RecordID = of_nat (length t), xml_SystemTime = [], xml_Message = t,
     xml_Level = ''Warning'', xml_Task = [], xml_Opcode = [], xml_Keywords = []\<rparr>"

definition sys_channel :: channel where
  "sys_channel = \<lparr>ch_len = 2, ch_event_raw = (\<lambda>n. replicate (Suc n) (CHR ''e'')), ch_format_raw = (\<lambda>n. replicate (Suc n * 2) (CHR ''f'')),
     ch_mark_raw = (\<lambda>m. replicate m (CHR ''b'')), ch_simple = (\<lambda>n. sys_xml (replicate (Suc n) (CHR ''e''))),
     ch_formatted = (\<lambda>n. sys_xml (replicate (Suc n * 2) (CHR ''f''))), ch_mark = (\<lambda>m. replicate m (CHR ''b'')), ch_publisher = (\<lambda>_. True)\<rparr>"

definition sys_api :: "sys win_api" where
  "sys_api = \<lparr>
     evtCreateBookmark = (\<lambda>x w. (Inr (Suc (length w)), w @ [Some (Mark (case x of None \<Rightarrow> 0 | Some t \<Rightarrow> length t))])),
     evtUpdateBookmark = (\<lambda>b e w. case sys_view w e of Some (Event n) \<Rightarrow> (None, w[b - 1 := Some (Mark (Suc n))]) | _ \<Rightarrow> (Some 6, w)),
     evtSubscribe = (\<lambda>name b flags w. (Inr (Suc (length w)), w @ [Some (Sub (if flags = EvtSubscribeStartAfterBookmark
        then (case sys_view w b of Some (Mark m) \<Rightarrow> m | _ \<Rightarrow> 0) else 0))])),
     evtNext = (\<lambda>s n w. case sys_view w s of
        Some (Sub p) \<Rightarrow> (let k = min (unat n) (2 - p) in
          ((if k = 0 then Some ErrorNoMoreItems else None, [Suc (length w)..<Suc (length w + k)]),
           w[s - 1 := Some (Sub (p + k))] @ map (\<lambda>i. Some (Event i)) [p..<p + k]))
      | _ \<Rightarrow> ((Some 6, []), w)),
     evtRender = (\<lambda>h mark s w. case sys_view w h of
        Some (Event n) \<Rightarrow> sys_render 1 (replicate (Suc n) (CHR ''e'')) s
      | Some (Mark m) \<Rightarrow> sys_render 1 (replicate m (CHR ''b'')) s | _ \<Rightarrow> (Some 6, 0, [])),
     evtFormatMessage = (\<lambda>p e s w. case sys_view w e of
        Some (Event n) \<Rightarrow> sys_render 2 (replicate (Suc n * 2) (CHR ''f'')) s | _ \<Rightarrow> (Some 6, 0, [])),
     evtOpenPublisherMetadata = (\<lambda>name w. (Inr (Suc (length w)), w @ [Some Pub])),
     evtClose = (\<lambda>h w. (None, w[h - 1 := None])),
     createSignal = (\<lambda>_. None), errno_text = (\<lambda>_. []), utf16Ptr = (\<lambda>_. None), utf16_decode = Inr,
     xml_event = (\<lambda>t. Inr (sys_xml t)), rfc3339 = (\<lambda>_. None), win_now = (\<lambda>_. zero_time)\<rparr>"

lemma view_new: "new_handle sys_view w (w @ [Some st]) (Suc (length w)) st"
  by (auto simp: new_handle_def sys_view_def nth_append fun_eq_iff less_Suc_eq_le)

lemma view_set: "sys_view w h \<noteq> None \<Longrightarrow> sys_view (w[h - 1 := x]) = (sys_view w)(h := x)"
  by (auto simp: sys_view_def fun_eq_iff nth_list_update split: if_splits)

lemma view_add:
  "sys_view (w @ map (\<lambda>i. Some (Event i)) [p..<p + k]) =
     sys_view w ++ map_of (zip [Suc (length w)..<Suc (length w + k)] (map Event [p..<p + k]))"
proof (rule ext)
  fix h
  let ?hs = "[Suc (length w)..<Suc (length w + k)]" and ?es = "map Event [p..<p + k]"
  show "sys_view (w @ map (\<lambda>i. Some (Event i)) [p..<p + k]) h = (sys_view w ++ map_of (zip ?hs ?es)) h"
  proof (cases "h \<in> set ?hs")
    case True
    then obtain i where i: "i < k" "h = Suc (length w + i)"
      by (metis atLeastLessThan_iff atLeastLessThan_upt add_Suc le_Suc_ex nat_add_left_cancel_less)
    have "map_of (zip ?hs ?es) (?hs ! i) = Some (?es ! i)" using i(1) by (intro map_of_zip_nth) simp_all
    then have "map_of (zip ?hs ?es) h = Some (Event (p + i))" using i by (simp del: upt_Suc)
    then show ?thesis using i by (simp add: map_add_def sys_view_def nth_append del: upt_Suc)
  next
    case False
    then have "map_of (zip ?hs ?es) h = None" by (simp only: map_of_zip_is_None length_map length_upt) simp
    moreover have "sys_view (w @ map (\<lambda>i. Some (Event i)) [p..<p + k]) h = sys_view w h"
      using False by (auto simp: sys_view_def nth_append not_le simp del: upt_Suc)
    ultimately show ?thesis by (simp only: map_add_def option.case)
  qed
qed

lemma sys_renders: "0 < n \<Longrightarrow> n * unit < 2 ^ 32 \<Longrightarrow> 0 < unit \<Longrightarrow> length raw = n * unit \<Longrightarrow> renders (sys_render unit raw) unit raw"
  by (auto simp: renders_def sys_render_def)

lemma sys_bookmarks: "bookmark_laws sys_api sys_view sys_channel"
proof -
  have "\<exists>h w' n. evtCreateBookmark sys_api x w = (Inr h, w') \<and> new_handle sys_view w w' h (Mark n) \<and>
      (\<forall>m. x = Some (ch_mark sys_channel m) \<longrightarrow> n = m)" for x w
    by (intro exI [of _ "Suc (length w)"] exI [of _ "w @ [Some (Mark (case x of None \<Rightarrow> 0 | Some t \<Rightarrow> length t))]"]
        exI [of _ "case x of None \<Rightarrow> 0 | Some t \<Rightarrow> length t"]) (auto simp: sys_api_def sys_channel_def view_new)
  moreover have "\<exists>w'. evtUpdateBookmark sys_api b e w = (None, w') \<and> sys_view w' = (sys_view w)(b \<mapsto> Mark (Suc n))"
    if "sys_view w b = Some (Mark m)" "sys_view w e = Some (Event n)" for w b e m n
    using that view_set [of w b "Some (Mark (Suc n))"] by (simp add: sys_api_def)
  ultimately show ?thesis unfolding bookmark_laws_def by blast
qed

lemma sys_subscriptions: "subscription_laws sys_api sys_view sys_channel"
proof -
  have "\<exists>h w' p. evtSubscribe sys_api name b flags w = (Inr h, w') \<and> new_handle sys_view w w' h (Sub p) \<and>
        (flags = EvtSubscribeStartAfterBookmark \<longrightarrow> (\<forall>m. sys_view w b = Some (Mark m) \<longrightarrow> p = m)) \<and>
        (flags = EvtSubscribeStartAtOldestRecord \<longrightarrow> p = 0)" for w name b flags
  proof -
    let ?p = "if flags = EvtSubscribeStartAfterBookmark then (case sys_view w b of Some (Mark m) \<Rightarrow> m | _ \<Rightarrow> 0) else 0"
    show ?thesis using view_new [of w "Sub ?p"]
      by (intro exI [of _ "Suc (length w)"] exI [of _ "w @ [Some (Sub ?p)]"] exI [of _ ?p])
        (auto simp: sys_api_def EvtSubscribeStartAfterBookmark_def EvtSubscribeStartAtOldestRecord_def)
  qed
  moreover have "\<exists>err hs w'. evtNext sys_api s n w = ((err, hs), w') \<and> distinct hs \<and> 0 \<notin> set hs \<and> (\<forall>h \<in> set hs. sys_view w h = None) \<and>
           sys_view w' = ((sys_view w)(s \<mapsto> Sub (p + length hs))) ++ map_of (zip hs (map Event [p..<p + length hs])) \<and>
           length hs \<le> unat n \<and> length hs \<le> ch_len sys_channel - p \<and> (hs \<noteq> [] \<longrightarrow> err = None) \<and>
           (hs = [] \<longrightarrow> (err = Some ErrorNoMoreItems \<or> err = Some ErrorInvalidOperation) \<and> (n \<noteq> 0 \<longrightarrow> ch_len sys_channel \<le> p))"
    if s: "sys_view w s = Some (Sub p)" for w s p n
  proof -
    obtain k where k: "k = min (unat n) (2 - p)" by blast
    then have bounds: "k \<le> unat n" "k \<le> 2 - p" "n \<noteq> 0 \<and> k = 0 \<longrightarrow> 2 \<le> p"
      by (auto simp: min_def unat_eq_zero split: if_splits)
    let ?hs = "[Suc (length w)..<Suc (length w + k)]" and ?w = "w[s - 1 := Some (Sub (p + k))]"
    have hs: "length ?hs = k" "?hs = [] \<longleftrightarrow> k = 0" "\<forall>h \<in> set ?hs. sys_view w h = None"
      by (auto simp: sys_view_def simp del: upt_Suc)
    have "sys_view ?w = (sys_view w)(s \<mapsto> Sub (p + k))" using s by (intro view_set) simp
    then have view: "sys_view (?w @ map (\<lambda>i. Some (Event i)) [p..<p + k]) =
        ((sys_view w)(s \<mapsto> Sub (p + length ?hs))) ++ map_of (zip ?hs (map Event [p..<p + length ?hs]))"
      using view_add [of ?w p k] unfolding hs(1) by simp
    have "evtNext sys_api s n w = ((if k = 0 then Some ErrorNoMoreItems else None, ?hs), ?w @ map (\<lambda>i. Some (Event i)) [p..<p + k])"
      by (simp add: sys_api_def s Let_def k)
    moreover have "distinct ?hs" "0 \<notin> set ?hs" by (simp_all del: upt_Suc)
    moreover have "ch_len sys_channel = 2" by (simp add: sys_channel_def)
    ultimately show ?thesis using view hs bounds
      by (intro exI [of _ "if k = 0 then Some ErrorNoMoreItems else None"] exI [of _ ?hs]
          exI [of _ "?w @ map (\<lambda>i. Some (Event i)) [p..<p + k]"] conjI) (simp_all only: if_True if_False simp_thms, simp_all)
  qed
  ultimately show ?thesis unfolding subscription_laws_def by blast
qed

lemma sys_handles: "handle_laws sys_api sys_view sys_channel"
  using view_new [of _ Pub] view_set [of _ _ None] by (auto simp: handle_laws_def sys_api_def sys_channel_def)

lemma sys_renderings: "rendering_laws sys_api sys_view sys_channel"
proof -
  have trim: "str_trim (replicate n x) [CHR 0x00] = replicate n x" if "x \<noteq> CHR 0x00" for n x
    using that by (intro str_trim_idle) auto
  have 1: "renders (\<lambda>s. evtRender sys_api e False s w) 1 (ch_event_raw sys_channel n)"
    if "sys_view w e = Some (Event n)" "n < ch_len sys_channel" for w e n
    using that sys_renders [of "Suc n" 1 "replicate (Suc n) (CHR ''e'')"] by (simp add: sys_api_def sys_channel_def)
  have 2: "renders (\<lambda>s. evtFormatMessage sys_api p e s w) 2 (ch_format_raw sys_channel n)"
    if "sys_view w e = Some (Event n)" "n < ch_len sys_channel" for w e n p
    using that sys_renders [of "Suc n" 2 "replicate (Suc n * 2) (CHR ''f'')"]
    by (simp add: sys_api_def sys_channel_def del: replicate_Suc)
  have 3: "renders (\<lambda>s. evtRender sys_api b True s w) 1 (ch_mark_raw sys_channel m)"
    if "sys_view w b = Some (Mark m)" "0 < m" "m \<le> ch_len sys_channel" for w b m
    using that sys_renders [of m 1 "replicate m (CHR ''b'')"] by (simp add: sys_api_def sys_channel_def)
  show ?thesis unfolding rendering_laws_def
    using 1 2 3 by (auto simp: sys_api_def sys_channel_def trim simp del: replicate_Suc)
qed

lemma sys_laws: "windows_laws sys_api sys_view sys_channel"
  by (simp add: windows_laws_def sys_bookmarks sys_subscriptions sys_handles sys_renderings)

definition sample_windows :: EventLogInput where
  "sample_windows = \<lparr>OperatorID = ''windows_eventlog_input'', OperatorType = ''windows_eventlog_input'', OutputIDs = [], OutputOperators = [],
     in_attributes = [], in_resource = [], ev_bookmark = 0, ev_subscription = 0, ev_buffer = NewBuffer, ev_channel = ''c'',
     ev_maxReads = 1, ev_startAt = ''beginning'', ev_pollInterval = ns_per_s\<rparr>"

abbreviation sample_windows_config :: EventLogConfig where
  "sample_windows_config \<equiv> NewDefaultConfig\<lparr>cfgChannel := ''c'', cfgMaxReads := 1, cfgStartAt := ''beginning''\<rparr>"

lemma sample_windows_build: "EventLogConfig_Build (\<lambda>_. Inl (StdError [])) True sample_windows_config = Inr sample_windows"
  by (simp add: EventLogConfig_Build_def NewDefaultConfig_def sample_windows_def NewInputConfig_def NewWriterConfig_def NewBasicConfig_def
      InputConfig_Build_def WriterConfig_Build_def BasicConfig_Build_def BasicConfig_ID_def Let_def
      AttributerConfig_Build_def IdentifierConfig_Build_def BasicConfig.defs WriterConfig.defs InputConfig.defs
      EventLogConfig.defs BasicOperator.defs WriterOperator.defs InputOperator.defs EventLogInput.defs)

text \<open>One read in the first run, and the rest in the second.\<close>

theorem windows_resumes_witness:
  "\<exists>es w s. windows_runs sys_api (agent_offsets ''e'') [[\<lambda>i. i = 1], [\<lambda>_. False]] sample_windows [] NewUnscopedMockPersister =
      Some (concat (map (Write sample_windows) es), w, s) \<and> list_all2 (entry_of sys_api sys_channel) [0, 1] es"
proof -
  have config: "cfgStartAt sample_windows_config = ''beginning''" "sint (cfgMaxReads sample_windows_config) < 2 ^ 32"
    "utf16Ptr sys_api (cfgChannel sample_windows_config) = None" "\<forall>w. createSignal sys_api w = None"
    "labels_entries sample_windows"
    by (simp_all add: sys_api_def labels_bare sample_windows_def)
  have two: "[0..<ch_len sys_channel] = [0, 1]" by (simp add: sys_channel_def upt_rec)
  from windows_resumes [OF sample_windows_build config(1,2,5) sys_laws config(3,4),
      where scope = "''e''" and w = "[]" and runs = "[[\<lambda>i. i = 1], [\<lambda>_. False]]"]
  obtain es w s n where "windows_runs sys_api (agent_offsets ''e'') [[\<lambda>i. i = 1], [\<lambda>_. False]] sample_windows [] NewUnscopedMockPersister =
      Some (concat (map (Write sample_windows) es), w, s)" "list_all2 (entry_of sys_api sys_channel) [0..<n] es" "n = ch_len sys_channel"
    by auto
  then show ?thesis using two by auto
qed

end
