(* ===== verification/Other_Ends.thy ===== *)
theory Other_Ends
  imports Network_Inputs
begin

text \<open>
  The small ends of a pipeline, \<open>operator/input/stdin/stdin.go\<close>, \<open>operator/input/generate/generate.go\<close>,
  \<open>operator/output/file/file.go\<close> and \<open>operator/output/stdout/stdout.go\<close>, and the registry with the
  configurations that are looked up in it, \<open>operator/registry.go\<close> and \<open>operator/config.go\<close>.

  Decoders, encoders and templates of the standard library are parameters.
\<close>

section \<open>Standard input\<close>

type_synonym StdinInputConfig = InputConfig
type_synonym StdinInput = InputOperator

definition NewStdinInputConfig :: "string \<Rightarrow> StdinInputConfig" where
  "NewStdinInputConfig operatorID = NewInputConfig operatorID ''stdin''"

definition StdinInputConfig_Build :: "compiler \<Rightarrow> bool \<Rightarrow> 'a InputConfig_scheme \<Rightarrow> gerror + StdinInput" where
  "StdinInputConfig_Build compile has_logger c = InputConfig_Build compile has_logger c"

text \<open>\<open>bufio.ScanLines\<close>, and the scanner with the sizes that it has by default.\<close>

definition dropCR :: "string \<Rightarrow> string" where
  "dropCR data = (if data \<noteq> [] \<and> last data = CR then butlast data else data)"

definition ScanLines :: split_func where
  "ScanLines data atEOF =
     (if atEOF \<and> data = [] then (0, None, None)
      else case str_index data [LF] of
        Some i \<Rightarrow> (i + 1, Some (dropCR (take i data)), None)
      | None \<Rightarrow> if atEOF then (length data, Some (dropCR data), None) else (0, None, None))"

definition stdin_scanner :: scanner where
  "stdin_scanner =
     \<lparr>window = [], w_start = 0, buf_size = 4096, max_token = 65536, at_end = False, empties = 0, scan_pos = 0\<rparr>"

text \<open>
  The entries are made by \<open>entry.New\<close>, without the attributes and resource keys of the operator.
  \<open>cancelled i\<close> says whether the context is found to be cancelled before the \<open>i\<close>-th line.
\<close>

fun stdin_loop :: "(nat \<Rightarrow> gtime) \<Rightarrow> (nat \<Rightarrow> bool) \<Rightarrow> 'a InputOperator_scheme \<Rightarrow> nat \<Rightarrow> string list \<Rightarrow> (opref \<times> entry) list" where
  "stdin_loop now cancelled g i [] = []"
| "stdin_loop now cancelled g i (t # ts) =
     (if cancelled i then [] else Write g ((New (now i))\<lparr>Body := VString t\<rparr>) @ stdin_loop now cancelled g (Suc i) ts)"

text \<open>\<open>stat\<close> is the error of \<open>Stat\<close> or whether the file is a named pipe; \<open>pieces\<close> is how much each read gives.\<close>

definition StdinInput_Start ::
  "(nat \<Rightarrow> gtime) \<Rightarrow> (nat \<Rightarrow> bool) \<Rightarrow> gerror + bool \<Rightarrow> nat list \<Rightarrow> string \<Rightarrow> 'a InputOperator_scheme
    \<Rightarrow> (gerror + (opref \<times> entry) list) option" where
  "StdinInput_Start now cancelled stat pieces bytes g =
     (case stat of
        Inl err \<Rightarrow> Some (Inl (StdError (''failed to stat stdin: '' @ error_text err)))
      | Inr pipe \<Rightarrow>
          if \<not> pipe then Some (Inr [])
          else map_option (\<lambda>r. Inr (stdin_loop now cancelled g 0 (fst r)))
            (read_loop (plain_split ScanLines) () stdin_scanner (connection_source pieces bytes) []))"

section \<open>Generated entries\<close>

record GenerateInputConfig = InputConfig +
  cfgEntry :: entry
  cfgCount :: i64
  cfgStatic :: bool

record GenerateInput = InputOperator +
  gen_entry :: entry
  gen_count :: i64
  gen_static :: bool

definition NewGenerateInputConfig :: "gtime \<Rightarrow> string \<Rightarrow> GenerateInputConfig" where
  "NewGenerateInputConfig unset operatorID =
     InputConfig.extend (NewInputConfig operatorID ''generate_input'') (GenerateInputConfig.fields ((New unset)\<lparr>ObservedTimestamp := zero_time\<rparr>) 0 False)"

text \<open>
  The text of a value as a key, and the value with all its maps made maps of strings.  A map with keys of
  any type is taken in the order of its list; of keys with one text, the last one stays.
\<close>

primrec with_string_maps :: "(gval \<Rightarrow> string) \<Rightarrow> gval \<Rightarrow> string \<times> gval" where
  "with_string_maps show_rest VNil = (''<nil>'', VNil)"
| "with_string_maps show_rest (VBool b) = (sprint_v show_rest (VBool b), VBool b)"
| "with_string_maps show_rest (VString s) = (s, VString s)"
| "with_string_maps show_rest (VInt i) = (sprint_v show_rest (VInt i), VInt i)"
| "with_string_maps show_rest (VByte b) = (sprint_v show_rest (VByte b), VByte b)"
| "with_string_maps show_rest (VUint w u) = (sprint_v show_rest (VUint w u), VUint w u)"
| "with_string_maps show_rest (VFloat r) = (sprint_v show_rest (VFloat r), VFloat r)"
| "with_string_maps show_rest (VTime t) = (sprint_v show_rest (VTime t), VTime t)"
| "with_string_maps show_rest (VBytes s) = (sprint_v show_rest (VBytes s), VBytes s)"
| "with_string_maps show_rest (VStrings ss) = (sprint_v show_rest (VStrings ss), VStrings ss)"
| "with_string_maps show_rest (VInts is) = (sprint_v show_rest (VInts is), VInts is)"
| "with_string_maps show_rest (VArr vs) = (sprint_v show_rest (VArr vs), VArr vs)"
| "with_string_maps show_rest (VMap m) =
     (sprint_v show_rest (VMap m), VMap (fmmap snd (fmmap (with_string_maps show_rest) m)))"
| "with_string_maps show_rest (VStrMap m) = (sprint_v show_rest (VStrMap m), VStrMap m)"
| "with_string_maps show_rest (VStrMaps m) = (sprint_v show_rest (VStrMaps m), VStrMaps m)"
| "with_string_maps show_rest (VIfaceMap kvs) =
     (sprint_v show_rest (VIfaceMap kvs),
      VMap (fmap_of_list (rev (map (\<lambda>(k, v). (fst k, snd v))
        (map (map_prod (with_string_maps show_rest) (with_string_maps show_rest)) kvs)))))"

definition recursiveMapInterfaceToMapString :: "(gval \<Rightarrow> string) \<Rightarrow> gval \<Rightarrow> gval" where
  "recursiveMapInterfaceToMapString show_rest m = snd (with_string_maps show_rest m)"

definition GenerateInputConfig_Build ::
  "compiler \<Rightarrow> (gval \<Rightarrow> string) \<Rightarrow> bool \<Rightarrow> 'a GenerateInputConfig_scheme \<Rightarrow> gerror + GenerateInput" where
  "GenerateInputConfig_Build compile show_rest has_logger c =
     (case InputConfig_Build compile has_logger c of
        Inl err \<Rightarrow> Inl err
      | Inr inputOperator \<Rightarrow>
          Inr (InputOperator.extend inputOperator (GenerateInput.fields
            ((cfgEntry c)\<lparr>Body := recursiveMapInterfaceToMapString show_rest (Body (cfgEntry c))\<rparr>) (cfgCount c) (cfgStatic c))))"

text \<open>
  The loop, when the context is found to be alive for so many rounds; the counter wraps around, and a
  count of 0 or below is not reached before it does.
\<close>

fun gen_loop :: "(i64 \<Rightarrow> gtime) \<Rightarrow> 'a GenerateInput_scheme \<Rightarrow> i64 \<Rightarrow> nat \<Rightarrow> (opref \<times> entry) list" where
  "gen_loop now g i 0 = []"
| "gen_loop now g i (Suc alive) =
     (let e = entry_Copy (gen_entry g) in
      Write g (if gen_static g then e else e\<lparr>Timestamp := now i\<rparr>) @
      (if i + 1 = gen_count g then [] else gen_loop now g (i + 1) alive))"

definition GenerateInput_Start :: "(i64 \<Rightarrow> gtime) \<Rightarrow> nat \<Rightarrow> 'a GenerateInput_scheme \<Rightarrow> (opref \<times> entry) list" where
  "GenerateInput_Start now alive g = gen_loop now g 0 alive"

text \<open>A positive count gives that many entries, if the operator is not stopped before.\<close>

lemma gen_loop_count:
  assumes "OutputOperators g = [r]" "0 < sint (gen_count g)"
  shows "0 \<le> sint i \<Longrightarrow> sint i < sint (gen_count g) \<Longrightarrow> length (gen_loop now g i alive) = min alive (nat (sint (gen_count g) - sint i))"
proof (induction alive arbitrary: i)
  case (Suc alive)
  have one: "length (Write g e) = 1" for e using assms(1) by (simp add: Write_def)
  have "sint (gen_count g) < 2 ^ 63" using sint_lt [of "gen_count g"] by simp
  then have step: "sint (i + 1) = sint i + 1" using Suc.prems by (simp add: sint_word_ariths signed_take_bit_int_eq_self)
  show ?case
  proof (cases "i + 1 = gen_count g")
    case True
    then show ?thesis using one step by (simp add: Let_def)
  next
    case False
    then have "sint (i + 1) \<noteq> sint (gen_count g)" by (auto dest: signed_word_eqI)
    then have "sint (i + 1) < sint (gen_count g)" "0 \<le> sint (i + 1)" using step Suc.prems by auto
    then show ?thesis using Suc.IH [of "i + 1"] one step False by (simp add: Let_def)
  qed
qed simp

text \<open>Maps of strings only, down to the arrays, which are left as they are.\<close>

primrec string_maps :: "gval \<Rightarrow> bool" where
  "string_maps VNil = True"
| "string_maps (VBool b) = True"
| "string_maps (VString s) = True"
| "string_maps (VInt i) = True"
| "string_maps (VByte b) = True"
| "string_maps (VUint w u) = True"
| "string_maps (VFloat r) = True"
| "string_maps (VTime t) = True"
| "string_maps (VBytes s) = True"
| "string_maps (VStrings ss) = True"
| "string_maps (VInts is) = True"
| "string_maps (VArr vs) = True"
| "string_maps (VMap m) = fmpred (\<lambda>k b. b) (fmmap string_maps m)"
| "string_maps (VStrMap m) = True"
| "string_maps (VStrMaps m) = True"
| "string_maps (VIfaceMap kvs) = False"

text \<open>Values whose parts, apart from maps with keys of any type, are kept by a deep copy.\<close>

primrec copyable_parts :: "gval \<Rightarrow> bool" where
  "copyable_parts VNil = True"
| "copyable_parts (VBool b) = True"
| "copyable_parts (VString s) = True"
| "copyable_parts (VInt i) = True"
| "copyable_parts (VByte b) = True"
| "copyable_parts (VUint w u) = False"
| "copyable_parts (VFloat r) = True"
| "copyable_parts (VTime t) = False"
| "copyable_parts (VBytes s) = True"
| "copyable_parts (VStrings ss) = True"
| "copyable_parts (VInts is) = True"
| "copyable_parts (VArr vs) = copyable (VArr vs)"
| "copyable_parts (VMap m) = fmpred (\<lambda>k b. b) (fmmap copyable_parts m)"
| "copyable_parts (VStrMap m) = True"
| "copyable_parts (VStrMaps m) = False"
| "copyable_parts (VIfaceMap kvs) = list_all snd (map (map_prod copyable_parts copyable_parts) kvs)"

lemma lookup_of_pairs: "fmlookup (fmap_of_list (rev (map (\<lambda>(k, v). (f k, g v)) kvs))) x = Some y \<Longrightarrow> \<exists>k v. (k, v) \<in> set kvs \<and> y = g v"
  by (force simp: fmlookup_of_list dest!: map_of_SomeD)

lemma with_string_maps_ok: "string_maps (snd (with_string_maps sh v)) \<and> (copyable_parts v \<longrightarrow> copyable (snd (with_string_maps sh v)))"
proof (induction v)
  case (VMap m)
  have "string_maps (snd (with_string_maps sh z)) \<and> (copyable_parts z \<longrightarrow> copyable (snd (with_string_maps sh z)))"
    if "fmlookup m x = Some z" for x z
    using VMap.IH that by (blast intro: fmran'I)
  then show ?case by (fastforce simp: fmpred_iff)
next
  case (VIfaceMap kvs)
  let ?m = "fmap_of_list (rev (map (\<lambda>(k, v). (fst (with_string_maps sh k), snd (with_string_maps sh v))) kvs))"
  have val: "snd (with_string_maps sh (VIfaceMap kvs)) = VMap ?m" by (simp add: map_prod_def comp_def case_prod_unfold)
  have "string_maps y \<and> (copyable_parts (VIfaceMap kvs) \<longrightarrow> copyable y)" if look: "fmlookup ?m x = Some y" for x y
  proof -
    obtain k v where kv: "(k, v) \<in> set kvs" "y = snd (with_string_maps sh v)"
      using lookup_of_pairs [OF look] by blast
    have "copyable_parts (VIfaceMap kvs) \<longrightarrow> copyable_parts v" using kv(1) by (auto simp: list_all_iff)
    then show ?thesis using VIfaceMap [OF kv(1), of v] kv(2) by (simp add: snds.simps)
  qed
  then show ?case unfolding val by (auto simp: fmpred_iff simp del: copyable_parts.simps)
qed simp_all

text \<open>
  C31: generated bodies are maps of strings.  A built generator holds a body without maps of other keys,
  apart from what stands in arrays.  If nothing in the configured body is changed by a copy (no time stamp,
  no map of other keys within an array and the like), every entry that it writes to its output has this
  same body.  A map of other keys within an array stays, and comes out of
  every copy as nil.
\<close>

theorem generate_string_maps:
  assumes "GenerateInputConfig_Build compile show_rest has_logger c = Inr g"
  shows "string_maps (Body (gen_entry g)) \<and>
    (copyable_parts (Body (cfgEntry c)) \<longrightarrow>
      (\<forall>(r, e) \<in> set (GenerateInput_Start now alive (g\<lparr>OutputOperators := [out]\<rparr>)).
         r = out \<and> Body e = recursiveMapInterfaceToMapString show_rest (Body (cfgEntry c)) \<and> string_maps (Body e))) \<and>
    copyValue (recursiveMapInterfaceToMapString show_rest (VArr [VIfaceMap kvs])) = VArr [VNil]"
proof -
  have body: "Body (gen_entry g) = recursiveMapInterfaceToMapString show_rest (Body (cfgEntry c))"
    using assms by (auto simp: GenerateInputConfig_Build_def GenerateInput.defs InputOperator.defs split: sum.splits)
  have maps: "string_maps (Body (gen_entry g))" and copies: "copyable_parts (Body (cfgEntry c)) \<longrightarrow> copyable (Body (gen_entry g))"
    unfolding body recursiveMapInterfaceToMapString_def using with_string_maps_ok by blast+
  have "Body (entry_Copy (gen_entry g)) = Body (gen_entry g)" if "copyable_parts (Body (cfgEntry c))"
    using copies that by (simp add: entry_Copy_def copyValue_id)
  then have "\<forall>(r, e) \<in> set (gen_loop now (g\<lparr>OutputOperators := [out]\<rparr>) i alive). r = out \<and> Body e = Body (gen_entry g)"
    if "copyable_parts (Body (cfgEntry c))" for i
    using that by (induction alive arbitrary: i) (auto simp: Let_def Write_def)
  then show ?thesis using maps body
    by (fastforce simp: GenerateInput_Start_def recursiveMapInterfaceToMapString_def)
qed

theorem generate_string_maps_witness:
  "\<exists>g. GenerateInputConfig_Build (\<lambda>_. Inl (StdError [])) (\<lambda>_. []) True
     ((NewGenerateInputConfig zero_time ''g'')\<lparr>cfgEntry := (New zero_time)\<lparr>Body := VIfaceMap [(VInt 1, VString ''x'')]\<rparr>, cfgCount := 1\<rparr>) = Inr g \<and>
   (\<forall>out. \<forall>(r, e) \<in> set (GenerateInput_Start (\<lambda>_. zero_time) 5 (g\<lparr>OutputOperators := [out]\<rparr>)). r = out \<and>
      Body e = VMap (fmap_of_list [(''1'', VString ''x'')]))"
proof -
  let ?c = "(NewGenerateInputConfig zero_time ''g'')\<lparr>cfgEntry := (New zero_time)\<lparr>Body := VIfaceMap [(VInt 1, VString ''x'')]\<rparr>, cfgCount := 1\<rparr>"
  have "\<exists>g. GenerateInputConfig_Build (\<lambda>_. Inl (StdError [])) (\<lambda>_. []) True ?c = Inr g"
    by (simp add: GenerateInputConfig_Build_def NewGenerateInputConfig_def NewInputConfig_def NewWriterConfig_def NewBasicConfig_def
      InputConfig_Build_def WriterConfig_Build_def BasicConfig_Build_def BasicConfig_ID_def Let_def
      AttributerConfig_Build_def IdentifierConfig_Build_def BasicConfig.defs WriterConfig.defs InputConfig.defs
      GenerateInputConfig.defs BasicOperator.defs WriterOperator.defs InputOperator.defs GenerateInput.defs)
  then obtain g where g: "GenerateInputConfig_Build (\<lambda>_. Inl (StdError [])) (\<lambda>_. []) True ?c = Inr g" by blast
  have one: "itoa 1 = ''1''" by code_simp
  have "copyable_parts (Body (cfgEntry ?c))"
    "recursiveMapInterfaceToMapString (\<lambda>_. []) (Body (cfgEntry ?c)) = VMap (fmap_of_list [(''1'', VString ''x'')])"
    by (simp_all add: recursiveMapInterfaceToMapString_def one)
  then have "\<forall>(r, e) \<in> set (GenerateInput_Start (\<lambda>_. zero_time) 5 (g\<lparr>OutputOperators := [out]\<rparr>)).
      r = out \<and> Body e = VMap (fmap_of_list [(''1'', VString ''x'')]) \<and> string_maps (Body e)" for out
    using generate_string_maps [OF g, of "\<lambda>_. zero_time" 5 out] by simp
  then show ?thesis using g by (intro exI [of _ g]) fastforce
qed

section \<open>File output\<close>

text \<open>A template writes what it can before it fails.\<close>

type_synonym template = "entry \<Rightarrow> string \<times> gerror option"

record FileOutputConfig = BasicConfig +
  cfgPath :: string
  cfgFormat :: string

record FileOutput = BasicOperator +
  fo_path :: string
  fo_tmpl :: "template option"

definition NewFileOutputConfig :: "string \<Rightarrow> FileOutputConfig" where
  "NewFileOutputConfig operatorID = BasicConfig.extend (NewBasicConfig operatorID ''file_output'') (FileOutputConfig.fields [] [])"

definition FileOutputConfig_Build :: "(string \<Rightarrow> gerror + template) \<Rightarrow> bool \<Rightarrow> 'a FileOutputConfig_scheme \<Rightarrow> gerror + FileOutput" where
  "FileOutputConfig_Build parse_template has_logger c =
     (case OutputConfig_Build has_logger c of
        Inl err \<Rightarrow> Inl err
      | Inr outputOperator \<Rightarrow>
     (case (if cfgFormat c \<noteq> [] then map_sum id Some (parse_template (cfgFormat c)) else Inr None) of
        Inl err \<Rightarrow> Inl err
      | Inr tmpl \<Rightarrow>
          if cfgPath c = [] then Inl (StdError ''must provide a path to output to'')
          else Inr (BasicOperator.extend outputOperator (FileOutput.fields (cfgPath c) tmpl))))"

text \<open>The file is opened for appending; its contents stay.\<close>

definition FileOutput_Start :: "(string \<Rightarrow> gerror + string) \<Rightarrow> 'a FileOutput_scheme \<Rightarrow> gerror + string" where
  "FileOutput_Start open_file fo = open_file (fo_path fo)"

definition FileOutput_Process :: "(entry \<Rightarrow> gerror + string) \<Rightarrow> 'a FileOutput_scheme \<Rightarrow> string \<Rightarrow> entry \<Rightarrow> string \<times> gerror option" where
  "FileOutput_Process enc fo contents e =
     (case fo_tmpl fo of
        Some tmpl \<Rightarrow> (case tmpl e of (text, err) \<Rightarrow> (contents @ text, err))
      | None \<Rightarrow> (case enc e of Inl err \<Rightarrow> (contents, Some err) | Inr text \<Rightarrow> (contents @ text @ [LF], None)))"

section \<open>Standard output\<close>

definition NewStdoutConfig :: "string \<Rightarrow> BasicConfig" where
  "NewStdoutConfig operatorID = NewBasicConfig operatorID ''stdout''"

definition StdoutConfig_Build :: "bool \<Rightarrow> 'a BasicConfig_scheme \<Rightarrow> gerror + BasicOperator" where
  "StdoutConfig_Build has_logger c = OutputConfig_Build has_logger c"

definition Stdout_Process :: "(entry \<Rightarrow> gerror + string) \<Rightarrow> string \<Rightarrow> entry \<Rightarrow> string \<times> gerror option" where
  "Stdout_Process enc contents e =
     (case enc e of Inl err \<Rightarrow> (contents, Some err) | Inr text \<Rightarrow> (contents @ text @ [LF], None))"

section \<open>The registry\<close>

text \<open>A builder is of type \<open>'b\<close>; a registered function makes a new one.\<close>

type_synonym 'b Registry = "(unit \<Rightarrow> 'b) gomap"

definition NewRegistry :: "'b Registry" where
  "NewRegistry = fmempty"

definition Register :: "string \<Rightarrow> (unit \<Rightarrow> 'b) \<Rightarrow> 'b Registry \<Rightarrow> 'b Registry" where
  "Register operatorType newBuilder r = fmupd operatorType newBuilder r"

definition Lookup :: "'b Registry \<Rightarrow> string \<Rightarrow> (unit \<Rightarrow> 'b) option" where
  "Lookup r configType = fmlookup r configType"

text \<open>\<open>type_of\<close> decodes the type alone, and \<open>into\<close> the whole text into a builder with its defaults.\<close>

definition Config_UnmarshalJSON ::
  "'b Registry \<Rightarrow> ('t \<Rightarrow> gerror + string) \<Rightarrow> ('t \<Rightarrow> 'b \<Rightarrow> gerror + 'b) \<Rightarrow> 't \<Rightarrow> gerror + 'b" where
  "Config_UnmarshalJSON registry type_of into bytes =
     (case type_of bytes of
        Inl err \<Rightarrow> Inl err
      | Inr t \<Rightarrow>
          if t = [] then Inl (StdError (''missing required field '' @ quoted ''type''))
          else (case Lookup registry t of
            None \<Rightarrow> Inl (StdError (''unsupported type '' @ quoted t))
          | Some builderFunc \<Rightarrow>
              (case into bytes (builderFunc ()) of
                 Inl err \<Rightarrow> Inl (StdError (''unmarshal to '' @ t @ '': '' @ error_text err))
               | Inr builder \<Rightarrow> Inr builder)))"

definition Config_UnmarshalYAML ::
  "'b Registry \<Rightarrow> ('t \<Rightarrow> gerror + gval gomap) \<Rightarrow> ('t \<Rightarrow> 'b \<Rightarrow> gerror + 'b) \<Rightarrow> 't \<Rightarrow> gerror + 'b" where
  "Config_UnmarshalYAML registry raw into node =
     (case raw node of
        Inl err \<Rightarrow> Inl (StdError (''failed to unmarshal yaml to base config: '' @ error_text err))
      | Inr rawConfig \<Rightarrow>
     (case fmlookup rawConfig ''type'' of
        None \<Rightarrow> Inl (StdError (''missing required field '' @ quoted ''type''))
      | Some (VString t) \<Rightarrow>
          (case Lookup registry t of
             None \<Rightarrow> Inl (StdError (''unsupported type '' @ quoted t))
           | Some builderFunc \<Rightarrow>
               (case into node (builderFunc ()) of
                  Inl err \<Rightarrow> Inl (StdError (''unmarshal to '' @ t @ '': '' @ error_text err))
                | Inr builder \<Rightarrow> Inr builder))
      | Some v \<Rightarrow> Inl (StdError (''non-string type '' @ go_type v @ '' for field '' @ quoted ''type''))))"

definition MarshalJSON :: "('b \<Rightarrow> gerror + string) \<Rightarrow> 'b \<Rightarrow> gerror + string" where
  "MarshalJSON enc c = enc c"

text \<open>A configuration that is read has the registered type, and the builder that was registered last for it.\<close>

lemma unmarshal_registered:
  "Config_UnmarshalJSON (Register t f r) type_of into bytes = Inr b \<Longrightarrow> type_of bytes = Inr t \<Longrightarrow> into bytes (f ()) = Inr b"
  by (auto simp: Config_UnmarshalJSON_def Lookup_def Register_def split: if_splits sum.splits)

end
