(* ===== verification/Sizes.thy ===== *)
theory Sizes
  imports Time_Parsing
begin

text \<open>
  Sizes and durations in configurations: \<open>operator/helper/bytesize.go\<close> and \<open>operator/helper/duration.go\<close>.

  Floating-point numbers are rational, with their rounding written out.  The decoders, \<open>time.ParseDuration\<close>
  and what \<open>strconv.ParseFloat\<close> accepts are parameters.
\<close>

section \<open>Rounding\<close>

text \<open>The exponent \<open>e\<close> with \<open>2^(e-1) \<le> r < 2^e\<close>.\<close>

definition binary_exponent :: "rat \<Rightarrow> int" where
  "binary_exponent r =
     (case quotient_of r of (n, d) \<Rightarrow>
        let e = int (floorlog 2 (nat n)) - int (floorlog 2 (nat d))
        in if r < 2 powi e then e else e + 1)"

text \<open>The nearest number with \<open>p\<close> binary digits, of a number that is not negative.\<close>

definition float_round :: "nat \<Rightarrow> rat \<Rightarrow> rat" where
  "float_round p r =
     (if r = 0 then 0
      else let e = binary_exponent r - int p
           in of_int (round_half_even (r * 2 powi (- e))) * 2 powi e)"

lemma floorlog_range: "0 < n \<Longrightarrow> 2 ^ (floorlog 2 n - 1) \<le> n \<and> n < 2 ^ floorlog 2 n"
  using floorlog_bounds [of n 2] by simp

lemma binary_exponent_bounds:
  assumes "0 < r"
  shows "2 powi (binary_exponent r - 1) \<le> r \<and> r < 2 powi (binary_exponent r)"
proof -
  obtain n d where q: "quotient_of r = (n, d)" by (cases "quotient_of r")
  have d: "0 < d" and r: "r = of_int n / of_int d"
    using quotient_of_denom_pos [OF q] quotient_of_div [OF q] by auto
  have n: "0 < n" using assms d by (simp add: r zero_less_divide_iff)
  let ?N = "floorlog 2 (nat n)" and ?D = "floorlog 2 (nat d)"
  have N: "2 ^ (?N - 1) \<le> nat n" "nat n < 2 ^ ?N" and D: "2 ^ (?D - 1) \<le> nat d" "nat d < 2 ^ ?D"
    using floorlog_range [of "nat n"] floorlog_range [of "nat d"] n d by auto
  have pos: "0 < ?N" "0 < ?D" using n d by (simp_all add: floorlog_def)
  have whole: "(2::rat) powi (int k - 1) = of_nat (2 ^ (k - 1))" "(2::rat) powi int k = of_nat (2 ^ k)" if "0 < k" for k
  proof -
    have "int k - 1 = int (k - 1)" using that by simp
    then show "(2::rat) powi (int k - 1) = of_nat (2 ^ (k - 1))" by (metis of_nat_numeral of_nat_power power_int_of_nat)
    show "(2::rat) powi int k = of_nat (2 ^ k)" by simp
  qed
  have nd: "(of_int n :: rat) = of_nat (nat n)" "(of_int d :: rat) = of_nat (nat d)" using n d by simp_all
  have N': "(2::rat) powi (int ?N - 1) \<le> of_int n" "(of_int n :: rat) < 2 powi int ?N"
    and D': "(2::rat) powi (int ?D - 1) \<le> of_int d" "(of_int d :: rat) < 2 powi int ?D"
    using N D unfolding whole [OF pos(1)] whole [OF pos(2)] nd by (simp_all only: of_nat_le_iff of_nat_less_iff)
  have diff: "(2::rat) powi (a - b) = 2 powi a / 2 powi b" for a b :: int by (simp add: power_int_diff)
  have "2 powi (int ?N - 1) / 2 powi int ?D \<le> r" unfolding r using N'(1) D'(2) d n by (intro frac_le) simp_all
  then have low: "2 powi (int ?N - int ?D - 1) \<le> r" using diff [of "int ?N - 1" "int ?D"] by (simp add: algebra_simps)
  have "r < 2 powi int ?N / 2 powi (int ?D - 1)" unfolding r using N'(2) D'(1) n by (intro frac_less) simp_all
  then have high: "r < 2 powi (int ?N - int ?D + 1)" using diff [of "int ?N" "int ?D - 1"] by (simp add: algebra_simps)
  show ?thesis using low high by (auto simp: binary_exponent_def q Let_def)
qed

text \<open>A whole number of \<open>p\<close> binary digits with zeros behind them is its own rounding.\<close>

lemma round_whole: "round_half_even (of_int n) = n"
  by (simp add: round_half_even_def Let_def)

lemma powers_cancel: "(2::rat) powi (- e) * 2 powi e = 1"
  by (simp add: power_int_minus)

lemma float_round_exact:
  assumes "m < 2 ^ p"
  shows "float_round p (of_nat (m * 2 ^ k)) = of_nat (m * 2 ^ k)"
proof (cases "m = 0")
  case False
  let ?r = "of_nat (m * 2 ^ k) :: rat" and ?e = "binary_exponent (of_nat (m * 2 ^ k)) - int p"
  have "0 < ?r" using False by simp
  from binary_exponent_bounds [OF this] have "2 powi (binary_exponent ?r - 1) \<le> ?r" by blast
  also have "?r < 2 powi (int p + int k)"
  proof -
    have "m * 2 ^ k < 2 ^ p * (2 ^ k :: nat)" using assms by simp
    then have "m * 2 ^ k < 2 ^ (p + k)" by (simp add: power_add)
    then have "?r < of_nat (2 ^ (p + k))" by (simp only: of_nat_less_iff)
    moreover have "of_nat (2 ^ (p + k)) = (2::rat) powi (int p + int k)"
      by (metis of_nat_add of_nat_numeral of_nat_power power_int_of_nat)
    ultimately show ?thesis by metis
  qed
  finally have "binary_exponent ?r - 1 < int p + int k" by (meson not_less power_int_increasing one_le_numeral)
  then have e: "?e \<le> int k" by simp
  have "(2::rat) powi int k * 2 powi (- ?e) = 2 powi (int k - ?e)" by (simp add: power_int_diff power_int_minus divide_inverse)
  also have "\<dots> = of_int (2 ^ nat (int k - ?e))" using e by (simp add: power_int_def)
  finally have "?r * 2 powi (- ?e) = of_int (int m * 2 ^ nat (int k - ?e))" by (simp add: mult.assoc)
  then have "of_int (round_half_even (?r * 2 powi (- ?e))) * 2 powi ?e = ?r * 2 powi (- ?e) * 2 powi ?e"
    by (simp only: round_whole)
  also have "\<dots> = ?r" by (simp only: mult.assoc powers_cancel mult_1_right)
  finally show ?thesis using False by (simp add: float_round_def Let_def)
qed (simp add: float_round_def)

section \<open>Byte sizes\<close>

text \<open>
  The regular expression \<open>byteSizeRegex\<close>: digits, perhaps a point and more digits, white space, perhaps a
  unit, and then the end.  The match gives the number with the digits behind the point counted, and the unit.
\<close>

definition is_digit :: "char \<Rightarrow> bool" where
  "is_digit c \<longleftrightarrow> digit_value c \<noteq> None"

definition regex_space :: string where
  "regex_space = [CHR 0x09, CHR 0x0A, CHR 0x0C, CHR 0x0D, CHR 0x20]"

definition is_unit :: "string \<Rightarrow> bool" where
  "is_unit u \<longleftrightarrow> u = [] \<or>
     (length u = 2 \<and> u ! 0 \<in> set ''kKmMgGtTpP'' \<and> u ! 1 \<in> set ''bB'') \<or>
     (length u = 3 \<and> u ! 0 \<in> set ''kKmMgGtTpP'' \<and> u ! 1 = CHR ''i'' \<and> u ! 2 \<in> set ''bB'')"

definition byte_size_match :: "string \<Rightarrow> (string \<times> string \<times> string) option" where
  "byte_size_match s =
     (let whole = takeWhile is_digit s; rest = dropWhile is_digit s;
          fraction = (if has_prefix rest ''.'' then takeWhile is_digit (tl rest) else []);
          rest = (if has_prefix rest ''.'' then dropWhile is_digit (tl rest) else rest);
          unit = trim_left rest regex_space
      in if whole \<noteq> [] \<and> is_unit unit then Some (whole, fraction, unit) else None)"

text \<open>
  \<open>strconv.ParseFloat\<close> with 32 bits, of such a number: the nearest number with 24 binary digits.  One
  too large for 32 bits is an error; how near the smallest ones are rounded does not show in a size.
\<close>

definition parse_float32 :: "string \<Rightarrow> string \<Rightarrow> rat option" where
  "parse_float32 whole fraction =
     (case digits_value (whole @ fraction) 0 of
        None \<Rightarrow> None
      | Some n \<Rightarrow> let r = float_round 24 (of_nat n / 10 ^ length fraction) in if r < 2 ^ 128 then Some r else None)"

definition multiplier :: "string \<Rightarrow> nat option" where
  "multiplier unit =
     map_of [([], 1), (''kb'', 1000), (''kib'', 1024), (''mb'', 1000 * 1000), (''mib'', 1024 * 1024),
       (''gb'', 1000 * 1000 * 1000), (''gib'', 1024 * 1024 * 1024), (''tb'', 1000 * 1000 * 1000 * 1000),
       (''tib'', 1024 * 1024 * 1024 * 1024), (''pb'', 1000 * 1000 * 1000 * 1000 * 1000),
       (''pib'', 1024 * 1024 * 1024 * 1024 * 1024)] (to_lower unit)"

text \<open>The decoder gives an integer, a float or a string, where it can.\<close>

record 't size_decoder =
  dec_int :: "'t \<Rightarrow> gerror + i64"
  dec_float :: "'t \<Rightarrow> gerror + rat"
  dec_string :: "'t \<Rightarrow> gerror + string"

definition byte_size_text :: "string \<Rightarrow> gerror + i64" where
  "byte_size_text s =
     (case byte_size_match s of
        None \<Rightarrow> Inl (StdError (''invalid byte size '' @ quoted s))
      | Some (whole, fraction, unit) \<Rightarrow>
     (case parse_float32 whole fraction of
        None \<Rightarrow> Inl (StdError (''invalid numeric base ''
          @ quoted (whole @ (if has_prefix (dropWhile is_digit s) ''.'' then ''.'' else []) @ fraction)))
      | Some num \<Rightarrow>
     (case multiplier unit of
        None \<Rightarrow> Inl (StdError (''invalid unit '' @ quoted unit))
      | Some m \<Rightarrow> Inr (word_of_int (int_of_float (float_round 53 (of_nat m * num)))))))"

definition ByteSize_unmarshalShared :: "'t size_decoder \<Rightarrow> 't \<Rightarrow> gerror + i64" where
  "ByteSize_unmarshalShared d t =
     (case dec_int d t of
        Inr i \<Rightarrow> Inr i
      | Inl _ \<Rightarrow>
     (case dec_float d t of
        Inr f \<Rightarrow> Inr (word_of_int (int_of_float f))
      | Inl _ \<Rightarrow>
     (case dec_string d t of
        Inl err \<Rightarrow> Inl (StdError (''failed to unmarshal to int64, float64, or string: '' @ error_text err))
      | Inr s \<Rightarrow> byte_size_text s)))"

definition ByteSize_UnmarshalText :: "string size_decoder \<Rightarrow> string \<Rightarrow> gerror + i64" where
  "ByteSize_UnmarshalText json t = ByteSize_unmarshalShared json ([CHR 0x22] @ t @ [CHR 0x22])"

lemma nat_str_is_digit: "c \<in> set (nat_str n) \<Longrightarrow> is_digit c"
  using nat_str_digits [of c n] by (auto simp: is_digit_def digit_value_digit)

lemma unit_start: "is_unit u \<Longrightarrow> u = [] \<or> (hd u \<in> set ''kKmMgGtTpP'' \<and> u \<noteq> [])"
  by (cases u) (auto simp: is_unit_def)

lemma unit_letters: "c \<in> set ''kKmMgGtTpP'' \<Longrightarrow> \<not> is_digit c \<and> c \<noteq> CHR ''.'' \<and> c \<notin> set regex_space"
  by (auto simp: is_digit_def digit_value_def regex_space_def)

lemma match_plain:
  assumes "is_unit u"
  shows "byte_size_match (nat_str n @ u) = Some (nat_str n, [], u)"
proof -
  have u: "takeWhile is_digit u = []" "dropWhile is_digit u = u" "\<not> has_prefix u ''.''" "trim_left u regex_space = u"
    using unit_start [OF assms] unit_letters [of "hd u"] by (cases u; force simp: has_prefix_def)+
  have "takeWhile is_digit (nat_str n @ u) = nat_str n" "dropWhile is_digit (nat_str n @ u) = u"
    using nat_str_is_digit [of _ n] u(1,2) by (simp_all add: takeWhile_append2 dropWhile_append2)
  then show ?thesis using u(3,4) assms by (simp add: byte_size_match_def Let_def)
qed

lemma multiplier_parts:
  assumes "multiplier u = Some m" "to_lower u \<noteq> ''pb''"
  shows "\<exists>a b. m = a * 2 ^ b \<and> a \<le> 244140625"
proof -
  have "m \<in> {1 * 2 ^ 0, 125 * 2 ^ 3, 1 * 2 ^ 10, 15625 * 2 ^ 6, 1 * 2 ^ 20, 1953125 * 2 ^ 9, 1 * 2 ^ 30, 244140625 * 2 ^ 12, 1 * 2 ^ 40, 1 * 2 ^ 50}"
    using assms by (auto simp: multiplier_def split: if_splits)
  then show ?thesis by (elim insertE emptyE) (intro exI conjI, assumption, simp)+
qed

lemma rounded_size: "float_round 24 16777217 = 16777216"
proof -
  let ?E = "binary_exponent 16777217"
  have "2 powi (?E - 1) \<le> (16777217 :: rat)" "(16777217 :: rat) < 2 powi ?E"
    using binary_exponent_bounds [of 16777217] by simp_all
  then have "(2::rat) powi (?E - 1) < 2 powi 25" "(2::rat) powi 24 < 2 powi ?E" by simp_all
  then have "?E - 1 < 25" "24 < ?E" by (meson not_less power_int_increasing one_le_numeral)+
  then have "?E = 25" by simp
  moreover have "\<lfloor>16777217 / (2 :: rat)\<rfloor> = 8388608" by (simp add: floor_eq_iff)
  ultimately show ?thesis by (simp add: float_round_def Let_def round_half_even_def power_int_minus)
qed

text \<open>
  C30: byte sizes are exact below 2^24.  A size that is written as a whole number below 2^24 with a unit
  other than pb, and is less than 2^63 bytes, is read as exactly that many bytes.  From 2^24 on the number is rounded to 24 binary
  digits, although an \<open>int64\<close> would hold it: 16777217 is read as one byte less.
\<close>

theorem byte_size_exact:
  assumes "n < 2 ^ 24" "is_unit u" "multiplier u = Some m" "to_lower u \<noteq> ''pb''" "n * m < 2 ^ 63"
  shows "byte_size_text (nat_str n @ u) = Inr (word_of_int (int (n * m))) \<and>
    byte_size_text ''16777217'' = Inr 16777216"
proof (rule conjI)
  obtain a b where m: "m = a * 2 ^ b" "a \<le> 244140625" using multiplier_parts [OF assms(3,4)] by blast
  have "a * n \<le> 244140625 * 2 ^ 24" using m(2) assms(1) by (intro mult_le_mono) simp_all
  also have "\<dots> < (2 ^ 53 :: nat)" by simp
  finally have "float_round 53 (of_nat (a * n * 2 ^ b)) = of_nat (a * n * 2 ^ b)" by (rule float_round_exact)
  moreover have "m * n = a * n * 2 ^ b" by (simp add: m(1))
  ultimately have prod: "float_round 53 (of_nat m * of_nat n) = of_nat (n * m)" by (metis mult.commute of_nat_mult)
  have r: "float_round 24 (of_nat n) = of_nat n" using float_round_exact [OF assms(1), of 0] by simp
  have "(of_nat n :: rat) < of_nat (2 ^ 24)" using assms(1) by (simp only: of_nat_less_iff)
  then have "(of_nat n :: rat) < 2 ^ 128" by simp
  then have "parse_float32 (nat_str n) [] = Some (of_nat n)" by (simp add: parse_float32_def digits_value_nat_str r)
  moreover have "int_of_float (of_nat (n * m)) = int (n * m)"
  proof -
    have "int (n * m) < 2 ^ 63" using assms(5) by (metis of_nat_less_iff of_nat_numeral of_nat_power)
    then show ?thesis by (simp add: int_of_float_def Let_def del: of_nat_mult)
  qed
  ultimately show "byte_size_text (nat_str n @ u) = Inr (word_of_int (int (n * m)))"
    by (simp only: byte_size_text_def match_plain [OF assms(2)] assms(3) prod option.case prod.case)
next
  have match: "byte_size_match ''16777217'' = Some (''16777217'', [], [])" by code_simp
  have digits: "digits_value ''16777217'' 0 = Some 16777217" by (simp add: digit_value_def)
  have "float_round 53 16777216 = 16777216" using float_round_exact [of 16777216 53 0] by simp
  then show "byte_size_text ''16777217'' = Inr 16777216"
  proof -
    have "parse_float32 ''16777217'' [] = Some 16777216" by (simp add: parse_float32_def digits rounded_size del: digits_value.simps)
    moreover have "multiplier [] = Some 1" by (simp add: multiplier_def to_lower_def)
    moreover have "int_of_float (float_round 53 (of_nat 1 * 16777216)) = 16777216"
      using \<open>float_round 53 16777216 = 16777216\<close> by (simp add: int_of_float_def)
    ultimately show ?thesis by (simp only: byte_size_text_def match option.case prod.case) simp
  qed
qed

theorem byte_size_exact_witness: "byte_size_text ''20mib'' = Inr 20971520"
proof -
  have n: "nat_str 20 = ''20''" by code_simp
  have "is_unit ''mib''" "multiplier ''mib'' = Some (1024 * 1024)" "to_lower ''mib'' \<noteq> ''pb''"
    by (code_simp, simp add: multiplier_def to_lower_def to_lower_char_def, code_simp)
  from byte_size_exact [OF _ this, of 20] show ?thesis by (simp add: n)
qed

section \<open>Durations\<close>

text \<open>A duration is a number of nanoseconds, and its arithmetic wraps around.\<close>

type_synonym Duration = i64

record duration_env =
  is_float :: "string \<Rightarrow> bool"
  parse_duration :: "string \<Rightarrow> Duration \<times> gerror option"
  duration_text :: "Duration \<Rightarrow> string"

definition NewDuration :: "Duration \<Rightarrow> Duration" where "NewDuration t = t"

definition Duration_Raw :: "Duration \<Rightarrow> Duration" where "Duration_Raw d = d"

definition durationFromInterface :: "duration_env \<Rightarrow> gval \<Rightarrow> Duration \<times> gerror option" where
  "durationFromInterface env val =
     (case val of
        VFloat v \<Rightarrow> (word_of_int (int_of_float (sgn v * float_round 53 (\<bar>v\<bar> * of_int ns_per_s))), None)
      | VInt v \<Rightarrow> (v * word_of_int ns_per_s, None)
      | VString s \<Rightarrow>
          (let s = (if parse_int s \<noteq> None then s @ ''s'' else s);
               s = (if is_float env s then s @ ''s'' else s)
           in parse_duration env s)
      | _ \<Rightarrow> (0, Some (StdError (''cannot unmarshal value of type '' @ go_type val @ '' into a duration''))))"

definition Duration_MarshalJSON :: "duration_env \<Rightarrow> Duration \<Rightarrow> string" where
  "Duration_MarshalJSON env d = [CHR 0x22] @ duration_text env d @ [CHR 0x22]"

definition Duration_MarshalYAML :: "duration_env \<Rightarrow> Duration \<Rightarrow> string" where
  "Duration_MarshalYAML env d = duration_text env d"

definition Duration_UnmarshalJSON :: "duration_env \<Rightarrow> ('t \<Rightarrow> gerror + gval) \<Rightarrow> 't \<Rightarrow> Duration \<Rightarrow> Duration \<times> gerror option" where
  "Duration_UnmarshalJSON env json raw d =
     (case json raw of Inl err \<Rightarrow> (d, Some err) | Inr v \<Rightarrow> durationFromInterface env v)"

text \<open>Only the YAML form turns a negative duration around.\<close>

definition Duration_UnmarshalYAML :: "duration_env \<Rightarrow> ('t \<Rightarrow> gerror + gval) \<Rightarrow> 't \<Rightarrow> Duration \<Rightarrow> Duration \<times> gerror option" where
  "Duration_UnmarshalYAML env yaml raw d =
     (case yaml raw of
        Inl err \<Rightarrow> (d, Some err)
      | Inr v \<Rightarrow> (case durationFromInterface env v of (d, err) \<Rightarrow> (if sint d < 0 then - d else d, err)))"

lemma yaml_duration:
  "yaml raw = Inr v \<Longrightarrow> d' = fst (Duration_UnmarshalYAML env yaml raw d) \<Longrightarrow> 0 \<le> sint d' \<or> sint d' = - (2 ^ 63)"
proof -
  assume a: "yaml raw = Inr v" "d' = fst (Duration_UnmarshalYAML env yaml raw d)"
  obtain e err where e: "durationFromInterface env v = (e, err)" by fastforce
  have d': "d' = (if sint e < 0 then - e else e)" using a e by (simp add: Duration_UnmarshalYAML_def)
  have range: "- (2 ^ 63) \<le> sint e" "sint e < 2 ^ 63" using sint_ge [of e] sint_lt [of e] by simp_all
  show ?thesis
  proof (cases "sint e < 0 \<and> sint e \<noteq> - (2 ^ 63)")
    case True
    then have "sint (- e) = - sint e" using range by (simp add: sint_word_ariths signed_take_bit_int_eq_self)
    then show ?thesis using True d' by simp
  next
    case False
    then have "0 \<le> sint e \<or> sint e = - (2 ^ 63)" by auto
    then show ?thesis
    proof
      assume m: "sint e = - (2 ^ 63)"
      moreover have "e = word_of_int (sint e)" by transfer (simp add: take_bit_signed_take_bit)
      ultimately have "e = word_of_int (- (2 ^ 63))" by simp
      then have "- e = e" by simp
      then have "d' = e" using d' by metis
      then show ?thesis using m by simp
    qed (use d' in simp)
  qed
qed

end
