(* ===== verification/Spec2Isabelle.thy ===== *)
theory Spec2Isabelle
  imports File_Input_Laws Transformer_Laws Router Recombine_Laws Csv_Laws Simple_Parsers Syslog_Parsing Regex_Cache
    Pipeline_Flow Network_Laws Journald_Laws K8s_Laws Windows_Message_Laws Windows_Laws Other_Ends Sizes
begin

text \<open>
  A model of opentelemetry-log-collection, the library of operators with which log entries are
  read, parsed, transformed and sent on.  An operator receives an entry, works on it and writes it
  to the operators it is connected to; a pipeline is a graph of operators.

  \<^bold>\<open>Theories and the code they model.\<close>  Names of definitions are those of the code, a method
  carrying its type as a prefix.

  \<^item> \<open>Prelude\<close>: byte strings with the functions of \<open>strings\<close> and \<open>strconv\<close> that the code calls.
  \<^item> \<open>Agent_Errors\<close>: \<open>errors/\<close>.  A Go \<open>error\<close> is a value of \<open>gerror\<close>.
  \<^item> \<open>Go_Time\<close>: the instants and the calendar of package \<open>time\<close>, as far as the code uses them.
  \<^item> \<open>Values\<close>: the dynamic values of an entry (\<open>interface{}\<close>) and \<open>entry/copy.go\<close>.
  \<^item> \<open>Field_Path\<close>, \<open>Entries\<close>, \<open>Field_Laws\<close>: \<open>entry/\<close>.  Fields and their text, the entry, and what
    \<open>Get\<close>, \<open>Set\<close>, \<open>Merge\<close>, \<open>Delete\<close>, \<open>Read\<close> and \<open>Copy\<close> do.
  \<^item> \<open>Severities\<close>: \<open>entry/severity.go\<close>, \<open>operator/helper/severity.go\<close> and \<open>severity_builder.go\<close>.
  \<^item> \<open>Expr_Strings\<close>: \<open>operator/helper/expr_string.go\<close>, \<open>attributer.go\<close>, \<open>identifier.go\<close> and
    \<open>host_identifier.go\<close>.
  \<^item> \<open>Base_Operators\<close>, \<open>Time_Parsing\<close>, \<open>Parser_Operators\<close>: the operators of \<open>operator/helper\<close> that all
    others embed, the sub-parsers for time, trace and scope name, and the operators around them.
  \<^item> \<open>Transformers\<close>, \<open>Transformer_Laws\<close>, \<open>Router\<close>, \<open>Recombine\<close>, \<open>Recombine_Laws\<close>:
    \<open>operator/transformer/\<close>.
  \<^item> \<open>Csv_Parsing\<close>, \<open>Csv_Laws\<close>, \<open>Simple_Parsers\<close>, \<open>Syslog_Parsing\<close>, \<open>Regex_Cache\<close>:
    \<open>operator/parser/\<close>.
  \<^item> \<open>Line_Splitting\<close>, \<open>File_Reader\<close>, \<open>File_Reader_Laws\<close>: \<open>operator/helper/multiline.go\<close>, and how one file
    is read (\<open>operator/input/file/reader.go\<close>, \<open>fingerprint.go\<close>, \<open>positional_scanner.go\<close> with the scanner of
    \<open>bufio\<close>).
  \<^item> \<open>Persisters\<close>: \<open>operator/persister.go\<close> and the store in memory.
  \<^item> \<open>File_Input\<close>, \<open>File_Tracking\<close>, \<open>File_Input_Laws\<close>: \<open>operator/input/file/\<close>, the polls over all files.
  \<^item> \<open>Ip_Resolver\<close>, \<open>Network_Inputs\<close>, \<open>Network_Laws\<close>: \<open>operator/helper/ip_resolver.go\<close> and the inputs for TCP,
    UDP and syslog, \<open>operator/input/tcp/\<close>, \<open>udp/\<close> and \<open>syslog/\<close>; the last one is a pair of an input and a parser.
  \<^item> \<open>Journald\<close>, \<open>Journald_Laws\<close>: \<open>operator/input/journald/journald.go\<close>.
  \<^item> \<open>K8s_Events\<close>, \<open>K8s_Laws\<close>: \<open>operator/input/k8sevent/k8s_event.go\<close>, its goroutines as steps.
  \<^item> \<open>Windows_Messages\<close>, \<open>Windows_Message_Laws\<close>, \<open>Windows_Input\<close>, \<open>Windows_Laws\<close>: \<open>operator/input/windows/\<close>, the
    parser for security messages, and the input with its handles.
  \<^item> \<open>Other_Ends\<close>: \<open>operator/input/stdin\<close> and \<open>generate\<close>, \<open>operator/output/file\<close> and \<open>stdout\<close>, \<open>operator/registry.go\<close>
    and \<open>config.go\<close>.
  \<^item> \<open>Sizes\<close>: \<open>operator/helper/bytesize.go\<close> and \<open>duration.go\<close>.
  \<^item> \<open>Pipelines\<close>, \<open>Pipeline_Laws\<close>: \<open>pipeline/\<close>, the IDs and connections of a configuration, the graph, starting
    and stopping.
  \<^item> \<open>Pipeline_Flow\<close>: the operators of a pipeline put together, and the calls that follow when one of them
    writes an entry.

  \<^bold>\<open>How the code is represented.\<close>  A struct is a record, an embedded struct the record that it
  extends.  A method that changes its receiver returns it changed.  A value of type
  \<open>gerror + 'a\<close> is a result with an error; an outer \<open>None\<close> is a panic or, in a few places that say
  so, a call that does not return.  What an operator sends is a list of pairs of the receiving
  operator and the entry it gets, in the order of the calls.  Integers that may overflow are
  words; loops that may run forever are partial functions over \<open>option\<close>; no function uses fuel.  Where
  a loop runs until its operator is stopped, when that is found is an argument.
  Go maps are finite maps; where the code ranges over a map and the order matters, the order is an
  argument.  Goroutines are steps of a transition relation (the limiter of the regex cache, the
  timer of recombine, the watches and the discovery of Kubernetes namespaces), or run up to the time of
  the next call (the ticks of the address resolver).  Where an agent may die between two actions, as the
  journal input may between storing a cursor and writing its entry, that point is an argument.

  \<^bold>\<open>What is a parameter.\<close>  Compiled expressions (\<open>antonmedv/expr\<close>), the strptime layouts and
  \<open>time.ParseInLocation\<close> with the time zone database, the regular expressions of \<open>regexp\<close>, the JSON
  decoder, \<open>net/url\<close>, text encodings other than UTF-8 and UTF-16, the file system, the graphs
  of \<open>gonum\<close>, the syslog state machines, listening and name lookup, \<open>journalctl\<close>, the Kubernetes
  client, the event log of Windows, templates and encoders, the text of floats, the clock and the random
  numbers.

  \<^bold>\<open>What the lemmas show.\<close>  The laws of fields (what is read after a write or a delete, the frame of
  both, the round trip of field names); that writing, transforming and parsing hand each entry on
  exactly once, or not at all exactly when an error says so; that recombine puts every entry into one
  group in any run, keeps its bounds, and what the entry holds that a group is merged into; that the routes of a
  router are tried in order; the mapping that a severity parser is built with; the values of epoch
  stamps; that a reader neither repeats nor splits lines, that a file input delivers a growing file
  exactly once, when it does not, that it takes up every file and that a restart loses no position;
  which pipelines are built, that operators start after their outputs, apart from those of a syslog
  input, and the IDs they get;
  that the calls through a pipeline end, and come to its ends if nothing is dropped;
  round trips and splitting for the text parsers; that the regex cache is invisible under
  concurrent use, and that its limiter never recovers; that connections are split into lines however
  their bytes arrive, that a syslog input parses each, and how old a resolved name may be; that a
  journal and an event log are delivered once and in order over restarts, and what a journal loses when
  the agent dies; which Kubernetes namespaces
  are watched, and how one is lost; that a security message reads back; and from where on byte sizes
  are not exact.

  \<^bold>\<open>Not modelled.\<close>  Loggers and contexts.  Aliasing of maps between an entry, its copies and the
  configuration: a value that the code shares is here copied, so theorems about one entry hold, but
  a change made through another reference is not seen; in particular a reader and its copy do not share
  their splitter.  Recombine without a source identifier, which panics.  The text of \<open>%v\<close> in the error for an
  expression string that gives no string: its type stands there.  \<open>strings.ToLower\<close> beyond ASCII.  Stopping an input is shown by
  where its input ends.  The system calls of \<open>operator/input/windows/api.go\<close>, TLS listeners, the hooks for
  mapstructure (reflection), decoding of configurations beyond the hand-written parts, mocks and
  test data.
\<close>

end
